(* ===== verification/Prelude.thy ===== *)
theory Prelude
  imports Main "HOL-Library.Word" "HOL-Library.AList" "HOL-Library.Char_ord"
    "HOL-Library.List_Lexorder" "HOL-Library.Monad_Syntax"
begin

text \<open>
  The vocabulary the components share: Go's fixed-width integers as words, Go strings as byte
  strings (so that \<open><\<close> on strings is Go's bytewise order), Go maps as association lists with
  distinct keys, Go channels as bounded buffers, decimal printing as \<^verbatim>\<open>fmt.Sprintf("%d")\<close> does
  it, and two interfaces as locales: a key-value store, and a transition system with an invariant.
  A Go map is iterated in an unspecified order; here the order is that of the list, and the
  results of the components hold for every well-formed list.
\<close>

named_theorems gomap_simps \<open>what lookups return after the map operations\<close>
named_theorems gomap_intros \<open>well-formedness of maps is kept\<close>
named_theorems chan_simps \<open>what the channel operations do\<close>

section \<open>Machine types\<close>

type_synonym u8 = "8 word"
type_synonym u16 = "16 word"
type_synonym u32 = "32 word"
type_synonym u64 = "64 word"
type_synonym bytes = "u8 list"

text \<open>Instants and durations are whole nanoseconds.\<close>

type_synonym gotime = int
type_synonym duration = int

definition second :: duration where
  "second = 1000000000"

definition minute :: duration where
  "minute = 60 * second"

section \<open>Go maps\<close>

type_synonym ('k, 'v) gomap = "('k \<times> 'v) list"

definition gm_get :: "('k, 'v) gomap \<Rightarrow> 'k \<Rightarrow> 'v option" where
  "gm_get m k = map_of m k"

definition gm_set :: "'k \<Rightarrow> 'v \<Rightarrow> ('k, 'v) gomap \<Rightarrow> ('k, 'v) gomap" where
  "gm_set k v m = AList.update k v m"

definition gm_del :: "'k \<Rightarrow> ('k, 'v) gomap \<Rightarrow> ('k, 'v) gomap" where
  "gm_del k m = AList.delete k m"

definition gm_has :: "('k, 'v) gomap \<Rightarrow> 'k \<Rightarrow> bool" where
  "gm_has m k = (case gm_get m k of None \<Rightarrow> False | Some _ \<Rightarrow> True)"

definition gm_wf :: "('k, 'v) gomap \<Rightarrow> bool" where
  "gm_wf m = distinct (map fst m)"

definition gm_vals :: "('k, 'v) gomap \<Rightarrow> 'v list" where
  "gm_vals m = map snd m"

text \<open>Deleting while ranging: the entries that fail the test go.\<close>

definition gm_keep :: "('k \<Rightarrow> 'v \<Rightarrow> bool) \<Rightarrow> ('k, 'v) gomap \<Rightarrow> ('k, 'v) gomap" where
  "gm_keep P m = filter (\<lambda>(k, v). P k v) m"

lemma gm_get_Nil [simp, gomap_simps]: "gm_get [] k = None"
  by (simp add: gm_get_def)

lemma gm_get_set [simp, gomap_simps]:
  "gm_get (gm_set k v m) k' = (if k' = k then Some v else gm_get m k')"
  by (simp add: gm_get_def gm_set_def update_conv')

lemma gm_get_del [simp, gomap_simps]:
  "gm_get (gm_del k m) k' = (if k' = k then None else gm_get m k')"
  by (simp add: gm_get_def gm_del_def delete_conv')

lemma gm_has_iff [simp, gomap_simps]: "gm_has m k \<longleftrightarrow> gm_get m k \<noteq> None"
  by (simp add: gm_has_def split: option.splits)

lemma gm_get_Cons: "gm_get ((k, v) # m) k' = (if k' = k then Some v else gm_get m k')"
  by (simp add: gm_get_def)

lemma gm_wf_Nil [simp, gomap_intros]: "gm_wf []"
  by (simp add: gm_wf_def)

lemma gm_wf_set [simp, gomap_intros]: "gm_wf m \<Longrightarrow> gm_wf (gm_set k v m)"
  by (simp add: gm_wf_def gm_set_def distinct_update)

lemma gm_wf_del [simp, gomap_intros]: "gm_wf m \<Longrightarrow> gm_wf (gm_del k m)"
  by (simp add: gm_wf_def gm_del_def distinct_delete)

lemma gm_wf_keep [simp, gomap_intros]: "gm_wf m \<Longrightarrow> gm_wf (gm_keep P m)"
  by (simp add: gm_wf_def gm_keep_def distinct_map_filter)

lemma gm_get_in_set: "gm_get m k = Some v \<Longrightarrow> (k, v) \<in> set m"
  by (simp add: gm_get_def map_of_SomeD)

lemma gm_in_set_iff: "gm_wf m \<Longrightarrow> (k, v) \<in> set m \<longleftrightarrow> gm_get m k = Some v"
  by (simp add: gm_get_def gm_wf_def)

lemma gm_vals_iff: "gm_wf m \<Longrightarrow> v \<in> set (gm_vals m) \<longleftrightarrow> (\<exists>k. gm_get m k = Some v)"
  by (force simp: gm_vals_def gm_in_set_iff [symmetric])

lemma gm_get_keep:
  "gm_wf m \<Longrightarrow>
    gm_get (gm_keep P m) k =
      (case gm_get m k of None \<Rightarrow> None | Some v \<Rightarrow> if P k v then Some v else None)"
proof (induction m)
  case Nil
  then show ?case by (simp add: gm_keep_def)
next
  case (Cons e m)
  obtain k0 v0 where e: "e = (k0, v0)" by (cases e)
  from Cons.prems have wf: "gm_wf m" and new: "k0 \<notin> fst ` set m"
    by (auto simp: gm_wf_def e)
  from new have "gm_get m k0 = None"
    by (simp add: gm_get_def map_of_eq_None_iff)
  with Cons.IH [OF wf] show ?case
    by (auto simp: e gm_keep_def gm_get_Cons split: option.splits)
qed

lemma gm_set_absent_length: "gm_get m k = None \<Longrightarrow> length (gm_set k v m) = Suc (length m)"
  by (induction m) (auto simp: gm_set_def gm_get_def split: if_splits)

lemma gm_set_present_length: "gm_get m k = Some w \<Longrightarrow> length (gm_set k v m) = length m"
  by (induction m) (auto simp: gm_set_def gm_get_def split: if_splits)

section \<open>The key-value interface\<close>

text \<open>
  What every client of a map relies on. The map type itself and the mutex-guarded
  \<^verbatim>\<open>Safemap\<close> of the program both provide it.
\<close>

locale kv_store =
  fixes get :: "'m \<Rightarrow> 'k \<Rightarrow> 'v option"
    and put :: "'k \<Rightarrow> 'v \<Rightarrow> 'm \<Rightarrow> 'm"
    and del :: "'k \<Rightarrow> 'm \<Rightarrow> 'm"
    and empty :: 'm
    and wf :: "'m \<Rightarrow> bool"
  assumes get_empty: "get empty k = None"
    and get_put: "wf m \<Longrightarrow> get (put k v m) k' = (if k' = k then Some v else get m k')"
    and get_del: "wf m \<Longrightarrow> get (del k m) k' = (if k' = k then None else get m k')"
    and wf_empty: "wf empty"
    and wf_put: "wf m \<Longrightarrow> wf (put k v m)"
    and wf_del: "wf m \<Longrightarrow> wf (del k m)"
begin

lemma dom_put: "wf m \<Longrightarrow> dom (get (put k v m)) = insert k (dom (get m))"
  by (auto simp: get_put)

lemma dom_del: "wf m \<Longrightarrow> dom (get (del k m)) = dom (get m) - {k}"
  by (auto simp: get_del split: if_splits)

lemma del_put_absent: "wf m \<Longrightarrow> get m k = None \<Longrightarrow> get (del k (put k v m)) = get m"
  by (rule ext) (simp add: get_put get_del wf_put)

lemma put_commute:
  "wf m \<Longrightarrow> k \<noteq> k' \<Longrightarrow> get (put k v (put k' v' m)) = get (put k' v' (put k v m))"
  by (rule ext) (simp add: get_put wf_put)

lemma wf_fold_del: "wf m \<Longrightarrow> wf (fold del ks m)"
  by (induction ks arbitrary: m) (simp_all add: wf_del)

lemma get_fold_del: "wf m \<Longrightarrow> get (fold del ks m) k = (if k \<in> set ks then None else get m k)"
  by (induction ks arbitrary: m) (auto simp: wf_del get_del)

end

interpretation gm: kv_store gm_get gm_set gm_del "[]" gm_wf
  by unfold_locales simp_all

section \<open>Transition systems and invariants\<close>

locale invariant_system =
  fixes init :: "'s \<Rightarrow> bool"
    and step :: "'s \<Rightarrow> 's \<Rightarrow> bool"
    and inv :: "'s \<Rightarrow> bool"
  assumes inv_init: "init s \<Longrightarrow> inv s"
    and inv_step: "inv s \<Longrightarrow> step s t \<Longrightarrow> inv t"
begin

lemma inv_steps: "step\<^sup>*\<^sup>* s t \<Longrightarrow> inv s \<Longrightarrow> inv t"
  by (induction rule: rtranclp_induct) (auto intro: inv_step)

lemma inv_reachable: "init s \<Longrightarrow> step\<^sup>*\<^sup>* s t \<Longrightarrow> inv t"
  using inv_steps inv_init by blast

end

section \<open>Channels\<close>

text \<open>
  A buffered channel: its capacity, what is in flight, whether it was closed. A send on a closed
  channel panics in Go, also inside a \<^verbatim>\<open>select\<close>.
\<close>

record 'a chan =
  ch_cap :: nat
  ch_buf :: "'a list"
  ch_closed :: bool

definition mkchan :: "nat \<Rightarrow> 'a chan" where
  "mkchan n = \<lparr>ch_cap = n, ch_buf = [], ch_closed = False\<rparr>"

datatype 'a send_result = Sent 'a | Full | Panic

text \<open>\<^verbatim>\<open>select { case ch <- x: default: }\<close>\<close>

definition try_send :: "'a \<Rightarrow> 'a chan \<Rightarrow> 'a chan send_result" where
  "try_send x c =
     (if ch_closed c then Panic
      else if length (ch_buf c) < ch_cap c then Sent (c\<lparr>ch_buf := ch_buf c @ [x]\<rparr>)
      else Full)"

text \<open>A blocking send in a \<^verbatim>\<open>select\<close> with a context: done, refused by the context, still waiting, or a panic.\<close>

datatype 'c send_outcome = SendOk 'c | SendErr | SendBlocks | SendPanic

definition chan_recv :: "'a chan \<Rightarrow> ('a \<times> 'a chan) option" where
  "chan_recv c = (case ch_buf c of [] \<Rightarrow> None | x # xs \<Rightarrow> Some (x, c\<lparr>ch_buf := xs\<rparr>))"

definition chan_ok :: "'a chan \<Rightarrow> bool" where
  "chan_ok c = (length (ch_buf c) \<le> ch_cap c)"

lemma mkchan_sel [simp, chan_simps]:
  "ch_cap (mkchan n) = n" "ch_buf (mkchan n) = []" "\<not> ch_closed (mkchan n)"
  by (simp_all add: mkchan_def)

lemma try_send_open: "\<not> ch_closed c \<Longrightarrow> try_send x c \<noteq> Panic"
  by (simp add: try_send_def)

lemma try_send_ok: "chan_ok c \<Longrightarrow> try_send x c = Sent c' \<Longrightarrow> chan_ok c'"
  by (auto simp: try_send_def chan_ok_def split: if_splits)

lemma those_map_Some: "(\<And>x. x \<in> set xs \<Longrightarrow> f x = Some (g x)) \<Longrightarrow> those (map f xs) = Some (map g xs)"
  by (induction xs) simp_all

lemma those_Some [simp]: "those (map Some xs) = Some xs"
  by (simp add: those_map_Some [of _ Some id, simplified])

section \<open>Decimal printing\<close>

fun show_nat :: "nat \<Rightarrow> string" where
  "show_nat n =
     (if n < 10 then [char_of (48 + n)] else show_nat (n div 10) @ [char_of (48 + n mod 10)])"

declare show_nat.simps [simp del]

definition is_digit :: "char \<Rightarrow> bool" where
  "is_digit c = (48 \<le> (of_char c :: nat) \<and> (of_char c :: nat) \<le> 57)"

definition read_nat :: "string \<Rightarrow> nat" where
  "read_nat s = foldl (\<lambda>a c. 10 * a + (of_char c - 48)) 0 s"

lemma of_char_digit: "n < 10 \<Longrightarrow> (of_char (char_of (48 + n)) :: nat) = 48 + n"
  by (simp add: of_char_of)

lemma show_nat_digits: "c \<in> set (show_nat n) \<Longrightarrow> is_digit c"
proof (induction n rule: show_nat.induct)
  case (1 n)
  show ?case
  proof (cases "n < 10")
    case True
    with "1.prems" show ?thesis by (simp add: show_nat.simps [of n] is_digit_def of_char_digit)
  next
    case False
    with "1.prems" consider "c \<in> set (show_nat (n div 10))" | "c = char_of (48 + n mod 10)"
      by (auto simp: show_nat.simps [of n])
    then show ?thesis
      using "1.IH" False by cases (simp_all add: is_digit_def of_char_digit)
  qed
qed

lemma show_nat_nonempty [simp]: "show_nat n \<noteq> []"
  by (simp add: show_nat.simps [of n])

lemma read_show_nat [simp]: "read_nat (show_nat n) = n"
proof (induction n rule: show_nat.induct)
  case (1 n)
  show ?case
  proof (cases "n < 10")
    case True
    then show ?thesis by (simp add: show_nat.simps [of n] read_nat_def of_char_digit)
  next
    case False
    with "1.IH" have "read_nat (show_nat n) = 10 * (n div 10) + n mod 10"
      by (simp add: show_nat.simps [of n] read_nat_def of_char_digit)
    then show ?thesis by simp
  qed
qed

lemma show_nat_inject [simp]: "show_nat m = show_nat n \<longleftrightarrow> m = n"
  by (metis read_show_nat)

text \<open>\<^verbatim>\<open>fmt.Sprintf("%d", x)\<close> for an unsigned value.\<close>

definition show_word :: "'a::len word \<Rightarrow> string" where
  "show_word w = show_nat (unat w)"

lemma show_word_inject [simp]: "show_word v = show_word w \<longleftrightarrow> v = w"
  by (simp add: show_word_def unsigned_word_eqI word_unat_eq_iff)

lemma show_word_no_sep: "\<not> is_digit c \<Longrightarrow> c \<notin> set (show_word w)"
  using show_nat_digits by (auto simp: show_word_def)

text \<open>A printed field is delimited by the first character that is not a digit.\<close>

lemma sep_inject:
  "x \<notin> set a \<Longrightarrow> x \<notin> set b \<Longrightarrow> a @ x # r = b @ x # r' \<longleftrightarrow> a = b \<and> r = r'"
proof (induction a arbitrary: b)
  case Nil
  then show ?case by (cases b) auto
next
  case (Cons y a)
  then show ?case by (cases b) auto
qed

end
