(* ===== verification/Repos.thy ===== *)
theory Repos
  imports Prelude Complex_Main
begin

text \<open>
  \<^verbatim>\<open>internal/infra/repos\<close>: the SQL queries of the node over its two tables, as functions of the table contents.
  The schema is \<^verbatim>\<open>sqlc/migrations/001_database.sql\<close>: automatic identifiers that are never reused, unique virtual
  addresses, the check on the protocol, the unique index over the columns of a rule (in which NULL differs from
  NULL), and the foreign key from rules to peers. SQLite enforces the foreign key only when the connection asks
  for it, so \<open>db_fk\<close> says whether it does. The constraints are the database's: a
  statement that would break one fails and changes nothing, and the functions below are written that way. Columns hold
  64-bit integers, here integers (identifiers and addresses stay far below that); a floating-point column holds a
  rational. Where a row takes \<^verbatim>\<open>CURRENT_TIMESTAMP\<close>, the argument \<open>now\<close> is the value it gives, in whole seconds. A failing
  connection is a matter of the callers.
\<close>

section \<open>Tables\<close>

record repos_Peer =
  rp_ID :: int
  rp_Type :: string
  rp_VirtualIp :: int
  rp_LastSeen :: gotime
  rp_ExpirationDate :: "gotime option"
  rp_FromPeerTotal :: int
  rp_ToPeerTotal :: int
  rp_TrafficLimitGb :: "rat option"
  rp_SpeedLimitMbps :: "rat option"
  rp_AwgPrivateKey :: string
  rp_AwgPublicKey :: string

record PeersRule =
  pru_ID :: int
  pru_PeerID :: int
  pru_TargetIp :: "u32 option"
  pru_Protocol :: string
  pru_PortRangeStart :: int
  pru_PortRangeEnd :: "u16 option"

text \<open>\<open>db_peerSeq\<close> and \<open>db_ruleSeq\<close> are the rows of \<^verbatim>\<open>sqlite_sequence\<close>: the last identifiers given out.\<close>

record database =
  db_peers :: "repos_Peer list"
  db_rules :: "PeersRule list"
  db_peerSeq :: int
  db_ruleSeq :: int
  db_fk :: bool

definition db_empty :: "bool \<Rightarrow> database" where
  "db_empty fk = \<lparr>db_peers = [], db_rules = [], db_peerSeq = 0, db_ruleSeq = 0, db_fk = fk\<rparr>"

datatype sql_error = NoRows | ConstraintFailed | NoSuchColumn | DbFailure

section \<open>Queries on peers\<close>

record CreatePeerAutoIDParams =
  cp_Type :: string
  cp_MinVirtualIp :: int
  cp_ExpirationDate :: "gotime option"
  cp_TrafficLimitGb :: "rat option"
  cp_SpeedLimitMbps :: "rat option"
  cp_AwgPrivateKey :: string
  cp_AwgPublicKey :: string

text \<open>The address: one more than the largest one that is not below the minimum, else the minimum.\<close>

definition nextVirtualIp :: "int \<Rightarrow> repos_Peer list \<Rightarrow> int" where
  "nextVirtualIp m ps =
     (case filter (\<lambda>v. m \<le> v) (map rp_VirtualIp ps) of [] \<Rightarrow> m | v # vs \<Rightarrow> fold max vs v + 1)"

definition sql_CreatePeerAutoID ::
  "gotime \<Rightarrow> CreatePeerAutoIDParams \<Rightarrow> database \<Rightarrow> (sql_error + repos_Peer) \<times> database" where
  "sql_CreatePeerAutoID now arg db =
     (let row = \<lparr>rp_ID = db_peerSeq db + 1, rp_Type = cp_Type arg,
                 rp_VirtualIp = nextVirtualIp (cp_MinVirtualIp arg) (db_peers db), rp_LastSeen = now,
                 rp_ExpirationDate = cp_ExpirationDate arg, rp_FromPeerTotal = 0, rp_ToPeerTotal = 0,
                 rp_TrafficLimitGb = cp_TrafficLimitGb arg, rp_SpeedLimitMbps = cp_SpeedLimitMbps arg,
                 rp_AwgPrivateKey = cp_AwgPrivateKey arg, rp_AwgPublicKey = cp_AwgPublicKey arg\<rparr>
      in if rp_VirtualIp row \<in> set (map rp_VirtualIp (db_peers db)) then (Inl ConstraintFailed, db)
         else (Inr row, db\<lparr>db_peers := db_peers db @ [row], db_peerSeq := rp_ID row\<rparr>))"

definition sql_DeletePeer :: "int \<Rightarrow> database \<Rightarrow> database" where
  "sql_DeletePeer i db =
     db\<lparr>db_peers := filter (\<lambda>p. rp_ID p \<noteq> i) (db_peers db),
        db_rules := (if db_fk db \<and> i \<in> set (map rp_ID (db_peers db))
                     then filter (\<lambda>r. pru_PeerID r \<noteq> i) (db_rules db) else db_rules db)\<rparr>"

definition sql_GetPeerByID :: "int \<Rightarrow> database \<Rightarrow> sql_error + repos_Peer" where
  "sql_GetPeerByID i db = (case List.find (\<lambda>p. rp_ID p = i) (db_peers db) of None \<Rightarrow> Inl NoRows | Some p \<Rightarrow> Inr p)"

definition sql_GetPeerByVirtualIP :: "int \<Rightarrow> database \<Rightarrow> sql_error + repos_Peer" where
  "sql_GetPeerByVirtualIP v db = (case List.find (\<lambda>p. rp_VirtualIp p = v) (db_peers db) of None \<Rightarrow> Inl NoRows | Some p \<Rightarrow> Inr p)"

definition sql_ListPeers :: "database \<Rightarrow> repos_Peer list" where
  "sql_ListPeers db = sort_key rp_ID (db_peers db)"

text \<open>The statement names the column \<^verbatim>\<open>expiration_data\<close>, which the table does not have.\<close>

definition sql_ProlongPeer :: "gotime option \<Rightarrow> int \<Rightarrow> database \<Rightarrow> (sql_error + unit) \<times> database" where
  "sql_ProlongPeer newDate i db = (Inl NoSuchColumn, db)"

definition sql_UpdatePeerStats :: "int \<Rightarrow> int \<Rightarrow> gotime \<Rightarrow> int \<Rightarrow> database \<Rightarrow> database" where
  "sql_UpdatePeerStats fromInc toInc lastSeen v db =
     db\<lparr>db_peers := map (\<lambda>p. if rp_VirtualIp p = v
          then p\<lparr>rp_FromPeerTotal := rp_FromPeerTotal p + fromInc, rp_ToPeerTotal := rp_ToPeerTotal p + toInc,
                 rp_LastSeen := max (rp_LastSeen p) lastSeen\<rparr>
          else p) (db_peers db)\<rparr>"

section \<open>Queries on rules\<close>

definition sql_DeleteAllPeerRules :: "int \<Rightarrow> database \<Rightarrow> database" where
  "sql_DeleteAllPeerRules i db = db\<lparr>db_rules := filter (\<lambda>r. pru_PeerID r \<noteq> i) (db_rules db)\<rparr>"

definition sql_DeletePeerRule :: "int \<Rightarrow> database \<Rightarrow> database" where
  "sql_DeletePeerRule i db = db\<lparr>db_rules := filter (\<lambda>r. pru_ID r \<noteq> i) (db_rules db)\<rparr>"

record InsertPeerRuleParams =
  ir_PeerID :: int
  ir_TargetIp :: "u32 option"
  ir_Protocol :: string
  ir_PortRangeStart :: int
  ir_PortRangeEnd :: "u16 option"

text \<open>Two rows collide in the unique index when all columns are equal and none is NULL.\<close>

definition sameRule :: "InsertPeerRuleParams \<Rightarrow> PeersRule \<Rightarrow> bool" where
  "sameRule arg r \<longleftrightarrow> pru_PeerID r = ir_PeerID arg \<and> pru_TargetIp r = ir_TargetIp arg \<and> ir_TargetIp arg \<noteq> None \<and>
     pru_Protocol r = ir_Protocol arg \<and> pru_PortRangeStart r = ir_PortRangeStart arg \<and>
     pru_PortRangeEnd r = ir_PortRangeEnd arg \<and> ir_PortRangeEnd arg \<noteq> None"

definition sql_InsertPeerRule :: "InsertPeerRuleParams \<Rightarrow> database \<Rightarrow> (sql_error + int) \<times> database" where
  "sql_InsertPeerRule arg db =
     (let row = \<lparr>pru_ID = db_ruleSeq db + 1, pru_PeerID = ir_PeerID arg, pru_TargetIp = ir_TargetIp arg,
                 pru_Protocol = ir_Protocol arg, pru_PortRangeStart = ir_PortRangeStart arg,
                 pru_PortRangeEnd = ir_PortRangeEnd arg\<rparr>
      in if ir_Protocol arg \<notin> {''tcp'', ''udp'', ''both''} \<or> list_ex (sameRule arg) (db_rules db) \<or>
            (db_fk db \<and> ir_PeerID arg \<notin> set (map rp_ID (db_peers db)))
         then (Inl ConstraintFailed, db)
         else (Inr (pru_ID row), db\<lparr>db_rules := db_rules db @ [row], db_ruleSeq := pru_ID row\<rparr>))"

text \<open>A rule joined with the address of its peer; a rule without peer has no row in the join.\<close>

definition joinPeer :: "database \<Rightarrow> PeersRule \<Rightarrow> (PeersRule \<times> int) list" where
  "joinPeer db r = map (\<lambda>p. (r, rp_VirtualIp p)) (filter (\<lambda>p. rp_ID p = pru_PeerID r) (db_peers db))"

definition sql_LoadAllRules :: "database \<Rightarrow> (PeersRule \<times> int) list" where
  "sql_LoadAllRules db = concat (map (joinPeer db) (db_rules db))"

definition sql_LoadRulesByPeerID :: "int \<Rightarrow> database \<Rightarrow> PeersRule list" where
  "sql_LoadRulesByPeerID i db = sort_key pru_ID (filter (\<lambda>r. pru_PeerID r = i) (db_rules db))"

section \<open>The constraints of the schema\<close>

definition peers_ok :: "repos_Peer list \<Rightarrow> int \<Rightarrow> bool" where
  "peers_ok ps n \<longleftrightarrow> distinct (map rp_ID ps) \<and> distinct (map rp_VirtualIp ps) \<and> (\<forall>i \<in> set (map rp_ID ps). 0 < i \<and> i \<le> n) \<and> 0 \<le> n"

definition rules_ok :: "PeersRule list \<Rightarrow> int \<Rightarrow> bool" where
  "rules_ok rs n \<longleftrightarrow> distinct (map pru_ID rs) \<and> (\<forall>r \<in> set rs. 0 < pru_ID r \<and> pru_ID r \<le> n) \<and>
     (\<forall>r \<in> set rs. pru_Protocol r \<in> {''tcp'', ''udp'', ''both''}) \<and> 0 \<le> n"

definition refs_ok :: "repos_Peer list \<Rightarrow> PeersRule list \<Rightarrow> bool" where
  "refs_ok ps rs \<longleftrightarrow> pru_PeerID ` set rs \<subseteq> set (map rp_ID ps)"

definition db_ok :: "database \<Rightarrow> bool" where
  "db_ok db \<longleftrightarrow> peers_ok (db_peers db) (db_peerSeq db) \<and> rules_ok (db_rules db) (db_ruleSeq db) \<and>
     (db_fk db \<longrightarrow> refs_ok (db_peers db) (db_rules db))"

lemma db_ok_empty: "db_ok (db_empty fk)"
  by (simp add: db_ok_def db_empty_def peers_ok_def rules_ok_def refs_ok_def)

lemma peers_ok_snoc:
  assumes "peers_ok ps n" and "rp_ID row = n + 1" and "rp_VirtualIp row \<notin> rp_VirtualIp ` set ps"
  shows "peers_ok (ps @ [row]) (n + 1)"
proof -
  have "n + 1 \<notin> set (map rp_ID ps)" using assms(1) by (force simp: peers_ok_def)
  with assms show ?thesis by (auto simp: peers_ok_def)
qed

lemma rules_ok_snoc:
  assumes "rules_ok rs n" and "pru_ID row = n + 1" and "pru_Protocol row \<in> {''tcp'', ''udp'', ''both''}"
  shows "rules_ok (rs @ [row]) (n + 1)"
proof -
  have "n + 1 \<notin> set (map pru_ID rs)" using assms(1) by (force simp: rules_ok_def)
  with assms show ?thesis by (auto simp: rules_ok_def)
qed

lemma peers_ok_filter: "peers_ok ps n \<Longrightarrow> peers_ok (filter P ps) n"
  by (auto simp: peers_ok_def distinct_map_filter)

lemma rules_ok_filter: "rules_ok rs n \<Longrightarrow> rules_ok (filter P rs) n"
  by (auto simp: rules_ok_def distinct_map_filter)

lemma rows_cong:
  assumes "map rp_ID qs = map rp_ID ps" and "map rp_VirtualIp qs = map rp_VirtualIp ps"
  shows "peers_ok qs n = peers_ok ps n" and "refs_ok qs rs = refs_ok ps rs"
  by (simp_all only: peers_ok_def refs_ok_def assms)

lemma refs_ok_snoc: "refs_ok ps (rs @ [row]) \<longleftrightarrow> refs_ok ps rs \<and> pru_PeerID row \<in> set (map rp_ID ps)"
  by (auto simp: refs_ok_def)

lemma refs_ok_filter: "refs_ok ps rs \<Longrightarrow> refs_ok ps (filter P rs)"
  by (auto simp: refs_ok_def)

lemma refs_ok_delete: "refs_ok ps rs \<Longrightarrow> refs_ok (filter (\<lambda>p. rp_ID p \<noteq> i) ps) (filter (\<lambda>r. pru_PeerID r \<noteq> i) rs)"
  by (force simp: refs_ok_def)

lemma nextVirtualIp_props:
  "m \<le> nextVirtualIp m ps" "nextVirtualIp m ps \<notin> rp_VirtualIp ` set ps"
proof -
  have f: "v \<le> fold max vs v" "\<forall>x \<in> set vs. x \<le> fold max vs v" for v :: int and vs
  proof (induction vs arbitrary: v)
    case (Cons a vs)
    { case 1
      show ?case using Cons(1) [of "max a v"] by simp
    next
      case 2
      show ?case using Cons(1) [of "max a v"] Cons(2) [of "max a v"] by auto }
  qed auto
  have "m \<le> nextVirtualIp m ps \<and> (\<forall>x \<in> rp_VirtualIp ` set ps. m \<le> x \<longrightarrow> x < nextVirtualIp m ps)"
  proof (cases "filter (\<lambda>v. m \<le> v) (map rp_VirtualIp ps)")
    case Nil
    then show ?thesis by (auto simp: nextVirtualIp_def filter_empty_conv)
  next
    case (Cons v vs)
    then have s: "{x \<in> rp_VirtualIp ` set ps. m \<le> x} = set (v # vs)" by (metis set_filter set_map)
    then have "m \<le> v" by auto
    moreover have "\<forall>x \<in> set (v # vs). x \<le> fold max vs v" using f by auto
    ultimately show ?thesis using s f(1) [of v vs] Cons by (fastforce simp: nextVirtualIp_def)
  qed
  then show "m \<le> nextVirtualIp m ps" "nextVirtualIp m ps \<notin> rp_VirtualIp ` set ps" by auto
qed

text \<open>The insertion never meets the unique index.\<close>

lemma CreatePeerAutoID_succeeds:
  "\<exists>row. sql_CreatePeerAutoID now arg db = (Inr row, db\<lparr>db_peers := db_peers db @ [row], db_peerSeq := rp_ID row\<rparr>) \<and>
     rp_ID row = db_peerSeq db + 1 \<and> cp_MinVirtualIp arg \<le> rp_VirtualIp row \<and> rp_VirtualIp row \<notin> rp_VirtualIp ` set (db_peers db) \<and>
     rp_Type row = cp_Type arg \<and> rp_ExpirationDate row = cp_ExpirationDate arg \<and> rp_AwgPublicKey row = cp_AwgPublicKey arg"
  using nextVirtualIp_props [of "cp_MinVirtualIp arg" "db_peers db"]
  by (auto simp: sql_CreatePeerAutoID_def Let_def)

lemma db_ok_CreatePeer:
  assumes "db_ok db" and "sql_CreatePeerAutoID now arg db = (res, db')"
  shows "db_ok db'"
proof -
  from CreatePeerAutoID_succeeds [of now arg db] assms(2) obtain row where
    r: "db' = db\<lparr>db_peers := db_peers db @ [row], db_peerSeq := rp_ID row\<rparr>" "rp_ID row = db_peerSeq db + 1"
    "rp_VirtualIp row \<notin> rp_VirtualIp ` set (db_peers db)" by auto
  from assms(1) peers_ok_snoc [OF _ r(2,3)] r(1,2) show ?thesis by (auto simp: db_ok_def refs_ok_def)
qed

lemma db_ok_DeletePeer:
  assumes "db_ok db" shows "db_ok (sql_DeletePeer i db)"
proof -
  have same: "filter (\<lambda>p. rp_ID p \<noteq> i) (db_peers db) = db_peers db" if "i \<notin> rp_ID ` set (db_peers db)"
    using that by (force simp: filter_id_conv)
  show ?thesis
    using assms refs_ok_delete [of "db_peers db" "db_rules db" i] same
    by (auto simp: db_ok_def sql_DeletePeer_def peers_ok_filter rules_ok_filter)
qed

lemma db_ok_UpdatePeerStats:
  assumes "db_ok db" shows "db_ok (sql_UpdatePeerStats a b c v db)"
proof -
  let ?f = "\<lambda>p. if rp_VirtualIp p = v then p\<lparr>rp_FromPeerTotal := rp_FromPeerTotal p + a, rp_ToPeerTotal := rp_ToPeerTotal p + b,
      rp_LastSeen := max (rp_LastSeen p) c\<rparr> else p"
  have "map rp_ID (map ?f ps) = map rp_ID ps" "map rp_VirtualIp (map ?f ps) = map rp_VirtualIp ps" for ps by simp_all
  from rows_cong [OF this] assms show ?thesis by (simp add: db_ok_def sql_UpdatePeerStats_def)
qed

lemma db_ok_DeleteAllPeerRules: "db_ok db \<Longrightarrow> db_ok (sql_DeleteAllPeerRules i db)"
  by (simp add: db_ok_def sql_DeleteAllPeerRules_def rules_ok_filter refs_ok_filter)

lemma db_ok_DeletePeerRule: "db_ok db \<Longrightarrow> db_ok (sql_DeletePeerRule i db)"
  by (simp add: db_ok_def sql_DeletePeerRule_def rules_ok_filter refs_ok_filter)

lemma db_ok_InsertPeerRule:
  assumes "db_ok db" and "sql_InsertPeerRule arg db = (res, db')"
  shows "db_ok db'"
  using assms unfolding db_ok_def sql_InsertPeerRule_def Let_def
  by (auto simp: refs_ok_snoc split: if_splits intro!: rules_ok_snoc)

section \<open>The schema holds\<close>

datatype sql_op = QCreatePeer gotime CreatePeerAutoIDParams | QDeletePeer int | QProlongPeer "gotime option" int
  | QUpdatePeerStats int int gotime int | QInsertRule InsertPeerRuleParams | QDeleteRule int | QDeleteAllRules int

fun sql_exec :: "sql_op \<Rightarrow> database \<Rightarrow> database" where
  "sql_exec (QCreatePeer now arg) db = snd (sql_CreatePeerAutoID now arg db)"
| "sql_exec (QDeletePeer i) db = sql_DeletePeer i db"
| "sql_exec (QProlongPeer d i) db = snd (sql_ProlongPeer d i db)"
| "sql_exec (QUpdatePeerStats a b t v) db = sql_UpdatePeerStats a b t v db"
| "sql_exec (QInsertRule arg) db = snd (sql_InsertPeerRule arg db)"
| "sql_exec (QDeleteRule i) db = sql_DeletePeerRule i db"
| "sql_exec (QDeleteAllRules i) db = sql_DeleteAllPeerRules i db"

lemma db_ok_exec: "db_ok db \<Longrightarrow> db_ok (sql_exec q db)"
  by (cases q) (simp_all add: db_ok_CreatePeer [OF _ prod.collapse [symmetric]] db_ok_InsertPeerRule [OF _ prod.collapse [symmetric]]
      db_ok_DeletePeer db_ok_UpdatePeerStats db_ok_DeletePeerRule db_ok_DeleteAllPeerRules sql_ProlongPeer_def)

lemma db_fk_exec: "db_fk (sql_exec q db) = db_fk db"
  by (cases q) (auto simp: sql_CreatePeerAutoID_def sql_DeletePeer_def sql_ProlongPeer_def sql_UpdatePeerStats_def sql_InsertPeerRule_def
      sql_DeletePeerRule_def sql_DeleteAllPeerRules_def Let_def)

interpretation sql_system: invariant_system "\<lambda>db. db = db_empty fk" "\<lambda>db db'. \<exists>q. db' = sql_exec q db" "\<lambda>db. db_ok db \<and> db_fk db = fk" for fk
  by unfold_locales (auto simp: db_ok_empty db_ok_exec db_fk_exec, simp_all add: db_empty_def)

text \<open>The tables keep their constraints. After any sequence of the node's statements on an empty database, no two peers
  share an identifier or an address, no two rules an identifier, every rule has a known protocol, and, where the connection
  enforces foreign keys, every rule belongs to an existing peer.\<close>

theorem schema_reachable_inv:
  assumes "(\<lambda>db db'. \<exists>q. db' = sql_exec q db)\<^sup>*\<^sup>* (db_empty fk) db"
  shows "distinct (map rp_ID (db_peers db)) \<and> distinct (map rp_VirtualIp (db_peers db)) \<and> distinct (map pru_ID (db_rules db)) \<and>
    pru_Protocol ` set (db_rules db) \<subseteq> {''tcp'', ''udp'', ''both''} \<and>
    (fk \<longrightarrow> pru_PeerID ` set (db_rules db) \<subseteq> rp_ID ` set (db_peers db))"
  using sql_system.inv_reachable [OF refl assms] by (auto simp: db_ok_def peers_ok_def rules_ok_def refs_ok_def)

lemma schema_reachable_inv_witness:
  "distinct (map rp_VirtualIp (db_peers (sql_exec (QDeletePeer 4) (db_empty True))))"
  using schema_reachable_inv [of True, OF r_into_rtranclp, of "sql_exec (QDeletePeer 4) (db_empty True)"] by blast

end
