(* ===== verification/EventBus.thy ===== *)
theory EventBus
  imports Prelude
begin

text \<open>
  Subscriptions as the router, the topology and the session registry implement them: a set of buffered
  channels behind a mutex, a cancel function that removes and closes its channel once, and a notification
  that offers the event to every channel without blocking. The channels live in a heap, since a subscriber
  keeps its channel after cancelling.
\<close>

record 'e bus =
  bus_chans :: "(nat, 'e chan) gomap"
  bus_subs :: "nat list"
  bus_next :: nat

definition bus_New :: "'e bus" where
  "bus_New = \<lparr>bus_chans = [], bus_subs = [], bus_next = 0\<rparr>"

definition bus_subscribe :: "nat \<Rightarrow> 'e bus \<Rightarrow> nat \<times> 'e bus" where
  "bus_subscribe cap b =
     (bus_next b, b\<lparr>bus_chans := gm_set (bus_next b) (mkchan cap) (bus_chans b),
                    bus_subs := bus_next b # bus_subs b, bus_next := Suc (bus_next b)\<rparr>)"

text \<open>Closing a closed channel panics; None is the panic.\<close>

definition close_chan :: "nat \<Rightarrow> 'e bus \<Rightarrow> 'e bus option" where
  "close_chan ch b =
     (case gm_get (bus_chans b) ch of
        None \<Rightarrow> None
      | Some c \<Rightarrow> if ch_closed c then None
                  else Some (b\<lparr>bus_chans := gm_set ch (c\<lparr>ch_closed := True\<rparr>) (bus_chans b)\<rparr>))"

definition bus_cancel :: "nat \<Rightarrow> 'e bus \<Rightarrow> 'e bus option" where
  "bus_cancel ch b =
     (if ch \<in> set (bus_subs b) then close_chan ch (b\<lparr>bus_subs := removeAll ch (bus_subs b)\<rparr>) else Some b)"

definition offer :: "'e \<Rightarrow> nat \<Rightarrow> 'e bus \<Rightarrow> 'e bus option" where
  "offer e ch b =
     (case gm_get (bus_chans b) ch of
        None \<Rightarrow> None
      | Some c \<Rightarrow> (case try_send e c of
                     Panic \<Rightarrow> None
                   | Full \<Rightarrow> Some b
                   | Sent c' \<Rightarrow> Some (b\<lparr>bus_chans := gm_set ch c' (bus_chans b)\<rparr>)))"

fun offer_all :: "'e \<Rightarrow> nat list \<Rightarrow> 'e bus \<Rightarrow> 'e bus option" where
  "offer_all e [] b = Some b"
| "offer_all e (ch # chs) b = Option.bind (offer e ch b) (offer_all e chs)"

definition bus_notify :: "'e \<Rightarrow> 'e bus \<Rightarrow> 'e bus option" where
  "bus_notify e b = offer_all e (bus_subs b) b"

text \<open>A receive by the subscriber.\<close>

definition bus_recv :: "nat \<Rightarrow> 'e bus \<Rightarrow> ('e \<times> 'e bus) option" where
  "bus_recv ch b =
     (case gm_get (bus_chans b) ch of
        None \<Rightarrow> None
      | Some c \<Rightarrow> map_option (\<lambda>(e, c'). (e, b\<lparr>bus_chans := gm_set ch c' (bus_chans b)\<rparr>)) (chan_recv c))"

text \<open>The invariant: a channel is open exactly as long as it is subscribed.\<close>

definition bus_ok :: "'e bus \<Rightarrow> bool" where
  "bus_ok b \<longleftrightarrow>
     gm_wf (bus_chans b) \<and> distinct (bus_subs b) \<and>
     (\<forall>ch c. gm_get (bus_chans b) ch = Some c \<longrightarrow>
        ch < bus_next b \<and> chan_ok c \<and> (ch_closed c \<longleftrightarrow> ch \<notin> set (bus_subs b))) \<and>
     (\<forall>ch \<in> set (bus_subs b). gm_get (bus_chans b) ch \<noteq> None)"

lemma bus_okD:
  assumes "bus_ok b"
  shows "gm_get (bus_chans b) ch = Some c \<Longrightarrow> ch < bus_next b"
    and "gm_get (bus_chans b) ch = Some c \<Longrightarrow> chan_ok c"
    and "gm_get (bus_chans b) ch = Some c \<Longrightarrow> ch_closed c \<longleftrightarrow> ch \<notin> set (bus_subs b)"
    and "ch \<in> set (bus_subs b) \<Longrightarrow> \<exists>c. gm_get (bus_chans b) ch = Some c \<and> \<not> ch_closed c"
    and "distinct (bus_subs b)"
  using assms by (auto simp: bus_ok_def)

lemma bus_ok_New: "bus_ok bus_New"
  by (simp add: bus_ok_def bus_New_def)

lemma bus_ok_subscribe: "bus_ok b \<Longrightarrow> bus_ok (snd (bus_subscribe cap b))"
proof -
  assume ok: "bus_ok b"
  then have "bus_next b \<notin> set (bus_subs b)" using bus_okD(1,4) [OF ok] by blast
  with ok show ?thesis by (auto simp: bus_ok_def bus_subscribe_def chan_ok_def less_Suc_eq)
qed

lemma bus_ok_set:
  assumes "bus_ok b" and "gm_get (bus_chans b) ch = Some c" and "chan_ok c'" and "ch_closed c' = ch_closed c"
  shows "bus_ok (b\<lparr>bus_chans := gm_set ch c' (bus_chans b)\<rparr>)"
  using assms unfolding bus_ok_def by simp

lemma bus_cancel_total:
  assumes "bus_ok b" shows "\<exists>b'. bus_cancel ch b = Some b' \<and> bus_ok b' \<and> ch \<notin> set (bus_subs b')"
proof (cases "ch \<in> set (bus_subs b)")
  case False
  with assms show ?thesis by (simp add: bus_cancel_def)
next
  case True
  from bus_okD(4) [OF assms True] obtain c where "gm_get (bus_chans b) ch = Some c" "\<not> ch_closed c" by blast
  with True assms show ?thesis
    by (auto simp: bus_cancel_def close_chan_def bus_ok_def chan_ok_def distinct_removeAll)
qed

text \<open>Cancelling twice, by the caller and by its context, is harmless.\<close>

lemma bus_cancel_twice:
  assumes "bus_ok b" shows "Option.bind (bus_cancel ch b) (bus_cancel ch) = bus_cancel ch b"
  using bus_cancel_total [OF assms, of ch] by (auto simp: bus_cancel_def)

definition deliver :: "'e \<Rightarrow> 'e chan \<Rightarrow> 'e chan" where
  "deliver e c = (if length (ch_buf c) < ch_cap c then c\<lparr>ch_buf := ch_buf c @ [e]\<rparr> else c)"

lemma deliver_sel [simp]: "ch_closed (deliver e c) = ch_closed c" "ch_cap (deliver e c) = ch_cap c"
  by (simp_all add: deliver_def)

lemma chan_ok_deliver: "chan_ok c \<Longrightarrow> chan_ok (deliver e c)"
  by (auto simp: chan_ok_def deliver_def)

lemma offer_open:
  assumes "gm_get (bus_chans b) ch = Some c" and "\<not> ch_closed c"
  shows "\<exists>b'. offer e ch b = Some b' \<and> bus_subs b' = bus_subs b \<and> bus_next b' = bus_next b \<and>
    (gm_wf (bus_chans b) \<longrightarrow> gm_wf (bus_chans b')) \<and>
    (\<forall>k. gm_get (bus_chans b') k = (if k = ch then Some (deliver e c) else gm_get (bus_chans b) k))"
  using assms by (auto simp: offer_def try_send_def deliver_def)

lemma offer_all_spec:
  assumes "distinct chs" and "\<And>ch. ch \<in> set chs \<Longrightarrow> \<exists>c. gm_get (bus_chans b) ch = Some c \<and> \<not> ch_closed c"
  shows "\<exists>b'. offer_all e chs b = Some b' \<and> bus_subs b' = bus_subs b \<and> bus_next b' = bus_next b \<and>
    (gm_wf (bus_chans b) \<longrightarrow> gm_wf (bus_chans b')) \<and>
    (\<forall>k. gm_get (bus_chans b') k = (if k \<in> set chs then map_option (deliver e) (gm_get (bus_chans b) k)
                                     else gm_get (bus_chans b) k))"
  using assms
proof (induction chs arbitrary: b)
  case Nil
  then show ?case by simp
next
  case (Cons ch chs)
  obtain c where c: "gm_get (bus_chans b) ch = Some c" "\<not> ch_closed c" using Cons.prems(2) by fastforce
  from offer_open [OF c, of e] obtain b1 where
    b1: "offer e ch b = Some b1" "bus_subs b1 = bus_subs b" "bus_next b1 = bus_next b"
      "gm_wf (bus_chans b) \<longrightarrow> gm_wf (bus_chans b1)"
      "\<And>k. gm_get (bus_chans b1) k = (if k = ch then Some (deliver e c) else gm_get (bus_chans b) k)" by blast
  have "\<exists>c. gm_get (bus_chans b1) k = Some c \<and> \<not> ch_closed c" if "k \<in> set chs" for k
    using Cons.prems that by (auto simp: b1(5))
  with Cons.IH [of b1] Cons.prems(1) obtain b2 where
    "offer_all e chs b1 = Some b2" "bus_subs b2 = bus_subs b1" "bus_next b2 = bus_next b1"
    "gm_wf (bus_chans b1) \<longrightarrow> gm_wf (bus_chans b2)"
    "\<forall>k. gm_get (bus_chans b2) k = (if k \<in> set chs then map_option (deliver e) (gm_get (bus_chans b1) k)
                                     else gm_get (bus_chans b1) k)" by auto
  with b1 c Cons.prems(1) show ?case by auto
qed

lemma bus_notify_spec:
  assumes "bus_ok b"
  shows "\<exists>b'. bus_notify e b = Some b' \<and> bus_ok b' \<and> bus_subs b' = bus_subs b \<and>
    (\<forall>k. gm_get (bus_chans b') k = (if k \<in> set (bus_subs b) then map_option (deliver e) (gm_get (bus_chans b) k)
                                     else gm_get (bus_chans b) k))"
proof -
  from offer_all_spec [of "bus_subs b" b e] bus_okD(4,5) [OF assms] obtain b' where
    b': "offer_all e (bus_subs b) b = Some b'" "bus_subs b' = bus_subs b" "bus_next b' = bus_next b"
      "gm_wf (bus_chans b) \<longrightarrow> gm_wf (bus_chans b')"
      "\<forall>k. gm_get (bus_chans b') k = (if k \<in> set (bus_subs b) then map_option (deliver e) (gm_get (bus_chans b) k)
                                     else gm_get (bus_chans b) k)" by auto
  moreover have "bus_ok b'"
    unfolding bus_ok_def
  proof (intro conjI allI impI ballI)
    show "gm_wf (bus_chans b')" "distinct (bus_subs b')" using assms b' by (auto simp: bus_ok_def)
  next
    fix ch c assume "gm_get (bus_chans b') ch = Some c"
    with b'(5) obtain c0 where "gm_get (bus_chans b) ch = Some c0" "c = c0 \<or> c = deliver e c0"
      by (auto split: if_splits)
    with bus_okD(1-3) [OF assms, of ch c0] chan_ok_deliver [of c0 e] b'(2,3)
    show "ch < bus_next b'" "chan_ok c" "ch_closed c \<longleftrightarrow> ch \<notin> set (bus_subs b')" by auto
  next
    fix ch assume "ch \<in> set (bus_subs b')"
    with b'(2,5) bus_okD(4) [OF assms] show "gm_get (bus_chans b') ch \<noteq> None" by fastforce
  qed
  ultimately show ?thesis by (auto simp: bus_notify_def)
qed

lemma bus_ok_recv:
  assumes "bus_ok b" and "bus_recv ch b = Some (e, b')"
  shows "bus_ok b'"
proof -
  from assms(2) obtain c xs where c: "gm_get (bus_chans b) ch = Some c" "ch_buf c = e # xs"
    "b' = b\<lparr>bus_chans := gm_set ch (c\<lparr>ch_buf := xs\<rparr>) (bus_chans b)\<rparr>"
    by (auto simp: bus_recv_def chan_recv_def split: option.splits list.splits)
  with bus_ok_set [OF assms(1) c(1), of "c\<lparr>ch_buf := xs\<rparr>"] bus_okD(2) [OF assms(1) c(1)] show ?thesis
    by (simp add: chan_ok_def)
qed

section \<open>The bus as a transition system\<close>

inductive bus_step :: "'e bus \<Rightarrow> 'e bus \<Rightarrow> bool" where
  subscribe: "bus_step b (snd (bus_subscribe cap b))"
| cancel: "bus_cancel ch b = Some b' \<Longrightarrow> bus_step b b'"
| notify: "bus_notify e b = Some b' \<Longrightarrow> bus_step b b'"
| recv: "bus_recv ch b = Some (e, b') \<Longrightarrow> bus_step b b'"

inductive_cases bus_stepE: "bus_step b b'"

lemma bus_ok_step:
  assumes "bus_ok b" and "bus_step b b'"
  shows "bus_ok b'"
  using assms(2)
proof (cases rule: bus_step.cases)
  case (subscribe cap)
  with assms(1) show ?thesis by (simp add: bus_ok_subscribe)
next
  case (cancel ch)
  with bus_cancel_total [OF assms(1), of ch] show ?thesis by auto
next
  case (notify e)
  with bus_notify_spec [OF assms(1), of e] show ?thesis by auto
next
  case (recv ch e)
  with bus_ok_recv [OF assms(1)] show ?thesis by blast
qed

interpretation bus: invariant_system "\<lambda>b. b = bus_New" bus_step bus_ok
  by unfold_locales (auto intro: bus_ok_New bus_ok_step)

text \<open>Every event sent while a channel has room arrives, in order.\<close>

fun notify_seq :: "'e list \<Rightarrow> 'e bus \<Rightarrow> 'e bus option" where
  "notify_seq [] b = Some b"
| "notify_seq (e # es) b = Option.bind (bus_notify e b) (notify_seq es)"

lemma notify_seq_delivers:
  assumes "bus_ok b" and "ch \<in> set (bus_subs b)" and "gm_get (bus_chans b) ch = Some c"
    and "length (ch_buf c) + length es \<le> ch_cap c"
  shows "\<exists>b' c'. notify_seq es b = Some b' \<and> bus_ok b' \<and> gm_get (bus_chans b') ch = Some c' \<and>
    ch_buf c' = ch_buf c @ es"
  using assms
proof (induction es arbitrary: b c)
  case Nil
  then show ?case by simp
next
  case (Cons e es)
  from bus_notify_spec [OF Cons.prems(1), of e] obtain b1 where
    b1: "bus_notify e b = Some b1" "bus_ok b1" "bus_subs b1 = bus_subs b"
      "gm_get (bus_chans b1) ch = Some (deliver e c)"
    using Cons.prems(2,3) by auto
  have "ch_buf (deliver e c) = ch_buf c @ [e]" using Cons.prems(4) by (simp add: deliver_def)
  with Cons.IH [of b1 "deliver e c"] b1 Cons.prems(2,4) show ?case by auto
qed

section \<open>Properties of the subscription mechanism\<close>

text \<open>Subscriptions are free of panics. In every state reached by subscribing, cancelling (any number of
  times, for any channel), notifying and receiving, the next notification and the next cancellation
  succeed, no channel is sent on or closed after it was closed, and no channel exceeds its capacity.\<close>

theorem bus_never_panics:
  assumes "bus_step\<^sup>*\<^sup>* bus_New b"
  shows "bus_notify e b \<noteq> None \<and> bus_cancel ch b \<noteq> None \<and>
    (\<forall>k c. gm_get (bus_chans b) k = Some c \<longrightarrow> length (ch_buf c) \<le> ch_cap c)"
proof -
  have ok: "bus_ok b" by (rule bus.inv_reachable [OF refl assms])
  with bus_notify_spec [OF ok, of e] bus_cancel_total [OF ok, of ch] bus_okD(2) [OF ok] show ?thesis
    by (auto simp: chan_ok_def)
qed

lemma bus_never_panics_witness:
  "bus_notify True (snd (bus_subscribe 200 bus_New)) \<noteq> None \<and> bus_cancel 0 (snd (bus_subscribe 200 (bus_New :: bool bus))) \<noteq> None"
  using bus_never_panics [OF r_into_rtranclp, OF bus_step.subscribe, of True 200 0] by blast

end
