(* ===== verification/Topology.thy ===== *)
theory Topology
  imports EventBus
begin

text \<open>
  \<^verbatim>\<open>pkg/mesh/topology\<close>: what a node knows about the other nodes. \<^verbatim>\<open>memory.go\<close> is the map of peers with its
  merge and its address-conflict rule, \<^verbatim>\<open>disk.go\<close> the JSON file behind it, \<^verbatim>\<open>repository.go\<close> joins the two. A
  file is modelled at the level of the JSON value in it; whether a write or a rename fails is an argument.
  The state changes under \<^verbatim>\<open>s.mu\<close> are one step, followed by the notifications.
\<close>

section \<open>State\<close>

record PeerInfo =
  pi_ID :: string
  pi_Address :: string
  pi_LastSeen :: gotime

definition pi_Clone :: "PeerInfo \<Rightarrow> PeerInfo" where
  "pi_Clone p = \<lparr>pi_ID = pi_ID p, pi_Address = pi_Address p, pi_LastSeen = pi_LastSeen p\<rparr>"

text \<open>The protobuf messages: \<^verbatim>\<open>UnixNano\<close> is a signed 64-bit number.\<close>

record ProtoPeerInfo =
  pp_Id :: string
  pp_Addr :: string
  pp_LastSeen :: u64

datatype PeerEventType = PEER_JOINED | PEER_UPDATED | PEER_LEFT

record PeerEvent =
  pe_Type :: PeerEventType
  pe_Update :: ProtoPeerInfo

definition peerInfoToProto :: "PeerInfo \<Rightarrow> ProtoPeerInfo" where
  "peerInfoToProto p = \<lparr>pp_Id = pi_ID p, pp_Addr = pi_Address p, pp_LastSeen = of_int (pi_LastSeen p)\<rparr>"

type_synonym peer_map = "(string, PeerInfo) gomap"

text \<open>\<open>ms_nil\<close>: the map is nil, so that storing into it panics.\<close>

record inMemoryState =
  ms_peers :: peer_map
  ms_nil :: bool
  ms_subs :: "PeerEvent bus"

definition newInMemoryState :: inMemoryState where
  "newInMemoryState = \<lparr>ms_peers = [], ms_nil = False, ms_subs = bus_New\<rparr>"

section \<open>Operations in memory\<close>

definition ms_Get :: "string \<Rightarrow> inMemoryState \<Rightarrow> PeerInfo option" where
  "ms_Get i s = map_option pi_Clone (gm_get (ms_peers s) i)"

definition ms_List :: "inMemoryState \<Rightarrow> PeerInfo list" where
  "ms_List s = map pi_Clone (gm_vals (ms_peers s))"

definition ms_Count :: "inMemoryState \<Rightarrow> nat" where
  "ms_Count s = length (ms_peers s)"

definition conflicts :: "PeerInfo \<Rightarrow> peer_map \<Rightarrow> PeerInfo list" where
  "conflicts keep m = map snd (filter (\<lambda>(i, p). \<not> (i = pi_ID keep \<or> pi_Address p \<noteq> pi_Address keep)) m)"

definition resolveAddressConflict :: "PeerInfo \<Rightarrow> peer_map \<Rightarrow> PeerInfo list \<times> bool \<times> peer_map" where
  "resolveAddressConflict keep m =
     (if pi_Address keep = '''' then ([], False, m)
      else
        let keepLost = list_ex (\<lambda>p. pi_LastSeen keep < pi_LastSeen p) (conflicts keep m);
            dropped = filter (\<lambda>p. pi_LastSeen p < pi_LastSeen keep) (conflicts keep m)
        in if keepLost then ([], True, m)
           else (dropped, False, fold (\<lambda>p. gm_del (pi_ID p)) dropped m))"

text \<open>The merge of a known peer: what changes, and whether anything does.\<close>

definition mergePeer :: "PeerInfo \<Rightarrow> PeerInfo \<Rightarrow> bool \<times> PeerInfo" where
  "mergePeer update existing =
     (let newer = pi_LastSeen existing < pi_LastSeen update;
          e1 = (if newer then existing\<lparr>pi_LastSeen := pi_LastSeen update\<rparr> else existing);
          moved = (pi_Address update \<noteq> '''' \<and> pi_Address update \<noteq> pi_Address e1);
          e2 = (if moved then e1\<lparr>pi_Address := pi_Address update\<rparr> else e1)
      in (newer \<or> moved, e2))"

text \<open>\<^verbatim>\<open>InsertMerge\<close> under the lock: the result, the new map and the events to send. None is the panic of
  storing into a nil map.\<close>

definition mergeLocked :: "PeerInfo \<Rightarrow> inMemoryState \<Rightarrow> (bool \<times> peer_map \<times> PeerEvent list) option" where
  "mergeLocked update s =
     (let found = gm_get (ms_peers s) (pi_ID update);
          finish = (\<lambda>existing m1.
            let (dropped, lost, m2) = resolveAddressConflict existing m1;
                m3 = (if lost then gm_del (pi_ID existing) m2 else m2);
                ev = (\<lambda>t p. \<lparr>pe_Type = t, pe_Update = peerInfoToProto p\<rparr>)
            in if lost \<and> found = None then (False, m3, [])
               else (True, m3,
                     ev (if lost then PEER_LEFT else if found = None then PEER_JOINED else PEER_UPDATED) existing #
                     map (ev PEER_LEFT) dropped))
      in case found of
           None \<Rightarrow> if ms_nil s then None
                   else Some (finish (pi_Clone update) (gm_set (pi_ID update) (pi_Clone update) (ms_peers s)))
         | Some existing \<Rightarrow>
             let (changed, e) = mergePeer update existing
             in if \<not> changed then Some (False, ms_peers s, [])
                else Some (finish e (gm_set (pi_ID update) e (ms_peers s))))"

fun ms_notify_all :: "PeerEvent list \<Rightarrow> inMemoryState \<Rightarrow> inMemoryState option" where
  "ms_notify_all evs s = map_option (\<lambda>b. s\<lparr>ms_subs := b\<rparr>) (notify_seq evs (ms_subs s))"

definition InsertMerge :: "PeerInfo \<Rightarrow> inMemoryState \<Rightarrow> (bool \<times> inMemoryState) option" where
  "InsertMerge update s =
     (if pi_ID update = '''' then Some (False, s)
      else case mergeLocked update s of
             None \<Rightarrow> None
           | Some (b, m, evs) \<Rightarrow> map_option (Pair b) (ms_notify_all evs (s\<lparr>ms_peers := m\<rparr>)))"

definition ms_Remove :: "string \<Rightarrow> inMemoryState \<Rightarrow> inMemoryState option" where
  "ms_Remove i s =
     (if i = '''' then Some s
      else case gm_get (ms_peers s) i of
             None \<Rightarrow> Some s
           | Some existing \<Rightarrow>
               ms_notify_all [\<lparr>pe_Type = PEER_LEFT, pe_Update = peerInfoToProto existing\<rparr>]
                 (s\<lparr>ms_peers := gm_del i (ms_peers s)\<rparr>))"

definition ms_Subscribe :: "inMemoryState \<Rightarrow> nat \<times> inMemoryState" where
  "ms_Subscribe s = (let (ch, b) = bus_subscribe 200 (ms_subs s) in (ch, s\<lparr>ms_subs := b\<rparr>))"

definition ms_cancel :: "nat \<Rightarrow> inMemoryState \<Rightarrow> inMemoryState option" where
  "ms_cancel ch s = map_option (\<lambda>b. s\<lparr>ms_subs := b\<rparr>) (bus_cancel ch (ms_subs s))"

section \<open>The file\<close>

datatype json_file = BadJson | NullJson | PeersJson "(string, PeerInfo option) gomap"

type_synonym filesystem = "(string, json_file) gomap"

definition fp_Save :: "bool \<Rightarrow> bool \<Rightarrow> string \<Rightarrow> peer_map \<Rightarrow> filesystem \<Rightarrow> bool \<times> filesystem" where
  "fp_Save writeOk renameOk filename peers fs =
     (if filename = '''' then (True, fs)
      else
        let data = PeersJson (map (\<lambda>(k, v). (k, Some v)) peers);
            tmp = filename @ ''.tmp''
        in if \<not> writeOk then (False, gm_set tmp BadJson fs)
           else
             let fs1 = gm_set tmp data fs
             in if \<not> renameOk then (False, gm_del tmp fs1)
                else (True, gm_set filename data (gm_del tmp fs1)))"

datatype load_result = LoadErr | Loaded peer_map | LoadedNil

definition fp_Load :: "bool \<Rightarrow> string \<Rightarrow> filesystem \<Rightarrow> load_result" where
  "fp_Load readOk filename fs =
     (if filename = '''' then Loaded []
      else if \<not> readOk then LoadErr
      else case gm_get fs filename of
             None \<Rightarrow> Loaded []
           | Some BadJson \<Rightarrow> LoadErr
           | Some NullJson \<Rightarrow> LoadedNil
           | Some (PeersJson m) \<Rightarrow>
               Loaded (map (\<lambda>(k, v). (k, the v))
                 (gm_keep (\<lambda>i p. \<not> (i = '''' \<or> (case p of None \<Rightarrow> True | Some q \<Rightarrow> pi_ID q = ''''))) m)))"

definition NewPeerRepository :: "bool \<Rightarrow> string \<Rightarrow> filesystem \<Rightarrow> inMemoryState" where
  "NewPeerRepository readOk filename fs =
     (case fp_Load readOk filename fs of
        LoadErr \<Rightarrow> newInMemoryState
      | Loaded m \<Rightarrow> newInMemoryState\<lparr>ms_peers := m\<rparr>
      | LoadedNil \<Rightarrow> newInMemoryState\<lparr>ms_peers := [], ms_nil := True\<rparr>)"

definition flushToDisk :: "bool \<Rightarrow> bool \<Rightarrow> string \<Rightarrow> inMemoryState \<Rightarrow> filesystem \<Rightarrow> bool \<times> filesystem" where
  "flushToDisk writeOk renameOk filename s fs =
     fp_Save writeOk renameOk filename (map (\<lambda>(k, v). (k, pi_Clone v)) (ms_peers s)) fs"

section \<open>The invariant\<close>

lemma pi_Clone [simp]: "pi_Clone p = p"
  by (simp add: pi_Clone_def)

text \<open>One address, one node: two peers can share an address only with equal last contact.\<close>

definition topo_ok :: "peer_map \<Rightarrow> bool" where
  "topo_ok m \<longleftrightarrow> gm_wf m \<and> (\<forall>i p. gm_get m i = Some p \<longrightarrow> i = pi_ID p \<and> i \<noteq> '''') \<and>
     (\<forall>i j p q. gm_get m i = Some p \<longrightarrow> gm_get m j = Some q \<longrightarrow> i \<noteq> j \<longrightarrow>
        pi_Address p = pi_Address q \<longrightarrow> pi_Address p \<noteq> '''' \<longrightarrow> pi_LastSeen p = pi_LastSeen q)"

lemma topo_okD:
  assumes "topo_ok m"
  shows "gm_wf m" and "gm_get m i = Some p \<Longrightarrow> pi_ID p = i" and "gm_get m i = Some p \<Longrightarrow> i \<noteq> ''''"
    and "gm_get m i = Some p \<Longrightarrow> gm_get m j = Some q \<Longrightarrow> i \<noteq> j \<Longrightarrow> pi_Address p = pi_Address q \<Longrightarrow>
      pi_Address p \<noteq> '''' \<Longrightarrow> pi_LastSeen p = pi_LastSeen q"
  using assms unfolding topo_ok_def by blast+

lemma conflicts_iff:
  "gm_wf m \<Longrightarrow> p \<in> set (conflicts keep m) \<longleftrightarrow>
     (\<exists>i. gm_get m i = Some p \<and> i \<noteq> pi_ID keep \<and> pi_Address p = pi_Address keep)"
proof -
  have "p \<in> set (conflicts keep m) \<longleftrightarrow> (\<exists>i. (i, p) \<in> set m \<and> i \<noteq> pi_ID keep \<and> pi_Address p = pi_Address keep)"
    by (auto simp: conflicts_def image_iff)
  moreover assume "gm_wf m"
  ultimately show ?thesis by (simp add: gm_in_set_iff)
qed

lemma fold_del_ids: "fold (\<lambda>p. gm_del (pi_ID p)) ps m = fold gm_del (map pi_ID ps) m"
  by (simp add: fold_map comp_def)

text \<open>The map after the conflict rule, for a map whose other entries satisfy the invariant.\<close>

lemma resolve_spec:
  assumes "topo_ok m" and "pi_ID e \<noteq> ''''" and "m1 = gm_set (pi_ID e) e m"
    and "resolveAddressConflict e m1 = (dropped, lost, m2)"
  shows "lost \<longleftrightarrow> pi_Address e \<noteq> '''' \<and>
      (\<exists>i p. gm_get m i = Some p \<and> i \<noteq> pi_ID e \<and> pi_Address p = pi_Address e \<and> pi_LastSeen e < pi_LastSeen p)"
    and "lost \<Longrightarrow> m2 = m1 \<and> dropped = []"
    and "\<not> lost \<Longrightarrow> gm_get m2 i = (if i = pi_ID e then Some e
           else case gm_get m i of
                  None \<Rightarrow> None
                | Some p \<Rightarrow> if pi_Address e \<noteq> '''' \<and> pi_Address p = pi_Address e \<and> pi_LastSeen p < pi_LastSeen e
                            then None else Some p)"
    and "gm_wf m2"
    and "p \<in> set dropped \<Longrightarrow> pi_ID p \<noteq> pi_ID e"
    and "\<not> lost \<Longrightarrow> i \<in> pi_ID ` set dropped \<longleftrightarrow> i \<noteq> pi_ID e \<and> (\<exists>p. gm_get m i = Some p \<and> pi_Address e \<noteq> '''' \<and>
            pi_Address p = pi_Address e \<and> pi_LastSeen p < pi_LastSeen e)"
proof -
  have wf: "gm_wf m1" using assms(1,3) by (simp add: topo_okD)
  have c: "p \<in> set (conflicts e m1) \<longleftrightarrow> (\<exists>i. gm_get m i = Some p \<and> i \<noteq> pi_ID e \<and> pi_Address p = pi_Address e)" for p
    using conflicts_iff [OF wf] assms(3) by auto
  have ids: "gm_get m i = Some p \<Longrightarrow> pi_ID p = i" for i p by (rule topo_okD(2) [OF assms(1)])
  show l: "lost \<longleftrightarrow> pi_Address e \<noteq> '''' \<and>
      (\<exists>i p. gm_get m i = Some p \<and> i \<noteq> pi_ID e \<and> pi_Address p = pi_Address e \<and> pi_LastSeen e < pi_LastSeen p)"
  proof -
    have "lost \<longleftrightarrow> pi_Address e \<noteq> '''' \<and> (\<exists>p \<in> set (conflicts e m1). pi_LastSeen e < pi_LastSeen p)"
      using assms(4) by (auto simp: resolveAddressConflict_def Let_def list_ex_iff split: if_splits)
    then show ?thesis unfolding Bex_def c by blast
  qed
  show "lost \<Longrightarrow> m2 = m1 \<and> dropped = []"
    using assms(4) by (auto simp: resolveAddressConflict_def Let_def split: if_splits)
  have d: "dropped = (if pi_Address e = '''' \<or> lost then [] else filter (\<lambda>p. pi_LastSeen p < pi_LastSeen e) (conflicts e m1))"
    "m2 = fold gm_del (map pi_ID dropped) m1"
    using assms(4) by (auto simp: resolveAddressConflict_def Let_def fold_del_ids split: if_splits)
  show di: "\<not> lost \<Longrightarrow> i \<in> pi_ID ` set dropped \<longleftrightarrow> i \<noteq> pi_ID e \<and> (\<exists>p. gm_get m i = Some p \<and> pi_Address e \<noteq> '''' \<and>
            pi_Address p = pi_Address e \<and> pi_LastSeen p < pi_LastSeen e)" for i
    using ids by (auto simp: d(1) c image_iff)
  show "p \<in> set dropped \<Longrightarrow> pi_ID p \<noteq> pi_ID e"
    using ids by (auto simp: d(1) c split: if_splits)
  show "gm_wf m2" using wf by (simp add: d(2) gm.wf_fold_del)
  show "\<not> lost \<Longrightarrow> gm_get m2 i = (if i = pi_ID e then Some e
           else case gm_get m i of
                  None \<Rightarrow> None
                | Some p \<Rightarrow> if pi_Address e \<noteq> '''' \<and> pi_Address p = pi_Address e \<and> pi_LastSeen p < pi_LastSeen e
                            then None else Some p)"
    using di [of i] gm.get_fold_del [OF wf, of "map pi_ID dropped" i] assms(3)
    by (auto simp: d(2) split: option.splits)
qed

lemma mergePeer_spec:
  assumes "mergePeer u e = (b, e')"
  shows "pi_ID e' = pi_ID e" and "pi_LastSeen e' = max (pi_LastSeen e) (pi_LastSeen u)"
    and "pi_Address e' = (if pi_Address u = '''' then pi_Address e else pi_Address u)"
    and "\<not> b \<Longrightarrow> e' = e"
  using assms by (auto simp: mergePeer_def Let_def split: if_splits)

definition merged :: "PeerInfo \<Rightarrow> peer_map \<Rightarrow> PeerInfo" where
  "merged u m = (case gm_get m (pi_ID u) of None \<Rightarrow> u | Some e \<Rightarrow> snd (mergePeer u e))"

lemmas mergePeer_snd = mergePeer_spec(1-3) [OF prod.collapse [symmetric]]

lemma merged_ID: "topo_ok m \<Longrightarrow> pi_ID (merged u m) = pi_ID u"
  by (auto simp: merged_def mergePeer_snd topo_okD(2) split: option.splits)

lemma merged_LastSeen: "pi_LastSeen u \<le> pi_LastSeen (merged u m)"
  "gm_get m (pi_ID u) = Some e \<Longrightarrow> pi_LastSeen e \<le> pi_LastSeen (merged u m)"
  by (auto simp: merged_def mergePeer_snd split: option.splits)

lemma merged_Address: "pi_Address u \<noteq> '''' \<Longrightarrow> pi_Address (merged u m) = pi_Address u"
  by (auto simp: merged_def mergePeer_snd split: option.splits)

definition peerEv :: "PeerEventType \<Rightarrow> PeerInfo \<Rightarrow> PeerEvent" where
  "peerEv t p = \<lparr>pe_Type = t, pe_Update = peerInfoToProto p\<rparr>"

definition beaten :: "PeerInfo \<Rightarrow> peer_map \<Rightarrow> bool" where
  "beaten e m \<longleftrightarrow> pi_Address e \<noteq> '''' \<and>
     (\<exists>i p. gm_get m i = Some p \<and> i \<noteq> pi_ID e \<and> pi_Address p = pi_Address e \<and> pi_LastSeen e < pi_LastSeen p)"

definition stale :: "PeerInfo \<Rightarrow> PeerInfo \<Rightarrow> bool" where
  "stale e p \<longleftrightarrow> pi_Address e \<noteq> '''' \<and> pi_Address p = pi_Address e \<and> pi_LastSeen p < pi_LastSeen e"

lemma mergeLocked_cases:
  assumes "topo_ok (ms_peers s)" and "pi_ID u \<noteq> ''''" and "mergeLocked u s = Some (b, m, evs)"
  obtains (same) e where "\<not> b" "m = ms_peers s" "evs = []" "gm_get (ms_peers s) (pi_ID u) = Some e"
      "merged u (ms_peers s) = e"
  | (lost) "beaten (merged u (ms_peers s)) (ms_peers s)" "gm_wf m"
      "\<And>i. gm_get m i = (if i = pi_ID u then None else gm_get (ms_peers s) i)"
      "evs = (if gm_get (ms_peers s) (pi_ID u) = None then [] else [peerEv PEER_LEFT (merged u (ms_peers s))])"
  | (kept) dropped where "\<not> beaten (merged u (ms_peers s)) (ms_peers s)" "b" "gm_wf m"
      "\<And>i. gm_get m i = (if i = pi_ID u then Some (merged u (ms_peers s))
         else case gm_get (ms_peers s) i of None \<Rightarrow> None
              | Some p \<Rightarrow> if stale (merged u (ms_peers s)) p then None else Some p)"
      "evs = peerEv (if gm_get (ms_peers s) (pi_ID u) = None then PEER_JOINED else PEER_UPDATED) (merged u (ms_peers s)) #
         map (peerEv PEER_LEFT) dropped"
      "\<And>i. i \<in> pi_ID ` set dropped \<longleftrightarrow> i \<noteq> pi_ID u \<and> (\<exists>p. gm_get (ms_peers s) i = Some p \<and> stale (merged u (ms_peers s)) p)"
proof (cases "\<exists>e. gm_get (ms_peers s) (pi_ID u) = Some e \<and> \<not> fst (mergePeer u e)")
  case True
  then obtain e e' where e: "gm_get (ms_peers s) (pi_ID u) = Some e" "mergePeer u e = (False, e')"
    by (metis eq_fst_iff)
  with mergePeer_spec(4) [OF e(2)] assms(3) show ?thesis
    by (intro same [of e]) (auto simp: mergeLocked_def Let_def merged_def)
next
  case False
  let ?e = "merged u (ms_peers s)"
  let ?m1 = "gm_set (pi_ID u) ?e (ms_peers s)"
  have id: "pi_ID ?e = pi_ID u" by (rule merged_ID [OF assms(1)])
  obtain dropped l m2 where r: "resolveAddressConflict ?e ?m1 = (dropped, l, m2)" by (metis prod_cases3)
  note sp = resolve_spec [OF assms(1), of ?e ?m1 dropped l m2, unfolded id, OF assms(2) refl r]
  have res: "(b, m, evs) = (if l \<and> gm_get (ms_peers s) (pi_ID u) = None then (False, gm_del (pi_ID u) m2, [])
      else (True, if l then gm_del (pi_ID u) m2 else m2,
        peerEv (if l then PEER_LEFT else if gm_get (ms_peers s) (pi_ID u) = None then PEER_JOINED else PEER_UPDATED) ?e #
        map (peerEv PEER_LEFT) dropped))"
    using assms(3) False r id
    by (auto simp: mergeLocked_def Let_def merged_def peerEv_def [abs_def] split: option.splits if_splits prod.splits)
  show ?thesis
  proof (cases l)
    case True
    with res sp(2,4) show ?thesis
      by (intro lost) (auto simp: beaten_def id sp(1) [symmetric] split: if_splits)
  next
    case False
    with res sp(3,4,6) show ?thesis
      by (intro kept [of dropped]) (auto simp: beaten_def id sp(1) [symmetric] stale_def split: if_splits option.splits)
  qed
qed


lemma topo_ok_mergeLocked:
  assumes "topo_ok (ms_peers s)" and "pi_ID u \<noteq> ''''" and "mergeLocked u s = Some (b, m, evs)"
  shows "topo_ok m"
  using assms
proof (cases rule: mergeLocked_cases)
  case same
  with assms(1) show ?thesis by simp
next
  case lost
  have sub: "gm_get m i = Some p \<Longrightarrow> gm_get (ms_peers s) i = Some p" for i p
    by (simp add: lost(3) split: if_splits)
  show ?thesis
    unfolding topo_ok_def using lost(2) sub assms(1) [unfolded topo_ok_def] by blast
next
  case (kept dropped)
  let ?e = "merged u (ms_peers s)"
  have id: "pi_ID ?e = pi_ID u" by (rule merged_ID [OF assms(1)])
  have other: "gm_get (ms_peers s) i = Some p \<and> \<not> stale ?e p" if "gm_get m i = Some p" "i \<noteq> pi_ID u" for i p
    using kept(4) [of i] that by (auto split: option.splits if_splits)
  have eq: "pi_LastSeen p = pi_LastSeen ?e"
    if "gm_get m i = Some p" "i \<noteq> pi_ID u" "pi_Address p = pi_Address ?e" "pi_Address p \<noteq> ''''" for i p
    using other [OF that(1,2)] that(2-) kept(1) id by (fastforce simp: stale_def beaten_def)
  have mine: "gm_get m (pi_ID u) = Some ?e" by (simp add: kept(4))
  show ?thesis
    unfolding topo_ok_def
  proof (intro conjI allI impI)
    show "gm_wf m" by (rule kept(3))
  next
    fix i p assume g: "gm_get m i = Some p"
    show "i = pi_ID p" using other [OF g] topo_okD(2) [OF assms(1)] g mine id by (cases "i = pi_ID u") auto
    show "i \<noteq> ''''" using other [OF g] topo_okD(3) [OF assms(1)] assms(2) by (cases "i = pi_ID u") auto
  next
    fix i j p q
    assume g: "gm_get m i = Some p" "gm_get m j = Some q" "i \<noteq> j" "pi_Address p = pi_Address q" "pi_Address p \<noteq> ''''"
    consider "i = pi_ID u" | "j = pi_ID u" | "i \<noteq> pi_ID u" "j \<noteq> pi_ID u" by blast
    then show "pi_LastSeen p = pi_LastSeen q"
    proof cases
      case 1
      with g mine eq [OF g(2)] show ?thesis by auto
    next
      case 2
      with g mine eq [OF g(1)] show ?thesis by auto
    next
      case 3
      with other [OF g(1)] other [OF g(2)] g show ?thesis using topo_okD(4) [OF assms(1)] by blast
    qed
  qed
qed

section \<open>The events describe the change\<close>

text \<open>What a subscriber that applies the events to its own map holds.\<close>

definition replay_peer :: "PeerEvent \<Rightarrow> (string \<Rightarrow> ProtoPeerInfo option) \<Rightarrow> string \<Rightarrow> ProtoPeerInfo option" where
  "replay_peer e m = m(pp_Id (pe_Update e) := (if pe_Type e = PEER_LEFT then None else Some (pe_Update e)))"

definition proto_view :: "peer_map \<Rightarrow> string \<Rightarrow> ProtoPeerInfo option" where
  "proto_view m i = map_option peerInfoToProto (gm_get m i)"

lemma replay_left:
  "fold replay_peer (map (peerEv PEER_LEFT) ps) v i = (if i \<in> pi_ID ` set ps then None else v i)"
proof (induction ps arbitrary: v)
  case Nil
  then show ?case by simp
next
  case (Cons p ps)
  have "replay_peer (peerEv PEER_LEFT p) v i = (if i = pi_ID p then None else v i)"
    by (simp add: replay_peer_def peerEv_def peerInfoToProto_def)
  with Cons.IH [of "replay_peer (peerEv PEER_LEFT p) v"] show ?case by auto
qed

lemma mergeLocked_events:
  assumes "topo_ok (ms_peers s)" and "pi_ID u \<noteq> ''''" and "mergeLocked u s = Some (b, m, evs)"
  shows "fold replay_peer evs (proto_view (ms_peers s)) = proto_view m"
  using assms
proof (cases rule: mergeLocked_cases)
  case same
  then show ?thesis by simp
next
  case lost
  have id: "pi_ID (merged u (ms_peers s)) = pi_ID u" by (rule merged_ID [OF assms(1)])
  show ?thesis
    by (rule ext) (auto simp: lost(3,4) proto_view_def replay_peer_def peerEv_def peerInfoToProto_def id)
next
  case (kept dropped)
  have id: "pi_ID (merged u (ms_peers s)) = pi_ID u" by (rule merged_ID [OF assms(1)])
  show ?thesis
    by (rule ext)
      (auto simp: kept(4-6) replay_left proto_view_def replay_peer_def peerEv_def peerInfoToProto_def id
        split: option.splits)
qed

section \<open>The repository as a transition system\<close>

inductive topo_step :: "inMemoryState \<Rightarrow> inMemoryState \<Rightarrow> bool" where
  insert: "InsertMerge u s = Some (b, s') \<Longrightarrow> topo_step s s'"
| remove: "ms_Remove i s = Some s' \<Longrightarrow> topo_step s s'"
| subscribe: "ms_Subscribe s = (ch, s') \<Longrightarrow> topo_step s s'"
| cancel: "ms_cancel ch s = Some s' \<Longrightarrow> topo_step s s'"
| recv: "bus_recv ch (ms_subs s) = Some (e, b) \<Longrightarrow> topo_step s (s\<lparr>ms_subs := b\<rparr>)"

definition topo_inv :: "inMemoryState \<Rightarrow> bool" where
  "topo_inv s \<longleftrightarrow> topo_ok (ms_peers s) \<and> bus_ok (ms_subs s) \<and> \<not> ms_nil s"

lemma notify_seq_total: "bus_ok b \<Longrightarrow> \<exists>b'. notify_seq es b = Some b' \<and> bus_ok b'"
proof (induction es arbitrary: b)
  case Nil
  then show ?case by simp
next
  case (Cons e es)
  from bus_notify_spec [OF Cons.prems, of e] obtain b1 where "bus_notify e b = Some b1" "bus_ok b1" by blast
  with Cons.IH [of b1] show ?case by simp
qed

lemma InsertMerge_total:
  assumes "topo_inv s"
  shows "\<exists>b s'. InsertMerge u s = Some (b, s') \<and> topo_inv s'"
proof (cases "pi_ID u = ''''")
  case True
  with assms show ?thesis by (intro exI [of _ False] exI [of _ s]) (simp add: InsertMerge_def)
next
  case False
  from assms have ok: "topo_ok (ms_peers s)" "bus_ok (ms_subs s)" "\<not> ms_nil s" by (simp_all add: topo_inv_def)
  have "mergeLocked u s \<noteq> None" using ok(3) by (auto simp: mergeLocked_def Let_def split_beta split: option.splits)
  then obtain b m evs where m: "mergeLocked u s = Some (b, m, evs)" by auto
  from notify_seq_total [OF ok(2)] obtain b' where b': "notify_seq evs (ms_subs s) = Some b'" "bus_ok b'" by blast
  with m False ok(3) topo_ok_mergeLocked [OF ok(1) _ m] show ?thesis
    by (simp add: InsertMerge_def topo_inv_def)
qed

lemma topo_ok_del: "topo_ok m \<Longrightarrow> topo_ok (gm_del i m)"
proof -
  assume ok: "topo_ok m"
  have "gm_get (gm_del i m) j = Some p \<Longrightarrow> gm_get m j = Some p" for j p by (simp split: if_splits)
  moreover have "gm_wf (gm_del i m)" using topo_okD(1) [OF ok] by simp
  ultimately show ?thesis unfolding topo_ok_def using ok [unfolded topo_ok_def] by blast
qed

lemma ms_Remove_total:
  assumes "topo_inv s" shows "\<exists>s'. ms_Remove i s = Some s' \<and> topo_inv s'"
proof (cases "i = '''' \<or> gm_get (ms_peers s) i = None")
  case True
  with assms show ?thesis by (auto simp: ms_Remove_def)
next
  case False
  then obtain p where p: "gm_get (ms_peers s) i = Some p" "i \<noteq> ''''" by auto
  let ?e = "\<lparr>pe_Type = PEER_LEFT, pe_Update = peerInfoToProto p\<rparr>"
  from notify_seq_total [of "ms_subs s" "[?e]"] assms obtain b where "notify_seq [?e] (ms_subs s) = Some b" "bus_ok b"
    by (auto simp: topo_inv_def)
  with p assms topo_ok_del show ?thesis by (auto simp: ms_Remove_def topo_inv_def)
qed

lemma topo_inv_step:
  assumes "topo_inv s" and "topo_step s s'"
  shows "topo_inv s'"
  using assms(2)
proof (cases rule: topo_step.cases)
  case (insert u b)
  with InsertMerge_total [OF assms(1), of u] show ?thesis by auto
next
  case (remove i)
  with ms_Remove_total [OF assms(1), of i] show ?thesis by auto
next
  case (subscribe ch)
  with assms(1) bus_ok_subscribe [of "ms_subs s" 200] show ?thesis
    by (auto simp: ms_Subscribe_def topo_inv_def split_beta)
next
  case (cancel ch)
  with assms(1) bus_cancel_total [of "ms_subs s" ch] show ?thesis
    by (auto simp: ms_cancel_def topo_inv_def)
next
  case (recv ch e b)
  with assms(1) bus_ok_recv show ?thesis by (auto simp: topo_inv_def)
qed

lemma topo_inv_New: "topo_inv newInMemoryState"
  by (simp add: topo_inv_def newInMemoryState_def topo_ok_def bus_ok_New)

interpretation topo: invariant_system "\<lambda>s. s = newInMemoryState" topo_step topo_inv
  by unfold_locales (auto intro: topo_inv_New topo_inv_step)

section \<open>Properties of the topology\<close>

text \<open>C26: one address, one node. In every state of the peer map reached by merges, removals and subscriptions,
  every record sits under its own identifier, two different peers share a non-empty address only if they
  were last seen at the same instant, and the next merge returns without a panic.\<close>

theorem topology_reachable_inv:
  assumes "topo_step\<^sup>*\<^sup>* newInMemoryState s"
  shows "(\<forall>i p. ms_Get i s = Some p \<longrightarrow> pi_ID p = i \<and> i \<noteq> '''') \<and>
    (\<forall>i j p q. ms_Get i s = Some p \<longrightarrow> ms_Get j s = Some q \<longrightarrow> i \<noteq> j \<longrightarrow> pi_Address p = pi_Address q \<longrightarrow>
      pi_Address p \<noteq> '''' \<longrightarrow> pi_LastSeen p = pi_LastSeen q) \<and>
    InsertMerge u s \<noteq> None"
proof -
  have inv: "topo_inv s" by (rule topo.inv_reachable [OF refl assms])
  then have ok: "topo_ok (ms_peers s)" by (simp add: topo_inv_def)
  have get: "ms_Get i s = gm_get (ms_peers s) i" for i by (cases "gm_get (ms_peers s) i") (simp_all add: ms_Get_def)
  have "InsertMerge u s \<noteq> None" using InsertMerge_total [OF inv, of u] by auto
  with ok show ?thesis unfolding topo_ok_def get by blast
qed

definition exPeer :: PeerInfo where
  "exPeer = \<lparr>pi_ID = ''a'', pi_Address = ''10.1.1.1:443'', pi_LastSeen = 5\<rparr>"

lemma topology_reachable_inv_witness:
  "InsertMerge exPeer newInMemoryState \<noteq> None"
  using topology_reachable_inv [OF rtranclp.rtrancl_refl, of exPeer] by blast




text \<open>Peer events are a faithful change log. A merge appends to every subscribed channel with room for them
  exactly the events whose replay turns a copy of the peer map before the merge into the peer map after it:
  joins, updates, and one departure for each peer displaced from its address.\<close>

theorem InsertMerge_events_mirror:
  assumes "topo_inv s" and "pi_ID u \<noteq> ''''" and "ch \<in> set (bus_subs (ms_subs s))"
    and "gm_get (bus_chans (ms_subs s)) ch = Some c"
  shows "\<exists>b s' evs. InsertMerge u s = Some (b, s') \<and>
    fold replay_peer evs (proto_view (ms_peers s)) = proto_view (ms_peers s') \<and>
    (length (ch_buf c) + length evs \<le> ch_cap c \<longrightarrow>
      (\<exists>c'. gm_get (bus_chans (ms_subs s')) ch = Some c' \<and> ch_buf c' = ch_buf c @ evs))"
proof -
  from assms(1) have ok: "topo_ok (ms_peers s)" "bus_ok (ms_subs s)" by (simp_all add: topo_inv_def)
  obtain b s' where ins: "InsertMerge u s = Some (b, s')" using InsertMerge_total [OF assms(1)] by blast
  with assms(2) obtain m evs where m: "mergeLocked u s = Some (b, m, evs)"
    and s': "ms_notify_all evs (s\<lparr>ms_peers := m\<rparr>) = Some s'"
    by (auto simp: InsertMerge_def split: option.splits)
  have "\<exists>c'. gm_get (bus_chans (ms_subs s')) ch = Some c' \<and> ch_buf c' = ch_buf c @ evs"
    if "length (ch_buf c) + length evs \<le> ch_cap c"
    using notify_seq_delivers [OF ok(2) assms(3,4) that] s' by auto
  moreover have "ms_peers s' = m" using s' by auto
  ultimately show ?thesis using ins mergeLocked_events [OF ok(1) assms(2) m] by blast
qed

lemma InsertMerge_events_mirror_witness:
  "\<exists>b s' evs. InsertMerge exPeer (snd (ms_Subscribe newInMemoryState)) = Some (b, s') \<and>
    fold replay_peer evs (proto_view (ms_peers (snd (ms_Subscribe newInMemoryState)))) = proto_view (ms_peers s')"
proof -
  let ?s = "snd (ms_Subscribe newInMemoryState)"
  have "topo_inv ?s" by (rule topo_inv_step [OF topo_inv_New topo_step.subscribe [OF prod.collapse [symmetric]]])
  moreover have "0 \<in> set (bus_subs (ms_subs ?s))" "gm_get (bus_chans (ms_subs ?s)) 0 = Some (mkchan 200)"
    by (simp_all add: ms_Subscribe_def bus_subscribe_def newInMemoryState_def bus_New_def)
  ultimately show ?thesis
    using InsertMerge_events_mirror [of ?s exPeer 0 "mkchan 200"] by (fastforce simp: exPeer_def)
qed

text \<open>Stale gossip moves a peer. An update that is not newer than what is known still replaces the
  address of the peer, and the record keeps the newer last contact, so a forgotten address is then
  propagated as fresh.\<close>

theorem stale_update_moves_peer:
  assumes "topo_inv s" and "gm_get (ms_peers s) (pi_ID u) = Some e" and "pi_LastSeen u < pi_LastSeen e"
    and "pi_Address u \<noteq> ''''" and "pi_Address u \<noteq> pi_Address e"
    and "\<And>i p. gm_get (ms_peers s) i = Some p \<Longrightarrow> pi_Address p \<noteq> pi_Address u"
  shows "\<exists>s'. InsertMerge u s = Some (True, s') \<and>
    gm_get (ms_peers s') (pi_ID u) = Some (e\<lparr>pi_Address := pi_Address u\<rparr>)"
proof -
  from assms(1) have ok: "topo_ok (ms_peers s)" by (simp add: topo_inv_def)
  have ne: "pi_ID u \<noteq> ''''" using topo_okD(3) [OF ok assms(2)] .
  obtain b s' where ins: "InsertMerge u s = Some (b, s')" using InsertMerge_total [OF assms(1)] by blast
  with ne obtain m evs where m: "mergeLocked u s = Some (b, m, evs)" "ms_peers s' = m"
    by (auto simp: InsertMerge_def split: option.splits)
  have e: "merged u (ms_peers s) = e\<lparr>pi_Address := pi_Address u\<rparr>"
    using assms(2-5) by (simp add: merged_def mergePeer_def Let_def)
  show ?thesis
    using ok ne m(1)
  proof (cases rule: mergeLocked_cases)
    case same
    with e assms(2,5) show ?thesis by (metis PeerInfo.select_convs(2) PeerInfo.surjective PeerInfo.update_convs(2) option.inject)
  next
    case lost
    with e assms(6) show ?thesis by (auto simp: beaten_def)
  next
    case kept
    with e m(2) ins show ?thesis by auto
  qed
qed

lemma stale_update_moves_peer_witness:
  "\<exists>s'. InsertMerge (exPeer\<lparr>pi_Address := ''old'', pi_LastSeen := 1\<rparr>) (newInMemoryState\<lparr>ms_peers := [(''a'', exPeer)]\<rparr>) = Some (True, s') \<and>
    gm_get (ms_peers s') ''a'' = Some (exPeer\<lparr>pi_Address := ''old''\<rparr>)"
proof -
  have "topo_inv (newInMemoryState\<lparr>ms_peers := [(''a'', exPeer)]\<rparr>)"
    by (simp add: topo_inv_def topo_ok_def gm_wf_def gm_get_def exPeer_def newInMemoryState_def bus_ok_New)
  moreover have "pi_Address p \<noteq> ''old''" if "gm_get [(''a'', exPeer)] i = Some p" for i p
    using that by (auto simp: gm_get_def exPeer_def split: if_splits)
  ultimately show ?thesis
    using stale_update_moves_peer [of "newInMemoryState\<lparr>ms_peers := [(''a'', exPeer)]\<rparr>"
        "exPeer\<lparr>pi_Address := ''old'', pi_LastSeen := 1\<rparr>" exPeer]
    by (simp add: exPeer_def gm_get_Cons)
qed

text \<open>Saving is atomic and loading inverts it. Whatever step fails, the topology file holds its old content
  or the new one; after a successful save, loading gives back exactly the peers saved.\<close>

theorem topology_file_roundtrip:
  assumes "topo_ok m" and "filename \<noteq> ''''" and "fp_Save writeOk renameOk filename m fs = (ok, fs')"
  shows "(ok \<longleftrightarrow> writeOk \<and> renameOk) \<and> (ok \<longrightarrow> fp_Load True filename fs' = Loaded m) \<and>
    (\<not> ok \<longrightarrow> gm_get fs' filename = gm_get fs filename)"
proof -
  have ids: "(i, p) \<in> set m \<Longrightarrow> i \<noteq> '''' \<and> pi_ID p \<noteq> ''''" for i p
    using topo_okD [OF assms(1)] gm_in_set_iff [of m i p] by auto
  have "gm_keep (\<lambda>i p. \<not> (i = '''' \<or> (case p of None \<Rightarrow> True | Some q \<Rightarrow> pi_ID q = '''')))
      (map (\<lambda>(k, v). (k, Some v)) m) = map (\<lambda>(k, v). (k, Some v)) m"
    using ids by (fastforce simp: gm_keep_def intro!: filter_True)
  moreover have "map (\<lambda>(k, v). (k, the v)) (map (\<lambda>(k, v). (k, Some v)) m) = m" by (induction m) auto
  ultimately have "fp_Load True filename (gm_set filename (PeersJson (map (\<lambda>(k, v). (k, Some v)) m)) fs1) = Loaded m" for fs1
    using assms(2) by (simp add: fp_Load_def)
  with assms(2,3) show ?thesis
    by (auto simp: fp_Save_def Let_def split: if_splits)
qed

lemma topology_file_roundtrip_witness:
  "fp_Load True ''peers.json'' (snd (fp_Save True True ''peers.json'' [(''a'', exPeer)] [])) = Loaded [(''a'', exPeer)]"
proof -
  have "topo_ok [(''a'', exPeer)]" by (simp add: topo_ok_def gm_wf_def gm_get_def exPeer_def)
  from topology_file_roundtrip [OF this, of "''peers.json''" True True "[]" True
      "snd (fp_Save True True ''peers.json'' [(''a'', exPeer)] [])"]
  show ?thesis by (simp add: fp_Save_def Let_def)
qed

text \<open>A file that holds the JSON value \<^verbatim>\<open>null\<close> is accepted and disarms the node: the peer map is then nil, and
  the first peer to be merged crashes the process.\<close>

theorem null_file_panics:
  assumes "filename \<noteq> ''''" and "gm_get fs filename = Some NullJson" and "pi_ID u \<noteq> ''''"
  shows "InsertMerge u (NewPeerRepository True filename fs) = None"
  using assms by (simp add: InsertMerge_def mergeLocked_def NewPeerRepository_def fp_Load_def newInMemoryState_def)

lemma null_file_panics_witness:
  "InsertMerge exPeer (NewPeerRepository True ''peers.json'' [(''peers.json'', NullJson)]) = None"
  by (rule null_file_panics) (simp_all add: gm_get_def exPeer_def)

end
