(* ===== verification/DGMessage.thy ===== *)
theory DGMessage
  imports Prelude
begin

text \<open>
  \<^verbatim>\<open>internal/utils/dgmessage\<close>: the packet objects, the \<^verbatim>\<open>sync.Pool\<close> they are recycled through and
  the IPv4 header parser. Because the program hands out slices of a packet's backing array and
  recycles the object, the pool is modelled as a small heap: an object has an identity and a
  backing array, and a slice is a reference \<open>(object, length)\<close> into it. The runtime's choice which
  pooled object \<^verbatim>\<open>Get\<close> returns (or none, so that \<^verbatim>\<open>New\<close> runs) is an argument. A run-time panic
  (slice bounds) is \<open>None\<close>.
\<close>

unbundle bit_operations_syntax

section \<open>Byte access\<close>

definition go_at :: "'a list \<Rightarrow> nat \<Rightarrow> 'a option" where
  "go_at xs i = (if i < length xs then Some (xs ! i) else None)"

definition go_slice :: "'a list \<Rightarrow> nat \<Rightarrow> nat \<Rightarrow> 'a list option" where
  "go_slice xs i j = (if i \<le> j \<and> j \<le> length xs then Some (take (j - i) (drop i xs)) else None)"

text \<open>\<^verbatim>\<open>binary.BigEndian\<close>: reading short slices panics.\<close>

fun be16 :: "bytes \<Rightarrow> u16 option" where
  "be16 (a # b # _) = Some (ucast b OR push_bit 8 (ucast a))"
| "be16 _ = None"

fun be32 :: "bytes \<Rightarrow> u32 option" where
  "be32 (a # b # c # d # _) =
     Some (ucast d OR push_bit 8 (ucast c) OR push_bit 16 (ucast b) OR push_bit 24 (ucast a))"
| "be32 _ = None"

text \<open>\<^verbatim>\<open>binary.BigEndian.Uint16(d[i:i+2])\<close> and \<^verbatim>\<open>Uint32(d[i:i+4])\<close>.\<close>

definition read16 :: "bytes \<Rightarrow> nat \<Rightarrow> u16 option" where
  "read16 d i = Option.bind (go_slice d i (i + 2)) be16"

definition read32 :: "bytes \<Rightarrow> nat \<Rightarrow> u32 option" where
  "read32 d i = Option.bind (go_slice d i (i + 4)) be32"

definition put16 :: "u16 \<Rightarrow> bytes" where
  "put16 v = [ucast (drop_bit 8 v), ucast v]"

definition put32 :: "u32 \<Rightarrow> bytes" where
  "put32 v = [ucast (drop_bit 24 v), ucast (drop_bit 16 v), ucast (drop_bit 8 v), ucast v]"

section \<open>Messages and the pool\<close>

record HoleInfo =
  hi_SrcIP :: u32
  hi_DstIP :: u32
  hi_SrcPort :: u16
  hi_DstPort :: u16
  hi_Protocol :: string

record DatagramMessage =
  dm_mem :: bytes \<comment> \<open>the backing array, of the pool's capacity\<close>
  dm_len :: nat \<comment> \<open>\<^verbatim>\<open>len(msg.Data)\<close>\<close>
  dm_IPVersion :: int
  dm_HoleInfo :: HoleInfo
  dm_pooled :: bool \<comment> \<open>\<^verbatim>\<open>msg.pool != nil\<close>\<close>

definition dm_Data :: "DatagramMessage \<Rightarrow> bytes" where
  "dm_Data m = take (dm_len m) (dm_mem m)"

record dgMessagePoolImpl =
  dp_maxSize :: nat
  dp_objs :: "(nat, DatagramMessage) gomap"
  dp_free :: "nat list"
  dp_next :: nat

datatype dg_error = TooSmallIPv4 | OnlyIPv4 | ExceedsPool | TooSmallTCP | TooSmallUDP | UnsupportedL4

definition NewDGMessagePool :: "nat \<Rightarrow> dgMessagePoolImpl" where
  "NewDGMessagePool n = \<lparr>dp_maxSize = n, dp_objs = [], dp_free = [], dp_next = 0\<rparr>"

definition newMessage :: "nat \<Rightarrow> DatagramMessage" where
  "newMessage n =
     \<lparr>dm_mem = replicate n 0, dm_len = 0, dm_IPVersion = 4,
      dm_HoleInfo = \<lparr>hi_SrcIP = 0, hi_DstIP = 0, hi_SrcPort = 0, hi_DstPort = 0, hi_Protocol = ''''\<rparr>,
      dm_pooled = False\<rparr>"

definition pool_get :: "nat option \<Rightarrow> dgMessagePoolImpl \<Rightarrow> (nat \<times> DatagramMessage \<times> dgMessagePoolImpl)" where
  "pool_get choice p =
     (let fresh = (dp_next p, newMessage (dp_maxSize p), p\<lparr>dp_next := Suc (dp_next p)\<rparr>)
      in case choice of
           None \<Rightarrow> fresh
         | Some i \<Rightarrow>
             (if i \<in> set (dp_free p)
              then case gm_get (dp_objs p) i of
                     Some m \<Rightarrow> (i, m, p\<lparr>dp_free := remove1 i (dp_free p)\<rparr>)
                   | None \<Rightarrow> fresh
              else fresh))"

text \<open>
  The checks and header fields of \<^verbatim>\<open>NewMessageCopyFrom\<close>, in the order of the source: the port pair at
  an offset, the switch over the transport protocol, the whole header.
\<close>

definition read_ports :: "bytes \<Rightarrow> nat \<Rightarrow> (u16 \<times> u16) option" where
  "read_ports d ihl = do {
     sp \<leftarrow> read16 d ihl;
     dp \<leftarrow> read16 d (ihl + 2);
     Some (sp, dp)
   }"

definition parse_l4 :: "bytes \<Rightarrow> nat \<Rightarrow> u8 \<Rightarrow> (dg_error + (string \<times> u16 \<times> u16)) option" where
  "parse_l4 d ihl proto =
     (if proto = 6 then
        (if length d < ihl + 14 then Some (Inl TooSmallTCP)
         else map_option (\<lambda>(s, t). Inr (''tcp'', s, t)) (read_ports d ihl))
      else if proto = 17 then
        (if length d < ihl + 8 then Some (Inl TooSmallUDP)
         else map_option (\<lambda>(s, t). Inr (''udp'', s, t)) (read_ports d ihl))
      else if proto = 1 then Some (Inr (''icmp'', 0, 0))
      else Some (Inl UnsupportedL4))"

definition parse_header :: "nat \<Rightarrow> bytes \<Rightarrow> (dg_error + HoleInfo) option" where
  "parse_header maxSize d =
     (if length d < 20 then Some (Inl TooSmallIPv4)
      else do {
        b0 \<leftarrow> go_at d 0;
        if drop_bit 4 b0 \<noteq> 4 then Some (Inl OnlyIPv4)
        else if maxSize < length d then Some (Inl ExceedsPool)
        else do {
          proto \<leftarrow> go_at d 9;
          l4 \<leftarrow> parse_l4 d (unat (b0 AND 0x0F) * 4) proto;
          case l4 of
            Inl e \<Rightarrow> Some (Inl e)
          | Inr (protocol, srcPort, dstPort) \<Rightarrow> do {
              src \<leftarrow> read32 d 12;
              dst \<leftarrow> read32 d 16;
              Some (Inr \<lparr>hi_SrcIP = src, hi_DstIP = dst, hi_SrcPort = srcPort,
                         hi_DstPort = dstPort, hi_Protocol = protocol\<rparr>)
            }
        }
      })"

definition NewMessageCopyFrom ::
  "nat option \<Rightarrow> bytes \<Rightarrow> dgMessagePoolImpl \<Rightarrow> ((dg_error + nat) \<times> dgMessagePoolImpl) option" where
  "NewMessageCopyFrom choice d p = do {
     r \<leftarrow> parse_header (dp_maxSize p) d;
     case r of
       Inl e \<Rightarrow> Some (Inl e, p)
     | Inr hi \<Rightarrow>
         (let (i, m, p') = pool_get choice p
          in if length d \<le> length (dm_mem m)
             then let m' = m\<lparr>dm_pooled := True, dm_len := length d,
                             dm_mem := d @ drop (length d) (dm_mem m), dm_HoleInfo := hi\<rparr>
                  in Some (Inr i, p'\<lparr>dp_objs := gm_set i m' (dp_objs p')\<rparr>)
             else None)
   }"

text \<open>\<^verbatim>\<open>(msg *DatagramMessage) Free()\<close>; an identity that is no object stands for \<^verbatim>\<open>nil\<close>.\<close>

definition Free :: "nat \<Rightarrow> dgMessagePoolImpl \<Rightarrow> dgMessagePoolImpl" where
  "Free i p =
     (case gm_get (dp_objs p) i of
        None \<Rightarrow> p
      | Some m \<Rightarrow>
          if \<not> dm_pooled m then p
          else p\<lparr>dp_objs := gm_set i (m\<lparr>dm_len := 0,
                              dm_HoleInfo := (dm_HoleInfo m)\<lparr>hi_Protocol := ''''\<rparr>\<rparr>) (dp_objs p),
                 dp_free := i # dp_free p\<rparr>)"

text \<open>A slice \<^verbatim>\<open>msg.Data\<close> held elsewhere: object and length, read through the heap.\<close>

type_synonym slice = "nat \<times> nat"

definition slice_of :: "nat \<Rightarrow> dgMessagePoolImpl \<Rightarrow> slice" where
  "slice_of i p = (i, case gm_get (dp_objs p) i of None \<Rightarrow> 0 | Some m \<Rightarrow> dm_len m)"

definition slice_read :: "slice \<Rightarrow> dgMessagePoolImpl \<Rightarrow> bytes" where
  "slice_read s p = (case gm_get (dp_objs p) (fst s) of None \<Rightarrow> [] | Some m \<Rightarrow> take (snd s) (dm_mem m))"

definition msg_hole :: "nat \<Rightarrow> dgMessagePoolImpl \<Rightarrow> HoleInfo" where
  "msg_hole i p =
     (case gm_get (dp_objs p) i of None \<Rightarrow> dm_HoleInfo (newMessage 0) | Some m \<Rightarrow> dm_HoleInfo m)"

section \<open>The pool invariant\<close>

text \<open>
  Every object has a full backing array and a length within it; the free list names existing
  objects. Whether the free list has duplicates is kept apart (\<open>pool_linear\<close>), because it is what a
  second \<^verbatim>\<open>Free\<close> of the same packet breaks.
\<close>

definition pool_ok :: "dgMessagePoolImpl \<Rightarrow> bool" where
  "pool_ok p \<longleftrightarrow>
     gm_wf (dp_objs p) \<and>
     (\<forall>i m. gm_get (dp_objs p) i = Some m \<longrightarrow>
        i < dp_next p \<and> length (dm_mem m) = dp_maxSize p \<and> dm_len m \<le> dp_maxSize p) \<and>
     (\<forall>i \<in> set (dp_free p). gm_get (dp_objs p) i \<noteq> None)"

definition pool_linear :: "dgMessagePoolImpl \<Rightarrow> bool" where
  "pool_linear p \<longleftrightarrow> distinct (dp_free p)"

lemma pool_okD:
  assumes "pool_ok p"
  shows "gm_wf (dp_objs p)"
    and "gm_get (dp_objs p) i = Some m \<Longrightarrow> i < dp_next p"
    and "gm_get (dp_objs p) i = Some m \<Longrightarrow> length (dm_mem m) = dp_maxSize p"
    and "i \<in> set (dp_free p) \<Longrightarrow> \<exists>m. gm_get (dp_objs p) i = Some m"
  using assms by (auto simp: pool_ok_def)

lemma pool_next_not_free: "pool_ok p \<Longrightarrow> dp_next p \<notin> set (dp_free p)"
  using pool_okD by blast

lemma pool_next_fresh: "pool_ok p \<Longrightarrow> gm_get (dp_objs p) (dp_next p) = None"
  by (cases "gm_get (dp_objs p) (dp_next p)") (auto dest: pool_okD(2))

text \<open>\<^verbatim>\<open>Get\<close> takes an object off the free list or makes a new one.\<close>

lemma pool_getE:
  assumes "pool_ok p" and "pool_get choice p = (i, m, q)"
  obtains (pooled) "i \<in> set (dp_free p)" "gm_get (dp_objs p) i = Some m"
      "q = p\<lparr>dp_free := remove1 i (dp_free p)\<rparr>"
  | (fresh) "i = dp_next p" "m = newMessage (dp_maxSize p)" "q = p\<lparr>dp_next := Suc (dp_next p)\<rparr>"
  using assms by (auto simp: pool_get_def Let_def split: option.splits if_splits)

lemma pool_get_mem:
  assumes "pool_ok p" and "pool_get choice p = (i, m, q)"
  shows "length (dm_mem m) = dp_maxSize p" and "dp_maxSize q = dp_maxSize p"
    and "dp_objs q = dp_objs p"
  using assms(2) pool_okD(3) [OF assms(1)]
  by (auto elim!: pool_getE [OF assms(1)] simp: newMessage_def)

section \<open>The parser never panics\<close>

lemma be16_total: "2 \<le> length xs \<Longrightarrow> \<exists>v. be16 xs = Some v"
  by (cases xs rule: be16.cases) auto

lemma be32_total: "4 \<le> length xs \<Longrightarrow> \<exists>v. be32 xs = Some v"
  by (cases xs rule: be32.cases) auto

lemma read16_total: "i + 2 \<le> length d \<Longrightarrow> \<exists>v. read16 d i = Some v"
  using be16_total [of "take 2 (drop i d)"] by (simp add: read16_def go_slice_def)

lemma read32_total: "i + 4 \<le> length d \<Longrightarrow> \<exists>v. read32 d i = Some v"
  using be32_total [of "take 4 (drop i d)"] by (simp add: read32_def go_slice_def)

lemma read_ports_total: "ihl + 4 \<le> length d \<Longrightarrow> \<exists>v. read_ports d ihl = Some v"
  using read16_total [of ihl d] read16_total [of "ihl + 2" d] by (auto simp: read_ports_def)

lemma parse_l4_total: "\<exists>v. parse_l4 d ihl proto = Some v"
  using read_ports_total [of ihl d] by (auto simp: parse_l4_def)

lemma parse_header_total: "\<exists>r. parse_header n d = Some r"
proof (cases "20 \<le> length d")
  case True
  obtain s t where "read32 d 12 = Some s" "read32 d 16 = Some t"
    using read32_total [of 12 d] read32_total [of 16 d] True by auto
  moreover obtain l4 where "parse_l4 d (unat (d ! 0 AND 0x0F) * 4) (d ! 9) = Some l4"
    using parse_l4_total by blast
  ultimately show ?thesis
    using True by (auto simp: parse_header_def go_at_def split: sum.splits)
next
  case False
  then show ?thesis by (simp add: parse_header_def)
qed

section \<open>Pool operations keep the pool well formed\<close>

lemma pool_ok_New: "pool_ok (NewDGMessagePool n)" "pool_linear (NewDGMessagePool n)"
  by (simp_all add: pool_ok_def pool_linear_def NewDGMessagePool_def)

lemma pool_ok_Free: "pool_ok p \<Longrightarrow> pool_ok (Free i p)"
  by (auto simp: pool_ok_def Free_def split: option.splits if_splits)

lemma pool_linear_Free: "pool_linear p \<Longrightarrow> i \<notin> set (dp_free p) \<Longrightarrow> pool_linear (Free i p)"
  by (auto simp: pool_linear_def Free_def split: option.splits)

lemma parse_header_fits: "parse_header n d = Some (Inr hi) \<Longrightarrow> length d \<le> n"
  by (auto simp: parse_header_def split: if_splits bind_splits)

lemma pool_ok_get_set:
  assumes "pool_ok p" and "pool_get choice p = (i, m, q)"
    and "length (dm_mem m') = dp_maxSize p" and "dm_len m' \<le> dp_maxSize p"
  shows "pool_ok (q\<lparr>dp_objs := gm_set i m' (dp_objs q)\<rparr>)"
  using assms(1,2)
proof (cases rule: pool_getE)
  case pooled
  with assms show ?thesis by (auto simp: pool_ok_def dest: notin_set_remove1)
next
  case fresh
  with assms show ?thesis by (auto simp: pool_ok_def less_Suc_eq)
qed

lemma NewMessageCopyFrom_cases:
  assumes "pool_ok p"
  obtains (err) e where "parse_header (dp_maxSize p) d = Some (Inl e)"
      "NewMessageCopyFrom choice d p = Some (Inl e, p)"
  | (msg) hi i m q where "parse_header (dp_maxSize p) d = Some (Inr hi)"
      "pool_get choice p = (i, m, q)" "length d \<le> length (dm_mem m)"
      "NewMessageCopyFrom choice d p =
         Some (Inr i, q\<lparr>dp_objs := gm_set i (m\<lparr>dm_pooled := True, dm_len := length d,
           dm_mem := d @ drop (length d) (dm_mem m), dm_HoleInfo := hi\<rparr>) (dp_objs q)\<rparr>)"
proof -
  obtain r where r: "parse_header (dp_maxSize p) d = Some r"
    using parse_header_total by blast
  obtain i m q where g: "pool_get choice p = (i, m, q)" by (cases "pool_get choice p") auto
  show ?thesis
  proof (cases r)
    case (Inl e)
    with r show ?thesis by (intro err) (simp_all add: NewMessageCopyFrom_def)
  next
    case (Inr hi)
    with r have "length d \<le> length (dm_mem m)"
      using parse_header_fits pool_get_mem(1) [OF assms g] by simp
    with r g Inr show ?thesis by (intro msg) (simp_all add: NewMessageCopyFrom_def Let_def)
  qed
qed

section \<open>Big-endian round trips\<close>

lemma be16_put16 [simp]: "be16 (put16 v @ r) = Some v"
  by (auto simp: put16_def bit_eq_iff bit_simps)

lemma be32_put32 [simp]: "be32 (put32 v @ r) = Some v"
proof -
  have *: "bit v (24 + (n - 24))" if "bit v n" "\<not> n - 16 < 8" for n
    using that by (cases "24 \<le> n") simp_all
  show ?thesis by (auto simp: put32_def bit_eq_iff bit_simps dest: *)
qed

lemma length_put [simp]: "length (put16 v) = 2" "length (put32 w) = 4"
  by (simp_all add: put16_def put32_def)

text \<open>An IPv4 packet with its options, as the sender lays it out (RFC 791): the specification side.\<close>

definition ipv4_packet :: "u8 \<Rightarrow> bytes \<Rightarrow> u8 \<Rightarrow> bytes \<Rightarrow> u32 \<Rightarrow> u32 \<Rightarrow> bytes \<Rightarrow> bytes \<Rightarrow> bytes" where
  "ipv4_packet words mid proto chk src dst opts payload =
     [0x40 OR words] @ mid @ [proto] @ chk @ put32 src @ put32 dst @ opts @ payload"

definition ipv4_shape :: "u8 \<Rightarrow> bytes \<Rightarrow> bytes \<Rightarrow> bytes \<Rightarrow> bool" where
  "ipv4_shape words mid chk opts \<longleftrightarrow>
     5 \<le> words \<and> words \<le> 15 \<and> length mid = 8 \<and> length chk = 2 \<and> length opts = (unat words - 5) * 4"

lemma header_byte:
  assumes "(w :: u8) \<le> 15"
  shows "drop_bit 4 (0x40 OR w) = 4" and "(0x40 OR w) AND 0x0F = w"
proof -
  have all: "\<forall>k \<in> set [0..<16]. drop_bit 4 (0x40 OR word_of_nat k :: u8) = 4 \<and>
      (0x40 OR word_of_nat k :: u8) AND 0x0F = word_of_nat k"
    by (simp add: upt_rec)
  from assms have "unat w \<in> set [0..<16]"
    by (simp add: word_le_nat_alt)
  from bspec [OF all this] show "drop_bit 4 (0x40 OR w) = 4" and "(0x40 OR w) AND 0x0F = w"
    by simp_all
qed

lemma read16_at: "length xs = i \<Longrightarrow> read16 (xs @ put16 v @ r) i = Some v"
  using be16_put16 [of v "[]"] by (simp add: read16_def go_slice_def)

lemma read32_at: "length xs = i \<Longrightarrow> read32 (xs @ put32 v @ r) i = Some v"
  using be32_put32 [of v "[]"] by (simp add: read32_def go_slice_def)

lemma ipv4_packet_fields:
  assumes "ipv4_shape words mid chk opts"
  shows "go_at (ipv4_packet words mid proto chk src dst opts pl) 0 = Some (0x40 OR words)"
    and "go_at (ipv4_packet words mid proto chk src dst opts pl) 9 = Some proto"
    and "read32 (ipv4_packet words mid proto chk src dst opts pl) 12 = Some src"
    and "read32 (ipv4_packet words mid proto chk src dst opts pl) 16 = Some dst"
    and "length (ipv4_packet words mid proto chk src dst opts pl) = unat words * 4 + length pl"
    and "5 \<le> unat words"
    and "drop_bit 4 (0x40 OR words) = 4" and "(0x40 OR words) AND 0x0F = words"
  using assms read32_at [of "[0x40 OR words] @ mid @ [proto] @ chk" 12 src "put32 dst @ opts @ pl"]
    read32_at [of "[0x40 OR words] @ mid @ [proto] @ chk @ put32 src" 16 dst "opts @ pl"] header_byte
  by (auto simp: ipv4_packet_def ipv4_shape_def go_at_def nth_append nth_Cons' word_le_nat_alt)

lemma ipv4_packet_ports:
  assumes "ipv4_shape words mid chk opts"
  shows "read_ports (ipv4_packet words mid proto chk src dst opts (put16 sp @ put16 dp @ data))
           (unat words * 4) = Some (sp, dp)"
proof -
  let ?h = "[0x40 OR words] @ mid @ [proto] @ chk @ put32 src @ put32 dst @ opts"
  from ipv4_packet_fields(6) [OF assms] assms have len: "length ?h = unat words * 4"
    by (simp add: ipv4_shape_def)
  have "read16 (?h @ put16 sp @ put16 dp @ data) (unat words * 4) = Some sp"
    by (rule read16_at) (rule len)
  moreover have "read16 ((?h @ put16 sp) @ put16 dp @ data) (unat words * 4 + 2) = Some dp"
    by (rule read16_at) (use len in simp)
  ultimately show ?thesis by (simp add: read_ports_def ipv4_packet_def)
qed

lemmas ipv4_packet_simps = ipv4_packet_fields(1-5,7,8)

section \<open>Recycling\<close>

text \<open>
  A slice of a packet keeps pointing into the packet's backing array. Once the packet was freed and
  its object taken again, the slice shows the bytes of the new packet.
\<close>

lemma slice_read_after_reuse:
  assumes "pool_ok p" and "NewMessageCopyFrom choice d p = Some (Inr i, q)" and "n \<le> length d"
  shows "slice_read (i, n) q = take n d"
  using assms(1)
proof (cases rule: NewMessageCopyFrom_cases [where choice = choice and d = d])
  case err
  with assms show ?thesis by simp
next
  case msg
  with assms show ?thesis by (auto simp: slice_read_def)
qed

lemma Free_keeps_mem: "slice_read s (Free i p) = slice_read s p"
  by (auto simp: slice_read_def Free_def split: option.splits)

lemma Free_in_free:
  assumes "gm_get (dp_objs p) i = Some m" and "dm_pooled m"
  shows "dp_free (Free i p) = i # dp_free p" and "\<exists>m'. gm_get (dp_objs (Free i p)) i = Some m' \<and> dm_pooled m'"
  using assms by (auto simp: Free_def)

lemma NewMessageCopyFrom_pooled:
  assumes "pool_ok p" and "NewMessageCopyFrom choice d p = Some (Inr i, q)"
  shows "\<exists>m. gm_get (dp_objs q) i = Some m \<and> dm_pooled m \<and> dm_len m = length d"
  using assms(1)
proof (cases rule: NewMessageCopyFrom_cases [where choice = choice and d = d])
  case err
  with assms show ?thesis by simp
next
  case msg
  with assms show ?thesis by auto
qed

lemma NewMessageCopyFrom_choice:
  assumes "pool_ok p" and "i \<in> set (dp_free p)" and "NewMessageCopyFrom (Some i) d p = Some (Inr j, q)"
  shows "j = i" and "dp_free q = remove1 i (dp_free p)"
proof -
  from pool_okD(4) [OF assms(1,2)] obtain m where m: "gm_get (dp_objs p) i = Some m" by blast
  then have g: "pool_get (Some i) p = (i, m, p\<lparr>dp_free := remove1 i (dp_free p)\<rparr>)"
    using assms(2) by (simp add: pool_get_def)
  show "j = i" and "dp_free q = remove1 i (dp_free p)"
    using assms(3) g by (auto simp: NewMessageCopyFrom_def Let_def split: bind_splits sum.splits if_splits)
qed

section \<open>Properties of the packet layer\<close>

text \<open>C38: parsing inverts the IPv4 layout. A packet laid out with any number of header words from 5 to
  15 (options included), TCP with at least 14 bytes after the header or UDP with at least 8, not larger
  than the pool's buffers, is accepted and its addresses, ports and protocol are the sender's.\<close>

theorem parse_ipv4_roundtrip:
  assumes "ipv4_shape words mid chk opts"
    and "(proto, name, need) \<in> {(6, ''tcp'', 10), (17, ''udp'', 4)}" and "need \<le> length data"
    and "length (ipv4_packet words mid proto chk src dst opts (put16 sp @ put16 dp @ data)) \<le> n"
  shows "parse_header n (ipv4_packet words mid proto chk src dst opts (put16 sp @ put16 dp @ data)) =
    Some (Inr \<lparr>hi_SrcIP = src, hi_DstIP = dst, hi_SrcPort = sp, hi_DstPort = dp, hi_Protocol = name\<rparr>)"
proof -
  note packet = ipv4_packet_simps [OF assms(1)] ipv4_packet_ports [OF assms(1)]
  let ?p = "ipv4_packet words mid proto chk src dst opts (put16 sp @ put16 dp @ data)"
  from assms(2,3) have "parse_l4 ?p (unat words * 4) proto = Some (Inr (name, sp, dp))"
    by (auto simp: parse_l4_def packet)
  with assms(4) ipv4_packet_fields(6,7) [OF assms(1)] show ?thesis
    by (simp add: parse_header_def packet)
qed

lemma parse_ipv4_roundtrip_witness:
  "parse_header 65535 (ipv4_packet 5 [0, 0, 34, 0, 0, 0, 0, 64] 17 [0, 0] 0x0A010002 0x0A010003 []
      (put16 5000 @ put16 53 @ [0, 14, 0, 0, 1, 2])) =
    Some (Inr \<lparr>hi_SrcIP = 0x0A010002, hi_DstIP = 0x0A010003, hi_SrcPort = 5000, hi_DstPort = 53,
               hi_Protocol = ''udp''\<rparr>)"
  by (rule parse_ipv4_roundtrip [where need = 4])
    (simp_all add: ipv4_shape_def ipv4_packet_def put16_def put32_def)

text \<open>Making a message never panics, whatever the bytes and whichever pooled object the runtime
  returns. A rejected packet leaves the pool as it was. An accepted one is held by an object that was
  new or on the free list, reads back as the input, and no slice of another object changes.\<close>

theorem NewMessageCopyFrom_correct:
  assumes "pool_ok p"
  shows "\<exists>r q. NewMessageCopyFrom choice d p = Some (r, q) \<and> pool_ok q \<and>
    (case r of
       Inl e \<Rightarrow> q = p
     | Inr i \<Rightarrow> slice_read (slice_of i q) q = d \<and> (\<forall>s. fst s \<noteq> i \<longrightarrow> slice_read s q = slice_read s p) \<and>
               (gm_get (dp_objs p) i = None \<or> i \<in> set (dp_free p)))"
  using assms
proof (cases rule: NewMessageCopyFrom_cases [where choice = choice and d = d])
  case err
  with assms show ?thesis by simp
next
  case (msg hi i m q)
  from pool_get_mem [OF assms msg(2)] have mem: "length (dm_mem m) = dp_maxSize p" "dp_objs q = dp_objs p"
    by simp_all
  have "gm_get (dp_objs p) i = None \<or> i \<in> set (dp_free p)"
    using assms msg(2) by (cases rule: pool_getE) (auto simp: pool_next_fresh [OF assms])
  moreover have "pool_ok (q\<lparr>dp_objs := gm_set i (m\<lparr>dm_pooled := True, dm_len := length d,
      dm_mem := d @ drop (length d) (dm_mem m), dm_HoleInfo := hi\<rparr>) (dp_objs q)\<rparr>)"
    using msg(3) mem by (intro pool_ok_get_set [OF assms msg(2)]) simp_all
  ultimately show ?thesis
    using msg mem by (simp add: slice_read_def slice_of_def)
qed

lemma NewMessageCopyFrom_correct_witness:
  "\<exists>r q. NewMessageCopyFrom None [1, 2, 3] (NewDGMessagePool 65535) = Some (r, q) \<and> pool_ok q"
  using NewMessageCopyFrom_correct [OF pool_ok_New(1) [of 65535], of None "[1, 2, 3]"] by blast

text \<open>The header length field is not checked. A TCP packet that claims zero header words is accepted
  and its ports are read from the first four bytes of the IP header itself (version, type of service,
  total length), so the firewall judges ports that are not the packet's.\<close>

theorem short_ihl_ports_from_header:
  assumes "20 \<le> length d" and "length d \<le> n" and "d ! 0 = 0x40" and "d ! 9 = 6"
  shows "\<exists>hi. parse_header n d = Some (Inr hi) \<and>
    read16 d 0 = Some (hi_SrcPort hi) \<and> read16 d 2 = Some (hi_DstPort hi)"
proof -
  obtain s t where s: "read16 d 0 = Some s" and t: "read16 d 2 = Some t"
    using read16_total [of 0 d] read16_total [of 2 d] assms(1) by auto
  obtain src dst where "read32 d 12 = Some src" "read32 d 16 = Some dst"
    using read32_total [of 12 d] read32_total [of 16 d] assms(1) by auto
  moreover have "parse_l4 d 0 6 = Some (Inr (''tcp'', s, t))"
    using assms(1) s t by (simp add: parse_l4_def read_ports_def numeral_2_eq_2)
  ultimately show ?thesis
    using assms s t by (auto simp: parse_header_def go_at_def)
qed

lemma short_ihl_ports_from_header_witness:
  "\<exists>hi. parse_header 65535 ([0x40, 0, 0, 20, 0, 0, 0, 0, 64, 6] @ replicate 10 0) = Some (Inr hi) \<and>
    read16 ([0x40, 0, 0, 20, 0, 0, 0, 0, 64, 6] @ replicate 10 0) 0 = Some (hi_SrcPort hi) \<and>
    read16 ([0x40, 0, 0, 20, 0, 0, 0, 0, 64, 6] @ replicate 10 0) 2 = Some (hi_DstPort hi)"
  by (rule short_ihl_ports_from_header) (simp_all add: nth_append)

end
