(* ===== verification/Firewall.thy ===== *)
theory Firewall
  imports DGMessage
begin

text \<open>
  \<^verbatim>\<open>pkg/firewall\<close>: the stateful firewall. Rules are indexed twice, by a 64-bit key (a short node
  number in the high 16 bits, the rule number in the low 48) and by the protected address; a hole is
  a flow that was let through and stays open until it expires. The operations are those of
  \<^verbatim>\<open>firewallEngineImpl\<close>, each taking and returning the engine's state; the clock is an argument.
\<close>



section \<open>State\<close>

record PortRuleIndex =
  pri_NodeID :: string
  pri_RuleID :: u64

record PortRule =
  pr_index :: PortRuleIndex
  pr_Address :: u32
  pr_TargetAddress :: "u32 option"
  pr_Protocol :: string
  pr_PortRangeStart :: u16
  pr_PortRangeEnd :: "u16 option"

record RuleDump =
  rd_NodeID :: string
  rd_RuleID :: u64
  rd_Address :: u32
  rd_TargetAddress :: "u32 option"
  rd_Protocol :: string
  rd_PortRangeStart :: u16
  rd_PortRangeEnd :: "u16 option"

record hole =
  h_expire :: gotime
  h_info :: HoleInfo

record firewallEngineImpl =
  rulesByAddr :: "(u32, u64 list) gomap"
  rulesByID :: "(u64, PortRule) gomap"
  shortIdByNodeId :: "(string, u16) gomap"
  nextShortID :: u16
  holes :: "(string, hole) gomap"

definition fw_New :: firewallEngineImpl where
  "fw_New = \<lparr>rulesByAddr = [], rulesByID = [], shortIdByNodeId = [], nextShortID = 0, holes = []\<rparr>"

text \<open>The zero value a Go map lookup yields for a missing rule.\<close>

definition zeroRule :: PortRule where
  "zeroRule = \<lparr>pr_index = \<lparr>pri_NodeID = '''', pri_RuleID = 0\<rparr>, pr_Address = 0, pr_TargetAddress = None,
     pr_Protocol = '''', pr_PortRangeStart = 0, pr_PortRangeEnd = None\<rparr>"

text \<open>\<^verbatim>\<open>m[k]\<close> of a map of slices: the nil slice for a missing key.\<close>

definition sliceAt :: "('k, 'v list) gomap \<Rightarrow> 'k \<Rightarrow> 'v list" where
  "sliceAt m k = (case gm_get m k of None \<Rightarrow> [] | Some l \<Rightarrow> l)"

section \<open>Keys\<close>

definition makeGlobalKey :: "u16 \<Rightarrow> u64 \<Rightarrow> u64" where
  "makeGlobalKey shortID localRuleID = push_bit 48 (ucast shortID) OR (localRuleID AND 0x0000FFFFFFFFFFFF)"

definition getShortID :: "string \<Rightarrow> firewallEngineImpl \<Rightarrow> u16 option" where
  "getShortID node fw = gm_get (shortIdByNodeId fw) node"

definition getOrCreateShortID :: "string \<Rightarrow> firewallEngineImpl \<Rightarrow> u16 \<times> firewallEngineImpl" where
  "getOrCreateShortID node fw =
     (case gm_get (shortIdByNodeId fw) node of
        Some i \<Rightarrow> (i, fw)
      | None \<Rightarrow>
          let n = nextShortID fw + 1
          in (n, fw\<lparr>nextShortID := n, shortIdByNodeId := gm_set node n (shortIdByNodeId fw)\<rparr>))"

definition makeFlowKey :: "u32 \<Rightarrow> u32 \<Rightarrow> u16 \<Rightarrow> u16 \<Rightarrow> string \<Rightarrow> string" where
  "makeFlowKey srcIP dstIP srcPort dstPort protocol =
     (if protocol = ''icmp'' then
        (if srcIP < dstIP then show_word srcIP @ ''|'' @ show_word dstIP @ ''|icmp''
         else show_word dstIP @ ''|'' @ show_word srcIP @ ''|icmp'')
      else if srcIP < dstIP \<or> (srcIP = dstIP \<and> srcPort < dstPort) then
        show_word srcIP @ ''|'' @ show_word dstIP @ ''|'' @ show_word srcPort @ ''|'' @
          show_word dstPort @ ''|'' @ protocol
      else
        show_word dstIP @ ''|'' @ show_word srcIP @ ''|'' @ show_word dstPort @ ''|'' @
          show_word srcPort @ ''|'' @ protocol)"

definition flowKey :: "HoleInfo \<Rightarrow> string" where
  "flowKey hi = makeFlowKey (hi_SrcIP hi) (hi_DstIP hi) (hi_SrcPort hi) (hi_DstPort hi) (hi_Protocol hi)"

section \<open>Control plane\<close>

definition AddRule :: "PortRuleIndex \<Rightarrow> PortRule \<Rightarrow> firewallEngineImpl \<Rightarrow> bool \<times> firewallEngineImpl" where
  "AddRule index rule fw =
     (if pri_NodeID index = '''' then (False, fw)
      else
        let (shortNodeID, fw1) = getOrCreateShortID (pri_NodeID index) fw;
            ruleID = makeGlobalKey shortNodeID (pri_RuleID index)
        in case gm_get (rulesByID fw1) ruleID of
             Some _ \<Rightarrow> (False, fw1)
           | None \<Rightarrow>
               let rule' = rule\<lparr>pr_index := index\<rparr>;
                   ids = sliceAt (rulesByAddr fw1) (pr_Address rule')
               in (True, fw1\<lparr>rulesByID := gm_set ruleID rule' (rulesByID fw1),
                             rulesByAddr := gm_set (pr_Address rule') (ids @ [ruleID]) (rulesByAddr fw1)\<rparr>))"

definition ExistsRule :: "PortRuleIndex \<Rightarrow> firewallEngineImpl \<Rightarrow> bool" where
  "ExistsRule index fw =
     (case getShortID (pri_NodeID index) fw of
        None \<Rightarrow> False
      | Some shortNodeID \<Rightarrow> gm_has (rulesByID fw) (makeGlobalKey shortNodeID (pri_RuleID index)))"

definition dumpRule :: "PortRule \<Rightarrow> RuleDump" where
  "dumpRule rule =
     \<lparr>rd_NodeID = pri_NodeID (pr_index rule), rd_RuleID = pri_RuleID (pr_index rule),
      rd_Address = pr_Address rule, rd_TargetAddress = pr_TargetAddress rule,
      rd_Protocol = pr_Protocol rule, rd_PortRangeStart = pr_PortRangeStart rule,
      rd_PortRangeEnd = pr_PortRangeEnd rule\<rparr>"

definition DumpRules :: "firewallEngineImpl \<Rightarrow> RuleDump list" where
  "DumpRules fw = map dumpRule (gm_vals (rulesByID fw))"

section \<open>Hot path\<close>

definition targetOk :: "PortRule \<Rightarrow> HoleInfo \<Rightarrow> bool" where
  "targetOk rule hi = (case pr_TargetAddress rule of None \<Rightarrow> True | Some t \<Rightarrow> t = hi_SrcIP hi)"

definition portRuleOk :: "PortRule \<Rightarrow> HoleInfo \<Rightarrow> bool" where
  "portRuleOk rule hi =
     (if \<not> targetOk rule hi then False
      else if pr_Protocol rule \<noteq> ''both'' \<and> pr_Protocol rule \<noteq> hi_Protocol hi then False
      else case pr_PortRangeEnd rule of
             None \<Rightarrow> pr_PortRangeStart rule = hi_DstPort hi
           | Some e \<Rightarrow> pr_PortRangeStart rule \<le> hi_DstPort hi \<and> hi_DstPort hi \<le> e)"

definition ruleAt :: "firewallEngineImpl \<Rightarrow> u64 \<Rightarrow> PortRule" where
  "ruleAt fw i = (case gm_get (rulesByID fw) i of None \<Rightarrow> zeroRule | Some r \<Rightarrow> r)"

definition rulesAllow :: "HoleInfo \<Rightarrow> firewallEngineImpl \<Rightarrow> bool" where
  "rulesAllow hi fw =
     (case gm_get (rulesByAddr fw) (hi_DstIP hi) of
        None \<Rightarrow> False
      | Some rulesIds \<Rightarrow>
          if hi_Protocol hi = ''icmp'' then list_ex (\<lambda>i. targetOk (ruleAt fw i) hi) rulesIds
          else list_ex (\<lambda>i. portRuleOk (ruleAt fw i) hi) rulesIds)"

definition RuleCheck :: "gotime \<Rightarrow> HoleInfo \<Rightarrow> firewallEngineImpl \<Rightarrow> bool \<times> firewallEngineImpl" where
  "RuleCheck now hi fw =
     (case gm_get (holes fw) (flowKey hi) of
        None \<Rightarrow> (rulesAllow hi fw, fw)
      | Some h \<Rightarrow>
          if now < h_expire h then (True, fw)
          else let fw' = fw\<lparr>holes := gm_del (flowKey hi) (holes fw)\<rparr> in (rulesAllow hi fw', fw'))"

definition Holepunch :: "gotime \<Rightarrow> HoleInfo \<Rightarrow> duration \<Rightarrow> firewallEngineImpl \<Rightarrow> firewallEngineImpl" where
  "Holepunch now hi dur fw =
     fw\<lparr>holes := gm_set (flowKey hi) \<lparr>h_expire = now + dur, h_info = hi\<rparr> (holes fw)\<rparr>"

definition dropUnauthorizedHoles :: "firewallEngineImpl \<Rightarrow> firewallEngineImpl" where
  "dropUnauthorizedHoles fw = fw\<lparr>holes := gm_keep (\<lambda>_ h. rulesAllow (h_info h) fw) (holes fw)\<rparr>"

definition RemoveRule :: "PortRuleIndex \<Rightarrow> firewallEngineImpl \<Rightarrow> bool \<times> firewallEngineImpl" where
  "RemoveRule index fw =
     (case getShortID (pri_NodeID index) fw of
        None \<Rightarrow> (False, fw)
      | Some shortNodeID \<Rightarrow>
          let ruleID = makeGlobalKey shortNodeID (pri_RuleID index)
          in case gm_get (rulesByID fw) ruleID of
               None \<Rightarrow> (False, fw)
             | Some rule \<Rightarrow>
                 let a = pr_Address rule;
                     ids = sliceAt (rulesByAddr fw) a;
                     addr1 = (if ruleID \<in> set ids then gm_set a (remove1 ruleID ids) (rulesByAddr fw)
                              else rulesByAddr fw);
                     addr2 = (if sliceAt addr1 a = [] then gm_del a addr1 else addr1)
                 in (True, dropUnauthorizedHoles
                       (fw\<lparr>rulesByID := gm_del ruleID (rulesByID fw), rulesByAddr := addr2\<rparr>)))"

section \<open>The invariant\<close>

text \<open>
  The two rule maps are views of one set of rules: the list of an address holds exactly the keys of
  the rules for it, never empty and without duplicates; a rule's key is made of its own index; a hole
  sits under the key of the flow it records.
\<close>

definition fw_wf :: "firewallEngineImpl \<Rightarrow> bool" where
  "fw_wf fw \<longleftrightarrow> gm_wf (rulesByAddr fw) \<and> gm_wf (rulesByID fw) \<and> gm_wf (shortIdByNodeId fw) \<and> gm_wf (holes fw)"

definition fw_index :: "firewallEngineImpl \<Rightarrow> bool" where
  "fw_index fw \<longleftrightarrow>
     (\<forall>a. gm_get (rulesByAddr fw) a \<noteq> Some [] \<and> distinct (sliceAt (rulesByAddr fw) a) \<and>
        (\<forall>i. i \<in> set (sliceAt (rulesByAddr fw) a) \<longleftrightarrow>
             (\<exists>r. gm_get (rulesByID fw) i = Some r \<and> pr_Address r = a)))"

definition fw_keys :: "firewallEngineImpl \<Rightarrow> bool" where
  "fw_keys fw \<longleftrightarrow>
     (\<forall>i r. gm_get (rulesByID fw) i = Some r \<longrightarrow>
        pri_NodeID (pr_index r) \<noteq> '''' \<and>
        (\<exists>s. getShortID (pri_NodeID (pr_index r)) fw = Some s \<and>
             i = makeGlobalKey s (pri_RuleID (pr_index r))))"

definition fw_holes :: "firewallEngineImpl \<Rightarrow> bool" where
  "fw_holes fw \<longleftrightarrow> (\<forall>k h. gm_get (holes fw) k = Some h \<longrightarrow> k = flowKey (h_info h))"

definition fw_inv :: "firewallEngineImpl \<Rightarrow> bool" where
  "fw_inv fw \<longleftrightarrow> fw_wf fw \<and> fw_index fw \<and> fw_keys fw \<and> fw_holes fw"

text \<open>Short node numbers are unambiguous as long as the 16-bit counter has not wrapped.\<close>

definition short_ok :: "firewallEngineImpl \<Rightarrow> bool" where
  "short_ok fw \<longleftrightarrow>
     unat (nextShortID fw) = length (shortIdByNodeId fw) \<and>
     (\<forall>n s. gm_get (shortIdByNodeId fw) n = Some s \<longrightarrow> s \<le> nextShortID fw) \<and>
     (\<forall>n n' s. gm_get (shortIdByNodeId fw) n = Some s \<longrightarrow> gm_get (shortIdByNodeId fw) n' = Some s \<longrightarrow> n = n')"

section \<open>The abstract policy\<close>

text \<open>What the engine promises: a finite map from rule indices to rules, and who may reach whom.\<close>

definition policy :: "firewallEngineImpl \<Rightarrow> PortRuleIndex \<Rightarrow> PortRule option" where
  "policy fw idx =
     (case getShortID (pri_NodeID idx) fw of
        None \<Rightarrow> None
      | Some s \<Rightarrow> gm_get (rulesByID fw) (makeGlobalKey s (pri_RuleID idx)))"

definition rule_permits :: "PortRule \<Rightarrow> HoleInfo \<Rightarrow> bool" where
  "rule_permits r hi \<longleftrightarrow>
     pr_Address r = hi_DstIP hi \<and> (\<forall>t. pr_TargetAddress r = Some t \<longrightarrow> t = hi_SrcIP hi) \<and>
     (hi_Protocol hi = ''icmp'' \<or>
      pr_Protocol r \<in> {''both'', hi_Protocol hi} \<and>
      hi_DstPort hi \<in> {pr_PortRangeStart r .. (case pr_PortRangeEnd r of None \<Rightarrow> pr_PortRangeStart r | Some e \<Rightarrow> e)})"

definition reply :: "HoleInfo \<Rightarrow> HoleInfo" where
  "reply hi = \<lparr>hi_SrcIP = hi_DstIP hi, hi_DstIP = hi_SrcIP hi, hi_SrcPort = hi_DstPort hi,
               hi_DstPort = hi_SrcPort hi, hi_Protocol = hi_Protocol hi\<rparr>"

text \<open>Two packets of one flow: the same or opposite direction; for ICMP ports do not count.\<close>

definition same_flow :: "HoleInfo \<Rightarrow> HoleInfo \<Rightarrow> bool" where
  "same_flow a b \<longleftrightarrow>
     hi_Protocol a = hi_Protocol b \<and>
     (if hi_Protocol a = ''icmp''
      then {(hi_SrcIP a), (hi_DstIP a)} = {(hi_SrcIP b), (hi_DstIP b)}
      else a = b \<or> a = reply b)"

section \<open>Keys are unambiguous\<close>

lemma mask48: "(0x0000FFFFFFFFFFFF :: u64) = mask 48"
  by (simp add: mask_eq_exp_minus_1)

lemma makeGlobalKey_parts:
  "drop_bit 48 (makeGlobalKey s r) = ucast s" "take_bit 48 (makeGlobalKey s r) = take_bit 48 r"
  unfolding makeGlobalKey_def mask48 take_bit_eq_mask [symmetric]
  by (auto simp: bit_eq_iff bit_simps dest: bit_imp_le_length)

text \<open>A key determines the node number and the low 48 bits of the rule number, no more.\<close>

lemma makeGlobalKey_eq_iff:
  "makeGlobalKey s r = makeGlobalKey s' r' \<longleftrightarrow> s = s' \<and> take_bit 48 r = take_bit 48 r'"
proof
  assume eq: "makeGlobalKey s r = makeGlobalKey s' r'"
  then have "(ucast s :: u64) = ucast s'" using makeGlobalKey_parts(1) by metis
  moreover have "ucast (ucast t :: u64) = t" for t :: u16
    by (auto simp: bit_eq_iff bit_simps)
  ultimately have "s = s'" by metis
  moreover from eq have "take_bit 48 r = take_bit 48 r'" using makeGlobalKey_parts(2) by metis
  ultimately show "s = s' \<and> take_bit 48 r = take_bit 48 r'" ..
next
  assume "s = s' \<and> take_bit 48 r = take_bit 48 r'"
  then show "makeGlobalKey s r = makeGlobalKey s' r'"
    unfolding makeGlobalKey_def mask48 take_bit_eq_mask [symmetric] by simp
qed

lemma take_bit48_small: "(r :: u64) < 2 ^ 48 \<Longrightarrow> take_bit 48 r = r"
  by (simp add: word_unat_eq_iff unsigned_take_bit_eq take_bit_nat_eq_self_iff word_less_nat_alt)

lemma bar_not_digit: "\<not> is_digit CHR ''|''" "\<not> is_digit CHR ''i''"
  by (simp_all add: is_digit_def)

lemma word_field_inject:
  "show_word v @ CHR ''|'' # r = show_word w @ CHR ''|'' # r' \<longleftrightarrow> v = w \<and> r = r'"
  by (simp add: sep_inject show_word_no_sep bar_not_digit)

lemma icmp_field_neq: "''icmp'' \<noteq> show_word w @ r"
proof
  assume eq: "''icmp'' = show_word w @ r"
  have "show_word w \<noteq> []" by (simp add: show_word_def)
  with eq have "CHR ''i'' \<in> set (show_word w)" by (cases "show_word w") auto
  then show False using show_word_no_sep bar_not_digit by blast
qed

lemmas flow_key_simps = makeFlowKey_def word_field_inject icmp_field_neq icmp_field_neq [symmetric]

lemma flowKey_icmp:
  "hi_Protocol a = ''icmp'' \<Longrightarrow> flowKey a = flowKey b \<longleftrightarrow> same_flow a b"
  by (cases "hi_Protocol b = ''icmp''")
    (auto simp: flowKey_def flow_key_simps same_flow_def doubleton_eq_iff)

lemma HoleInfo_eq_iff:
  "(a :: HoleInfo) = b \<longleftrightarrow> hi_SrcIP a = hi_SrcIP b \<and> hi_DstIP a = hi_DstIP b \<and>
     hi_SrcPort a = hi_SrcPort b \<and> hi_DstPort a = hi_DstPort b \<and> hi_Protocol a = hi_Protocol b"
  by auto

lemma flowKey_ports:
  "hi_Protocol a \<noteq> ''icmp'' \<Longrightarrow> flowKey a = flowKey b \<longleftrightarrow> same_flow a b"
  by (auto simp: flowKey_def flow_key_simps same_flow_def HoleInfo_eq_iff reply_def split: if_splits)

section \<open>Every operation keeps the invariant\<close>

lemma fw_inv_New: "fw_inv fw_New"
  by (simp add: fw_inv_def fw_wf_def fw_index_def fw_keys_def fw_holes_def fw_New_def sliceAt_def)

lemma rulesAllow_cong:
  "rulesByAddr fw = rulesByAddr fw' \<Longrightarrow> rulesByID fw = rulesByID fw' \<Longrightarrow> rulesAllow hi fw = rulesAllow hi fw'"
  by (simp add: rulesAllow_def ruleAt_def cong: option.case_cong)

lemma getOrCreateShortID_props:
  assumes "getOrCreateShortID node fw = (s, fw1)"
  shows "getShortID node fw1 = Some s" and "rulesByID fw1 = rulesByID fw"
    and "rulesByAddr fw1 = rulesByAddr fw" and "holes fw1 = holes fw"
    and "getShortID n fw = Some t \<Longrightarrow> getShortID n fw1 = Some t"
    and "n \<noteq> node \<Longrightarrow> getShortID n fw1 = getShortID n fw"
  using assms by (auto simp: getOrCreateShortID_def getShortID_def Let_def split: option.splits)

lemma fw_inv_getOrCreate:
  assumes "fw_inv fw" and "getOrCreateShortID node fw = (s, fw1)"
  shows "fw_inv fw1"
proof -
  note g = getOrCreateShortID_props [OF assms(2)]
  have "gm_wf (shortIdByNodeId fw1)"
    using assms by (auto simp: fw_inv_def fw_wf_def getOrCreateShortID_def Let_def split: option.splits)
  moreover have "fw_keys fw1"
    using assms(1) g(5) by (fastforce simp: fw_inv_def fw_keys_def g(2))
  ultimately show ?thesis
    using assms(1) by (simp add: fw_inv_def fw_wf_def fw_index_def fw_holes_def g(2-4))
qed

lemma sliceAt_simps [simp]:
  "sliceAt [] k = []"
  "sliceAt (gm_set k v m) k' = (if k' = k then v else sliceAt m k')"
  "sliceAt (gm_del k m) k' = (if k' = k then [] else sliceAt m k')"
  by (simp_all add: sliceAt_def)

lemma fw_inv_insert:
  assumes "fw_inv fw" and "getShortID (pri_NodeID (pr_index r)) fw = Some s"
    and "pri_NodeID (pr_index r) \<noteq> []" and "k = makeGlobalKey s (pri_RuleID (pr_index r))"
    and "gm_get (rulesByID fw) k = None"
  shows "fw_inv (fw\<lparr>rulesByID := gm_set k r (rulesByID fw), rulesByAddr :=
           gm_set (pr_Address r) (sliceAt (rulesByAddr fw) (pr_Address r) @ [k]) (rulesByAddr fw)\<rparr>)"
proof -
  from assms(1) have idx: "fw_index fw" and keys: "fw_keys fw" by (simp_all add: fw_inv_def)
  from idx assms(5) have "fw_index (fw\<lparr>rulesByID := gm_set k r (rulesByID fw), rulesByAddr :=
      gm_set (pr_Address r) (sliceAt (rulesByAddr fw) (pr_Address r) @ [k]) (rulesByAddr fw)\<rparr>)"
    by (auto simp: fw_index_def)
  with assms keys show ?thesis
    by (auto simp: fw_inv_def fw_wf_def fw_keys_def fw_holes_def getShortID_def)
qed

lemma fw_inv_AddRule: "fw_inv fw \<Longrightarrow> fw_inv (snd (AddRule index rule fw))"
proof -
  assume inv: "fw_inv fw"
  obtain s fw1 where g: "getOrCreateShortID (pri_NodeID index) fw = (s, fw1)" by fastforce
  note g1 = fw_inv_getOrCreate [OF inv g] and gp = getOrCreateShortID_props(1) [OF g]
  show ?thesis
  proof (cases "pri_NodeID index = '''' \<or> gm_get (rulesByID fw1) (makeGlobalKey s (pri_RuleID index)) \<noteq> None")
    case True
    with inv g1 show ?thesis by (auto simp: AddRule_def g)
  next
    case False
    with fw_inv_insert [OF g1, of "rule\<lparr>pr_index := index\<rparr>" s] gp show ?thesis
      by (simp add: AddRule_def g Let_def)
  qed
qed

lemma fw_inv_holes_subset:
  assumes "fw_inv fw" and "gm_wf hs" and "\<And>k h. gm_get hs k = Some h \<Longrightarrow> k = flowKey (h_info h)"
  shows "fw_inv (fw\<lparr>holes := hs\<rparr>)"
  using assms by (simp add: fw_inv_def fw_wf_def fw_index_def fw_keys_def fw_holes_def getShortID_def)

lemma fw_inv_holesD:
  "fw_inv fw \<Longrightarrow> gm_wf (holes fw)"
  "fw_inv fw \<Longrightarrow> gm_get (holes fw) k = Some h \<Longrightarrow> k = flowKey (h_info h)"
  by (auto simp: fw_inv_def fw_wf_def fw_holes_def)

lemma fw_inv_RuleCheck: "fw_inv fw \<Longrightarrow> fw_inv (snd (RuleCheck now hi fw))"
  by (auto simp: RuleCheck_def Let_def fw_inv_holesD split: option.splits if_splits
      intro!: fw_inv_holes_subset)

lemma fw_inv_Holepunch: "fw_inv fw \<Longrightarrow> fw_inv (Holepunch now hi dur fw)"
  unfolding Holepunch_def
  by (rule fw_inv_holes_subset) (auto simp: fw_inv_def fw_wf_def fw_holes_def split: if_splits)

lemma fw_inv_drop: "fw_inv fw \<Longrightarrow> fw_inv (dropUnauthorizedHoles fw)"
  unfolding dropUnauthorizedHoles_def
  by (rule fw_inv_holes_subset)
    (auto simp: fw_inv_def fw_wf_def fw_holes_def gm_get_keep split: option.splits if_splits)

text \<open>The state of \<^verbatim>\<open>RemoveRule\<close> between the map updates and the sweep over the holes.\<close>

definition unlinkRule :: "u64 \<Rightarrow> PortRule \<Rightarrow> firewallEngineImpl \<Rightarrow> firewallEngineImpl" where
  "unlinkRule k r fw =
     (let a = pr_Address r; l = remove1 k (sliceAt (rulesByAddr fw) a)
      in fw\<lparr>rulesByID := gm_del k (rulesByID fw),
            rulesByAddr := (if l = [] then gm_del a (gm_set a l (rulesByAddr fw))
                            else gm_set a l (rulesByAddr fw))\<rparr>)"

lemma RemoveRule_unlink:
  assumes "fw_inv fw" and "getShortID (pri_NodeID index) fw = Some s"
    and "gm_get (rulesByID fw) (makeGlobalKey s (pri_RuleID index)) = Some r"
  shows "RemoveRule index fw =
    (True, dropUnauthorizedHoles (unlinkRule (makeGlobalKey s (pri_RuleID index)) r fw))"
proof -
  from assms(1,3) have "makeGlobalKey s (pri_RuleID index) \<in> set (sliceAt (rulesByAddr fw) (pr_Address r))"
    by (auto simp: fw_inv_def fw_index_def)
  with assms(2,3) show ?thesis by (simp add: RemoveRule_def unlinkRule_def Let_def)
qed

lemma unlinkRule_lookup:
  "gm_get (rulesByID (unlinkRule k r fw)) i = (if i = k then None else gm_get (rulesByID fw) i)"
  "getShortID n (unlinkRule k r fw) = getShortID n fw"
  by (simp_all add: unlinkRule_def Let_def getShortID_def)

lemma fw_inv_unlink:
  assumes "fw_inv fw" and "gm_get (rulesByID fw) k = Some r"
  shows "fw_inv (unlinkRule k r fw)"
proof -
  from assms(1) have idx: "fw_index fw" and d: "distinct (sliceAt (rulesByAddr fw) (pr_Address r))"
    by (auto simp: fw_inv_def fw_index_def)
  then have "set (remove1 k (sliceAt (rulesByAddr fw) (pr_Address r))) =
      {i. i \<noteq> k \<and> (\<exists>r'. gm_get (rulesByID fw) i = Some r' \<and> pr_Address r' = pr_Address r)}"
    by (auto simp: fw_index_def set_remove1_eq)
  moreover from this have "remove1 k (sliceAt (rulesByAddr fw) (pr_Address r)) = [] \<Longrightarrow>
      i \<noteq> k \<Longrightarrow> gm_get (rulesByID fw) i = Some r' \<Longrightarrow> pr_Address r' \<noteq> pr_Address r" for i r'
    by auto
  ultimately have "fw_index (unlinkRule k r fw)"
    using idx d assms(2) unfolding fw_index_def unlinkRule_def Let_def by auto
  with assms(1) show ?thesis
    by (auto simp: fw_inv_def fw_wf_def fw_keys_def fw_holes_def unlinkRule_lookup)
      (auto simp: unlinkRule_def Let_def)
qed

lemma RemoveRule_cases:
  assumes "fw_inv fw"
  obtains (absent) "policy fw index = None" "RemoveRule index fw = (False, fw)"
  | (present) s r where "getShortID (pri_NodeID index) fw = Some s" "policy fw index = Some r"
      "gm_get (rulesByID fw) (makeGlobalKey s (pri_RuleID index)) = Some r"
      "RemoveRule index fw =
         (True, dropUnauthorizedHoles (unlinkRule (makeGlobalKey s (pri_RuleID index)) r fw))"
proof (cases "policy fw index")
  case None
  then show ?thesis
    by (intro absent) (auto simp: policy_def RemoveRule_def Let_def split: option.splits)
next
  case (Some r)
  then obtain s where "getShortID (pri_NodeID index) fw = Some s"
    "gm_get (rulesByID fw) (makeGlobalKey s (pri_RuleID index)) = Some r"
    by (auto simp: policy_def split: option.splits)
  with Some RemoveRule_unlink [OF assms] show ?thesis by (intro present) auto
qed

lemma RemoveRule_swept:
  assumes "fw_inv fw" and "RemoveRule idx fw = (True, fw')"
  shows "\<exists>fw1. fw' = dropUnauthorizedHoles fw1 \<and> fw_inv fw1 \<and> holes fw1 = holes fw"
  using assms(1)
proof (cases rule: RemoveRule_cases [of fw idx])
  case absent
  with assms(2) show ?thesis by simp
next
  case (present s r)
  let ?fw1 = "unlinkRule (makeGlobalKey s (pri_RuleID idx)) r fw"
  have "fw_inv ?fw1" by (rule fw_inv_unlink [OF assms(1) present(3)])
  moreover have "holes ?fw1 = holes fw" by (simp add: unlinkRule_def Let_def)
  ultimately show ?thesis using present(4) assms(2) by auto
qed

lemma fw_inv_RemoveRule: "fw_inv fw \<Longrightarrow> fw_inv (snd (RemoveRule index fw))"
  by (cases rule: RemoveRule_cases [of fw index]) (auto intro: fw_inv_drop fw_inv_unlink)

section \<open>The engine as a transition system\<close>

inductive fw_step :: "firewallEngineImpl \<Rightarrow> firewallEngineImpl \<Rightarrow> bool" where
  add: "AddRule index rule fw = (b, fw') \<Longrightarrow> fw_step fw fw'"
| remove: "RemoveRule index fw = (b, fw') \<Longrightarrow> fw_step fw fw'"
| check: "RuleCheck now hi fw = (b, fw') \<Longrightarrow> fw_step fw fw'"
| punch: "fw_step fw (Holepunch now hi dur fw)"

inductive_cases fw_stepE: "fw_step fw fw'"

lemma fw_inv_step: "fw_inv fw \<Longrightarrow> fw_step fw fw' \<Longrightarrow> fw_inv fw'"
  by (erule fw_stepE)
    (metis snd_conv fw_inv_AddRule fw_inv_RemoveRule fw_inv_RuleCheck fw_inv_Holepunch)+

interpretation fw: invariant_system "\<lambda>s. s = fw_New" fw_step fw_inv
  by unfold_locales (auto intro: fw_inv_New fw_inv_step)

section \<open>The engine implements the policy\<close>

lemma policy_own_index:
  assumes "fw_inv fw" and "gm_get (rulesByID fw) i = Some r"
  shows "policy fw (pr_index r) = Some r"
  using assms by (auto simp: fw_inv_def fw_keys_def policy_def split: option.splits) fastforce

lemma policy_stored: "policy fw idx = Some r \<Longrightarrow> \<exists>i. gm_get (rulesByID fw) i = Some r"
  by (auto simp: policy_def split: option.splits)

lemma rule_permits_code:
  "rule_permits r hi \<longleftrightarrow>
     pr_Address r = hi_DstIP hi \<and>
     (if hi_Protocol hi = ''icmp'' then targetOk r hi else portRuleOk r hi)"
  by (auto simp: rule_permits_def targetOk_def portRuleOk_def split: option.splits)

lemma rulesAllow_iff_stored:
  assumes "fw_inv fw"
  shows "rulesAllow hi fw \<longleftrightarrow> (\<exists>i r. gm_get (rulesByID fw) i = Some r \<and> rule_permits r hi)"
proof -
  have idx: "i \<in> set (sliceAt (rulesByAddr fw) a) \<longleftrightarrow>
      (\<exists>r. gm_get (rulesByID fw) i = Some r \<and> pr_Address r = a)" for a i
    using assms by (simp add: fw_inv_def fw_index_def)
  have "rulesAllow hi fw \<longleftrightarrow>
      (\<exists>i \<in> set (sliceAt (rulesByAddr fw) (hi_DstIP hi)).
         if hi_Protocol hi = ''icmp'' then targetOk (ruleAt fw i) hi else portRuleOk (ruleAt fw i) hi)"
    by (auto simp: rulesAllow_def sliceAt_def list_ex_iff split: option.splits)
  also have "\<dots> \<longleftrightarrow> (\<exists>i r. gm_get (rulesByID fw) i = Some r \<and> rule_permits r hi)"
    by (cases "hi_Protocol hi = ''icmp''") (fastforce simp: Bex_def idx ruleAt_def rule_permits_code)+
  finally show ?thesis .
qed

lemma rulesAllow_policy:
  "fw_inv fw \<Longrightarrow> rulesAllow hi fw \<longleftrightarrow> (\<exists>idx r. policy fw idx = Some r \<and> rule_permits r hi)"
  by (meson rulesAllow_iff_stored policy_own_index policy_stored)

lemma ExistsRule_policy: "ExistsRule idx fw \<longleftrightarrow> policy fw idx \<noteq> None"
  by (simp add: ExistsRule_def policy_def split: option.splits)

lemma fw_keysD:
  assumes "fw_inv fw" and "gm_get (rulesByID fw) i = Some r"
  shows "pri_NodeID (pr_index r) \<noteq> []"
    and "\<exists>s. getShortID (pri_NodeID (pr_index r)) fw = Some s \<and> i = makeGlobalKey s (pri_RuleID (pr_index r))"
  using assms by (auto simp: fw_inv_def fw_keys_def)

lemma short_ok_New: "short_ok fw_New"
  by (simp add: short_ok_def fw_New_def)

lemma short_ok_getOrCreate:
  assumes "short_ok fw" and "length (shortIdByNodeId fw) < 65535"
    and "getOrCreateShortID node fw = (s, fw1)"
  shows "short_ok fw1"
proof (cases "gm_get (shortIdByNodeId fw) node")
  case (Some t)
  with assms show ?thesis by (simp add: getOrCreateShortID_def)
next
  case None
  from assms(1,2) have n: "unat (nextShortID fw + 1) = Suc (unat (nextShortID fw))"
    by (simp add: short_ok_def unat_word_ariths)
  then have lt: "nextShortID fw < nextShortID fw + 1" by (simp add: word_less_nat_alt)
  then have "gm_get (shortIdByNodeId fw) m = Some t \<Longrightarrow> t < nextShortID fw + 1" for m t
    using assms(1) by (meson short_ok_def le_less_trans)
  with None n lt assms(1,3) show ?thesis
    by (auto simp: short_ok_def getOrCreateShortID_def Let_def gm_set_absent_length order.strict_iff_order
        split: if_splits) fastforce+
qed

lemma policy_getOrCreate:
  assumes "fw_inv fw" and "short_ok fw" and "length (shortIdByNodeId fw) < 65535"
    and "getOrCreateShortID node fw = (s, fw1)"
  shows "policy fw1 idx = policy fw idx"
proof (cases "pri_NodeID idx = node \<and> getShortID node fw = None")
  case True
  note g = getOrCreateShortID_props [OF assms(4)]
  have fresh: "gm_get (rulesByID fw) (makeGlobalKey s r) = None" for r
  proof (rule ccontr)
    assume "gm_get (rulesByID fw) (makeGlobalKey s r) \<noteq> None"
    then obtain rule where "gm_get (rulesByID fw) (makeGlobalKey s r) = Some rule" by auto
    from fw_keysD(2) [OF assms(1) this] obtain t where
      "getShortID (pri_NodeID (pr_index rule)) fw = Some t"
      "makeGlobalKey s r = makeGlobalKey t (pri_RuleID (pr_index rule))"
      by blast
    then have "getShortID (pri_NodeID (pr_index rule)) fw = Some s"
      by (simp add: makeGlobalKey_eq_iff)
    moreover from this have "pri_NodeID (pr_index rule) \<noteq> node" using True by auto
    moreover have "short_ok fw1" by (rule short_ok_getOrCreate [OF assms(2-4)])
    ultimately show False
      using g(1) g(5) by (auto simp: short_ok_def getShortID_def)
  qed
  with True show ?thesis by (simp add: policy_def g(1,2))
next
  case False
  note g = getOrCreateShortID_props [OF assms(4)]
  have "getShortID (pri_NodeID idx) fw1 = getShortID (pri_NodeID idx) fw"
    using False g(5,6) by (cases "pri_NodeID idx = node") auto
  then show ?thesis by (simp add: policy_def g(2) split: option.splits)
qed

lemma getShortID_inj:
  "short_ok fw \<Longrightarrow> getShortID n fw = Some s \<Longrightarrow> getShortID n' fw = Some s \<Longrightarrow> n = n'"
  by (auto simp: short_ok_def getShortID_def)

lemma PortRuleIndex_eq_iff:
  "(a :: PortRuleIndex) = b \<longleftrightarrow> pri_NodeID a = pri_NodeID b \<and> pri_RuleID a = pri_RuleID b"
  by auto

lemma key_index_inject:
  fixes a b :: PortRuleIndex
  assumes "short_ok fw" and "getShortID (pri_NodeID a) fw = Some s" and "getShortID (pri_NodeID b) fw = Some t"
    and "pri_RuleID a < 2 ^ 48" and "pri_RuleID b < 2 ^ 48"
  shows "makeGlobalKey s (pri_RuleID a) = makeGlobalKey t (pri_RuleID b) \<longleftrightarrow> a = b"
  using assms getShortID_inj [OF assms(1), of "pri_NodeID a" s "pri_NodeID b"]
  unfolding PortRuleIndex_eq_iff by (auto simp: makeGlobalKey_eq_iff take_bit48_small)

section \<open>Properties of the firewall\<close>

text \<open>C2: in every state the engine can reach by any sequence of its operations, the two rule indices
  agree (the list kept for an address holds exactly the keys of the rules protecting it, without
  duplicates, and is never left empty), every rule is stored under the key of its own index, and every
  hole under the key of the flow it records.\<close>

theorem firewall_reachable_inv:
  assumes "fw_step\<^sup>*\<^sup>* fw_New fw"
  shows "fw_wf fw \<and> fw_index fw \<and> fw_keys fw \<and> fw_holes fw"
  using fw.inv_reachable [OF refl assms] by (simp add: fw_inv_def)

lemma firewall_reachable_inv_witness:
  "fw_wf (snd (AddRule \<lparr>pri_NodeID = ''n'', pri_RuleID = 1\<rparr> zeroRule fw_New)) \<and>
   fw_index (snd (AddRule \<lparr>pri_NodeID = ''n'', pri_RuleID = 1\<rparr> zeroRule fw_New)) \<and>
   fw_keys (snd (AddRule \<lparr>pri_NodeID = ''n'', pri_RuleID = 1\<rparr> zeroRule fw_New)) \<and>
   fw_holes (snd (AddRule \<lparr>pri_NodeID = ''n'', pri_RuleID = 1\<rparr> zeroRule fw_New))"
  by (rule firewall_reachable_inv) (metis prod.collapse fw_step.add r_into_rtranclp)

text \<open>C3: the rule scan decides the declared policy. A packet passes the rules exactly when some stored
  rule protects its destination, admits its source, and (unless it is ICMP) covers its protocol and
  destination port.\<close>

theorem rulesAllow_refines_policy:
  assumes "fw_inv fw"
  shows "rulesAllow hi fw \<longleftrightarrow> (\<exists>idx r. policy fw idx = Some r \<and> rule_permits r hi)"
  by (rule rulesAllow_policy [OF assms])

lemma rulesAllow_refines_policy_witness:
  "rulesAllow \<lparr>hi_SrcIP = 1, hi_DstIP = 0, hi_SrcPort = 3, hi_DstPort = 4, hi_Protocol = ''icmp''\<rparr>
     (snd (AddRule \<lparr>pri_NodeID = ''n'', pri_RuleID = 1\<rparr> zeroRule fw_New)) \<longleftrightarrow>
   (\<exists>idx r. policy (snd (AddRule \<lparr>pri_NodeID = ''n'', pri_RuleID = 1\<rparr> zeroRule fw_New)) idx = Some r \<and>
      rule_permits r \<lparr>hi_SrcIP = 1, hi_DstIP = 0, hi_SrcPort = 3, hi_DstPort = 4, hi_Protocol = ''icmp''\<rparr>)"
  by (rule rulesAllow_refines_policy [OF fw_inv_AddRule [OF fw_inv_New]])

lemma AddRule_policy:
  assumes "fw_inv fw" and "short_ok fw" and "length (shortIdByNodeId fw) < 65535"
    and "pri_RuleID idx < 2 ^ 48" and "AddRule idx rule fw = (ok, fw')"
  shows "(ok \<longleftrightarrow> pri_NodeID idx \<noteq> [] \<and> policy fw idx = None) \<and>
    (\<forall>idx'. pri_RuleID idx' < 2 ^ 48 \<longrightarrow>
       policy fw' idx' = (if ok \<and> idx' = idx then Some (rule\<lparr>pr_index := idx\<rparr>) else policy fw idx'))"
proof (cases "pri_NodeID idx = []")
  case True
  with assms(5) show ?thesis by (simp add: AddRule_def)
next
  case False
  obtain s fw1 where g: "getOrCreateShortID (pri_NodeID idx) fw = (s, fw1)" by fastforce
  note p = policy_getOrCreate [OF assms(1-3) g] and s1 = short_ok_getOrCreate [OF assms(2,3) g]
  note gp = getOrCreateShortID_props(1) [OF g]
  have inj: "getShortID (pri_NodeID idx') fw1 = Some t \<Longrightarrow> pri_RuleID idx' < 2 ^ 48 \<Longrightarrow>
      makeGlobalKey t (pri_RuleID idx') = makeGlobalKey s (pri_RuleID idx) \<longleftrightarrow> idx' = idx" for idx' t
    using key_index_inject [OF s1 _ gp _ assms(4), of idx' t] by simp
  have dom: "policy fw idx = gm_get (rulesByID fw1) (makeGlobalKey s (pri_RuleID idx))"
    using p [of idx] by (simp add: policy_def gp)
  show ?thesis
  proof (cases "policy fw idx")
    case None
    with False dom g assms(5) have ok: ok and fw': "rulesByID fw' =
        gm_set (makeGlobalKey s (pri_RuleID idx)) (rule\<lparr>pr_index := idx\<rparr>) (rulesByID fw1)"
      "shortIdByNodeId fw' = shortIdByNodeId fw1"
      by (simp_all add: AddRule_def Let_def) auto
    then have "policy fw' idx' = (if idx' = idx then Some (rule\<lparr>pr_index := idx\<rparr>) else policy fw1 idx')"
      if "pri_RuleID idx' < 2 ^ 48" for idx'
      using that gp inj by (auto simp: policy_def getShortID_def split: option.splits)
    with ok None False p show ?thesis by simp
  next
    case (Some r)
    with dom have "gm_get (rulesByID fw1) (makeGlobalKey s (pri_RuleID idx)) = Some r" by simp
    with False g assms(5) have "\<not> ok" and "fw' = fw1" by (simp_all add: AddRule_def Let_def)
    with Some p show ?thesis by simp
  qed
qed

text \<open>C5: adding a rule is insertion into the policy. With fewer than 65535 nodes registered and rule
  numbers below 2^48, \<^verbatim>\<open>AddRule\<close> succeeds exactly for a named node and an unused index, then maps that
  index to the rule, and changes the policy nowhere else.\<close>

theorem AddRule_refines_policy:
  assumes "fw_inv fw" and "short_ok fw" and "length (shortIdByNodeId fw) < 65535"
    and "pri_RuleID idx < 2 ^ 48" and "AddRule idx rule fw = (ok, fw')"
  shows "(ok \<longleftrightarrow> pri_NodeID idx \<noteq> [] \<and> policy fw idx = None) \<and>
    (\<forall>idx'. pri_RuleID idx' < 2 ^ 48 \<longrightarrow>
       policy fw' idx' = (if ok \<and> idx' = idx then Some (rule\<lparr>pr_index := idx\<rparr>) else policy fw idx'))"
  by (rule AddRule_policy [OF assms])

lemma AddRule_refines_policy_witness:
  "fst (AddRule \<lparr>pri_NodeID = ''n'', pri_RuleID = 7\<rparr> zeroRule fw_New) =
     (pri_NodeID \<lparr>pri_NodeID = ''n'', pri_RuleID = 7\<rparr> \<noteq> [] \<and> policy fw_New \<lparr>pri_NodeID = ''n'', pri_RuleID = 7\<rparr> = None)"
  using AddRule_refines_policy [OF fw_inv_New short_ok_New, of "\<lparr>pri_NodeID = ''n'', pri_RuleID = 7\<rparr>" zeroRule
      "fst (AddRule \<lparr>pri_NodeID = ''n'', pri_RuleID = 7\<rparr> zeroRule fw_New)"
      "snd (AddRule \<lparr>pri_NodeID = ''n'', pri_RuleID = 7\<rparr> zeroRule fw_New)"]
  by (simp add: fw_New_def)

lemma policy_holes: "policy (fw\<lparr>holes := hs\<rparr>) = policy fw"
  by (rule ext) (simp add: policy_def getShortID_def cong: option.case_cong)

lemma policy_unlink:
  assumes "short_ok fw" and "getShortID (pri_NodeID idx) fw = Some s"
    and "pri_RuleID idx < 2 ^ 48" and "pri_RuleID idx' < 2 ^ 48"
  shows "policy (unlinkRule (makeGlobalKey s (pri_RuleID idx)) r fw) idx' =
    (if idx' = idx then None else policy fw idx')"
proof (cases "getShortID (pri_NodeID idx') fw")
  case None
  with assms(2) show ?thesis by (auto simp: policy_def unlinkRule_lookup)
next
  case (Some t)
  with key_index_inject [OF assms(1) Some assms(2,4,3)] show ?thesis
    by (auto simp: policy_def unlinkRule_lookup)
qed

lemma RemoveRule_policy:
  assumes "fw_inv fw" and "short_ok fw" and "pri_RuleID idx < 2 ^ 48" and "RemoveRule idx fw = (ok, fw')"
  shows "(ok \<longleftrightarrow> policy fw idx \<noteq> None) \<and>
    (\<forall>idx'. pri_RuleID idx' < 2 ^ 48 \<longrightarrow> policy fw' idx' = (if idx' = idx then None else policy fw idx'))"
  using assms(1)
proof (cases rule: RemoveRule_cases [of fw idx])
  case absent
  with assms(4) show ?thesis by auto
next
  case (present s r)
  with assms(4) policy_unlink [OF assms(2) present(1) assms(3)] show ?thesis
    by (auto simp: dropUnauthorizedHoles_def policy_holes)
qed

text \<open>C6: removing a rule is deletion from the policy. As long as the registered nodes have distinct short
  numbers (fewer than 65535 nodes were ever registered) and rule numbers are below 2^48, \<^verbatim>\<open>RemoveRule\<close>
  succeeds exactly when the index is in use, unmaps that index, and changes the policy at no other index.
  Beyond those bounds two rules can share a key and a removal takes the wrong one.\<close>

theorem RemoveRule_refines_policy:
  assumes "fw_inv fw" and "short_ok fw" and "pri_RuleID idx < 2 ^ 48" and "RemoveRule idx fw = (ok, fw')"
  shows "(ok \<longleftrightarrow> policy fw idx \<noteq> None) \<and>
    (\<forall>idx'. pri_RuleID idx' < 2 ^ 48 \<longrightarrow> policy fw' idx' = (if idx' = idx then None else policy fw idx'))"
  by (rule RemoveRule_policy [OF assms])

lemma RemoveRule_refines_policy_witness:
  "let idx = \<lparr>pri_NodeID = ''n'', pri_RuleID = 7\<rparr>; fw = snd (AddRule idx zeroRule fw_New)
   in policy fw idx \<noteq> None \<and> fst (RemoveRule idx fw) \<and> policy (snd (RemoveRule idx fw)) idx = None"
proof -
  let ?idx = "\<lparr>pri_NodeID = ''n'', pri_RuleID = 7\<rparr>"
  let ?fw = "snd (AddRule ?idx zeroRule fw_New)"
  have i: "fw_inv ?fw" by (rule fw_inv_AddRule [OF fw_inv_New])
  have s: "short_ok ?fw"
    by (auto simp: short_ok_def AddRule_def fw_New_def getOrCreateShortID_def Let_def gm_get_def gm_set_def)
  have p: "policy ?fw ?idx \<noteq> None"
    by (simp add: policy_def getShortID_def AddRule_def fw_New_def getOrCreateShortID_def Let_def gm_get_def gm_set_def)
  show ?thesis
    using RemoveRule_refines_policy [OF i s, of ?idx "fst (RemoveRule ?idx ?fw)" "snd (RemoveRule ?idx ?fw)"] p
    by (simp add: Let_def del: split_paired_All)
qed

lemma rulesAllow_holes: "rulesAllow hi (fw\<lparr>holes := hs\<rparr>) = rulesAllow hi fw"
  by (rule rulesAllow_cong) simp_all

lemma flowKey_same_flow: "flowKey a = flowKey b \<longleftrightarrow> same_flow a b"
  using flowKey_icmp flowKey_ports by blast

lemma same_flow_refl: "same_flow hi hi"
  by (simp add: same_flow_def)

text \<open>C4: removing a rule closes the flows it opened. Whatever holes were open before, right after a
  successful \<^verbatim>\<open>RemoveRule\<close> a packet passes only if some rule still in the policy permits a packet of the
  same flow.\<close>

theorem RemoveRule_closes_flows:
  assumes "fw_inv fw" and "RemoveRule idx fw = (True, fw')" and "fst (RuleCheck now hi fw')"
  shows "\<exists>hi' idx' r. same_flow hi hi' \<and> policy fw' idx' = Some r \<and> rule_permits r hi'"
proof -
  have inv: "fw_inv fw'" using fw_inv_RemoveRule [OF assms(1), of idx] assms(2) by simp
  from RemoveRule_swept [OF assms(1,2)] obtain fw1 where
    fw1: "fw' = dropUnauthorizedHoles fw1" "fw_inv fw1" by blast
  have "\<exists>hi'. same_flow hi hi' \<and> rulesAllow hi' fw'"
  proof (cases "gm_get (holes fw') (flowKey hi)")
    case None
    with assms(3) same_flow_refl show ?thesis by (auto simp: RuleCheck_def)
  next
    case (Some h)
    with fw1 have "rulesAllow (h_info h) fw'"
      by (auto simp: dropUnauthorizedHoles_def rulesAllow_holes gm_get_keep fw_inv_holesD
          split: option.splits if_splits)
    moreover from Some inv have "same_flow hi (h_info h)"
      using fw_inv_holesD(2) flowKey_same_flow by blast
    ultimately show ?thesis by blast
  qed
  with rulesAllow_policy [OF inv] show ?thesis by blast
qed


definition exRule :: PortRule where
  "exRule = zeroRule\<lparr>pr_Address := 200, pr_Protocol := ''tcp'', pr_PortRangeStart := 443\<rparr>"

definition exFlow :: HoleInfo where
  "exFlow = \<lparr>hi_SrcIP = 100, hi_DstIP = 200, hi_SrcPort = 5000, hi_DstPort = 443, hi_Protocol = ''tcp''\<rparr>"

text \<open>Two rules of one node, the first permitting the flow, the second for another address.\<close>

definition exFw :: firewallEngineImpl where
  "exFw = snd (AddRule \<lparr>pri_NodeID = ''node'', pri_RuleID = 2\<rparr> (exRule\<lparr>pr_Address := 201\<rparr>)
            (snd (AddRule \<lparr>pri_NodeID = ''node'', pri_RuleID = 1\<rparr> exRule fw_New)))"

lemma exFw_inv: "fw_inv exFw"
  unfolding exFw_def by (intro fw_inv_AddRule fw_inv_New)

lemmas ex_defs = exFw_def exRule_def exFlow_def zeroRule_def fw_New_def
lemmas ex_eval = ex_defs AddRule_def RemoveRule_def RuleCheck_def Holepunch_def getOrCreateShortID_def
  getShortID_def makeGlobalKey_def sliceAt_def gm_get_def gm_set_def gm_del_def rulesAllow_def ruleAt_def
  targetOk_def portRuleOk_def dropUnauthorizedHoles_def gm_keep_def Let_def

lemma RemoveRule_closes_flows_witness:
  "\<exists>hi' idx' r. same_flow exFlow hi' \<and>
     policy (snd (RemoveRule \<lparr>pri_NodeID = ''node'', pri_RuleID = 2\<rparr> (Holepunch 0 exFlow minute exFw))) idx' = Some r \<and>
     rule_permits r hi'"
  by (rule RemoveRule_closes_flows [where fw = "Holepunch 0 exFlow minute exFw"
        and idx = "\<lparr>pri_NodeID = ''node'', pri_RuleID = 2\<rparr>" and now = 1])
    (simp add: fw_inv_Holepunch exFw_inv, simp_all add: ex_eval)

text \<open>Connection tracking identifies flows exactly: two packets share a flow key precisely when they
  have the same protocol and the same end points, in either direction (for ICMP the addresses alone).\<close>

theorem flowKey_iff_same_flow: "flowKey a = flowKey b \<longleftrightarrow> same_flow a b"
  by (rule flowKey_same_flow)

text \<open>C39: The life of a hole. After \<^verbatim>\<open>Holepunch\<close> every packet of the flow, replies included, passes
  without a rule check strictly before the expiry; from the expiry on the first check drops the hole and
  decides by the rules alone. Packets of other flows are not affected.\<close>

theorem hole_lifetime:
  "fst (RuleCheck t b (Holepunch now a dur fw)) =
     (if same_flow a b then t < now + dur \<or> rulesAllow b fw else fst (RuleCheck t b fw)) \<and>
   gm_get (holes (snd (RuleCheck t b (Holepunch now a dur fw)))) (flowKey a) =
     (if same_flow a b \<and> now + dur \<le> t then None else Some \<lparr>h_expire = now + dur, h_info = a\<rparr>)"
proof (cases "same_flow a b")
  case True
  then have "flowKey b = flowKey a" by (simp only: flowKey_same_flow [symmetric])
  with True show ?thesis by (simp add: RuleCheck_def Holepunch_def Let_def rulesAllow_holes)
next
  case False
  then have "flowKey b \<noteq> flowKey a" by (metis flowKey_same_flow)
  with False show ?thesis
    by (auto simp: RuleCheck_def Holepunch_def Let_def rulesAllow_holes split: option.splits)
qed

text \<open>A hole that a reply packet refreshed is rechecked as the reply. When the rules permit a request
  but not its reply and the last packet seen was the reply, the next successful \<^verbatim>\<open>RemoveRule\<close>, of any rule
  whatever, closes the flow to replies, although the rule that permits the request is still in force.\<close>

theorem removal_closes_replied_flow:
  assumes "fw_inv fw" and "RemoveRule idx (Holepunch now (reply hi) dur fw) = (True, fw')"
    and "\<not> rulesAllow (reply hi) fw'"
  shows "\<not> fst (RuleCheck t (reply hi) fw')"
proof -
  let ?fw = "Holepunch now (reply hi) dur fw"
  have inv: "fw_inv ?fw" by (rule fw_inv_Holepunch [OF assms(1)])
  from RemoveRule_swept [OF inv assms(2)] obtain fw1 where
    "fw' = dropUnauthorizedHoles fw1" "fw_inv fw1" "holes fw1 = holes ?fw" by blast
  with assms(1,3) have "gm_get (holes fw') (flowKey (reply hi)) = None"
    by (auto simp: dropUnauthorizedHoles_def rulesAllow_holes gm_get_keep fw_inv_holesD Holepunch_def
        split: option.splits)
  with assms(3) show ?thesis by (simp add: RuleCheck_def)
qed

lemma removal_closes_replied_flow_witness:
  "\<not> fst (RuleCheck 1 (reply exFlow)
       (snd (RemoveRule \<lparr>pri_NodeID = ''node'', pri_RuleID = 2\<rparr> (Holepunch 0 (reply exFlow) minute exFw)))) \<and>
   rulesAllow exFlow
       (snd (RemoveRule \<lparr>pri_NodeID = ''node'', pri_RuleID = 2\<rparr> (Holepunch 0 (reply exFlow) minute exFw)))"
  (is "?closed \<and> ?allowed")
proof
  show ?closed
    by (rule removal_closes_replied_flow [where fw = exFw and now = 0 and dur = minute and hi = exFlow
          and idx = "\<lparr>pri_NodeID = ''node'', pri_RuleID = 2\<rparr>"])
      (simp_all add: exFw_inv, simp_all add: ex_eval reply_def)
  show ?allowed by (simp add: ex_eval reply_def)
qed

text \<open>Rule numbers are cut to 48 bits. Two rules of one node whose numbers differ only above bit 47
  share a key: once one is stored the other cannot be added, is reported as existing, and removing it
  removes the first.\<close>

theorem rule_number_collision:
  assumes "fw_inv fw" and "take_bit 48 r = take_bit 48 r'" and "AddRule \<lparr>pri_NodeID = n, pri_RuleID = r\<rparr> rule fw = (True, fw')"
  shows "\<not> fst (AddRule \<lparr>pri_NodeID = n, pri_RuleID = r'\<rparr> rule' fw') \<and>
    ExistsRule \<lparr>pri_NodeID = n, pri_RuleID = r'\<rparr> fw' \<and>
    RemoveRule \<lparr>pri_NodeID = n, pri_RuleID = r'\<rparr> fw' = RemoveRule \<lparr>pri_NodeID = n, pri_RuleID = r\<rparr> fw'"
proof -
  have key: "makeGlobalKey s r' = makeGlobalKey s r" for s using assms(2) by (simp add: makeGlobalKey_eq_iff)
  obtain s fw1 where g: "getOrCreateShortID n fw = (s, fw1)" by fastforce
  have "getShortID n fw' = Some s" "n \<noteq> []" "gm_get (rulesByID fw') (makeGlobalKey s r) \<noteq> None"
    using assms(3) g getOrCreateShortID_props(1) [OF g]
    by (auto simp: AddRule_def Let_def getShortID_def split: if_splits option.splits)
  moreover from this have "getOrCreateShortID n fw' = (s, fw')"
    by (simp add: getOrCreateShortID_def getShortID_def)
  ultimately show ?thesis
    by (auto simp: AddRule_def ExistsRule_def RemoveRule_def key Let_def)
qed

lemma rule_number_collision_witness:
  "ExistsRule \<lparr>pri_NodeID = ''n'', pri_RuleID = 2 ^ 48 + 5\<rparr>
     (snd (AddRule \<lparr>pri_NodeID = ''n'', pri_RuleID = 5\<rparr> zeroRule fw_New))"
  using rule_number_collision [OF fw_inv_New, of 5 "2 ^ 48 + 5" "''n''" zeroRule
      "snd (AddRule \<lparr>pri_NodeID = ''n'', pri_RuleID = 5\<rparr> zeroRule fw_New)"]
  by (simp add: ex_eval take_bit_eq_mod)

end
