(* ===== verification/RoutingTable.thy ===== *)
theory RoutingTable
  imports DGMessage
begin

text \<open>
  \<^verbatim>\<open>pkg/routingtable\<close>: the table of routing objects by virtual address, and the shaped route with its
  traffic budget, rate limiter and queue. A routing object is what its interface shows: node, address,
  whether its context is done. \<^verbatim>\<open>SendDatagram\<close> is a dynamic call, so the definitions take it as an argument
  that acts on the state of the network side; the token bucket of \<^verbatim>\<open>golang.org/x/time/rate\<close> is an argument
  too. Where a \<^verbatim>\<open>select\<close> has several ready cases the runtime's choice is an argument.
\<close>

section \<open>Routing objects\<close>

record RouteObj =
  ro_NodeID :: string
  ro_VirtualIP :: u32
  ro_done :: bool

text \<open>The int64 budget is a 64-bit word read as signed.\<close>

record 'l ShapedRoute =
  sr_underlying :: RouteObj
  sr_queue :: "nat chan option"
  sr_limiter :: "'l option"
  sr_speedLimited :: bool
  sr_totalLimit :: u64
  sr_trafficLimited :: bool

datatype 'l RoutingObject = PlainRoute RouteObj | Shaped "'l ShapedRoute"

fun underlying :: "'l RoutingObject \<Rightarrow> RouteObj" where
  "underlying (PlainRoute o1) = o1"
| "underlying (Shaped sr) = sr_underlying sr"

definition GetNodeID :: "'l RoutingObject \<Rightarrow> string" where
  "GetNodeID obj = ro_NodeID (underlying obj)"

definition GetVirtualIP :: "'l RoutingObject \<Rightarrow> u32" where
  "GetVirtualIP obj = ro_VirtualIP (underlying obj)"

section \<open>The table\<close>

record 'l routingTableImpl =
  byVirtualIp :: "(u32, 'l RoutingObject) gomap"

record RoutingTableRecordDump =
  rtd_NodeID :: string
  rtd_VirtualIP :: u32

definition rt_New :: "'l routingTableImpl" where
  "rt_New = \<lparr>byVirtualIp = []\<rparr>"

datatype route_error = RecordExists u32 | SendFailed | CtxDone

definition rt_Add :: "'l RoutingObject \<Rightarrow> 'l routingTableImpl \<Rightarrow> route_error option \<times> 'l routingTableImpl" where
  "rt_Add obj r =
     (if gm_has (byVirtualIp r) (GetVirtualIP obj) then (Some (RecordExists (GetVirtualIP obj)), r)
      else (None, r\<lparr>byVirtualIp := gm_set (GetVirtualIP obj) obj (byVirtualIp r)\<rparr>))"

definition rt_Delete :: "u32 \<Rightarrow> 'l routingTableImpl \<Rightarrow> route_error option \<times> 'l routingTableImpl" where
  "rt_Delete ip r =
     (if \<not> gm_has (byVirtualIp r) ip then (None, r)
      else (None, r\<lparr>byVirtualIp := gm_del ip (byVirtualIp r)\<rparr>))"

definition rt_GetByIP :: "u32 \<Rightarrow> 'l routingTableImpl \<Rightarrow> 'l RoutingObject option" where
  "rt_GetByIP ip r = gm_get (byVirtualIp r) ip"

definition dump_record :: "'l RoutingObject \<Rightarrow> RoutingTableRecordDump" where
  "dump_record v = \<lparr>rtd_NodeID = GetNodeID v, rtd_VirtualIP = GetVirtualIP v\<rparr>"

definition rt_Dump :: "'l routingTableImpl \<Rightarrow> RoutingTableRecordDump list" where
  "rt_Dump r = map dump_record (gm_vals (byVirtualIp r))"

section \<open>Shaped routes\<close>

definition NewShapedRoute ::
  "(u64 \<Rightarrow> nat \<Rightarrow> 'l) \<Rightarrow> RouteObj \<Rightarrow> u64 option \<Rightarrow> u64 option \<Rightarrow> 'l ShapedRoute" where
  "NewShapedRoute newLimiter obj speedLimit trafficLimit =
     \<lparr>sr_underlying = obj,
      sr_queue = map_option (\<lambda>_. mkchan 500) speedLimit,
      sr_limiter = map_option (\<lambda>l. newLimiter l (256 * 1500)) speedLimit,
      sr_speedLimited = (speedLimit \<noteq> None),
      sr_totalLimit = (case trafficLimit of None \<Rightarrow> 0 | Some t \<Rightarrow> t),
      sr_trafficLimited = (trafficLimit \<noteq> None)\<rparr>"

text \<open>\<^verbatim>\<open>totalLimit.Add(-int64(n))\<close> and the sign of the result.\<close>

definition charge :: "nat \<Rightarrow> 'l ShapedRoute \<Rightarrow> bool \<times> 'l ShapedRoute" where
  "charge n sr =
     (if sr_trafficLimited sr
      then let remains = sr_totalLimit sr - of_nat n
           in (0 \<le> sint remains, sr\<lparr>sr_totalLimit := remains\<rparr>)
      else (True, sr))"

datatype push_result = PushOk | PushErr route_error | PushPanic

text \<open>
  The final \<^verbatim>\<open>select\<close>: the context case is ready when the context is done; the send case when the queue
  exists and has room or is closed (then it panics); a nil queue is never ready.
\<close>

definition queue_ready :: "'l ShapedRoute \<Rightarrow> bool" where
  "queue_ready sr =
     (case sr_queue sr of None \<Rightarrow> False | Some q \<Rightarrow> ch_closed q \<or> length (ch_buf q) < ch_cap q)"

definition select_push :: "bool \<Rightarrow> nat \<Rightarrow> 'l ShapedRoute \<Rightarrow> push_result \<times> 'l ShapedRoute" where
  "select_push pickDone pkt sr =
     (if ro_done (sr_underlying sr) \<and> (\<not> queue_ready sr \<or> pickDone) then (PushErr CtxDone, sr)
      else case sr_queue sr of
             None \<Rightarrow> (PushOk, sr)
           | Some q \<Rightarrow> (case try_send pkt q of
                          Panic \<Rightarrow> (PushPanic, sr)
                        | Full \<Rightarrow> (PushOk, sr)
                        | Sent q' \<Rightarrow> (PushOk, sr\<lparr>sr_queue := Some q'\<rparr>)))"

type_synonym 'n send_fn = "RouteObj \<Rightarrow> slice \<Rightarrow> 'n \<Rightarrow> bool \<times> 'n"

definition PushLimited ::
  "'n send_fn \<Rightarrow> bool \<Rightarrow> nat \<Rightarrow> 'l ShapedRoute \<times> dgMessagePoolImpl \<times> 'n \<Rightarrow>
   push_result \<times> 'l ShapedRoute \<times> dgMessagePoolImpl \<times> 'n" where
  "PushLimited send pickDone pkt st =
     (case st of (sr, p, n) \<Rightarrow>
      let data = slice_of pkt p;
          (ok, sr1) = charge (snd data) sr
      in if \<not> ok then (PushOk, sr1, p, n)
         else if \<not> sr_speedLimited sr1 then
           (case send (sr_underlying sr1) data n of
              (False, n') \<Rightarrow> (PushErr SendFailed, sr1, Free pkt p, n')
            | (True, n') \<Rightarrow> (let (r, sr2) = select_push pickDone pkt sr1 in (r, sr2, Free pkt p, n')))
         else (let (r, sr2) = select_push pickDone pkt sr1 in (r, sr2, p, n)))"

text \<open>\<^verbatim>\<open>limiter.AllowN(time.Now(), n)\<close> is the argument \<open>allowN\<close>.\<close>

definition IsAllowed ::
  "('l \<Rightarrow> gotime \<Rightarrow> nat \<Rightarrow> bool \<times> 'l) \<Rightarrow> gotime \<Rightarrow> nat \<Rightarrow> 'l ShapedRoute \<Rightarrow> bool \<times> 'l ShapedRoute" where
  "IsAllowed allowN now psize sr =
     (let (ok, sr1) = charge psize sr
      in if \<not> ok then (False, sr1)
         else if sr_speedLimited sr1 then
           (case sr_limiter sr1 of
              None \<Rightarrow> (True, sr1)
            | Some l \<Rightarrow> (let (b, l') = allowN l now psize in (b, sr1\<lparr>sr_limiter := Some l'\<rparr>)))
         else (True, sr1))"

text \<open>
  One round of \<^verbatim>\<open>startWorker\<close>: it blocks (no change) on an empty queue, leaves and closes the queue when the
  context is done or the wait fails, otherwise sends and frees one packet. The first component says whether
  the worker goes on.
\<close>

definition close_queue :: "'l ShapedRoute \<Rightarrow> 'l ShapedRoute" where
  "close_queue sr = sr\<lparr>sr_queue := map_option (\<lambda>q. q\<lparr>ch_closed := True\<rparr>) (sr_queue sr)\<rparr>"

definition worker_step ::
  "'n send_fn \<Rightarrow> ('l option \<Rightarrow> nat \<Rightarrow> bool \<times> 'l option) \<Rightarrow> bool \<Rightarrow>
   'l ShapedRoute \<times> dgMessagePoolImpl \<times> 'n \<Rightarrow> bool \<times> 'l ShapedRoute \<times> dgMessagePoolImpl \<times> 'n" where
  "worker_step send waitN pickDone st =
     (case st of (sr, p, n) \<Rightarrow>
      case Option.bind (sr_queue sr) chan_recv of
        None \<Rightarrow> if ro_done (sr_underlying sr) then (False, close_queue sr, p, n) else (True, sr, p, n)
      | Some (pkt, q') \<Rightarrow>
          if ro_done (sr_underlying sr) \<and> pickDone then (False, close_queue sr, p, n)
          else
            let sr1 = sr\<lparr>sr_queue := Some q'\<rparr>;
                (ok, l') = waitN (sr_limiter sr1) (snd (slice_of pkt p));
                sr2 = sr1\<lparr>sr_limiter := l'\<rparr>
            in if \<not> ok then (False, close_queue sr2, Free pkt p, n)
               else let (_, n') = send (sr_underlying sr2) (slice_of pkt p) n
                    in (True, sr2, Free pkt p, n'))"

section \<open>The table keeps one object per address\<close>

definition rt_ok :: "'l routingTableImpl \<Rightarrow> bool" where
  "rt_ok r \<longleftrightarrow> gm_wf (byVirtualIp r) \<and>
     (\<forall>ip obj. gm_get (byVirtualIp r) ip = Some obj \<longrightarrow> GetVirtualIP obj = ip)"

lemma rt_ok_New: "rt_ok rt_New"
  by (simp add: rt_ok_def rt_New_def)

lemma rt_ok_Add: "rt_ok r \<Longrightarrow> rt_ok (snd (rt_Add obj r))"
  by (auto simp: rt_ok_def rt_Add_def)

lemma rt_ok_Delete: "rt_ok r \<Longrightarrow> rt_ok (snd (rt_Delete ip r))"
  by (auto simp: rt_ok_def rt_Delete_def)

lemma rt_GetByIP_Add:
  "rt_GetByIP ip (snd (rt_Add obj r)) =
     (case rt_GetByIP ip r of None \<Rightarrow> if ip = GetVirtualIP obj then Some obj else None | Some v \<Rightarrow> Some v)"
  by (auto simp: rt_GetByIP_def rt_Add_def split: option.splits)

lemma rt_GetByIP_Delete:
  "rt_GetByIP ip' (snd (rt_Delete ip r)) = (if ip' = ip then None else rt_GetByIP ip' r)"
  by (auto simp: rt_GetByIP_def rt_Delete_def)

lemma dump_record_eq: "dump_record obj = d \<longleftrightarrow> GetNodeID obj = rtd_NodeID d \<and> GetVirtualIP obj = rtd_VirtualIP d"
  by (cases d) (auto simp: dump_record_def)

lemma rt_Dump_iff:
  assumes "rt_ok r"
  shows "d \<in> set (rt_Dump r) \<longleftrightarrow> (\<exists>obj. rt_GetByIP (rtd_VirtualIP d) r = Some obj \<and> GetNodeID obj = rtd_NodeID d)"
proof -
  have "d \<in> set (rt_Dump r) \<longleftrightarrow> (\<exists>k obj. gm_get (byVirtualIp r) k = Some obj \<and> dump_record obj = d)"
    using assms by (auto simp: rt_Dump_def rt_ok_def gm_vals_iff image_iff) (metis gm_vals_iff)+
  also have "\<dots> \<longleftrightarrow> (\<exists>obj. rt_GetByIP (rtd_VirtualIP d) r = Some obj \<and> GetNodeID obj = rtd_NodeID d)"
    using assms by (auto simp: rt_GetByIP_def dump_record_eq rt_ok_def)
  finally show ?thesis .
qed

section \<open>Properties of the routing table and the shaped route\<close>

text \<open>The routing table is a map from addresses to objects that first come, first served: adding
  succeeds exactly for an unused address and never replaces, deleting removes exactly that address, and the
  dump lists exactly the live entries with their nodes.\<close>

theorem routing_table_laws:
  assumes "rt_ok r"
  shows "rt_GetByIP ip (snd (rt_Add obj r)) =
      (case rt_GetByIP ip r of None \<Rightarrow> if ip = GetVirtualIP obj then Some obj else None | Some v \<Rightarrow> Some v) \<and>
    (fst (rt_Add obj r) = None \<longleftrightarrow> rt_GetByIP (GetVirtualIP obj) r = None) \<and>
    rt_GetByIP ip (snd (rt_Delete ip' r)) = (if ip = ip' then None else rt_GetByIP ip r) \<and>
    (d \<in> set (rt_Dump r) \<longleftrightarrow> (\<exists>v. rt_GetByIP (rtd_VirtualIP d) r = Some v \<and> GetNodeID v = rtd_NodeID d))"
  using rt_Dump_iff [OF assms, of d] rt_GetByIP_Add [of ip obj r] rt_GetByIP_Delete [of ip ip' r]
  by (auto simp: rt_Add_def rt_GetByIP_def)

lemma routing_table_laws_witness:
  "fst (rt_Add (PlainRoute \<lparr>ro_NodeID = ''n'', ro_VirtualIP = 7, ro_done = False\<rparr>) (rt_New :: nat routingTableImpl)) = None"
  using routing_table_laws [OF rt_ok_New [where 'a = nat], of 7 "PlainRoute \<lparr>ro_NodeID = ''n'', ro_VirtualIP = 7, ro_done = False\<rparr>" 7
      "\<lparr>rtd_NodeID = ''n'', rtd_VirtualIP = 7\<rparr>"]
  by (simp add: rt_GetByIP_def rt_New_def)

text \<open>The traffic that \<^verbatim>\<open>IsAllowed\<close> let through in a run of checks, at the head of the list first.\<close>

fun allowed_bytes :: "nat list \<Rightarrow> 'l ShapedRoute \<Rightarrow> nat" where
  "allowed_bytes [] sr = 0"
| "allowed_bytes (s # ss) sr = (let (ok, sr') = charge s sr in (if ok then s else 0) + allowed_bytes ss sr')"

lemma charge_budget:
  assumes "sr_trafficLimited sr" and "sint (sr_totalLimit sr) \<ge> - (2 ^ 62)" and "int n < 2 ^ 62"
  shows "sint (sr_totalLimit (snd (charge n sr))) = sint (sr_totalLimit sr) - int n"
    and "fst (charge n sr) \<longleftrightarrow> int n \<le> sint (sr_totalLimit sr)"
proof -
  have n: "sint (of_nat n :: u64) = int n"
    using assms(3) by (simp add: signed_of_nat signed_take_bit_int_eq_self_iff)
  have "sint (sr_totalLimit sr) < 2 ^ 63" using sint_lt [of "sr_totalLimit sr"] by simp
  then have "sint (sr_totalLimit sr - of_nat n) = sint (sr_totalLimit sr) - int n"
    using assms(2,3) by (simp add: sint_word_ariths n signed_take_bit_int_eq_self_iff)
  then show "sint (sr_totalLimit (snd (charge n sr))) = sint (sr_totalLimit sr) - int n"
    "fst (charge n sr) \<longleftrightarrow> int n \<le> sint (sr_totalLimit sr)"
    using assms(1) by (simp_all add: charge_def Let_def)
qed

lemma allowed_bytes_bound:
  assumes "sr_trafficLimited sr" and "int (sum_list ss) < 2 ^ 62"
    and "- (2 ^ 62) \<le> sint (sr_totalLimit sr) - int (sum_list ss)"
  shows "int (allowed_bytes ss sr) \<le> max 0 (sint (sr_totalLimit sr))"
  using assms
proof (induction ss arbitrary: sr)
  case Nil
  then show ?case by simp
next
  case (Cons s ss)
  obtain ok sr' where c: "charge s sr = (ok, sr')" by fastforce
  have b: "- (2 ^ 62) \<le> sint (sr_totalLimit sr)" "int s < 2 ^ 62" using Cons.prems(2,3) by simp_all
  have "sint (sr_totalLimit sr') = sint (sr_totalLimit sr) - int s" "ok \<longleftrightarrow> int s \<le> sint (sr_totalLimit sr)"
    using charge_budget [OF Cons.prems(1) b] by (simp_all add: c)
  moreover have "sr_trafficLimited sr'" using c Cons.prems(1) by (auto simp: charge_def Let_def)
  ultimately show ?case using Cons.IH [of sr'] Cons.prems(2,3) by (auto simp: c)
qed

text \<open>The traffic budget is honoured. Whatever the sizes of the packets offered, refused ones included,
  the bytes that pass the budget check never exceed the budget, as long as less than 2^62 bytes are offered
  in all.\<close>

theorem traffic_budget_honoured:
  assumes "sr_trafficLimited sr" and "0 \<le> sint (sr_totalLimit sr)" and "int (sum_list ss) < 2 ^ 62"
  shows "int (allowed_bytes ss sr) \<le> sint (sr_totalLimit sr)"
  using allowed_bytes_bound [OF assms(1,3)] assms(2,3) by simp

lemma traffic_budget_honoured_witness:
  "int (allowed_bytes [600, 500, 300] \<lparr>sr_underlying = \<lparr>ro_NodeID = ''n'', ro_VirtualIP = 7, ro_done = False\<rparr>,
     sr_queue = None, sr_limiter = (None :: nat option), sr_speedLimited = False, sr_totalLimit = 1000,
     sr_trafficLimited = True\<rparr>) \<le> 1000"
  using traffic_budget_honoured [of "\<lparr>sr_underlying = \<lparr>ro_NodeID = ''n'', ro_VirtualIP = 7, ro_done = False\<rparr>,
     sr_queue = None, sr_limiter = (None :: nat option), sr_speedLimited = False, sr_totalLimit = 1000,
     sr_trafficLimited = True\<rparr>" "[600, 500, 300]"]
  by simp

text \<open>Pushing to a shaped route whose worker has left can crash the node. Once the context is done and
  the worker has closed the queue, \<^verbatim>\<open>PushLimited\<close> of a packet within the budget panics whenever the runtime
  picks the send case, since both cases of the \<^verbatim>\<open>select\<close> are ready.\<close>

theorem push_after_worker_exit_panics:
  assumes "sr_speedLimited sr" and "sr_queue sr = Some q" and "ro_done (sr_underlying sr)"
    and "worker_step send waitN True (sr, p, n) = (False, sr', p', n')" and "fst (charge (snd (slice_of pkt p')) sr')"
  shows "fst (PushLimited send False pkt (sr', p', n')) = PushPanic"
proof -
  have "sr' = close_queue sr" using assms(2-4)
    by (auto simp: worker_step_def split: option.splits)
  then have "sr_queue (snd (charge k sr')) = Some (q\<lparr>ch_closed := True\<rparr>)" "sr_speedLimited (snd (charge k sr'))"
    "sr_underlying (snd (charge k sr')) = sr_underlying sr" for k
    using assms(1,2) by (simp_all add: charge_def close_queue_def Let_def)
  with assms(3,5) show ?thesis
    by (simp add: PushLimited_def select_push_def queue_ready_def try_send_def split_beta Let_def)
qed

definition exShaped :: "nat ShapedRoute" where
  "exShaped = \<lparr>sr_underlying = \<lparr>ro_NodeID = ''n'', ro_VirtualIP = 7, ro_done = True\<rparr>, sr_queue = Some (mkchan 500),
     sr_limiter = Some 0, sr_speedLimited = True, sr_totalLimit = 0, sr_trafficLimited = False\<rparr>"

lemma push_after_worker_exit_panics_witness:
  "fst (PushLimited (\<lambda>_ _ n. (True, n)) False 0 (close_queue exShaped, NewDGMessagePool 1500, ())) = PushPanic"
  by (rule push_after_worker_exit_panics [where sr = exShaped and q = "mkchan 500" and p = "NewDGMessagePool 1500"
        and waitN = "\<lambda>l _. (True, l)" and n = "()"])
    (simp_all add: exShaped_def worker_step_def chan_recv_def close_queue_def charge_def)

end
