(* ===== verification/NetUtils.thy ===== *)
theory NetUtils
  imports DGMessage
begin

text \<open>
  \<^verbatim>\<open>internal/utils/netutils\<close>: IPv4 addresses as 32-bit numbers, their text, and CIDR networks. What the
  module uses of Go's \<^verbatim>\<open>net\<close> package is written out: \<^verbatim>\<open>net.IP\<close> is a byte string (nil is the empty one),
  \<^verbatim>\<open>ParseIP\<close> with its IPv4 and IPv6 parsers, \<^verbatim>\<open>ParseCIDR\<close>, \<^verbatim>\<open>To4\<close>, \<^verbatim>\<open>Mask\<close> and \<^verbatim>\<open>String\<close> of an IPv4 address.
\<close>

section \<open>Addresses of the net package\<close>

type_synonym netIP = bytes

definition v4InV6Prefix :: bytes where
  "v4InV6Prefix = replicate 10 0 @ [0xff, 0xff]"

definition To4 :: "netIP \<Rightarrow> netIP" where
  "To4 ip = (if length ip = 4 then ip
             else if length ip = 16 \<and> take 12 ip = v4InV6Prefix then drop 12 ip else [])"

definition IPv4 :: "u8 \<Rightarrow> u8 \<Rightarrow> u8 \<Rightarrow> u8 \<Rightarrow> netIP" where
  "IPv4 a b c d = v4InV6Prefix @ [a, b, c, d]"

definition byte_str :: "u8 \<Rightarrow> string" where
  "byte_str b = show_word b"

text \<open>\<^verbatim>\<open>IP.String\<close> of a four byte address.\<close>

fun dotted :: "bytes \<Rightarrow> string" where
  "dotted [] = ''''"
| "dotted [b] = byte_str b"
| "dotted (b # bs) = byte_str b @ CHR ''.'' # dotted bs"

text \<open>The IPv4 parser: the value of the current octet, its number of digits, the finished octets.\<close>

type_synonym v4state = "nat \<times> nat \<times> bytes"

definition v4_step :: "v4state option \<Rightarrow> char \<Rightarrow> v4state option" where
  "v4_step st c = (case st of None \<Rightarrow> None | Some (val, digLen, octets) \<Rightarrow>
     if is_digit c then
       (if digLen = 1 \<and> val = 0 then None
        else let v = 10 * val + (of_char c - 48) in if 255 < v then None else Some (v, digLen + 1, octets))
     else if c = CHR ''.'' then
       (if digLen = 0 \<or> length octets = 3 then None else Some (0, 0, octets @ [of_nat val]))
     else None)"

definition parseIPv4Fields :: "string \<Rightarrow> bytes option" where
  "parseIPv4Fields s =
     (case foldl v4_step (Some (0, 0, [])) s of
        None \<Rightarrow> None
      | Some (val, digLen, octets) \<Rightarrow>
          if digLen = 0 \<or> length octets < 3 then None else Some (octets @ [of_nat val]))"

definition hex_val :: "char \<Rightarrow> nat option" where
  "hex_val c = (let k = of_char c :: nat in
     if 48 \<le> k \<and> k \<le> 57 then Some (k - 48)
     else if 97 \<le> k \<and> k \<le> 102 then Some (k - 87)
     else if 65 \<le> k \<and> k \<le> 70 then Some (k - 55) else None)"

text \<open>One hexadecimal group: its value, its number of digits and what follows.\<close>

fun hex_group :: "nat \<Rightarrow> nat \<Rightarrow> string \<Rightarrow> (nat \<times> nat \<times> string) option" where
  "hex_group acc off [] = Some (acc, off, [])"
| "hex_group acc off (c # s) =
     (case hex_val c of
        None \<Rightarrow> Some (acc, off, c # s)
      | Some v \<Rightarrow> if 3 < off \<or> 65535 < 16 * acc + v then None else hex_group (16 * acc + v) (off + 1) s)"

text \<open>The groups read so far (as bytes), the position of the ellipsis, the rest. At most eight rounds.\<close>

fun v6_groups :: "nat \<Rightarrow> bytes \<Rightarrow> nat option \<Rightarrow> string \<Rightarrow> (bytes \<times> nat option) option" where
  "v6_groups 0 bs ell s = (if s = [] then Some (bs, ell) else None)"
| "v6_groups (Suc n) bs ell s =
     (case hex_group 0 0 s of
        None \<Rightarrow> None
      | Some (acc, off, rest) \<Rightarrow>
          if off = 0 then None
          else if rest \<noteq> [] \<and> hd rest = CHR ''.'' then
            (if (ell = None \<and> length bs \<noteq> 12) \<or> 12 < length bs then None
             else case parseIPv4Fields s of None \<Rightarrow> None | Some f \<Rightarrow> Some (bs @ f, ell))
          else
            let bs' = bs @ [of_nat (acc div 256), of_nat acc] in
            (case rest of
               [] \<Rightarrow> Some (bs', ell)
             | c # s1 \<Rightarrow>
                 if c \<noteq> CHR '':'' \<or> s1 = [] then None
                 else if hd s1 = CHR '':'' then
                   (if ell \<noteq> None then None
                    else if tl s1 = [] then Some (bs', Some (length bs'))
                    else v6_groups n bs' (Some (length bs')) (tl s1))
                 else v6_groups n bs' ell s1))"

definition parseIPv6 :: "string \<Rightarrow> bytes option" where
  "parseIPv6 s =
     (let (ell, s') = (case s of a # b # r \<Rightarrow> if a = CHR '':'' \<and> b = CHR '':'' then (Some 0, r) else (None, s)
                              | _ \<Rightarrow> (None, s)) in
      if ell \<noteq> None \<and> s' = [] then Some (replicate 16 0)
      else case v6_groups 8 [] ell s' of
             None \<Rightarrow> None
           | Some (bs, None) \<Rightarrow> if length bs = 16 then Some bs else None
           | Some (bs, Some e) \<Rightarrow>
               if length bs = 16 then None
               else Some (take e bs @ replicate (16 - length bs) 0 @ drop e bs))"

datatype parsed_addr = Addr4 bytes | Addr6 bytes

text \<open>The first of the characters dot, colon and percent decides the family; zones are not accepted by
  the callers, so an address with one is an error.\<close>

definition ParseAddr :: "string \<Rightarrow> parsed_addr option" where
  "ParseAddr s =
     (if CHR ''%'' \<in> set s then None
      else case filter (\<lambda>c. c = CHR ''.'' \<or> c = CHR '':'') s of
             [] \<Rightarrow> None
           | c # _ \<Rightarrow> if c = CHR ''.'' then map_option Addr4 (parseIPv4Fields s)
                      else map_option Addr6 (parseIPv6 s))"

fun As16 :: "parsed_addr \<Rightarrow> netIP" where
  "As16 (Addr4 b) = v4InV6Prefix @ b"
| "As16 (Addr6 b) = b"

fun BitLen :: "parsed_addr \<Rightarrow> nat" where
  "BitLen (Addr4 _) = 32"
| "BitLen (Addr6 _) = 128"

definition ParseIP :: "string \<Rightarrow> netIP" where
  "ParseIP s = (case ParseAddr s of None \<Rightarrow> [] | Some a \<Rightarrow> As16 a)"

fun CIDRMask :: "nat \<Rightarrow> nat \<Rightarrow> bytes" where
  "CIDRMask n 0 = []"
| "CIDRMask n (Suc l) = (if 8 \<le> n then 0xff # CIDRMask (n - 8) l else NOT (drop_bit n 0xff) # CIDRMask 0 l)"

definition ipMask :: "netIP \<Rightarrow> bytes \<Rightarrow> netIP" where
  "ipMask ip m =
     (let m' = (if length m = 16 \<and> length ip = 4 \<and> take 12 m = replicate 12 0xff then drop 12 m else m);
          ip' = (if length m' = 4 \<and> length ip = 16 \<and> take 12 ip = v4InV6Prefix then drop 12 ip else ip)
      in if length ip' \<noteq> length m' then [] else map2 (AND) ip' m')"

text \<open>\<^verbatim>\<open>dtoi\<close>: all digits, at least one, below 0xFFFFFF at every step.\<close>

definition dtoi :: "string \<Rightarrow> nat option" where
  "dtoi s =
     (if s = [] \<or> \<not> list_all is_digit s then None
      else foldl (\<lambda>acc c. case acc of None \<Rightarrow> None | Some n \<Rightarrow>
             let v = 10 * n + (of_char c - 48) in if 0xFFFFFF \<le> v then None else Some v) (Some 0) s)"

record IPNet =
  net_IP :: netIP
  net_Mask :: bytes

definition ParseCIDR :: "string \<Rightarrow> (netIP \<times> IPNet) option" where
  "ParseCIDR s =
     (case dropWhile (\<lambda>c. c \<noteq> CHR ''/'') s of
        [] \<Rightarrow> None
      | _ # m \<Rightarrow>
          (case (ParseAddr (takeWhile (\<lambda>c. c \<noteq> CHR ''/'') s), dtoi m) of
             (Some a, Some n) \<Rightarrow>
               if BitLen a < n then None
               else let mask = CIDRMask n (BitLen a div 8)
                    in Some (As16 a, \<lparr>net_IP = ipMask (As16 a) mask, net_Mask = mask\<rparr>)
           | _ \<Rightarrow> None))"

section \<open>The module\<close>

definition be32z :: "bytes \<Rightarrow> u32" where
  "be32z b = (case be32 b of None \<Rightarrow> 0 | Some w \<Rightarrow> w)"

text \<open>\<^verbatim>\<open>BigEndian.Uint32\<close> is only applied to results of \<^verbatim>\<open>To4\<close> and to masks, which have four bytes.\<close>

definition IPToUint32 :: "netIP \<Rightarrow> u32" where
  "IPToUint32 ip = (if ip = [] then 0 else let ipv4 = To4 ip in if ipv4 = [] then 0 else be32z ipv4)"

definition Uint32ToIPString :: "u32 \<Rightarrow> string" where
  "Uint32ToIPString nn = dotted (put32 nn)"

definition IPStringToUint32 :: "string \<Rightarrow> u32" where
  "IPStringToUint32 ipStr =
     (let ip = ParseIP ipStr in
      if ip = [] then 0 else let ipv4 = To4 ip in if ipv4 = [] then 0 else be32z ipv4)"

record NativeIPNet =
  Base :: u32
  Mask :: u32

definition Contains :: "NativeIPNet \<Rightarrow> u32 \<Rightarrow> bool" where
  "Contains n ip = (ip AND Mask n = Base n)"

datatype cidr_error = InvalidCIDR | OnlyIPv4CIDR

definition NewNativeIPNet :: "string \<Rightarrow> cidr_error + (u32 \<times> NativeIPNet)" where
  "NewNativeIPNet cidrStr =
     (case ParseCIDR cidrStr of
        None \<Rightarrow> Inl InvalidCIDR
      | Some (addr, ipNet) \<Rightarrow>
          let ipv4 = To4 (net_IP ipNet) in
          if ipv4 = [] then Inl OnlyIPv4CIDR
          else let maskBytes = (if length (net_Mask ipNet) = 16 then drop 12 (net_Mask ipNet) else net_Mask ipNet)
               in Inr (IPToUint32 addr, \<lparr>Base = be32z ipv4, Mask = be32z maskBytes\<rparr>))"

section \<open>Text and number\<close>

text \<open>Each octet is read back with the state the parser had before it.\<close>

lemma v4_octet_small:
  "\<forall>v < 256. \<forall>octets. \<exists>d > 0. foldl v4_step (Some (0, 0, octets)) (show_nat v) = Some (v, d, octets)"
proof (intro allI impI)
  fix v :: nat and octets :: bytes
  assume v: "v < 256"
  consider "v < 10" | "10 \<le> v" "v < 100" | "100 \<le> v" by linarith
  then show "\<exists>d > 0. foldl v4_step (Some (0, 0, octets)) (show_nat v) = Some (v, d, octets)"
  proof cases
    case 1
    then show ?thesis by (simp add: show_nat.simps v4_step_def is_digit_def of_char_digit Let_def)
  next
    case 2
    then have "show_nat v = [char_of (48 + v div 10), char_of (48 + v mod 10)]"
      by (simp add: show_nat.simps)
    moreover from 2 have "0 < v div 10" "v div 10 < 10" by auto
    ultimately show ?thesis using 2
      by (simp add: v4_step_def is_digit_def of_char_digit Let_def)
  next
    case 3
    then have "show_nat v = [char_of (48 + v div 100), char_of (48 + v div 10 mod 10), char_of (48 + v mod 10)]"
      using v by (simp add: show_nat.simps div_mult2_eq [symmetric]) linarith
    moreover have q: "v div 100 = v div 10 div 10" by (simp add: div_mult2_eq [symmetric])
    have "10 * (v div 100) + v div 10 mod 10 = v div 10" by (simp add: q)
    moreover from this have "10 * (10 * (v div 100) + v div 10 mod 10) + v mod 10 = v" by simp
    moreover from 3 v have "0 < v div 100" "v div 100 < 10" "v div 10 < 256" by auto
    moreover have "v mod 10 \<le> 9" "v div 10 mod 10 \<le> 9" by (simp_all add: less_Suc_eq_le [symmetric])
    ultimately show ?thesis using v
      by (simp add: v4_step_def is_digit_def of_char_digit Let_def)
  qed
qed

lemma v4_octet:
  obtains d where "0 < d" "foldl v4_step (Some (0, 0, octets)) (byte_str b) = Some (unat b, d, octets)"
proof -
  have "unat b < 256" using unsigned_less [of b] by simp
  then show ?thesis using v4_octet_small that by (auto simp: byte_str_def show_word_def)
qed

lemma v4_dot:
  "0 < d \<Longrightarrow> length octets < 3 \<Longrightarrow>
    foldl v4_step (Some (val, d, octets)) (CHR ''.'' # s) = foldl v4_step (Some (0, 0, octets @ [of_nat val])) s"
  by (simp add: v4_step_def is_digit_def)

lemma v4_octet_dot:
  "length octets < 3 \<Longrightarrow>
    foldl v4_step (Some (0, 0, octets)) (byte_str b @ CHR ''.'' # s) = foldl v4_step (Some (0, 0, octets @ [b])) s"
  by (rule v4_octet [of octets b]) (simp only: foldl_append v4_dot, simp)

lemma parse_dotted: "parseIPv4Fields (dotted [a, b, c, d]) = Some [a, b, c, d]"
proof -
  obtain n where "0 < n"
    "foldl v4_step (Some (0, 0, [a, b, c])) (byte_str d) = Some (unat d, n, [a, b, c])"
    by (rule v4_octet)
  then show ?thesis
    by (simp add: parseIPv4Fields_def v4_octet_dot del: foldl_append)
qed

lemma dotted_chars: "c \<in> set (dotted bs) \<Longrightarrow> is_digit c \<or> c = CHR ''.''"
  by (induction bs rule: dotted.induct)
    (auto simp: byte_str_def show_word_def dest: show_nat_digits)

lemma dotted_filter:
  "\<exists>r. filter (\<lambda>c. c = CHR ''.'' \<or> c = CHR '':'') (dotted (a # b # bs)) = CHR ''.'' # r"
proof -
  have "filter (\<lambda>c. c = CHR ''.'' \<or> c = CHR '':'') (byte_str a) = []"
    by (auto simp: filter_empty_conv byte_str_def show_word_def is_digit_def dest!: show_nat_digits)
  then show ?thesis by simp
qed

lemma ParseAddr_dotted: "ParseAddr (dotted [a, b, c, d]) = Some (Addr4 [a, b, c, d])"
proof -
  have "CHR ''%'' \<notin> set (dotted [a, b, c, d])"
    using dotted_chars by (fastforce simp: is_digit_def)
  moreover obtain r where "filter (\<lambda>c. c = CHR ''.'' \<or> c = CHR '':'') (dotted [a, b, c, d]) = CHR ''.'' # r"
    using dotted_filter by blast
  ultimately show ?thesis using parse_dotted by (simp add: ParseAddr_def del: dotted.simps)
qed


lemma put32_parts: obtains a b c d where "put32 v = [a, b, c, d]"
  by (simp add: put32_def)

lemma To4_simps [simp]:
  "To4 [a, b, c, d] = [a, b, c, d]"
  "To4 (v4InV6Prefix @ [a, b, c, d]) = [a, b, c, d]"
  by (simp_all add: To4_def v4InV6Prefix_def)

lemma be32z_put32 [simp]: "be32z (put32 v) = v"
  using be32_put32 [of v "[]"] by (simp add: be32z_def)

text \<open>An address survives printing and parsing: reading back the dotted text of a 32-bit address gives
  the address.\<close>

theorem ip_text_roundtrip: "IPStringToUint32 (Uint32ToIPString n) = n"
proof -
  obtain a b c d where p: "put32 n = [a, b, c, d]" by (rule put32_parts)
  then have "ParseIP (Uint32ToIPString n) = v4InV6Prefix @ put32 n"
    by (simp add: ParseIP_def Uint32ToIPString_def ParseAddr_dotted del: dotted.simps)
  with p be32z_put32 [of n] show ?thesis
    by (simp add: IPStringToUint32_def Let_def v4InV6Prefix_def To4_def)
qed

section \<open>Networks\<close>

lemma dtoi_nat: "n < 0xFFFFFF \<Longrightarrow> dtoi (show_nat n) = Some n"
proof -
  have "n < 0xFFFFFF \<Longrightarrow> foldl (\<lambda>acc c. case acc of None \<Rightarrow> None | Some n \<Rightarrow>
      let v = 10 * n + (of_char c - 48) in if 0xFFFFFF \<le> v then None else Some v) (Some 0) (show_nat n) = Some n" for n
  proof (induction n rule: show_nat.induct)
    case (1 n)
    show ?case
    proof (cases "n < 10")
      case True
      then show ?thesis by (simp add: show_nat.simps [of n] of_char_digit)
    next
      case False
      with 1 show ?thesis by (simp add: show_nat.simps [of n] of_char_digit)
    qed
  qed
  moreover assume "n < 0xFFFFFF"
  ultimately show ?thesis
    using show_nat_digits [of _ n] by (auto simp: dtoi_def list_all_iff)
qed

lemma CIDRMask_word:
  assumes "n \<le> 32" shows "be32z (CIDRMask n 4) = NOT (mask (32 - n))" and "length (CIDRMask n 4) = 4"
proof -
  have "\<forall>n \<in> set [0..<33]. be32z (CIDRMask n 4) = NOT (mask (32 - n)) \<and> length (CIDRMask n 4) = 4"
    by code_simp
  with assms show "be32z (CIDRMask n 4) = NOT (mask (32 - n))" "length (CIDRMask n 4) = 4" by auto
qed

lemma be32z_and:
  "length m = 4 \<Longrightarrow> be32z (map2 (AND) (put32 v) m) = v AND be32z m"
proof -
  assume "length m = 4"
  then obtain a b c d where m: "m = [a, b, c, d]" by (auto simp: eval_nat_numeral length_Suc_conv)
  show ?thesis
    by (auto simp: m be32z_def put32_def bit_eq_iff bit_simps dest: bit_imp_le_length)
qed

lemma same_prefix:
  fixes a b :: u32
  assumes "n \<le> 32"
  shows "a AND NOT (mask (32 - n)) = b AND NOT (mask (32 - n)) \<longleftrightarrow> drop_bit (32 - n) a = drop_bit (32 - n) b"
proof
  assume eq: "a AND NOT (mask (32 - n)) = b AND NOT (mask (32 - n))"
  have "drop_bit (32 - n) w = drop_bit (32 - n) (w AND NOT (mask (32 - n)))" for w :: u32
    by (auto simp: bit_eq_iff bit_simps dest: bit_imp_le_length)
  with eq show "drop_bit (32 - n) a = drop_bit (32 - n) b" by metis
next
  assume eq: "drop_bit (32 - n) a = drop_bit (32 - n) b"
  have "w AND NOT (mask (32 - n)) = push_bit (32 - n) (drop_bit (32 - n) w)" for w :: u32
    by (auto simp: bit_eq_iff bit_simps)
  with eq show "a AND NOT (mask (32 - n)) = b AND NOT (mask (32 - n))" by metis
qed

lemma slash_split:
  "CHR ''/'' \<notin> set a \<Longrightarrow> takeWhile (\<lambda>c. c \<noteq> CHR ''/'') (a @ CHR ''/'' # r) = a \<and>
     dropWhile (\<lambda>c. c \<noteq> CHR ''/'') (a @ CHR ''/'' # r) = CHR ''/'' # r"
  by (induction a) auto

text \<open>The network of a printed address and prefix length.\<close>

lemma ParseCIDR_text:
  assumes "n \<le> 32"
  shows "ParseCIDR (Uint32ToIPString a @ CHR ''/'' # show_nat n) =
      Some (v4InV6Prefix @ put32 a, \<lparr>net_IP = map2 (AND) (put32 a) (CIDRMask n 4), net_Mask = CIDRMask n 4\<rparr>)"
proof -
  obtain p q r s where p: "put32 a = [p, q, r, s]" by (rule put32_parts)
  have "CHR ''/'' \<notin> set (Uint32ToIPString a)"
    using dotted_chars by (fastforce simp: Uint32ToIPString_def is_digit_def)
  note sl = slash_split [OF this, of "show_nat n"]
  have pa: "ParseAddr (Uint32ToIPString a) = Some (Addr4 [p, q, r, s])"
    by (simp add: Uint32ToIPString_def p ParseAddr_dotted del: dotted.simps)
  have "ipMask (v4InV6Prefix @ [p, q, r, s]) (CIDRMask n 4) = map2 (AND) (put32 a) (CIDRMask n 4)"
    using CIDRMask_word(2) [OF assms] by (simp add: ipMask_def Let_def v4InV6Prefix_def p)
  then show ?thesis
    using assms by (simp add: ParseCIDR_def sl pa dtoi_nat Let_def p)
qed

lemma NewNativeIPNet_text:
  assumes "n \<le> 32"
  shows "NewNativeIPNet (Uint32ToIPString a @ CHR ''/'' # show_nat n) =
    Inr (a, \<lparr>Base = a AND NOT (mask (32 - n)), Mask = NOT (mask (32 - n))\<rparr>)"
proof -
  have m: "length (CIDRMask n 4) = 4" by (rule CIDRMask_word(2) [OF assms])
  have l4: "length (map2 (AND) (put32 a) (CIDRMask n 4)) = 4" using m by (simp add: put32_def)
  then have t4: "To4 (map2 (AND) (put32 a) (CIDRMask n 4)) = map2 (AND) (put32 a) (CIDRMask n 4)"
    by (simp only: To4_def if_True simp_thms)
  have "IPToUint32 (v4InV6Prefix @ put32 a) = a"
    by (rule put32_parts [of a]) (use be32z_put32 [of a] in \<open>simp add: IPToUint32_def v4InV6Prefix_def To4_def\<close>)
  moreover have "map2 (AND) (put32 a) (CIDRMask n 4) \<noteq> []" using l4 by fastforce
  ultimately show ?thesis
    using assms m by (simp add: NewNativeIPNet_def ParseCIDR_text t4 Let_def
        be32z_and CIDRMask_word del: map2_map_map)
qed

text \<open>A network read from \<^verbatim>\<open>a.b.c.d/n\<close> contains exactly the addresses that agree with it in the top n
  bits, for every address and every prefix length from 0 to 32.\<close>

theorem cidr_contains:
  assumes "n \<le> 32"
  shows "\<exists>net. NewNativeIPNet (Uint32ToIPString a @ CHR ''/'' # show_nat n) = Inr (a, net) \<and>
    (\<forall>ip. Contains net ip \<longleftrightarrow> drop_bit (32 - n) ip = drop_bit (32 - n) a)"
  using same_prefix [OF assms] by (simp add: NewNativeIPNet_text [OF assms] Contains_def)

lemma cidr_contains_witness:
  "\<exists>net. NewNativeIPNet (Uint32ToIPString 0x0A000000 @ CHR ''/'' # show_nat 8) = Inr (0x0A000000, net) \<and>
    (\<forall>ip. Contains net ip \<longleftrightarrow> drop_bit (32 - 8) ip = drop_bit (32 - 8) (0x0A000000 :: u32))"
  by (rule cidr_contains) simp

end
