(* ===== verification/Router.thy ===== *)
theory Router
  imports Firewall RoutingTable NetUtils EventBus
begin

text \<open>
  \<^verbatim>\<open>pkg/router\<close>: the router joins the packet pool, the routing table and the firewall, spreads packets over
  worker channels by a flow hash, decides for every packet whether it goes to the TUN interface, to a peer or
  nowhere, and publishes changes of rules and clients to subscribers. The network side that
  \<^verbatim>\<open>SendDatagram\<close> acts on is a type variable; the clock readings of one packet are \<open>clk 0\<close>, \<open>clk 1\<close>, ... in the
  order the code takes them.
\<close>

section \<open>State\<close>

datatype RouterEventType = ClientAdded | ClientRemoved

record RouterEvent =
  re_Type :: RouterEventType
  re_VirtualIP :: u32
  re_NodeID :: string

datatype FirewallEventType = RuleAdded | RuleRemoved

record FirewallEvent =
  fe_Type :: FirewallEventType
  fe_NodeID :: string
  fe_RuleID :: u64
  fe_Address :: u32
  fe_TargetAddress :: "u32 option"
  fe_Protocol :: string
  fe_PortRangeStart :: u16
  fe_PortRangeEnd :: "u16 option"

datatype fromType = fromTransport | fromTun | fromMesh

record datagramMessageInfo =
  di_Msg :: nat
  di_From :: fromType

record ('l, 'n) Router =
  packetsPool :: dgMessagePoolImpl
  routingTable :: "'l routingTableImpl"
  firewall :: firewallEngineImpl
  toIface :: "nat chan"
  gatewayAddr :: u32
  network :: NativeIPNet
  globalNetwork :: NativeIPNet
  shardedWorkers :: "datagramMessageInfo chan list"
  routingsubs :: "RouterEvent bus"
  firewallsubs :: "FirewallEvent bus"
  totalFromPeers :: u64
  totalFromIface :: u64
  totalFromMesh :: u64
  netside :: 'n

text \<open>\<^verbatim>\<open>runtime.GOMAXPROCS(0)\<close> is the argument \<open>procs\<close>, at least one.\<close>

definition router_New :: "nat \<Rightarrow> 'n \<Rightarrow> string \<Rightarrow> string \<Rightarrow> cidr_error + ('l, 'n) Router" where
  "router_New procs net0 nodeCIDR globalCIDR =
     (case NewNativeIPNet nodeCIDR of
        Inl e \<Rightarrow> Inl e
      | Inr (gw, nw) \<Rightarrow>
          (case NewNativeIPNet globalCIDR of
             Inl e \<Rightarrow> Inl e
           | Inr (_, gnw) \<Rightarrow>
               Inr \<lparr>packetsPool = NewDGMessagePool 65535, routingTable = rt_New, firewall = fw_New,
                    toIface = mkchan 1000, gatewayAddr = gw, network = nw, globalNetwork = gnw,
                    shardedWorkers = replicate procs (mkchan 1000),
                    routingsubs = bus_New, firewallsubs = bus_New,
                    totalFromPeers = 0, totalFromIface = 0, totalFromMesh = 0, netside = net0\<rparr>))"

section \<open>Sharding\<close>

definition orderEnds :: "HoleInfo \<Rightarrow> u32 \<times> u32 \<times> u16 \<times> u16" where
  "orderEnds hi =
     (if hi_SrcIP hi > hi_DstIP hi \<or> (hi_SrcIP hi = hi_DstIP hi \<and> hi_SrcPort hi > hi_DstPort hi)
      then (hi_DstIP hi, hi_SrcIP hi, hi_DstPort hi, hi_SrcPort hi)
      else (hi_SrcIP hi, hi_DstIP hi, hi_SrcPort hi, hi_DstPort hi))"

definition workerHash :: "HoleInfo \<Rightarrow> u32" where
  "workerHash hi =
     (let (ip1, ip2, port1, port2) = orderEnds hi;
          h = push_bit 32 (ucast ip1 :: u64) XOR ucast ip2;
          h = h * 0x9e3779b97f4a7c15 + push_bit 16 (ucast port1) + ucast port2;
          h = (case hi_Protocol hi of [] \<Rightarrow> h | c # _ \<Rightarrow> h XOR push_bit 48 (of_nat (of_char c)));
          hash = ucast (h XOR drop_bit 32 h) :: u32;
          hash = hash XOR drop_bit 16 hash;
          hash = hash * 0x85ebca6b;
          hash = hash XOR drop_bit 13 hash;
          hash = hash * 0xc2b2ae35;
          hash = hash XOR drop_bit 16 hash
      in hash)"

text \<open>The index of the worker: \<^verbatim>\<open>hash % uint32(len(r.shardedWorkers))\<close>; None is the division by zero.\<close>

definition getWorker :: "HoleInfo \<Rightarrow> ('l, 'n) Router \<Rightarrow> nat option" where
  "getWorker hi r =
     (let n = of_nat (length (shardedWorkers r)) :: u32
      in if n = 0 then None else Some (unat (workerHash hi mod n)))"

text \<open>\<^verbatim>\<open>HandleTunPacket\<close>, \<^verbatim>\<open>HandleMeshPacket\<close> and \<^verbatim>\<open>HandleTransportPacket\<close>; None while the worker's channel is full.\<close>

definition HandlePacket :: "fromType \<Rightarrow> nat \<Rightarrow> ('l, 'n) Router \<Rightarrow> ('l, 'n) Router option" where
  "HandlePacket from pkt r =
     (case getWorker (msg_hole pkt (packetsPool r)) r of
        None \<Rightarrow> None
      | Some i \<Rightarrow>
          if i < length (shardedWorkers r) then
            (case try_send \<lparr>di_Msg = pkt, di_From = from\<rparr> (shardedWorkers r ! i) of
               Sent c \<Rightarrow> Some (r\<lparr>shardedWorkers := (shardedWorkers r)[i := c]\<rparr>)
             | _ \<Rightarrow> None)
          else None)"

definition HandleTunPacket :: "nat \<Rightarrow> ('l, 'n) Router \<Rightarrow> ('l, 'n) Router option" where
  "HandleTunPacket = HandlePacket fromTun"

definition HandleMeshPacket :: "nat \<Rightarrow> ('l, 'n) Router \<Rightarrow> ('l, 'n) Router option" where
  "HandleMeshPacket = HandlePacket fromMesh"

definition HandleTransportPacket :: "nat \<Rightarrow> ('l, 'n) Router \<Rightarrow> ('l, 'n) Router option" where
  "HandleTransportPacket = HandlePacket fromTransport"

section \<open>Packet handlers\<close>

definition isForbiddenEgress :: "u32 \<Rightarrow> bool" where
  "isForbiddenEgress ip =
     (if drop_bit 24 ip = 0x00 then True
      else if drop_bit 24 ip = 0x7F then True
      else if drop_bit 24 ip = 0x0A then True
      else if drop_bit 16 ip = 0xA9FE then True
      else if drop_bit 16 ip = 0xC0A8 then True
      else if ip \<ge> 0xAC100000 \<and> ip \<le> 0xAC1FFFFF then True
      else if ip \<ge> 0xE0000000 then True
      else False)"

text \<open>How a handler ends: done, the process crashed, or waiting for room in the channel to the TUN.\<close>

datatype handled = Handled | Crashed | WaitIface nat

definition freePacket :: "nat \<Rightarrow> ('l, 'n) Router \<Rightarrow> ('l, 'n) Router" where
  "freePacket pkt r = r\<lparr>packetsPool := Free pkt (packetsPool r)\<rparr>"

definition pktLen :: "nat \<Rightarrow> ('l, 'n) Router \<Rightarrow> nat" where
  "pktLen pkt r = snd (slice_of pkt (packetsPool r))"

definition putObj :: "u32 \<Rightarrow> 'l RoutingObject \<Rightarrow> ('l, 'n) Router \<Rightarrow> ('l, 'n) Router" where
  "putObj ip obj r = r\<lparr>routingTable := (routingTable r)\<lparr>byVirtualIp := gm_set ip obj (byVirtualIp (routingTable r))\<rparr>\<rparr>"

definition sendPlain :: "'n send_fn \<Rightarrow> RouteObj \<Rightarrow> nat \<Rightarrow> ('l, 'n) Router \<Rightarrow> ('l, 'n) Router" where
  "sendPlain send ob pkt r = r\<lparr>netside := snd (send ob (slice_of pkt (packetsPool r)) (netside r))\<rparr>"

text \<open>The common tail of the TUN and mesh handlers: look the destination up and hand the packet over.\<close>

definition forward :: "'n send_fn \<Rightarrow> bool \<Rightarrow> nat \<Rightarrow> ('l, 'n) Router \<Rightarrow> handled \<times> ('l, 'n) Router" where
  "forward send pickDone pkt r =
     (let dst = hi_DstIP (msg_hole pkt (packetsPool r)) in
      case rt_GetByIP dst (routingTable r) of
        None \<Rightarrow> (Handled, freePacket pkt r)
      | Some (Shaped sr) \<Rightarrow>
          (let (res, sr', p', n') = PushLimited send pickDone pkt (sr, packetsPool r, netside r);
               r1 = putObj dst (Shaped sr') (r\<lparr>packetsPool := p', netside := n'\<rparr>)
           in case res of
                PushOk \<Rightarrow> (Handled, r1)
              | PushErr _ \<Rightarrow> (Handled, freePacket pkt r1)
              | PushPanic \<Rightarrow> (Crashed, r1))
      | Some (PlainRoute ob) \<Rightarrow> (Handled, freePacket pkt (sendPlain send ob pkt r)))"

definition handleTunPacketInternal :: "'n send_fn \<Rightarrow> bool \<Rightarrow> nat \<Rightarrow> ('l, 'n) Router \<Rightarrow> handled \<times> ('l, 'n) Router" where
  "handleTunPacketInternal send pickDone pkt r =
     forward send pickDone pkt (r\<lparr>totalFromIface := totalFromIface r + of_nat (pktLen pkt r)\<rparr>)"

definition handleMeshPacketInternal ::
  "'n send_fn \<Rightarrow> bool \<Rightarrow> (nat \<Rightarrow> gotime) \<Rightarrow> nat \<Rightarrow> ('l, 'n) Router \<Rightarrow> handled \<times> ('l, 'n) Router" where
  "handleMeshPacketInternal send pickDone clk pkt r =
     (let hi = msg_hole pkt (packetsPool r);
          r1 = r\<lparr>totalFromMesh := totalFromMesh r + of_nat (pktLen pkt r)\<rparr>;
          r2 = (if hi_Protocol hi \<noteq> '''' then r1\<lparr>firewall := Holepunch (clk 0) hi minute (firewall r1)\<rparr> else r1)
      in forward send pickDone pkt r2)"

definition sendIface :: "nat \<Rightarrow> ('l, 'n) Router \<Rightarrow> handled \<times> ('l, 'n) Router" where
  "sendIface pkt r =
     (case try_send pkt (toIface r) of
        Sent c \<Rightarrow> (Handled, r\<lparr>toIface := c\<rparr>)
      | Full \<Rightarrow> (WaitIface pkt, r)
      | Panic \<Rightarrow> (Crashed, r))"

text \<open>The rate and budget check of the sender, when it is a shaped route.\<close>

definition srcAllowed ::
  "('l \<Rightarrow> gotime \<Rightarrow> nat \<Rightarrow> bool \<times> 'l) \<Rightarrow> gotime \<Rightarrow> nat \<Rightarrow> ('l, 'n) Router \<Rightarrow> bool \<times> ('l, 'n) Router" where
  "srcAllowed allowN now pkt r =
     (let src = hi_SrcIP (msg_hole pkt (packetsPool r)) in
      case rt_GetByIP src (routingTable r) of
        Some (Shaped sr) \<Rightarrow> (let (ok, sr') = IsAllowed allowN now (pktLen pkt r) sr in (ok, putObj src (Shaped sr') r))
      | _ \<Rightarrow> (True, r))"

definition handleTransportPacketInternal ::
  "'n send_fn \<Rightarrow> ('l \<Rightarrow> gotime \<Rightarrow> nat \<Rightarrow> bool \<times> 'l) \<Rightarrow> (nat \<Rightarrow> gotime) \<Rightarrow> nat \<Rightarrow> ('l, 'n) Router \<Rightarrow> handled \<times> ('l, 'n) Router" where
  "handleTransportPacketInternal send allowN clk pkt r =
     (let hi = msg_hole pkt (packetsPool r);
          (ok, r1) = srcAllowed allowN (clk 0) pkt (r\<lparr>totalFromPeers := totalFromPeers r + of_nat (pktLen pkt r)\<rparr>)
      in if \<not> ok then (Handled, freePacket pkt r1)
         else if hi_DstIP hi = gatewayAddr r1 then sendIface pkt r1
         else if \<not> Contains (globalNetwork r1) (hi_DstIP hi) then
           (if isForbiddenEgress (hi_DstIP hi) then (Handled, freePacket pkt r1) else sendIface pkt r1)
         else
           let (pass, fw1) = RuleCheck (clk 1) hi (firewall r1);
               r2 = r1\<lparr>firewall := fw1\<rparr>
           in if \<not> pass then (Handled, freePacket pkt r2)
              else
                let r3 = r2\<lparr>firewall := Holepunch (clk 2) hi minute (firewall r2)\<rparr>
                in case rt_GetByIP (hi_DstIP hi) (routingTable r3) of
                     None \<Rightarrow> (Handled, freePacket pkt r3)
                   | Some peer \<Rightarrow> (Handled, freePacket pkt (sendPlain send (underlying peer) pkt r3)))"

text \<open>One round of a worker of \<^verbatim>\<open>Run\<close>: take a packet and dispatch on where it came from.\<close>

definition runWorker ::
  "'n send_fn \<Rightarrow> ('l \<Rightarrow> gotime \<Rightarrow> nat \<Rightarrow> bool \<times> 'l) \<Rightarrow> bool \<Rightarrow> (nat \<Rightarrow> gotime) \<Rightarrow> nat \<Rightarrow> ('l, 'n) Router \<Rightarrow>
   (handled \<times> ('l, 'n) Router) option" where
  "runWorker send allowN pickDone clk i r =
     (if i < length (shardedWorkers r) then
        (case chan_recv (shardedWorkers r ! i) of
           None \<Rightarrow> None
         | Some (info, c) \<Rightarrow>
             let r1 = r\<lparr>shardedWorkers := (shardedWorkers r)[i := c]\<rparr>
             in Some (case di_From info of
                        fromTun \<Rightarrow> handleTunPacketInternal send pickDone (di_Msg info) r1
                      | fromMesh \<Rightarrow> handleMeshPacketInternal send pickDone clk (di_Msg info) r1
                      | fromTransport \<Rightarrow> handleTransportPacketInternal send allowN clk (di_Msg info) r1))
      else None)"

record RouterStats =
  st_TotalFromIface :: u64
  st_TotalFromMesh :: u64
  st_TotalFromPeers :: u64

definition GetStats :: "('l, 'n) Router \<Rightarrow> RouterStats" where
  "GetStats r = \<lparr>st_TotalFromIface = totalFromIface r, st_TotalFromMesh = totalFromMesh r,
                 st_TotalFromPeers = totalFromPeers r\<rparr>"

section \<open>Rules, clients and their events\<close>

definition SubscribeRoutingEvents :: "('l, 'n) Router \<Rightarrow> nat \<times> ('l, 'n) Router" where
  "SubscribeRoutingEvents r = (let (ch, b) = bus_subscribe 200 (routingsubs r) in (ch, r\<lparr>routingsubs := b\<rparr>))"

definition SubscribeFirewallEvents :: "('l, 'n) Router \<Rightarrow> nat \<times> ('l, 'n) Router" where
  "SubscribeFirewallEvents r = (let (ch, b) = bus_subscribe 200 (firewallsubs r) in (ch, r\<lparr>firewallsubs := b\<rparr>))"

definition cancelRouting :: "nat \<Rightarrow> ('l, 'n) Router \<Rightarrow> ('l, 'n) Router option" where
  "cancelRouting ch r = map_option (\<lambda>b. r\<lparr>routingsubs := b\<rparr>) (bus_cancel ch (routingsubs r))"

definition cancelFirewall :: "nat \<Rightarrow> ('l, 'n) Router \<Rightarrow> ('l, 'n) Router option" where
  "cancelFirewall ch r = map_option (\<lambda>b. r\<lparr>firewallsubs := b\<rparr>) (bus_cancel ch (firewallsubs r))"

definition notifyRoutingEvent :: "RouterEvent \<Rightarrow> ('l, 'n) Router \<Rightarrow> ('l, 'n) Router option" where
  "notifyRoutingEvent ev r = map_option (\<lambda>b. r\<lparr>routingsubs := b\<rparr>) (bus_notify ev (routingsubs r))"

definition notifyFirewallEvent :: "FirewallEvent \<Rightarrow> ('l, 'n) Router \<Rightarrow> ('l, 'n) Router option" where
  "notifyFirewallEvent ev r = map_option (\<lambda>b. r\<lparr>firewallsubs := b\<rparr>) (bus_notify ev (firewallsubs r))"

definition addedEvent :: "PortRuleIndex \<Rightarrow> PortRule \<Rightarrow> FirewallEvent" where
  "addedEvent idx rule =
     \<lparr>fe_Type = RuleAdded, fe_NodeID = pri_NodeID idx, fe_RuleID = pri_RuleID idx, fe_Address = pr_Address rule,
      fe_TargetAddress = pr_TargetAddress rule, fe_Protocol = pr_Protocol rule,
      fe_PortRangeStart = pr_PortRangeStart rule, fe_PortRangeEnd = pr_PortRangeEnd rule\<rparr>"

definition removedEvent :: "PortRuleIndex \<Rightarrow> FirewallEvent" where
  "removedEvent idx =
     \<lparr>fe_Type = RuleRemoved, fe_NodeID = pri_NodeID idx, fe_RuleID = pri_RuleID idx, fe_Address = 0,
      fe_TargetAddress = None, fe_Protocol = '''', fe_PortRangeStart = 0, fe_PortRangeEnd = None\<rparr>"

text \<open>None is a panic of the notification, which \<open>bus_never_panics\<close> rules out.\<close>

definition router_AddRule :: "PortRuleIndex \<Rightarrow> PortRule \<Rightarrow> ('l, 'n) Router \<Rightarrow> (bool \<times> ('l, 'n) Router) option" where
  "router_AddRule idx rule r =
     (let (ok, fw) = AddRule idx rule (firewall r); r1 = r\<lparr>firewall := fw\<rparr>
      in if \<not> ok then Some (False, r1)
         else map_option (Pair True) (notifyFirewallEvent (addedEvent idx rule) r1))"

definition router_RemoveRule :: "PortRuleIndex \<Rightarrow> ('l, 'n) Router \<Rightarrow> (bool \<times> ('l, 'n) Router) option" where
  "router_RemoveRule idx r =
     (let (ok, fw) = RemoveRule idx (firewall r); r1 = r\<lparr>firewall := fw\<rparr>
      in if \<not> ok then Some (False, r1)
         else map_option (Pair True) (notifyFirewallEvent (removedEvent idx) r1))"

definition router_DumpRules :: "('l, 'n) Router \<Rightarrow> RuleDump list" where
  "router_DumpRules r = DumpRules (firewall r)"

definition router_ExistsRule :: "PortRuleIndex \<Rightarrow> ('l, 'n) Router \<Rightarrow> bool" where
  "router_ExistsRule idx r = ExistsRule idx (firewall r)"

definition AddRemoteRule :: "PortRuleIndex \<Rightarrow> PortRule \<Rightarrow> ('l, 'n) Router \<Rightarrow> bool \<times> ('l, 'n) Router" where
  "AddRemoteRule idx rule r = (let (ok, fw) = AddRule idx rule (firewall r) in (ok, r\<lparr>firewall := fw\<rparr>))"

definition RemoveRemoteRule :: "PortRuleIndex \<Rightarrow> ('l, 'n) Router \<Rightarrow> bool \<times> ('l, 'n) Router" where
  "RemoveRemoteRule idx r = (let (ok, fw) = RemoveRule idx (firewall r) in (ok, r\<lparr>firewall := fw\<rparr>))"

definition router_NewMessageCopyFrom ::
  "nat option \<Rightarrow> bytes \<Rightarrow> ('l, 'n) Router \<Rightarrow> ((dg_error + nat) \<times> ('l, 'n) Router) option" where
  "router_NewMessageCopyFrom choice d r =
     map_option (\<lambda>(x, p). (x, r\<lparr>packetsPool := p\<rparr>)) (NewMessageCopyFrom choice d (packetsPool r))"

definition AddRoutingObject ::
  "'l RoutingObject \<Rightarrow> ('l, 'n) Router \<Rightarrow> (route_error option \<times> ('l, 'n) Router) option" where
  "AddRoutingObject obj r =
     (let (err, t) = rt_Add obj (routingTable r); r1 = r\<lparr>routingTable := t\<rparr>
      in if err \<noteq> None then Some (err, r1)
         else map_option (Pair None) (notifyRoutingEvent
           \<lparr>re_Type = ClientAdded, re_VirtualIP = GetVirtualIP obj, re_NodeID = GetNodeID obj\<rparr> r1))"

definition DumpRoutingTable :: "('l, 'n) Router \<Rightarrow> RoutingTableRecordDump list" where
  "DumpRoutingTable r = rt_Dump (routingTable r)"

definition DeleteRoutingObject :: "u32 \<Rightarrow> ('l, 'n) Router \<Rightarrow> (route_error option \<times> ('l, 'n) Router) option" where
  "DeleteRoutingObject ip r =
     (case rt_GetByIP ip (routingTable r) of
        None \<Rightarrow> Some (None, r)
      | Some obj \<Rightarrow>
          let (err, t) = rt_Delete ip (routingTable r); r1 = r\<lparr>routingTable := t\<rparr>
          in if err \<noteq> None then Some (err, r1)
             else map_option (Pair None) (notifyRoutingEvent
               \<lparr>re_Type = ClientRemoved, re_VirtualIP = ip, re_NodeID = GetNodeID obj\<rparr> r1))"

definition AddRemoteRoutingObject :: "'l RoutingObject \<Rightarrow> ('l, 'n) Router \<Rightarrow> route_error option \<times> ('l, 'n) Router" where
  "AddRemoteRoutingObject obj r = (let (err, t) = rt_Add obj (routingTable r) in (err, r\<lparr>routingTable := t\<rparr>))"

definition DeleteRemoteRoutingObject :: "u32 \<Rightarrow> ('l, 'n) Router \<Rightarrow> route_error option \<times> ('l, 'n) Router" where
  "DeleteRemoteRoutingObject ip r = (let (err, t) = rt_Delete ip (routingTable r) in (err, r\<lparr>routingTable := t\<rparr>))"

definition GetRemoteRoutingObject :: "u32 \<Rightarrow> ('l, 'n) Router \<Rightarrow> 'l RoutingObject option" where
  "GetRemoteRoutingObject ip r = rt_GetByIP ip (routingTable r)"

definition ToTUNChannel :: "('l, 'n) Router \<Rightarrow> nat chan" where
  "ToTUNChannel r = toIface r"

section \<open>Facts about the handlers\<close>

lemma putObj_sel [simp]:
  "packetsPool (putObj ip obj r) = packetsPool r" "firewall (putObj ip obj r) = firewall r"
  "toIface (putObj ip obj r) = toIface r" "netside (putObj ip obj r) = netside r"
  "gatewayAddr (putObj ip obj r) = gatewayAddr r" "globalNetwork (putObj ip obj r) = globalNetwork r"
  by (simp_all add: putObj_def)

lemma freePacket_sel [simp]:
  "packetsPool (freePacket pkt r) = Free pkt (packetsPool r)" "firewall (freePacket pkt r) = firewall r"
  "toIface (freePacket pkt r) = toIface r" "netside (freePacket pkt r) = netside r"
  by (simp_all add: freePacket_def)

lemma sendPlain_sel [simp]:
  "packetsPool (sendPlain send ob pkt r) = packetsPool r" "firewall (sendPlain send ob pkt r) = firewall r"
  "toIface (sendPlain send ob pkt r) = toIface r"
  "netside (sendPlain send ob pkt r) = snd (send ob (slice_of pkt (packetsPool r)) (netside r))"
  by (simp_all add: sendPlain_def)

lemma srcAllowed_sel:
  assumes "srcAllowed allowN now pkt r = (ok, r1)"
  shows "packetsPool r1 = packetsPool r" "firewall r1 = firewall r" "toIface r1 = toIface r"
    "netside r1 = netside r" "gatewayAddr r1 = gatewayAddr r" "globalNetwork r1 = globalNetwork r"
  using assms
  by (auto simp: srcAllowed_def Let_def split: option.splits RoutingObject.splits prod.splits)

text \<open>Where a packet from a transport client ends up: the verdicts in the order the code takes them.\<close>

datatype verdict = Dropped | ToIface | ToPeer RouteObj

definition transport_verdict ::
  "('l \<Rightarrow> gotime \<Rightarrow> nat \<Rightarrow> bool \<times> 'l) \<Rightarrow> (nat \<Rightarrow> gotime) \<Rightarrow> nat \<Rightarrow> ('l, 'n) Router \<Rightarrow> verdict" where
  "transport_verdict allowN clk pkt r =
     (let hi = msg_hole pkt (packetsPool r); dst = hi_DstIP hi;
          (ok, r1) = srcAllowed allowN (clk 0) pkt (r\<lparr>totalFromPeers := totalFromPeers r + of_nat (pktLen pkt r)\<rparr>)
      in if \<not> ok then Dropped
         else if dst = gatewayAddr r \<or> (\<not> Contains (globalNetwork r) dst \<and> \<not> isForbiddenEgress dst) then ToIface
         else if Contains (globalNetwork r) dst \<and> fst (RuleCheck (clk 1) hi (firewall r)) then
           (case rt_GetByIP dst (routingTable r1) of None \<Rightarrow> Dropped | Some peer \<Rightarrow> ToPeer (underlying peer))
         else Dropped)"

lemma handleTransport_verdict:
  assumes "handleTransportPacketInternal send allowN clk pkt r = (res, r')" and "\<not> ch_closed (toIface r)"
  shows "case transport_verdict allowN clk pkt r of
      Dropped \<Rightarrow> res = Handled \<and> packetsPool r' = Free pkt (packetsPool r) \<and> toIface r' = toIface r \<and> netside r' = netside r
    | ToPeer ob \<Rightarrow> res = Handled \<and> packetsPool r' = Free pkt (packetsPool r) \<and> toIface r' = toIface r \<and>
        netside r' = snd (send ob (slice_of pkt (packetsPool r)) (netside r))
    | ToIface \<Rightarrow> packetsPool r' = packetsPool r \<and> netside r' = netside r \<and> firewall r' = firewall r \<and>
        (res = Handled \<and> ch_buf (toIface r') = ch_buf (toIface r) @ [pkt] \<or> res = WaitIface pkt \<and> toIface r' = toIface r)"
proof -
  obtain ok r1 where s: "srcAllowed allowN (clk 0) pkt (r\<lparr>totalFromPeers := totalFromPeers r + of_nat (pktLen pkt r)\<rparr>) = (ok, r1)"
    by fastforce
  note sel = srcAllowed_sel [OF s, simplified]
  let ?hi = "msg_hole pkt (packetsPool r)"
  consider "\<not> ok" | "ok" "hi_DstIP ?hi = gatewayAddr r \<or> (\<not> Contains (globalNetwork r) (hi_DstIP ?hi) \<and> \<not> isForbiddenEgress (hi_DstIP ?hi))"
    | "ok" "hi_DstIP ?hi \<noteq> gatewayAddr r" "\<not> Contains (globalNetwork r) (hi_DstIP ?hi)" "isForbiddenEgress (hi_DstIP ?hi)"
    | "ok" "hi_DstIP ?hi \<noteq> gatewayAddr r" "Contains (globalNetwork r) (hi_DstIP ?hi)" by blast
  then show ?thesis
  proof cases
    case 1
    with s have "transport_verdict allowN clk pkt r = Dropped" by (simp add: transport_verdict_def Let_def)
    moreover from 1 assms(1) s have "(res, r') = (Handled, freePacket pkt r1)"
      by (simp add: handleTransportPacketInternal_def Let_def)
    ultimately show ?thesis using sel by simp
  next
    case 2
    with s have "transport_verdict allowN clk pkt r = ToIface" by (auto simp: transport_verdict_def Let_def)
    moreover from 2 assms(1) s sel have "(res, r') = sendIface pkt r1"
      by (auto simp: handleTransportPacketInternal_def Let_def split: if_splits)
    ultimately show ?thesis using sel assms(2) by (auto simp: sendIface_def try_send_def split: if_splits)
  next
    case 3
    with s have "transport_verdict allowN clk pkt r = Dropped" by (simp add: transport_verdict_def Let_def)
    moreover from 3 assms(1) s sel have "(res, r') = (Handled, freePacket pkt r1)"
      by (simp add: handleTransportPacketInternal_def Let_def)
    ultimately show ?thesis using sel by simp
  next
    case 4
    obtain pass fw1 where rc: "RuleCheck (clk 1) ?hi (firewall r) = (pass, fw1)" by fastforce
    note eqs = 4 assms(1) s sel rc
    show ?thesis
    proof (cases "rt_GetByIP (hi_DstIP ?hi) (routingTable r1)")
      case None
      with eqs have "transport_verdict allowN clk pkt r = Dropped" by (simp add: transport_verdict_def Let_def)
      moreover from None eqs have "packetsPool r' = Free pkt (packetsPool r)" "toIface r' = toIface r"
        "netside r' = netside r" "res = Handled"
        by (auto simp: handleTransportPacketInternal_def Let_def split: if_splits)
      ultimately show ?thesis by simp
    next
      case (Some peer)
      with eqs have "transport_verdict allowN clk pkt r = (if pass then ToPeer (underlying peer) else Dropped)"
        by (simp add: transport_verdict_def Let_def)
      with Some eqs show ?thesis
        by (auto simp: handleTransportPacketInternal_def Let_def split: if_splits)
    qed
  qed
qed

section \<open>Properties of the router\<close>

text \<open>C1: isolation of transport clients. When a packet from a client reaches the TUN interface, it is for the
  gateway itself or for an address outside the overlay that is not in a forbidden range; when it makes the
  router send anything to a peer, its destination is in the overlay and the firewall has, at that moment, a
  live hole for the flow or a rule in the policy that permits the packet.\<close>

theorem transport_isolation:
  assumes "handleTransportPacketInternal send allowN clk pkt r = (res, r')" and "fw_inv (firewall r)"
    and "\<not> ch_closed (toIface r)" and "hi = msg_hole pkt (packetsPool r)"
  shows "(toIface r' \<noteq> toIface r \<or> res = WaitIface pkt \<longrightarrow>
      hi_DstIP hi = gatewayAddr r \<or> (\<not> Contains (globalNetwork r) (hi_DstIP hi) \<and> \<not> isForbiddenEgress (hi_DstIP hi))) \<and>
    (netside r' \<noteq> netside r \<longrightarrow>
      Contains (globalNetwork r) (hi_DstIP hi) \<and>
      ((\<exists>h. gm_get (holes (firewall r)) (flowKey hi) = Some h \<and> clk 1 < h_expire h) \<or>
       (\<exists>idx rule. policy (firewall r) idx = Some rule \<and> rule_permits rule hi)))"
proof -
  note v = handleTransport_verdict [OF assms(1,3)]
  have "(\<exists>h. gm_get (holes (firewall r)) (flowKey hi) = Some h \<and> clk 1 < h_expire h) \<or>
      (\<exists>idx rule. policy (firewall r) idx = Some rule \<and> rule_permits rule hi)"
    if "fst (RuleCheck (clk 1) hi (firewall r))"
    using that rulesAllow_policy [OF assms(2), of hi]
    by (auto simp: RuleCheck_def Let_def rulesAllow_holes split: option.splits if_splits)
  with v assms(4) show ?thesis
    by (cases "transport_verdict allowN clk pkt r")
      (auto simp: transport_verdict_def Let_def split: if_splits option.splits prod.splits)
qed

definition exRouter :: "(nat, nat list) Router" where
  "exRouter = \<lparr>packetsPool = NewDGMessagePool 65535, routingTable = rt_New, firewall = fw_New, toIface = mkchan 1000,
     gatewayAddr = 0x0A000001, network = \<lparr>Base = 0x0A000000, Mask = 0xFFFFFF00\<rparr>,
     globalNetwork = \<lparr>Base = 0x0A000000, Mask = 0xFF000000\<rparr>, shardedWorkers = [mkchan 1000],
     routingsubs = bus_New, firewallsubs = bus_New, totalFromPeers = 0, totalFromIface = 0, totalFromMesh = 0,
     netside = []\<rparr>"

lemma transport_isolation_witness:
  "toIface (snd (handleTransportPacketInternal (\<lambda>_ s n. (True, fst s # n)) (\<lambda>l _ _. (True, l)) (\<lambda>_. 0) 0 exRouter)) = toIface exRouter"
  using transport_isolation [of "\<lambda>_ s n. (True, fst s # n)" "\<lambda>l _ _. (True, l)" "\<lambda>_. 0" 0 exRouter
      "fst (handleTransportPacketInternal (\<lambda>_ s n. (True, fst s # n)) (\<lambda>l _ _. (True, l)) (\<lambda>_. 0) 0 exRouter)"
      "snd (handleTransportPacketInternal (\<lambda>_ s n. (True, fst s # n)) (\<lambda>l _ _. (True, l)) (\<lambda>_. 0) 0 exRouter)",
      OF _ _ _ refl]
  by (simp add: exRouter_def fw_inv_New msg_hole_def NewDGMessagePool_def newMessage_def isForbiddenEgress_def)

text \<open>The address blocks a client must not reach through the node, as base address and prefix length.\<close>

definition forbidden_blocks :: "(u32 \<times> nat) list" where
  "forbidden_blocks = [(0x00000000, 8), (0x7F000000, 8), (0x0A000000, 8), (0xA9FE0000, 16), (0xC0A80000, 16),
     (0xAC100000, 12), (0xE0000000, 4), (0xF0000000, 4)]"

lemma u32_between_prefix12: "(0xAC100000 :: u32) \<le> ip \<and> ip \<le> 0xAC1FFFFF \<longleftrightarrow> drop_bit 20 ip = 0xAC1"
  by (simp add: word_le_nat_alt word_unat_eq_iff unat_div_distrib drop_bit_eq_div) linarith

lemma u32_top3: "(0xE0000000 :: u32) \<le> ip \<longleftrightarrow> drop_bit 28 ip = 0xE \<or> drop_bit 28 ip = 0xF"
proof -
  have "unat ip < 4294967296" using unsigned_less [of ip] by simp
  then show ?thesis
    by (simp add: word_le_nat_alt word_unat_eq_iff unat_div_distrib drop_bit_eq_div) linarith
qed

text \<open>C31: the egress filter blocks exactly the union of 0.0.0.0/8, 127.0.0.0/8, 10.0.0.0/8, 169.254.0.0/16,
  192.168.0.0/16, 172.16.0.0/12, 224.0.0.0/4 and 240.0.0.0/4.\<close>

theorem isForbiddenEgress_blocks:
  "isForbiddenEgress ip \<longleftrightarrow> (\<exists>(a, n) \<in> set forbidden_blocks. drop_bit (32 - n) ip = drop_bit (32 - n) a)"
  using u32_between_prefix12 [of ip] u32_top3 [of ip]
  by (simp add: isForbiddenEgress_def forbidden_blocks_def)

text \<open>C32: ownership of packets from transport clients. A handled packet is either given back to the pool
  exactly once, or handed to the TUN channel (or kept waiting for room there) and not given back; a pool
  without duplicate entries stays so.\<close>

theorem transport_packet_owned_once:
  assumes "handleTransportPacketInternal send allowN clk pkt r = (res, r')" and "\<not> ch_closed (toIface r)"
    and "pool_ok (packetsPool r)" and "pool_linear (packetsPool r)" and "pkt \<notin> set (dp_free (packetsPool r))"
  shows "pool_ok (packetsPool r') \<and> pool_linear (packetsPool r') \<and>
    (packetsPool r' = Free pkt (packetsPool r) \<and> toIface r' = toIface r \<and> res = Handled \<or>
     packetsPool r' = packetsPool r \<and>
       (res = Handled \<and> ch_buf (toIface r') = ch_buf (toIface r) @ [pkt] \<or> res = WaitIface pkt \<and> toIface r' = toIface r))"
  using handleTransport_verdict [OF assms(1,2)] pool_ok_Free [OF assms(3)] pool_linear_Free [OF assms(4,5)] assms(3,4)
  by (cases "transport_verdict allowN clk pkt r") auto

lemma transport_packet_owned_once_witness:
  "pool_linear (packetsPool (snd (handleTransportPacketInternal (\<lambda>_ s n. (True, fst s # n)) (\<lambda>l _ _. (True, l)) (\<lambda>_. 0) 0 exRouter)))"
  using transport_packet_owned_once [of "\<lambda>_ s n. (True, fst s # n)" "\<lambda>l _ _. (True, l)" "\<lambda>_. 0" 0 exRouter
      "fst (handleTransportPacketInternal (\<lambda>_ s n. (True, fst s # n)) (\<lambda>l _ _. (True, l)) (\<lambda>_. 0) 0 exRouter)"
      "snd (handleTransportPacketInternal (\<lambda>_ s n. (True, fst s # n)) (\<lambda>l _ _. (True, l)) (\<lambda>_. 0) 0 exRouter)"]
  by (simp add: exRouter_def pool_ok_New) (simp add: NewDGMessagePool_def)

text \<open>Packets of one flow meet in one worker. The worker index exists and is in range for any number of
  workers from 1 to 2^32 - 1, and a packet and its reply get the same index.\<close>

theorem getWorker_symmetric:
  assumes "0 < length (shardedWorkers r)" and "length (shardedWorkers r) < 2 ^ 32"
  shows "\<exists>i < length (shardedWorkers r). getWorker hi r = Some i \<and> getWorker (reply hi) r = Some i"
proof -
  let ?n = "of_nat (length (shardedWorkers r)) :: u32"
  have n: "unat ?n = length (shardedWorkers r)" using assms(2) by (simp add: unsigned_of_nat take_bit_nat_eq_self)
  then have "?n \<noteq> 0" using assms(1) by (metis unat_0 less_irrefl)
  moreover have "orderEnds (reply hi) = orderEnds hi" by (auto simp: orderEnds_def reply_def)
  then have "workerHash (reply hi) = workerHash hi" by (simp add: workerHash_def) (simp add: reply_def)
  moreover have "unat (workerHash hi mod ?n) < length (shardedWorkers r)"
    using assms(1) n by (simp add: unat_mod_distrib)
  ultimately show ?thesis by (simp add: getWorker_def)
qed

lemma getWorker_symmetric_witness:
  "\<exists>i < length (shardedWorkers exRouter). getWorker exFlow exRouter = Some i \<and> getWorker (reply exFlow) exRouter = Some i"
  by (rule getWorker_symmetric) (simp_all add: exRouter_def)

lemma forward_firewall: "firewall (snd (forward send pickDone pkt r)) = firewall r"
  by (auto simp: forward_def Let_def split: option.splits RoutingObject.splits prod.splits push_result.splits)

text \<open>Replies to mesh traffic come through. After the router handled a packet from the mesh, whatever the
  rules say, the firewall lets its replies pass for a minute.\<close>

theorem mesh_packet_opens_reply:
  assumes "handleMeshPacketInternal send pickDone clk pkt r = (res, r')"
    and "hi = msg_hole pkt (packetsPool r)" and "hi_Protocol hi \<noteq> ''''" and "t < clk 0 + minute"
  shows "fst (RuleCheck t (reply hi) (firewall r'))"
proof -
  let ?r = "r\<lparr>totalFromMesh := totalFromMesh r + of_nat (pktLen pkt r), firewall := Holepunch (clk 0) hi minute (firewall r)\<rparr>"
  from assms(1-3) have "forward send pickDone pkt ?r = (res, r')"
    by (simp add: handleMeshPacketInternal_def Let_def)
  then have "firewall r' = Holepunch (clk 0) hi minute (firewall r)"
    using forward_firewall [of send pickDone pkt ?r] by simp
  moreover have "flowKey (reply hi) = flowKey hi"
    by (simp add: flowKey_same_flow same_flow_def reply_def insert_commute)
  ultimately show ?thesis using assms(4) by (simp add: RuleCheck_def Holepunch_def)
qed


lemma mesh_packet_opens_reply_witness:
  "fst (RuleCheck 30 (reply exFlow) (firewall (snd (handleMeshPacketInternal (\<lambda>_ s n. (True, fst s # n)) False (\<lambda>_. 0) 0
     (exRouter\<lparr>packetsPool := (NewDGMessagePool 65535)\<lparr>dp_objs := [(0, (newMessage 0)\<lparr>dm_HoleInfo := exFlow\<rparr>)]\<rparr>\<rparr>)))))"
  by (rule mesh_packet_opens_reply [where r = "exRouter\<lparr>packetsPool := (NewDGMessagePool 65535)\<lparr>dp_objs :=
          [(0, (newMessage 0)\<lparr>dm_HoleInfo := exFlow\<rparr>)]\<rparr>\<rparr>" and clk = "\<lambda>_. 0", OF prod.collapse [symmetric]])
    (simp_all add: msg_hole_def gm_get_def, simp_all add: exFlow_def minute_def second_def)

lemma NewMessageCopyFrom_twice:
  assumes "pool_ok p" and "dp_free p = i # i # fs"
    and "parse_header (dp_maxSize p) d1 = Some (Inr h1)" and "parse_header (dp_maxSize p) d2 = Some (Inr h2)"
  shows "\<exists>q1 q2. NewMessageCopyFrom (Some i) d1 p = Some (Inr i, q1) \<and> NewMessageCopyFrom (Some i) d2 q1 = Some (Inr i, q2)"
proof -
  from pool_okD(4) [OF assms(1), of i] assms(2) obtain m where m: "gm_get (dp_objs p) i = Some m" by auto
  have len: "length d1 \<le> dp_maxSize p" "length d2 \<le> dp_maxSize p" using parse_header_fits assms(3,4) by auto
  note mem = pool_okD(3) [OF assms(1) m]
  have "NewMessageCopyFrom (Some i) d1 p = Some (Inr i, p\<lparr>dp_free := i # fs,
      dp_objs := gm_set i (m\<lparr>dm_pooled := True, dm_len := length d1, dm_mem := d1 @ drop (length d1) (dm_mem m),
        dm_HoleInfo := h1\<rparr>) (dp_objs p)\<rparr>)"
    using assms(2,3) m len mem by (simp add: NewMessageCopyFrom_def pool_get_def Let_def)
  then show ?thesis
    using assms(4) len mem by (simp add: NewMessageCopyFrom_def pool_get_def Let_def)
qed

text \<open>A failed send to a shaped route frees the packet twice. \<^verbatim>\<open>PushLimited\<close> frees it before it returns the
  error and the TUN handler frees it again, so the pool holds the object twice and hands the same buffer to
  the next two packets.\<close>

theorem shaped_send_error_double_free:
  assumes "handleTunPacketInternal send pickDone pkt r = (res, r')" and "pool_ok (packetsPool r)"
    and "gm_get (dp_objs (packetsPool r)) pkt = Some m" and "dm_pooled m"
    and "rt_GetByIP (hi_DstIP (dm_HoleInfo m)) (routingTable r) = Some (Shaped sr)"
    and "\<not> sr_speedLimited sr" and "\<not> sr_trafficLimited sr"
    and "\<not> fst (send (sr_underlying sr) (pkt, dm_len m) (netside r))"
    and "parse_header (dp_maxSize (packetsPool r)) d1 = Some (Inr h1)"
    and "parse_header (dp_maxSize (packetsPool r)) d2 = Some (Inr h2)"
  shows "\<exists>r1 r2. router_NewMessageCopyFrom (Some pkt) d1 r' = Some (Inr pkt, r1) \<and>
    router_NewMessageCopyFrom (Some pkt) d2 r1 = Some (Inr pkt, r2)"
proof -
  let ?p = "packetsPool r" and ?q = "Free pkt (Free pkt (packetsPool r))"
  obtain n' where snd: "send (sr_underlying sr) (pkt, dm_len m) (netside r) = (False, n')"
    using assms(8) by (cases "send (sr_underlying sr) (pkt, dm_len m) (netside r)") auto
  have pool: "packetsPool r' = ?q"
    using assms(1,3,5-7) snd
    by (auto simp: handleTunPacketInternal_def forward_def PushLimited_def charge_def slice_of_def msg_hole_def Let_def)
  note f1 = Free_in_free [OF assms(3,4)]
  then have free: "dp_free ?q = pkt # pkt # dp_free ?p" using Free_in_free(1) [of "Free pkt ?p" pkt] by auto
  have "pool_ok ?q" "dp_maxSize ?q = dp_maxSize ?p"
    using pool_ok_Free assms(2) by (auto simp: Free_def split: option.splits)
  with NewMessageCopyFrom_twice [OF _ free] assms(9,10) pool show ?thesis
    by (fastforce simp: router_NewMessageCopyFrom_def)
qed

definition exSr :: "nat ShapedRoute" where
  "exSr = \<lparr>sr_underlying = \<lparr>ro_NodeID = ''n'', ro_VirtualIP = 0, ro_done = False\<rparr>,
     sr_queue = None, sr_limiter = None, sr_speedLimited = False, sr_totalLimit = 0, sr_trafficLimited = False\<rparr>"

definition exDouble :: "(nat, nat list) Router" where
  "exDouble = exRouter\<lparr>packetsPool := (NewDGMessagePool 40)\<lparr>dp_objs := [(0, (newMessage 40)\<lparr>dm_pooled := True\<rparr>)], dp_next := 1\<rparr>,
     routingTable := \<lparr>byVirtualIp = [(0, Shaped exSr)]\<rparr>\<rparr>"

definition exIcmp :: bytes where
  "exIcmp = [0x45, 0, 0, 20, 0, 0, 0, 0, 64, 1, 0, 0, 10, 0, 0, 2, 10, 0, 0, 3]"

lemma exIcmp_parse: "parse_header 40 exIcmp = Some (Inr \<lparr>hi_SrcIP = 0x0A000002, hi_DstIP = 0x0A000003,
    hi_SrcPort = 0, hi_DstPort = 0, hi_Protocol = ''icmp''\<rparr>)"
  by code_simp

lemma shaped_send_error_double_free_witness:
  "\<exists>r1 r2. router_NewMessageCopyFrom (Some 0) exIcmp (snd (handleTunPacketInternal (\<lambda>_ _ n. (False, n)) False 0 exDouble)) = Some (Inr 0, r1) \<and>
    router_NewMessageCopyFrom (Some 0) exIcmp r1 = Some (Inr 0, r2)"
proof -
  have ok: "pool_ok (packetsPool exDouble)"
    by (auto simp: exDouble_def pool_ok_def NewDGMessagePool_def newMessage_def gm_wf_def gm_get_def split: if_splits)
  show ?thesis
    by (rule shaped_send_error_double_free [where r = exDouble and send = "\<lambda>_ _ n. (False, n)" and pickDone = False
          and m = "(newMessage 40)\<lparr>dm_pooled := True\<rparr>" and sr = exSr, OF prod.collapse [symmetric] ok])
      (simp_all add: exDouble_def exSr_def gm_get_def rt_GetByIP_def NewDGMessagePool_def newMessage_def exIcmp_parse)
qed

section \<open>Subscribers can follow the routing table\<close>

datatype 'l client_op = AddClient "'l RoutingObject" | DeleteClient u32

fun run_clients :: "'l client_op list \<Rightarrow> ('l, 'n) Router \<Rightarrow> ('l, 'n) Router option" where
  "run_clients [] r = Some r"
| "run_clients (AddClient obj # ops) r = Option.bind (AddRoutingObject obj r) (\<lambda>(_, r'). run_clients ops r')"
| "run_clients (DeleteClient ip # ops) r = Option.bind (DeleteRoutingObject ip r) (\<lambda>(_, r'). run_clients ops r')"

definition client_map :: "('l, 'n) Router \<Rightarrow> u32 \<Rightarrow> string option" where
  "client_map r ip = map_option GetNodeID (rt_GetByIP ip (routingTable r))"

definition replay :: "RouterEvent \<Rightarrow> (u32 \<Rightarrow> string option) \<Rightarrow> u32 \<Rightarrow> string option" where
  "replay e m = (case re_Type e of ClientAdded \<Rightarrow> m(re_VirtualIP e \<mapsto> re_NodeID e) | ClientRemoved \<Rightarrow> m(re_VirtualIP e := None))"

text \<open>What one operation does to the table and which events it emits.\<close>

fun client_step :: "'l client_op \<Rightarrow> ('l, 'n) Router \<Rightarrow> ('l, 'n) Router option" where
  "client_step (AddClient obj) r = map_option snd (AddRoutingObject obj r)"
| "client_step (DeleteClient ip) r = map_option snd (DeleteRoutingObject ip r)"

lemma run_clients_step: "run_clients (c # ops) r = Option.bind (client_step c r) (run_clients ops)"
  by (cases c) (simp_all add: bind_map_option split_beta' comp_def)

lemma notifyRoutingEvent_spec:
  assumes "bus_ok (routingsubs r)" and "ch \<in> set (bus_subs (routingsubs r))"
    and "gm_get (bus_chans (routingsubs r)) ch = Some c" and "length (ch_buf c) < ch_cap c"
  shows "\<exists>r'. notifyRoutingEvent e r = Some r' \<and> bus_ok (routingsubs r') \<and> ch \<in> set (bus_subs (routingsubs r')) \<and>
    gm_get (bus_chans (routingsubs r')) ch = Some (c\<lparr>ch_buf := ch_buf c @ [e]\<rparr>) \<and> routingTable r' = routingTable r"
proof -
  from bus_notify_spec [OF assms(1), of e] obtain b where
    "bus_notify e (routingsubs r) = Some b" "bus_ok b" "bus_subs b = bus_subs (routingsubs r)"
    "gm_get (bus_chans b) ch = Some (deliver e c)"
    using assms(2,3) by auto
  with assms(2,4) show ?thesis by (simp add: notifyRoutingEvent_def deliver_def)
qed

lemma client_step_events:
  assumes "rt_ok (routingTable r)" and "bus_ok (routingsubs r)" and "ch \<in> set (bus_subs (routingsubs r))"
    and "gm_get (bus_chans (routingsubs r)) ch = Some c" and "length (ch_buf c) < ch_cap c"
  shows "\<exists>r' es. client_step op r = Some r' \<and> length es \<le> 1 \<and> rt_ok (routingTable r') \<and> bus_ok (routingsubs r') \<and>
    ch \<in> set (bus_subs (routingsubs r')) \<and>
    gm_get (bus_chans (routingsubs r')) ch = Some (c\<lparr>ch_buf := ch_buf c @ es\<rparr>) \<and>
    client_map r' = fold replay es (client_map r)"
proof (cases op)
  case (AddClient obj)
  obtain err t where t: "rt_Add obj (routingTable r) = (err, t)" by fastforce
  have ok: "rt_ok t" using rt_ok_Add [OF assms(1), of obj] t by simp
  show ?thesis
  proof (cases "err = None")
    case False
    with t have "t = routingTable r" by (auto simp: rt_Add_def split: if_splits)
    with False t assms AddClient show ?thesis
      by (intro exI [of _ r] exI [of _ "[]"]) (simp add: AddRoutingObject_def)
  next
    case True
    let ?e = "\<lparr>re_Type = ClientAdded, re_VirtualIP = GetVirtualIP obj, re_NodeID = GetNodeID obj\<rparr>"
    from True t have g: "rt_GetByIP ip t = (if ip = GetVirtualIP obj then Some obj else rt_GetByIP ip (routingTable r))" for ip
      by (auto simp: rt_Add_def rt_GetByIP_def split: if_splits)
    from notifyRoutingEvent_spec [of "r\<lparr>routingTable := t\<rparr>" ch c ?e] assms obtain r' where
      "notifyRoutingEvent ?e (r\<lparr>routingTable := t\<rparr>) = Some r'" "bus_ok (routingsubs r')"
      "ch \<in> set (bus_subs (routingsubs r'))"
      "gm_get (bus_chans (routingsubs r')) ch = Some (c\<lparr>ch_buf := ch_buf c @ [?e]\<rparr>)" "routingTable r' = t" by auto
    with True t ok AddClient g show ?thesis
      by (intro exI [of _ r'] exI [of _ "[?e]"])
        (auto simp: AddRoutingObject_def Let_def client_map_def replay_def)
  qed
next
  case (DeleteClient ip)
  show ?thesis
  proof (cases "rt_GetByIP ip (routingTable r)")
    case None
    with assms DeleteClient show ?thesis
      by (intro exI [of _ r] exI [of _ "[]"]) (simp add: DeleteRoutingObject_def)
  next
    case (Some obj)
    let ?e = "\<lparr>re_Type = ClientRemoved, re_VirtualIP = ip, re_NodeID = GetNodeID obj\<rparr>"
    obtain t where t: "rt_Delete ip (routingTable r) = (None, t)"
      by (cases "rt_Delete ip (routingTable r)") (auto simp: rt_Delete_def split: if_splits)
    have ok: "rt_ok t" using rt_ok_Delete [OF assms(1), of ip] t by simp
    have g: "rt_GetByIP ip' t = (if ip' = ip then None else rt_GetByIP ip' (routingTable r))" for ip'
      using rt_GetByIP_Delete [of ip' ip "routingTable r"] t by simp
    from notifyRoutingEvent_spec [of "r\<lparr>routingTable := t\<rparr>" ch c ?e] assms obtain r' where
      "notifyRoutingEvent ?e (r\<lparr>routingTable := t\<rparr>) = Some r'" "bus_ok (routingsubs r')"
      "ch \<in> set (bus_subs (routingsubs r'))"
      "gm_get (bus_chans (routingsubs r')) ch = Some (c\<lparr>ch_buf := ch_buf c @ [?e]\<rparr>)" "routingTable r' = t" by auto
    with Some t ok DeleteClient g show ?thesis
      by (intro exI [of _ r'] exI [of _ "[?e]"])
        (auto simp: DeleteRoutingObject_def Let_def client_map_def replay_def)
  qed
qed

text \<open>C33: routing events are a faithful change log. A subscriber whose channel has room for them finds, after
  any sequence of additions and deletions of clients (failing ones included), exactly the events in its
  channel whose replay turns the client map at the start into the client map at the end.\<close>

theorem routing_events_mirror:
  assumes "rt_ok (routingTable r)" and "bus_ok (routingsubs r)" and "ch \<in> set (bus_subs (routingsubs r))"
    and "gm_get (bus_chans (routingsubs r)) ch = Some c" and "length (ch_buf c) + length ops \<le> ch_cap c"
  shows "\<exists>r' es. run_clients ops r = Some r' \<and>
    gm_get (bus_chans (routingsubs r')) ch = Some (c\<lparr>ch_buf := ch_buf c @ es\<rparr>) \<and>
    client_map r' = fold replay es (client_map r)"
  using assms
proof (induction ops arbitrary: r c)
  case Nil
  then show ?case by (intro exI [of _ r] exI [of _ "[]"]) simp
next
  case (Cons op ops)
  from client_step_events [OF Cons.prems(1-4), of op] Cons.prems(5) obtain r1 es1 where
    s: "client_step op r = Some r1" "length es1 \<le> 1" "rt_ok (routingTable r1)" "bus_ok (routingsubs r1)"
      "ch \<in> set (bus_subs (routingsubs r1))"
      "gm_get (bus_chans (routingsubs r1)) ch = Some (c\<lparr>ch_buf := ch_buf c @ es1\<rparr>)"
      "client_map r1 = fold replay es1 (client_map r)" by auto
  from Cons.IH [OF s(3-6)] s(2) Cons.prems(5) obtain r2 es2 where
    "run_clients ops r1 = Some r2"
    "gm_get (bus_chans (routingsubs r2)) ch = Some (c\<lparr>ch_buf := (ch_buf c @ es1) @ es2\<rparr>)"
    "client_map r2 = fold replay es2 (client_map r1)" by auto
  with s(1,7) show ?case
    by (intro exI [of _ r2] exI [of _ "es1 @ es2"]) (simp add: run_clients_step)
qed

lemma routing_events_mirror_witness:
  "\<exists>r' es. run_clients [AddClient (PlainRoute \<lparr>ro_NodeID = ''n'', ro_VirtualIP = 9, ro_done = False\<rparr>), DeleteClient 9]
      (snd (SubscribeRoutingEvents exRouter)) = Some r' \<and>
    gm_get (bus_chans (routingsubs r')) 0 = Some ((mkchan 200)\<lparr>ch_buf := ch_buf (mkchan 200) @ es\<rparr>) \<and>
    client_map r' = fold replay es (client_map (snd (SubscribeRoutingEvents exRouter)))"
proof -
  let ?r = "snd (SubscribeRoutingEvents exRouter)"
  have r: "routingsubs ?r = snd (bus_subscribe 200 bus_New)" "routingTable ?r = rt_New"
    by (simp_all add: SubscribeRoutingEvents_def exRouter_def split_beta)
  show ?thesis
    by (rule routing_events_mirror)
      (simp_all add: r rt_ok_New bus_ok_subscribe bus_ok_New, simp_all add: bus_subscribe_def bus_New_def)
qed

end
