(* ===== verification/Session.thy ===== *)
theory Session
  imports Topology Router
begin

text \<open>
  \<^verbatim>\<open>pkg/mesh/session\<close>: live sessions with neighbour nodes. A session is an object behind a pointer, so the
  sessions live in a heap and the registry maps a peer to an address of that heap. Closing a connection ends
  its context. \<^verbatim>\<open>registry.go\<close> decides between colliding connections, \<^verbatim>\<open>listener.go\<close> feeds streams to the gRPC
  server, \<^verbatim>\<open>engine.go\<close> turns a new connection into a registered session and pumps its datagrams into the
  router.
\<close>

section \<open>State\<close>

text \<open>\<open>ss_AddedAt\<close> is None for the zero time; \<open>ss_dead\<close> says that the connection's context is done.\<close>

record Session =
  ss_PeerID :: string
  ss_hasConn :: bool
  ss_initiator :: bool
  ss_RemoteAddr :: string
  ss_dead :: bool
  ss_grpcOpen :: bool
  ss_AddedAt :: "gotime option"

record sessionRegistry =
  rg_localID :: string
  rg_sessions :: "(string, nat) gomap"
  rg_subs :: "nat bus"
  rg_closed :: bool
  rg_heap :: "(nat, Session) gomap"

definition NewRegistry :: "string \<Rightarrow> sessionRegistry" where
  "NewRegistry localID = \<lparr>rg_localID = localID, rg_sessions = [], rg_subs = bus_New, rg_closed = False, rg_heap = []\<rparr>"

definition collisionWindow :: duration where
  "collisionWindow = 10 * second"

datatype session_error = InvalidSession | SelfConnection | RegistryClosed | TieBreak | DuplicateOutbound

section \<open>The registry\<close>

definition closeSession :: "nat \<Rightarrow> sessionRegistry \<Rightarrow> sessionRegistry" where
  "closeSession i r =
     (case gm_get (rg_heap r) i of
        None \<Rightarrow> r
      | Some s \<Rightarrow> r\<lparr>rg_heap := gm_set i (s\<lparr>ss_grpcOpen := False, ss_dead := (ss_dead s \<or> ss_hasConn s)\<rparr>) (rg_heap r)\<rparr>)"

text \<open>\<^verbatim>\<open>time.Since(old.AddedAt)\<close>; a session in the map always has its time set.\<close>

definition since :: "gotime \<Rightarrow> gotime option \<Rightarrow> duration" where
  "since now t = now - (case t of None \<Rightarrow> 0 | Some a \<Rightarrow> a)"

definition addVerdict :: "gotime \<Rightarrow> string \<Rightarrow> Session option \<Rightarrow> Session \<Rightarrow> session_error option" where
  "addVerdict now localID old s =
     (case old of
        None \<Rightarrow> None
      | Some ol \<Rightarrow>
          if ss_dead ol then None
          else if since now (ss_AddedAt ol) < collisionWindow then
            let keepOutbound = (ss_PeerID s < localID)
            in if ss_initiator ol = keepOutbound \<or> ss_initiator s \<noteq> keepOutbound then Some TieBreak else None
          else if ss_initiator s then Some DuplicateOutbound
          else None)"

text \<open>\<open>clk 0\<close> is the reading of \<^verbatim>\<open>time.Since\<close>, \<open>clk 1\<close> that of \<^verbatim>\<open>s.AddedAt = time.Now()\<close>. The outer None is a panic.\<close>

definition reg_Add :: "(nat \<Rightarrow> gotime) \<Rightarrow> nat \<Rightarrow> sessionRegistry \<Rightarrow> (session_error option \<times> sessionRegistry) option" where
  "reg_Add clk i r =
     (case gm_get (rg_heap r) i of
        None \<Rightarrow> Some (Some InvalidSession, r)
      | Some s \<Rightarrow>
          if ss_PeerID s = '''' \<or> \<not> ss_hasConn s then Some (Some InvalidSession, r)
          else if ss_PeerID s = rg_localID r then Some (Some SelfConnection, r)
          else if rg_closed r then Some (Some RegistryClosed, r)
          else
            let old = gm_get (rg_sessions r) (ss_PeerID s) in
            (case addVerdict (clk 0) (rg_localID r) (Option.bind old (gm_get (rg_heap r))) s of
               Some e \<Rightarrow> Some (Some e, r)
             | None \<Rightarrow>
                 let r1 = r\<lparr>rg_heap := gm_set i (s\<lparr>ss_AddedAt := Some (clk 1)\<rparr>) (rg_heap r),
                            rg_sessions := gm_set (ss_PeerID s) i (rg_sessions r)\<rparr>
                 in (case bus_notify i (rg_subs r1) of
                       None \<Rightarrow> None
                     | Some b \<Rightarrow>
                         let r2 = r1\<lparr>rg_subs := b\<rparr>
                         in Some (None, case old of None \<Rightarrow> r2 | Some j \<Rightarrow> closeSession j r2))))"

text \<open>A new channel already holds the active sessions; on a closed registry it is a closed channel.\<close>

definition SubscribeNewSessions :: "sessionRegistry \<Rightarrow> nat \<times> sessionRegistry" where
  "SubscribeNewSessions r =
     (let b = rg_subs r; ch = bus_next b;
          c = (mkchan (length (rg_sessions r) + 100))
      in if rg_closed r
         then (ch, r\<lparr>rg_subs := b\<lparr>bus_chans := gm_set ch (c\<lparr>ch_closed := True\<rparr>) (bus_chans b), bus_next := Suc ch\<rparr>\<rparr>)
         else (ch, r\<lparr>rg_subs := b\<lparr>bus_chans := gm_set ch (c\<lparr>ch_buf := gm_vals (rg_sessions r)\<rparr>) (bus_chans b),
                                  bus_subs := ch # bus_subs b, bus_next := Suc ch\<rparr>\<rparr>))"

definition reg_cancel :: "nat \<Rightarrow> sessionRegistry \<Rightarrow> sessionRegistry option" where
  "reg_cancel ch r = map_option (\<lambda>b. r\<lparr>rg_subs := b\<rparr>) (bus_cancel ch (rg_subs r))"

definition reg_Remove :: "nat \<Rightarrow> sessionRegistry \<Rightarrow> sessionRegistry" where
  "reg_Remove i r =
     (case gm_get (rg_heap r) i of
        None \<Rightarrow> r
      | Some s \<Rightarrow>
          if ss_PeerID s = '''' then r
          else if gm_get (rg_sessions r) (ss_PeerID s) \<noteq> Some i then r
          else closeSession i (r\<lparr>rg_sessions := gm_del (ss_PeerID s) (rg_sessions r)\<rparr>))"

fun close_all :: "nat list \<Rightarrow> 'e bus \<Rightarrow> 'e bus option" where
  "close_all [] b = Some b"
| "close_all (ch # chs) b = Option.bind (bus_cancel ch b) (close_all chs)"

definition reg_Close :: "sessionRegistry \<Rightarrow> sessionRegistry option" where
  "reg_Close r =
     (if rg_closed r then Some r
      else case close_all (bus_subs (rg_subs r)) (rg_subs r) of
             None \<Rightarrow> None
           | Some b \<Rightarrow> Some (fold closeSession (gm_vals (rg_sessions r))
                         (r\<lparr>rg_closed := True, rg_sessions := [], rg_subs := b\<rparr>)))"

definition reg_Get :: "string \<Rightarrow> sessionRegistry \<Rightarrow> nat option" where
  "reg_Get peerID r = gm_get (rg_sessions r) peerID"

definition ListActive :: "sessionRegistry \<Rightarrow> nat list" where
  "ListActive r = gm_vals (rg_sessions r)"

section \<open>Streams\<close>

text \<open>One round of \<^verbatim>\<open>RunWhileConnected\<close>: what the stream call returned and which contexts are done after it.\<close>

record stream_round =
  sr_err :: bool
  sr_ctxDone :: bool
  sr_connDone :: bool

text \<open>How many times the stream was (re)started, whether the loop left, and how many failures it logged.\<close>

fun RunWhileConnected :: "stream_round list \<Rightarrow> nat \<times> bool \<times> nat" where
  "RunWhileConnected [] = (0, False, 0)"
| "RunWhileConnected (x # xs) =
     (let l = (if sr_err x \<and> \<not> sr_ctxDone x \<and> \<not> sr_connDone x then 1 else 0)
      in if sr_ctxDone x \<or> sr_connDone x then (1, True, l)
         else let (n, left, k) = RunWhileConnected xs in (Suc n, left, l + k))"

record 'c BiStreamLis =
  bl_done :: bool
  bl_streamChan :: "'c chan"
  bl_closedConns :: "'c list"

definition NewBiStreamLis :: "'c BiStreamLis" where
  "NewBiStreamLis = \<lparr>bl_done = False, bl_streamChan = mkchan 100, bl_closedConns = []\<rparr>"

datatype 'c accept_result = Accepted 'c | AcceptErr | AcceptBlocks

definition bl_Accept :: "bool \<Rightarrow> 'c BiStreamLis \<Rightarrow> 'c accept_result \<times> 'c BiStreamLis" where
  "bl_Accept pickDone l =
     (case chan_recv (bl_streamChan l) of
        Some (c, ch) \<Rightarrow> if bl_done l \<and> pickDone then (AcceptErr, l) else (Accepted c, l\<lparr>bl_streamChan := ch\<rparr>)
      | None \<Rightarrow> if bl_done l then (AcceptErr, l) else (AcceptBlocks, l))"

definition bl_Close :: "'c BiStreamLis \<Rightarrow> 'c BiStreamLis" where
  "bl_Close l = l\<lparr>bl_done := True\<rparr>"

definition PushConnection :: "bool \<Rightarrow> 'c \<Rightarrow> 'c BiStreamLis \<Rightarrow> 'c BiStreamLis" where
  "PushConnection pickDone c l =
     (let close = l\<lparr>bl_closedConns := c # bl_closedConns l\<rparr>
      in if bl_done l \<and> pickDone then close
         else case try_send c (bl_streamChan l) of
                Sent ch \<Rightarrow> l\<lparr>bl_streamChan := ch\<rparr>
              | _ \<Rightarrow> close)"

section \<open>The engine\<close>

record ('l, 'n, 'c) SessionEngine =
  en_registry :: sessionRegistry
  en_pusher :: "'c BiStreamLis"
  en_repo :: inMemoryState
  en_router :: "('l, 'n) Router"

text \<open>
  \<^verbatim>\<open>HandleConnection\<close> of a connection (None for nil) with the address \<open>i\<close> for its session object: whether a session
  was started, and the new state. \<open>grpcOk\<close> is the outcome of \<^verbatim>\<open>grpc.NewClient\<close>. A refused connection is closed,
  which leaves its object dead in the heap.
\<close>

record PeerConnection =
  pc_ID :: string
  pc_initiator :: bool
  pc_RemoteAddr :: string

definition newSession :: "PeerConnection \<Rightarrow> Session" where
  "newSession pc = \<lparr>ss_PeerID = pc_ID pc, ss_hasConn = True, ss_initiator = pc_initiator pc,
     ss_RemoteAddr = pc_RemoteAddr pc, ss_dead = False, ss_grpcOpen = True, ss_AddedAt = None\<rparr>"

definition HandleConnection ::
  "bool \<Rightarrow> (nat \<Rightarrow> gotime) \<Rightarrow> nat \<Rightarrow> PeerConnection option \<Rightarrow> ('l, 'n, 'c) SessionEngine \<Rightarrow>
   (bool \<times> ('l, 'n, 'c) SessionEngine) option" where
  "HandleConnection grpcOk clk i pc e =
     (case pc of
        None \<Rightarrow> Some (False, e)
      | Some pc \<Rightarrow>
          (case InsertMerge \<lparr>pi_ID = pc_ID pc, pi_Address = (if pc_initiator pc then pc_RemoteAddr pc else ''''),
                             pi_LastSeen = clk 0\<rparr> (en_repo e) of
             None \<Rightarrow> None
           | Some (_, repo) \<Rightarrow>
               let e1 = e\<lparr>en_repo := repo\<rparr>; reg = en_registry e1;
                   dead = (newSession pc)\<lparr>ss_dead := True, ss_grpcOpen := False\<rparr>
               in if \<not> grpcOk then Some (False, e1\<lparr>en_registry := reg\<lparr>rg_heap := gm_set i dead (rg_heap reg)\<rparr>\<rparr>)
                  else
                    (case reg_Add (\<lambda>k. clk (Suc k)) i (reg\<lparr>rg_heap := gm_set i (newSession pc) (rg_heap reg)\<rparr>) of
                       None \<Rightarrow> None
                     | Some (Some _, reg') \<Rightarrow> Some (False, e1\<lparr>en_registry := closeSession i reg'\<rparr>)
                     | Some (None, reg') \<Rightarrow> Some (True, e1\<lparr>en_registry := reg'\<rparr>))))"

text \<open>The loops of \<^verbatim>\<open>runSession\<close>, one iteration each, and its end.\<close>

definition session_stream :: "bool \<Rightarrow> 'c \<Rightarrow> ('l, 'n, 'c) SessionEngine \<Rightarrow> ('l, 'n, 'c) SessionEngine" where
  "session_stream pickDone stream e = e\<lparr>en_pusher := PushConnection pickDone stream (en_pusher e)\<rparr>"

definition session_datagram ::
  "nat option \<Rightarrow> bytes \<Rightarrow> ('l, 'n, 'c) SessionEngine \<Rightarrow> ('l, 'n, 'c) SessionEngine option" where
  "session_datagram choice d e =
     (case router_NewMessageCopyFrom choice d (en_router e) of
        None \<Rightarrow> None
      | Some (Inl _, r) \<Rightarrow> Some (e\<lparr>en_router := r\<rparr>)
      | Some (Inr msg, r) \<Rightarrow> map_option (\<lambda>r'. e\<lparr>en_router := r'\<rparr>) (HandleMeshPacket msg r))"

definition session_end :: "nat \<Rightarrow> ('l, 'n, 'c) SessionEngine \<Rightarrow> ('l, 'n, 'c) SessionEngine" where
  "session_end i e = e\<lparr>en_registry := reg_Remove i (en_registry e)\<rparr>"

section \<open>The invariant of the registry\<close>

text \<open>
  The map names sessions of its peers, never of the node itself; a session that was ever admitted is
  registered or its connection is closed; a closed registry has no sessions and no subscribers.
\<close>

definition reg_ok :: "sessionRegistry \<Rightarrow> bool" where
  "reg_ok r \<longleftrightarrow>
     gm_wf (rg_sessions r) \<and> bus_ok (rg_subs r) \<and>
     (\<forall>p i. gm_get (rg_sessions r) p = Some i \<longrightarrow> p \<noteq> rg_localID r \<and>
        (\<exists>s. gm_get (rg_heap r) i = Some s \<and> ss_PeerID s = p \<and> p \<noteq> '''' \<and> ss_hasConn s \<and> ss_AddedAt s \<noteq> None)) \<and>
     (\<forall>i s. gm_get (rg_heap r) i = Some s \<longrightarrow> ss_AddedAt s \<noteq> None \<longrightarrow>
        gm_get (rg_sessions r) (ss_PeerID s) = Some i \<or> ss_dead s) \<and>
     (rg_closed r \<longrightarrow> rg_sessions r = [] \<and> bus_subs (rg_subs r) = [])"

definition ended :: "Session \<Rightarrow> Session" where
  "ended s = s\<lparr>ss_grpcOpen := False, ss_dead := (ss_dead s \<or> ss_hasConn s)\<rparr>"

lemma closeSession_sel [simp]:
  "rg_localID (closeSession i r) = rg_localID r" "rg_sessions (closeSession i r) = rg_sessions r"
  "rg_subs (closeSession i r) = rg_subs r" "rg_closed (closeSession i r) = rg_closed r"
  by (simp_all add: closeSession_def split: option.splits)

lemma closeSession_heap:
  "gm_get (rg_heap (closeSession j r)) i = (if i = j then map_option ended (gm_get (rg_heap r) i) else gm_get (rg_heap r) i)"
  by (auto simp: closeSession_def ended_def split: option.splits)

lemma ended_sel [simp]:
  "ss_PeerID (ended s) = ss_PeerID s" "ss_hasConn (ended s) = ss_hasConn s" "ss_AddedAt (ended s) = ss_AddedAt s"
  "ss_initiator (ended s) = ss_initiator s" "ss_dead (ended s) \<longleftrightarrow> ss_dead s \<or> ss_hasConn s"
  by (simp_all add: ended_def)

lemma reg_okD:
  assumes "reg_ok r"
  shows "gm_wf (rg_sessions r)" and "bus_ok (rg_subs r)"
    and "gm_get (rg_sessions r) p = Some i \<Longrightarrow> p \<noteq> rg_localID r \<and>
        (\<exists>s. gm_get (rg_heap r) i = Some s \<and> ss_PeerID s = p \<and> p \<noteq> '''' \<and> ss_hasConn s \<and> ss_AddedAt s \<noteq> None)"
    and "gm_get (rg_heap r) i = Some s \<Longrightarrow> ss_AddedAt s \<noteq> None \<Longrightarrow>
        gm_get (rg_sessions r) (ss_PeerID s) = Some i \<or> ss_dead s"
    and "rg_closed r \<Longrightarrow> rg_sessions r = [] \<and> bus_subs (rg_subs r) = []"
  using assms unfolding reg_ok_def by blast+

lemma reg_ok_New: "reg_ok (NewRegistry localID)"
  by (simp add: reg_ok_def NewRegistry_def bus_ok_New)

text \<open>What \<^verbatim>\<open>Add\<close> can do: refuse and change nothing, or admit, notify and close the session it replaces.\<close>

lemma reg_Add_cases:
  assumes "reg_Add clk i r = Some (res, r')"
  obtains (refused) e where "res = Some e" "r' = r"
  | (admitted) s b where "res = None" "gm_get (rg_heap r) i = Some s" "ss_PeerID s \<noteq> ''''" "ss_hasConn s"
      "ss_PeerID s \<noteq> rg_localID r" "\<not> rg_closed r"
      "addVerdict (clk 0) (rg_localID r) (Option.bind (gm_get (rg_sessions r) (ss_PeerID s)) (gm_get (rg_heap r))) s = None"
      "bus_notify i (rg_subs r) = Some b"
      "rg_localID r' = rg_localID r" "rg_sessions r' = gm_set (ss_PeerID s) i (rg_sessions r)" "rg_subs r' = b"
      "rg_closed r' = rg_closed r"
      "\<And>k. gm_get (rg_heap r') k =
         (let g = (if k = i then Some (s\<lparr>ss_AddedAt := Some (clk 1)\<rparr>) else gm_get (rg_heap r) k)
          in if gm_get (rg_sessions r) (ss_PeerID s) = Some k then map_option ended g else g)"
proof -
  show thesis
  proof (cases res)
    case (Some e)
    with assms have "r' = r" by (auto simp: reg_Add_def Let_def split: option.splits if_splits)
    with Some show thesis by (rule refused)
  next
    case None
    with assms obtain s b where s: "gm_get (rg_heap r) i = Some s" "ss_PeerID s \<noteq> ''''" "ss_hasConn s"
      "ss_PeerID s \<noteq> rg_localID r" "\<not> rg_closed r"
      "addVerdict (clk 0) (rg_localID r) (Option.bind (gm_get (rg_sessions r) (ss_PeerID s)) (gm_get (rg_heap r))) s = None"
      "bus_notify i (rg_subs r) = Some b"
      "r' = (let r2 = r\<lparr>rg_heap := gm_set i (s\<lparr>ss_AddedAt := Some (clk 1)\<rparr>) (rg_heap r),
                rg_sessions := gm_set (ss_PeerID s) i (rg_sessions r), rg_subs := b\<rparr>
             in case gm_get (rg_sessions r) (ss_PeerID s) of None \<Rightarrow> r2 | Some j \<Rightarrow> closeSession j r2)"
      by (auto simp: reg_Add_def Let_def split: option.splits if_splits)
    then show thesis
      by (intro admitted [of s b] None)
        (auto simp: Let_def closeSession_heap split: option.splits)
  qed
qed

lemma reg_ok_Add:
  assumes "reg_ok r" and "reg_Add clk i r = Some (res, r')"
  shows "reg_ok r'"
  using assms(2)
proof (cases rule: reg_Add_cases)
  case refused
  with assms(1) show ?thesis by simp
next
  case (admitted s b)
  have bus: "bus_ok b" using bus_notify_spec [OF reg_okD(2) [OF assms(1)], of i] admitted(8) by auto
  let ?old = "gm_get (rg_sessions r) (ss_PeerID s)"
  have own: "ss_PeerID t = ss_PeerID s \<and> ss_hasConn t" if "?old = Some k" "gm_get (rg_heap r) k = Some t" for k t
    using reg_okD(3) [OF assms(1) that(1)] that(2) by auto
  show ?thesis
    unfolding reg_ok_def
  proof (intro conjI allI impI)
    show "gm_wf (rg_sessions r')" using reg_okD(1) [OF assms(1)] admitted(10) by simp
    show "bus_ok (rg_subs r')" using bus admitted(11) by simp
  next
    fix p k assume g: "gm_get (rg_sessions r') p = Some k"
    show "p \<noteq> rg_localID r'" using g admitted(5,9,10) reg_okD(3) [OF assms(1), of p k] by (auto split: if_splits)
    show "\<exists>t. gm_get (rg_heap r') k = Some t \<and> ss_PeerID t = p \<and> p \<noteq> '''' \<and> ss_hasConn t \<and> ss_AddedAt t \<noteq> None"
    proof (cases "p = ss_PeerID s")
      case True
      with g admitted(10) have "k = i" by simp
      with True admitted(3,4) show ?thesis by (auto simp: admitted(13) Let_def)
    next
      case False
      with g admitted(10) have g': "gm_get (rg_sessions r) p = Some k" by simp
      from reg_okD(3) [OF assms(1) g'] obtain t where
        t: "gm_get (rg_heap r) k = Some t" "ss_PeerID t = p" "p \<noteq> ''''" "ss_hasConn t" "ss_AddedAt t \<noteq> None" by blast
      have "?old \<noteq> Some k" using own [OF _ t(1)] t(2) False by auto
      moreover have "k = i \<Longrightarrow> t = s" using t(1) admitted(2) by simp
      ultimately show ?thesis using t False by (cases "k = i") (simp_all add: admitted(13) Let_def)
    qed
  next
    fix k t assume g: "gm_get (rg_heap r') k = Some t" and a: "ss_AddedAt t \<noteq> None"
    consider "k = i" | "k \<noteq> i" "?old = Some k" | "k \<noteq> i" "?old \<noteq> Some k" by blast
    then show "gm_get (rg_sessions r') (ss_PeerID t) = Some k \<or> ss_dead t"
    proof cases
      case 1
      with g admitted(10) admitted(13) [of k] show ?thesis by (auto simp: Let_def split: if_splits)
    next
      case 2
      with g admitted(13) [of k] obtain t0 where "gm_get (rg_heap r) k = Some t0" "t = ended t0" by (auto simp: Let_def)
      with own [OF 2(2)] show ?thesis by simp
    next
      case 3
      with g admitted(13) [of k] have g': "gm_get (rg_heap r) k = Some t" by (simp add: Let_def)
      with reg_okD(4) [OF assms(1) g' a] 3 admitted(10) show ?thesis by auto
    qed
  next
    assume "rg_closed r'"
    with admitted(6,12) show "rg_sessions r' = []" "bus_subs (rg_subs r') = []" by simp_all
  qed
qed


lemma reg_ok_close:
  assumes "reg_ok r" shows "reg_ok (closeSession i r)"
proof -
  have h: "gm_get (rg_heap (closeSession i r)) k = Some t \<Longrightarrow>
      \<exists>t0. gm_get (rg_heap r) k = Some t0 \<and> (t = t0 \<or> t = ended t0)" for k t
    by (auto simp: closeSession_heap split: if_splits)
  have m: "gm_get (rg_heap r) k = Some t0 \<Longrightarrow>
      \<exists>t. gm_get (rg_heap (closeSession i r)) k = Some t \<and> (t = t0 \<or> t = ended t0)" for k t0
    by (auto simp: closeSession_heap)
  show ?thesis
    unfolding reg_ok_def
  proof (intro conjI allI impI)
    show "gm_wf (rg_sessions (closeSession i r))" "bus_ok (rg_subs (closeSession i r))"
      using reg_okD(1,2) [OF assms] by simp_all
  next
    fix p k assume g: "gm_get (rg_sessions (closeSession i r)) p = Some k"
    then have g': "gm_get (rg_sessions r) p = Some k" by simp
    from reg_okD(3) [OF assms g'] show "p \<noteq> rg_localID (closeSession i r)" by simp
    from reg_okD(3) [OF assms g'] m show "\<exists>s. gm_get (rg_heap (closeSession i r)) k = Some s \<and> ss_PeerID s = p \<and> p \<noteq> '''' \<and>
        ss_hasConn s \<and> ss_AddedAt s \<noteq> None" by (metis ended_sel(1-3))
  next
    fix k t assume "gm_get (rg_heap (closeSession i r)) k = Some t" "ss_AddedAt t \<noteq> None"
    with h reg_okD(4) [OF assms] show "gm_get (rg_sessions (closeSession i r)) (ss_PeerID t) = Some k \<or> ss_dead t"
      by (metis closeSession_sel(2) ended_sel(1,3,5))
  next
    assume "rg_closed (closeSession i r)"
    with reg_okD(5) [OF assms] show "rg_sessions (closeSession i r) = []" "bus_subs (rg_subs (closeSession i r)) = []"
      by simp_all
  qed
qed

lemma reg_ok_Remove:
  assumes "reg_ok r" shows "reg_ok (reg_Remove i r)"
proof (cases "\<exists>s. gm_get (rg_heap r) i = Some s \<and> ss_PeerID s \<noteq> '''' \<and> gm_get (rg_sessions r) (ss_PeerID s) = Some i")
  case False
  with assms show ?thesis by (auto simp: reg_Remove_def split: option.splits)
next
  case True
  then obtain s where s: "gm_get (rg_heap r) i = Some s" "ss_PeerID s \<noteq> ''''" "gm_get (rg_sessions r) (ss_PeerID s) = Some i"
    by blast
  let ?r = "closeSession i (r\<lparr>rg_sessions := gm_del (ss_PeerID s) (rg_sessions r)\<rparr>)"
  have eq: "reg_Remove i r = ?r" using s by (simp add: reg_Remove_def)
  have conn: "ss_hasConn s" using reg_okD(3) [OF assms s(3)] s(1) by auto
  have hp: "gm_get (rg_heap ?r) k = (if k = i then Some (ended s) else gm_get (rg_heap r) k)" for k
    using s(1) by (simp add: closeSession_heap)
  have sess: "gm_get (rg_sessions ?r) p = (if p = ss_PeerID s then None else gm_get (rg_sessions r) p)" for p by simp
  have "reg_ok ?r"
    unfolding reg_ok_def
  proof (intro conjI allI impI)
    show "gm_wf (rg_sessions ?r)" "bus_ok (rg_subs ?r)" using reg_okD(1,2) [OF assms] by simp_all
  next
    fix p k assume "gm_get (rg_sessions ?r) p = Some k"
    then have p: "p \<noteq> ss_PeerID s" and g: "gm_get (rg_sessions r) p = Some k" unfolding sess by (simp_all split: if_splits)
    from reg_okD(3) [OF assms g] show "p \<noteq> rg_localID ?r" by simp
    from reg_okD(3) [OF assms g] p s(1) show "\<exists>s. gm_get (rg_heap ?r) k = Some s \<and> ss_PeerID s = p \<and> p \<noteq> '''' \<and>
        ss_hasConn s \<and> ss_AddedAt s \<noteq> None" unfolding hp by auto
  next
    fix k t assume g: "gm_get (rg_heap ?r) k = Some t" and a: "ss_AddedAt t \<noteq> None"
    show "gm_get (rg_sessions ?r) (ss_PeerID t) = Some k \<or> ss_dead t"
    proof (cases "k = i")
      case True
      with g hp conn have "ss_dead t" by auto
      then show ?thesis ..
    next
      case False
      with g hp have g': "gm_get (rg_heap r) k = Some t" by simp
      with reg_okD(4) [OF assms g' a] s(3) False show ?thesis by (auto simp: sess)
    qed
  next
    assume "rg_closed ?r"
    then have "rg_closed r" by simp
    with reg_okD(5) [OF assms this] s(3) show "rg_sessions ?r = []" "bus_subs (rg_subs ?r) = []" by simp_all
  qed
  with eq show ?thesis by simp
qed

lemma close_all_spec:
  "bus_ok b \<Longrightarrow> \<exists>b'. close_all chs b = Some b' \<and> bus_ok b' \<and> set (bus_subs b') = set (bus_subs b) - set chs"
proof (induction chs arbitrary: b)
  case Nil
  then show ?case by simp
next
  case (Cons ch chs)
  from bus_cancel_total [OF Cons.prems, of ch] obtain b1 where b1: "bus_cancel ch b = Some b1" "bus_ok b1" by blast
  then have "set (bus_subs b1) = set (bus_subs b) - {ch}"
    by (auto simp: bus_cancel_def close_chan_def split: if_splits option.splits)
  with Cons.IH [OF b1(2)] b1(1) show ?case by auto
qed

lemma fold_closeSession:
  "rg_localID (fold closeSession is r) = rg_localID r" "rg_sessions (fold closeSession is r) = rg_sessions r"
  "rg_subs (fold closeSession is r) = rg_subs r" "rg_closed (fold closeSession is r) = rg_closed r"
  "gm_get (rg_heap (fold closeSession is r)) k = Some t \<Longrightarrow>
     \<exists>t0. gm_get (rg_heap r) k = Some t0 \<and> ss_PeerID t = ss_PeerID t0 \<and> ss_hasConn t = ss_hasConn t0 \<and>
       ss_AddedAt t = ss_AddedAt t0 \<and> (ss_dead t0 \<longrightarrow> ss_dead t) \<and> (k \<in> set is \<longrightarrow> ss_hasConn t0 \<longrightarrow> ss_dead t)"
proof (induction "is" arbitrary: r)
  case Nil
  case 5 then show ?case by auto
next
  case (Cons i "is")
  {
    case 5
    from Cons.IH(5) [of "closeSession i r"] 5 obtain t1 where
      t1: "gm_get (rg_heap (closeSession i r)) k = Some t1" "ss_PeerID t = ss_PeerID t1" "ss_hasConn t = ss_hasConn t1"
        "ss_AddedAt t = ss_AddedAt t1" "ss_dead t1 \<longrightarrow> ss_dead t" "k \<in> set is \<longrightarrow> ss_hasConn t1 \<longrightarrow> ss_dead t" by auto
    from t1(1) obtain t0 where "gm_get (rg_heap r) k = Some t0" "t1 = (if k = i then ended t0 else t0)"
      by (auto simp: closeSession_heap split: if_splits)
    with t1 show ?case by (auto split: if_splits)
  }
qed (use Cons in simp_all)


lemma reg_Close_spec:
  assumes "reg_ok r"
  shows "\<exists>r'. reg_Close r = Some r' \<and> reg_ok r' \<and> rg_closed r'"
proof (cases "rg_closed r")
  case True
  with assms show ?thesis by (simp add: reg_Close_def)
next
  case False
  from close_all_spec [OF reg_okD(2) [OF assms], of "bus_subs (rg_subs r)"] obtain b where
    b: "close_all (bus_subs (rg_subs r)) (rg_subs r) = Some b" "bus_ok b" "bus_subs b = []" by auto
  let ?init = "r\<lparr>rg_closed := True, rg_sessions := [], rg_subs := b\<rparr>"
  let ?r = "fold closeSession (gm_vals (rg_sessions r)) ?init"
  note f = fold_closeSession [of "gm_vals (rg_sessions r)" ?init]
  have "ss_dead t" if g: "gm_get (rg_heap ?r) k = Some t" and a: "ss_AddedAt t \<noteq> None" for k t
  proof -
    from f(5) [OF g] obtain t0 where t0: "gm_get (rg_heap r) k = Some t0" "ss_AddedAt t0 \<noteq> None"
      "ss_dead t0 \<longrightarrow> ss_dead t" "k \<in> set (gm_vals (rg_sessions r)) \<longrightarrow> ss_hasConn t0 \<longrightarrow> ss_dead t"
      using a by auto
    from reg_okD(4) [OF assms t0(1,2)] show ?thesis
    proof
      assume s: "gm_get (rg_sessions r) (ss_PeerID t0) = Some k"
      then have "k \<in> set (gm_vals (rg_sessions r))" using gm_vals_iff [OF reg_okD(1) [OF assms]] by blast
      with reg_okD(3) [OF assms s] t0 show ?thesis by auto
    qed (use t0 in blast)
  qed
  then have "reg_ok ?r" using b by (auto simp: reg_ok_def f(1-4))
  moreover have "reg_Close r = Some ?r" using False b by (simp add: reg_Close_def)
  ultimately show ?thesis by (auto simp: f(4))
qed

lemma reg_ok_subs:
  assumes "reg_ok r" and "bus_ok b" and "rg_closed r \<Longrightarrow> bus_subs b = []"
  shows "reg_ok (r\<lparr>rg_subs := b\<rparr>)"
  using assms unfolding reg_ok_def by auto

lemma gm_vals_length: "length (gm_vals m) = length m"
  by (simp add: gm_vals_def)

lemma reg_ok_Subscribe:
  assumes "reg_ok r" shows "reg_ok (snd (SubscribeNewSessions r))"
proof -
  note ok = reg_okD(2) [OF assms]
  have new: "gm_get (bus_chans (rg_subs r)) (bus_next (rg_subs r)) = None" "bus_next (rg_subs r) \<notin> set (bus_subs (rg_subs r))"
    using bus_okD(1,4) [OF ok] by (fastforce, blast)
  show ?thesis
  proof (cases "rg_closed r")
    case True
    with reg_okD(5) [OF assms True] ok new show ?thesis
      by (auto simp: SubscribeNewSessions_def Let_def bus_ok_def chan_ok_def less_Suc_eq intro!: reg_ok_subs [OF assms])
  next
    case False
    with ok new show ?thesis
      by (auto simp: SubscribeNewSessions_def Let_def bus_ok_def chan_ok_def less_Suc_eq gm_vals_length
          intro!: reg_ok_subs [OF assms])
  qed
qed

section \<open>The registry as a transition system\<close>

inductive reg_step :: "sessionRegistry \<Rightarrow> sessionRegistry \<Rightarrow> bool" where
  connect: "gm_get (rg_heap r) i = None \<Longrightarrow> ss_AddedAt s = None \<Longrightarrow> reg_step r (r\<lparr>rg_heap := gm_set i s (rg_heap r)\<rparr>)"
| add: "reg_Add clk i r = Some (res, r') \<Longrightarrow> reg_step r r'"
| remove: "reg_step r (reg_Remove i r)"
| close: "reg_Close r = Some r' \<Longrightarrow> reg_step r r'"
| end_conn: "reg_step r (closeSession i r)"
| subscribe: "reg_step r (snd (SubscribeNewSessions r))"
| cancel: "reg_cancel ch r = Some r' \<Longrightarrow> reg_step r r'"
| recv: "bus_recv ch (rg_subs r) = Some (k, b) \<Longrightarrow> reg_step r (r\<lparr>rg_subs := b\<rparr>)"

lemma reg_ok_connect:
  assumes "reg_ok r" and "gm_get (rg_heap r) i = None" and "ss_AddedAt s = None"
  shows "reg_ok (r\<lparr>rg_heap := gm_set i s (rg_heap r)\<rparr>)"
proof -
  have "k \<noteq> i" if "gm_get (rg_sessions r) p = Some k" for p k
    using reg_okD(3) [OF assms(1) that] assms(2) by auto
  with assms show ?thesis unfolding reg_ok_def by auto
qed

lemma reg_ok_step:
  assumes "reg_ok r" and "reg_step r r'"
  shows "reg_ok r'"
  using assms(2)
proof (cases rule: reg_step.cases)
  case (connect i s)
  with reg_ok_connect [OF assms(1)] show ?thesis by blast
next
  case (add clk i res)
  with reg_ok_Add [OF assms(1)] show ?thesis by blast
next
  case (remove i)
  with reg_ok_Remove [OF assms(1)] show ?thesis by simp
next
  case close
  with reg_Close_spec [OF assms(1)] show ?thesis by auto
next
  case (end_conn i)
  with reg_ok_close [OF assms(1)] show ?thesis by simp
next
  case subscribe
  with reg_ok_Subscribe [OF assms(1)] show ?thesis by simp
next
  case (cancel ch)
  from bus_cancel_total [OF reg_okD(2) [OF assms(1)], of ch] obtain b where
    b: "bus_cancel ch (rg_subs r) = Some b" "bus_ok b" by blast
  moreover have "rg_closed r \<Longrightarrow> bus_subs b = []"
    using b(1) reg_okD(5) [OF assms(1)] by (auto simp: bus_cancel_def split: if_splits)
  ultimately show ?thesis using cancel reg_ok_subs [OF assms(1)] by (auto simp: reg_cancel_def)
next
  case (recv ch k b)
  have "bus_subs b = bus_subs (rg_subs r)"
    using recv(2) by (auto simp: bus_recv_def split: option.splits)
  with recv bus_ok_recv [OF reg_okD(2) [OF assms(1)] recv(2)] reg_okD(5) [OF assms(1)] reg_ok_subs [OF assms(1)]
  show ?thesis by simp
qed

interpretation reg: invariant_system "\<lambda>r. \<exists>me. r = NewRegistry me" reg_step reg_ok
  by unfold_locales (auto intro: reg_ok_New reg_ok_step)


lemma reg_Add_total: "reg_ok r \<Longrightarrow> \<exists>res r'. reg_Add clk i r = Some (res, r')"
  using bus_notify_spec [of "rg_subs r" i] reg_okD(2) [of r]
  by (auto simp: reg_Add_def Let_def split: option.splits)

lemma InsertMerge_keeps_address:
  assumes "topo_ok (ms_peers s)" and "pi_Address u = ''''" and "InsertMerge u s = Some (b, s')"
    and "gm_get (ms_peers s) k = Some p"
  shows "gm_get (ms_peers s') k = None \<or> (\<exists>p'. gm_get (ms_peers s') k = Some p' \<and> pi_Address p' = pi_Address p)"
proof (cases "pi_ID u = ''''")
  case True
  with assms show ?thesis by (auto simp: InsertMerge_def)
next
  case False
  with assms(3) obtain m evs where m: "mergeLocked u s = Some (b, m, evs)" "ms_peers s' = m"
    by (auto simp: InsertMerge_def split: option.splits)
  show ?thesis
    using assms(1) False m(1)
  proof (cases rule: mergeLocked_cases)
    case same
    with assms(4) m(2) show ?thesis by auto
  next
    case lost
    with assms(4) m(2) show ?thesis by auto
  next
    case (kept dropped)
    have "k = pi_ID u \<Longrightarrow> pi_Address (merged u (ms_peers s)) = pi_Address p"
      using assms(2,4) by (simp add: merged_def mergePeer_snd)
    with kept(4) [of k] assms(4) m(2) show ?thesis by (auto split: if_splits)
  qed
qed

section \<open>Properties of the sessions\<close>

text \<open>No session leaks. In every state of the registry reached by new connections, admissions, removals,
  closing, dying connections and subscriptions: the map holds at most one session per peer, of that peer and
  never of the node itself; every session ever admitted is the registered one of its peer or its connection
  is closed; and after \<^verbatim>\<open>Close\<close> every admitted session is closed.\<close>

theorem registry_no_leak:
  assumes "reg_step\<^sup>*\<^sup>* (NewRegistry me) r"
  shows "(\<forall>p i. reg_Get p r = Some i \<longrightarrow> p \<noteq> rg_localID r \<and> (\<exists>s. gm_get (rg_heap r) i = Some s \<and> ss_PeerID s = p)) \<and>
    (\<forall>i s. gm_get (rg_heap r) i = Some s \<longrightarrow> ss_AddedAt s \<noteq> None \<longrightarrow> reg_Get (ss_PeerID s) r = Some i \<or> ss_dead s) \<and>
    (\<exists>r'. reg_Close r = Some r' \<and>
       (\<forall>i s. gm_get (rg_heap r') i = Some s \<longrightarrow> ss_AddedAt s \<noteq> None \<longrightarrow> ss_dead s))"
proof -
  have ok: "reg_ok r" by (rule reg.inv_reachable [OF _ assms]) blast
  obtain r' where r': "reg_Close r = Some r'" "reg_ok r'" "rg_closed r'" using reg_Close_spec [OF ok] by blast
  then have "ss_dead s" if "gm_get (rg_heap r') i = Some s" "ss_AddedAt s \<noteq> None" for i s
    using reg_okD(4) [OF r'(2) that] reg_okD(5) [OF r'(2,3)] by simp
  with r'(1) reg_okD(3,4) [OF ok] show ?thesis unfolding reg_Get_def by blast
qed

definition exSess :: "bool \<Rightarrow> string \<Rightarrow> Session" where
  "exSess out p = newSession \<lparr>pc_ID = p, pc_initiator = out, pc_RemoteAddr = ''1.2.3.4:443''\<rparr>"

lemma registry_no_leak_witness:
  "\<exists>r'. reg_Close ((NewRegistry ''me'')\<lparr>rg_heap := gm_set 0 (exSess True ''you'') []\<rparr>) = Some r'"
proof -
  have "reg_step (NewRegistry ''me'') ((NewRegistry ''me'')\<lparr>rg_heap := gm_set 0 (exSess True ''you'') []\<rparr>)"
    using reg_step.connect [of "NewRegistry ''me''" 0 "exSess True ''you''"]
    by (simp add: NewRegistry_def exSess_def newSession_def)
  from registry_no_leak [OF r_into_rtranclp [of reg_step, OF this]] show ?thesis by blast
qed

text \<open>The two ends of a simultaneous dial: connection 0 was opened by the node \<open>a\<close>, connection 1 by the node \<open>b\<close>.\<close>

definition dial_heap :: "bool \<Rightarrow> string \<Rightarrow> (nat, Session) gomap" where
  "dial_heap iAmA peer = [(0, exSess iAmA peer), (1, exSess (\<not> iAmA) peer)]"

definition dial_end :: "bool \<Rightarrow> string \<Rightarrow> string \<Rightarrow> sessionRegistry" where
  "dial_end iAmA me peer = (NewRegistry me)\<lparr>rg_heap := dial_heap iAmA peer\<rparr>"

text \<open>Both connections arrive, in the order given, within the collision window.\<close>

definition both_arrive :: "gotime \<Rightarrow> gotime \<Rightarrow> nat \<Rightarrow> nat \<Rightarrow> sessionRegistry \<Rightarrow> sessionRegistry option" where
  "both_arrive t1 t2 i j r =
     (case reg_Add (\<lambda>_. t1) i r of
        None \<Rightarrow> None
      | Some (_, r1) \<Rightarrow> map_option snd (reg_Add (\<lambda>_. t2) j r1))"

lemmas dial_simps = both_arrive_def dial_end_def dial_heap_def NewRegistry_def exSess_def newSession_def reg_Add_def
  addVerdict_def since_def Let_def bus_notify_def bus_New_def reg_Get_def closeSession_def gm_get_def gm_set_def

lemma dial_end_winner:
  assumes "me \<noteq> peer" and "peer \<noteq> ''''" and "t2 - t1 < collisionWindow" and "{i, j} = {0, 1}"
  shows "\<exists>r. both_arrive t1 t2 i j (dial_end iAmA me peer) = Some r \<and>
    reg_Get peer r = Some (if (peer < me) = iAmA then 0 else 1)"
proof -
  from assms(4) consider "i = 0" "j = 1" | "i = 1" "j = 0" by (auto simp: doubleton_eq_iff)
  then show ?thesis
    using assms(1-3) by cases (cases iAmA; cases "peer < me"; simp add: dial_simps)+
qed

text \<open>C24: colliding dials converge. When two different nodes dial each other and both connections arrive at both
  ends within the window, in whatever order at each end, both registries keep the same one of the two
  connections: the one opened by the node with the greater identifier.\<close>

theorem tie_break_converges:
  assumes "a \<noteq> b" and "a \<noteq> ''''" and "b \<noteq> ''''" and "{i, j} = {0, 1}" and "{i', j'} = {0, 1}"
    and "t2 - t1 < collisionWindow" and "t2' - t1' < collisionWindow"
  shows "\<exists>ra rb. both_arrive t1 t2 i j (dial_end True a b) = Some ra \<and>
    both_arrive t1' t2' i' j' (dial_end False b a) = Some rb \<and>
    reg_Get b ra = Some (if b < a then 0 else 1) \<and> reg_Get a rb = Some (if b < a then 0 else 1)"
proof -
  from dial_end_winner [OF assms(1,3,6,4), of True] obtain ra where
    "both_arrive t1 t2 i j (dial_end True a b) = Some ra" "reg_Get b ra = Some (if b < a then 0 else 1)" by auto
  moreover have ab: "(a < b) = False \<longleftrightarrow> b < a" using assms(1) by auto
  from dial_end_winner [OF assms(1) [symmetric] assms(2,7,5), of False] obtain rb where
    "both_arrive t1' t2' i' j' (dial_end False b a) = Some rb" "reg_Get a rb = Some (if b < a then 0 else 1)"
    unfolding ab by blast
  ultimately show ?thesis by blast
qed

lemma tie_break_converges_witness:
  "\<exists>ra rb. both_arrive 0 1 0 1 (dial_end True ''x'' ''y'') = Some ra \<and>
    both_arrive 5 6 0 1 (dial_end False ''y'' ''x'') = Some rb \<and>
    reg_Get ''y'' ra = Some (if ''y'' < ''x'' then 0 else 1) \<and> reg_Get ''x'' rb = Some (if ''y'' < ''x'' then 0 else 1)"
  by (rule tie_break_converges) (simp_all add: collisionWindow_def second_def)


text \<open>A new connection becomes a session or is closed. In a well-formed state and for a fresh object,
  \<^verbatim>\<open>HandleConnection\<close> returns; when it starts a session the registry holds exactly that object for the peer,
  and when it does not the connection is closed. A connection opened by the other side never changes an
  address the node knows.\<close>

theorem HandleConnection_admits_or_closes:
  assumes "topo_inv (en_repo e)" and "reg_ok (en_registry e)" and "gm_get (rg_heap (en_registry e)) i = None"
  shows "\<exists>started e' s. HandleConnection grpcOk clk i (Some pc) e = Some (started, e') \<and>
    gm_get (rg_heap (en_registry e')) i = Some s \<and> ss_PeerID s = pc_ID pc \<and>
    (if started then reg_Get (pc_ID pc) (en_registry e') = Some i \<and> \<not> ss_dead s else ss_dead s) \<and>
    (\<not> pc_initiator pc \<longrightarrow> (\<forall>k p p'. gm_get (ms_peers (en_repo e)) k = Some p \<longrightarrow>
      gm_get (ms_peers (en_repo e')) k = Some p' \<longrightarrow> pi_Address p' = pi_Address p))"
proof -
  let ?u = "\<lparr>pi_ID = pc_ID pc, pi_Address = (if pc_initiator pc then pc_RemoteAddr pc else []), pi_LastSeen = clk 0\<rparr>"
  let ?reg = "(en_registry e)\<lparr>rg_heap := gm_set i (newSession pc) (rg_heap (en_registry e))\<rparr>"
  obtain b repo where im: "InsertMerge ?u (en_repo e) = Some (b, repo)" using InsertMerge_total [OF assms(1)] by blast
  have addr: "\<not> pc_initiator pc \<longrightarrow> (\<forall>k p p'. gm_get (ms_peers (en_repo e)) k = Some p \<longrightarrow>
      gm_get (ms_peers repo) k = Some p' \<longrightarrow> pi_Address p' = pi_Address p)"
    using InsertMerge_keeps_address [OF _ _ im] assms(1) by (fastforce simp: topo_inv_def)
  have ok: "reg_ok ?reg" by (rule reg_ok_connect [OF assms(2,3)]) (simp add: newSession_def)
  obtain res reg' where add: "reg_Add (\<lambda>k. clk (Suc k)) i ?reg = Some (res, reg')" using reg_Add_total [OF ok] by blast
  have fresh: "gm_get (rg_sessions ?reg) p \<noteq> Some i" for p
    using reg_okD(3) [OF assms(2), of p i] assms(3) by auto
  have concl: ?thesis if "HandleConnection grpcOk clk i (Some pc) e = Some (st, e')" "en_repo e' = repo"
    "gm_get (rg_heap (en_registry e')) i = Some s" "ss_PeerID s = pc_ID pc"
    "if st then reg_Get (pc_ID pc) (en_registry e') = Some i \<and> \<not> ss_dead s else ss_dead s" for st e' s
    using that addr by blast
  consider "\<not> grpcOk" | er where "grpcOk" "res = Some er" | "grpcOk" "res = None" by (cases res) auto
  then show ?thesis
  proof cases
    case 1
    let ?dead = "(newSession pc)\<lparr>ss_dead := True, ss_grpcOpen := False\<rparr>"
    from 1 im have h: "HandleConnection grpcOk clk i (Some pc) e = Some (False, e\<lparr>en_repo := repo,
        en_registry := (en_registry e)\<lparr>rg_heap := gm_set i ?dead (rg_heap (en_registry e))\<rparr>\<rparr>)"
      by (simp add: HandleConnection_def Let_def)
    show ?thesis by (rule concl [OF h]) (simp_all, simp_all add: newSession_def)
  next
    case (2 er)
    with add have "reg' = ?reg" by (auto elim: reg_Add_cases)
    with 2 add im have h: "HandleConnection grpcOk clk i (Some pc) e = Some (False, e\<lparr>en_repo := repo,
        en_registry := closeSession i ?reg\<rparr>)"
      by (simp add: HandleConnection_def Let_def)
    have c: "gm_get (rg_heap (closeSession i ?reg)) i = Some (ended (newSession pc))" by (simp add: closeSession_heap)
    show ?thesis by (rule concl [OF h]) (simp_all add: c, simp_all add: newSession_def)
  next
    case 3
    with add im have h: "HandleConnection grpcOk clk i (Some pc) e = Some (True, e\<lparr>en_repo := repo, en_registry := reg'\<rparr>)"
      by (simp add: HandleConnection_def Let_def)
    from add 3 have c: "gm_get (rg_heap reg') i = Some ((newSession pc)\<lparr>ss_AddedAt := Some (clk (Suc 1))\<rparr>) \<and>
        rg_sessions reg' = gm_set (pc_ID pc) i (rg_sessions ?reg)"
    proof (cases rule: reg_Add_cases)
      case refused
      with 3 show ?thesis by simp
    next
      case (admitted s b)
      then have s: "s = newSession pc" by simp
      then have "ss_PeerID s = pc_ID pc" by (simp add: newSession_def)
      with admitted(10,13) fresh s show ?thesis by (simp add: Let_def)
    qed
    show ?thesis by (rule concl [OF h]) (simp_all add: c reg_Get_def, simp_all add: newSession_def)
  qed
qed

definition exEngine :: "(nat, nat list, nat) SessionEngine" where
  "exEngine = \<lparr>en_registry = NewRegistry ''me'', en_pusher = NewBiStreamLis, en_repo = newInMemoryState, en_router = exRouter\<rparr>"

lemma HandleConnection_admits_or_closes_witness:
  "\<exists>started e' s. HandleConnection True (\<lambda>_. 1) 0 (Some \<lparr>pc_ID = (''you''), pc_initiator = False, pc_RemoteAddr = (''x'')\<rparr>) exEngine = Some (started, e') \<and>
    gm_get (rg_heap (en_registry e')) 0 = Some s \<and> ss_PeerID s = ''you''"
proof -
  have "topo_inv (en_repo exEngine)" "reg_ok (en_registry exEngine)" "gm_get (rg_heap (en_registry exEngine)) 0 = None"
    by (simp_all add: exEngine_def topo_inv_New reg_ok_New) (simp add: NewRegistry_def)
  from HandleConnection_admits_or_closes [OF this, of True "\<lambda>_. 1"
      "\<lparr>pc_ID = ''you'', pc_initiator = False, pc_RemoteAddr = ''x''\<rparr>"]
  show ?thesis by (simp only: PeerConnection.simps) blast
qed

end
