(* ===== verification/PeersSync.thy ===== *)
theory PeersSync
  imports Session
begin

text \<open>
  \<^verbatim>\<open>pkg/mesh/peerssync\<close>: replication of firewall rules and of client locations between nodes. The server side
  streams a full dump and then the router's events; the client side applies them to its own router. The
  router is reached through the interface of \<^verbatim>\<open>deps.go\<close>, here a record of operations, and what the client side
  relies on is the locale \<open>rule_authority\<close> (for rules) and \<open>client_table\<close> (for clients); both are interpreted
  on the router's own operations.
\<close>

section \<open>Wire messages\<close>

record ClientRule =
  cr_NodeId :: string
  cr_Id :: u64
  cr_Addr :: u32
  cr_TargetAddr :: "u32 option"
  cr_Protocol :: string
  cr_PortRangeStart :: u32
  cr_PortRangeEnd :: "u32 option"

datatype wire_type = EVENT_SYNC | EVENT_ADDED | EVENT_REMOVED | EVENT_UNKNOWN

record ClientRuleEvent =
  cre_Type :: wire_type
  cre_Update :: "ClientRule option"
  cre_Dump :: "ClientRule list"

record ClientInfo =
  ci_NodeId :: string
  ci_VirtualIp :: u32

record ClientEvent =
  ce_Type :: wire_type
  ce_Update :: "ClientInfo option"
  ce_Dump :: "ClientInfo list"

section \<open>Remote clients\<close>

record RemoteMessage =
  rm_TargetNodeID :: string
  rm_TargetVirtualIP :: u32
  rm_Data :: slice

record RemoteClient =
  rc_done :: bool
  rc_nodeID :: string
  rc_virtualIP :: u32

definition newRemoteClient :: "bool \<Rightarrow> u32 \<Rightarrow> string \<Rightarrow> RemoteClient" where
  "newRemoteClient ctxDone vip node = \<lparr>rc_done = ctxDone, rc_nodeID = node, rc_virtualIP = vip\<rparr>"

text \<open>A remote client as the routing table sees it.\<close>

definition remote_object :: "RemoteClient \<Rightarrow> 'l RoutingObject" where
  "remote_object c = PlainRoute \<lparr>ro_NodeID = rc_nodeID c, ro_VirtualIP = rc_virtualIP c, ro_done = rc_done c\<rparr>"

definition rc_SendDatagram :: "bool \<Rightarrow> slice \<Rightarrow> RemoteClient \<Rightarrow> RemoteMessage chan \<Rightarrow> RemoteMessage chan send_outcome" where
  "rc_SendDatagram pickDone data c q =
     (case try_send \<lparr>rm_TargetNodeID = rc_nodeID c, rm_TargetVirtualIP = rc_virtualIP c, rm_Data = data\<rparr> q of
        Sent q' \<Rightarrow> if rc_done c \<and> pickDone then SendErr else SendOk q'
      | Full \<Rightarrow> if rc_done c then SendErr else SendBlocks
      | Panic \<Rightarrow> if rc_done c \<and> pickDone then SendErr else SendPanic)"

section \<open>The router as the syncer sees it\<close>

record ('l, 'r) sync_Router =
  ri_DumpRules :: "'r \<Rightarrow> RuleDump list"
  ri_AddRemoteRule :: "PortRuleIndex \<Rightarrow> PortRule \<Rightarrow> 'r \<Rightarrow> bool \<times> 'r"
  ri_RemoveRemoteRule :: "PortRuleIndex \<Rightarrow> 'r \<Rightarrow> bool \<times> 'r"
  ri_ExistsRule :: "PortRuleIndex \<Rightarrow> 'r \<Rightarrow> bool"
  ri_DumpRoutingTable :: "'r \<Rightarrow> RoutingTableRecordDump list"
  ri_AddRemoteRoutingObject :: "'l RoutingObject \<Rightarrow> 'r \<Rightarrow> route_error option \<times> 'r"
  ri_DeleteRemoteRoutingObject :: "u32 \<Rightarrow> 'r \<Rightarrow> route_error option \<times> 'r"
  ri_GetRemoteRoutingObject :: "u32 \<Rightarrow> 'r \<Rightarrow> 'l RoutingObject option"

definition the_router :: "('l, ('l, 'n) Router) sync_Router" where
  "the_router = \<lparr>ri_DumpRules = router_DumpRules, ri_AddRemoteRule = AddRemoteRule,
     ri_RemoveRemoteRule = RemoveRemoteRule, ri_ExistsRule = router_ExistsRule,
     ri_DumpRoutingTable = DumpRoutingTable, ri_AddRemoteRoutingObject = AddRemoteRoutingObject,
     ri_DeleteRemoteRoutingObject = DeleteRemoteRoutingObject, ri_GetRemoteRoutingObject = GetRemoteRoutingObject\<rparr>"

section \<open>Applying rule events\<close>

definition wire_index :: "ClientRule \<Rightarrow> PortRuleIndex" where
  "wire_index ev = \<lparr>pri_NodeID = cr_NodeId ev, pri_RuleID = cr_Id ev\<rparr>"

text \<open>The ports are cut to 16 bits.\<close>

definition wire_rule :: "ClientRule \<Rightarrow> PortRule" where
  "wire_rule ev = \<lparr>pr_index = \<lparr>pri_NodeID = '''', pri_RuleID = 0\<rparr>, pr_Address = cr_Addr ev,
     pr_TargetAddress = cr_TargetAddr ev, pr_Protocol = cr_Protocol ev,
     pr_PortRangeStart = ucast (cr_PortRangeStart ev), pr_PortRangeEnd = map_option ucast (cr_PortRangeEnd ev)\<rparr>"

definition addRemoteRuleObject :: "('l, 'r) sync_Router \<Rightarrow> string \<Rightarrow> ClientRule \<Rightarrow> 'r \<Rightarrow> 'r" where
  "addRemoteRuleObject R localID ev r =
     (if cr_NodeId ev = localID then r else snd (ri_AddRemoteRule R (wire_index ev) (wire_rule ev) r))"

definition deleteRemoteRuleObject :: "('l, 'r) sync_Router \<Rightarrow> ClientRule \<Rightarrow> 'r \<Rightarrow> 'r" where
  "deleteRemoteRuleObject R ev r = snd (ri_RemoveRemoteRule R (wire_index ev) r)"

definition syncRuleObject :: "('l, 'r) sync_Router \<Rightarrow> string \<Rightarrow> ClientRule \<Rightarrow> 'r \<Rightarrow> 'r" where
  "syncRuleObject R localID ev r =
     (if ri_ExistsRule R (wire_index ev) r then r else addRemoteRuleObject R localID ev r)"

definition dropStaleRule :: "('l, 'r) sync_Router \<Rightarrow> string \<Rightarrow> u64 list \<Rightarrow> RuleDump \<Rightarrow> 'r \<Rightarrow> 'r" where
  "dropStaleRule R peerID alive d r =
     (if rd_NodeID d \<noteq> peerID then r
      else if rd_RuleID d \<in> set alive then r
      else snd (ri_RemoveRemoteRule R \<lparr>pri_NodeID = peerID, pri_RuleID = rd_RuleID d\<rparr> r))"

definition syncRules :: "('l, 'r) sync_Router \<Rightarrow> string \<Rightarrow> string \<Rightarrow> ClientRule list \<Rightarrow> 'r \<Rightarrow> 'r" where
  "syncRules R localID peerID dump r =
     (let alive = map cr_Id (filter (\<lambda>ev. cr_NodeId ev = peerID) dump);
          r1 = fold (syncRuleObject R localID) dump r
      in fold (dropStaleRule R peerID alive) (ri_DumpRules R r1) r1)"

text \<open>One message of the rules stream of the peer \<open>peerID\<close>.\<close>

definition applyRuleEvent :: "('l, 'r) sync_Router \<Rightarrow> string \<Rightarrow> string \<Rightarrow> ClientRuleEvent \<Rightarrow> 'r \<Rightarrow> 'r" where
  "applyRuleEvent R localID peerID ev r =
     (case cre_Type ev of
        EVENT_SYNC \<Rightarrow> syncRules R localID peerID (cre_Dump ev) r
      | EVENT_ADDED \<Rightarrow> (case cre_Update ev of None \<Rightarrow> r | Some u \<Rightarrow> addRemoteRuleObject R localID u r)
      | EVENT_REMOVED \<Rightarrow> (case cre_Update ev of None \<Rightarrow> r | Some u \<Rightarrow> deleteRemoteRuleObject R u r)
      | EVENT_UNKNOWN \<Rightarrow> r)"

section \<open>Applying client events\<close>

definition addRemoteRoutingObject :: "('l, 'r) sync_Router \<Rightarrow> bool \<Rightarrow> string \<Rightarrow> ClientInfo \<Rightarrow> 'r \<Rightarrow> 'r" where
  "addRemoteRoutingObject R ctxDone localID ev r =
     (if ci_NodeId ev = localID then r
      else snd (ri_AddRemoteRoutingObject R (remote_object (newRemoteClient ctxDone (ci_VirtualIp ev) (ci_NodeId ev))) r))"

definition deleteRemoteRoutingObject :: "('l, 'r) sync_Router \<Rightarrow> ClientInfo \<Rightarrow> 'r \<Rightarrow> 'r" where
  "deleteRemoteRoutingObject R ev r = snd (ri_DeleteRemoteRoutingObject R (ci_VirtualIp ev) r)"

definition syncPeerObject :: "('l, 'r) sync_Router \<Rightarrow> bool \<Rightarrow> string \<Rightarrow> ClientInfo \<Rightarrow> 'r \<Rightarrow> 'r" where
  "syncPeerObject R ctxDone localID ev r =
     (case ri_GetRemoteRoutingObject R (ci_VirtualIp ev) r of
        None \<Rightarrow> addRemoteRoutingObject R ctxDone localID ev r
      | Some obj \<Rightarrow>
          if GetNodeID obj = localID then r
          else if GetNodeID obj \<noteq> ci_NodeId ev
          then addRemoteRoutingObject R ctxDone localID ev (deleteRemoteRoutingObject R ev r)
          else r)"

definition dropStaleClient :: "('l, 'r) sync_Router \<Rightarrow> string \<Rightarrow> u32 list \<Rightarrow> RoutingTableRecordDump \<Rightarrow> 'r \<Rightarrow> 'r" where
  "dropStaleClient R peerID alive d r =
     (if rtd_NodeID d \<noteq> peerID then r
      else if rtd_VirtualIP d \<in> set alive then r
      else snd (ri_DeleteRemoteRoutingObject R (rtd_VirtualIP d) r))"

definition syncClients :: "('l, 'r) sync_Router \<Rightarrow> bool \<Rightarrow> string \<Rightarrow> string \<Rightarrow> ClientInfo list \<Rightarrow> 'r \<Rightarrow> 'r" where
  "syncClients R ctxDone localID peerID dump r =
     (let alive = map ci_VirtualIp (filter (\<lambda>ev. ci_NodeId ev = peerID) dump);
          r1 = fold (syncPeerObject R ctxDone localID) dump r
      in fold (dropStaleClient R peerID alive) (ri_DumpRoutingTable R r1) r1)"

definition applyClientEvent :: "('l, 'r) sync_Router \<Rightarrow> bool \<Rightarrow> string \<Rightarrow> string \<Rightarrow> ClientEvent \<Rightarrow> 'r \<Rightarrow> 'r" where
  "applyClientEvent R ctxDone localID peerID ev r =
     (case ce_Type ev of
        EVENT_SYNC \<Rightarrow> syncClients R ctxDone localID peerID (ce_Dump ev) r
      | EVENT_ADDED \<Rightarrow> (case ce_Update ev of None \<Rightarrow> r | Some u \<Rightarrow> addRemoteRoutingObject R ctxDone localID u r)
      | EVENT_REMOVED \<Rightarrow> (case ce_Update ev of None \<Rightarrow> r | Some u \<Rightarrow> deleteRemoteRoutingObject R u r)
      | EVENT_UNKNOWN \<Rightarrow> r)"

section \<open>The server side\<close>

definition generateFirewallEvent :: "FirewallEvent \<Rightarrow> ClientRuleEvent" where
  "generateFirewallEvent upd =
     (let base = \<lparr>cr_NodeId = fe_NodeID upd, cr_Id = fe_RuleID upd, cr_Addr = 0, cr_TargetAddr = None, cr_Protocol = '''',
                  cr_PortRangeStart = 0, cr_PortRangeEnd = None\<rparr>
      in case fe_Type upd of
           RuleAdded \<Rightarrow> \<lparr>cre_Type = EVENT_ADDED, cre_Update = Some (base\<lparr>cr_Addr := fe_Address upd,
             cr_TargetAddr := fe_TargetAddress upd, cr_Protocol := fe_Protocol upd,
             cr_PortRangeStart := ucast (fe_PortRangeStart upd),
             cr_PortRangeEnd := map_option ucast (fe_PortRangeEnd upd)\<rparr>), cre_Dump = []\<rparr>
         | RuleRemoved \<Rightarrow> \<lparr>cre_Type = EVENT_REMOVED, cre_Update = Some base, cre_Dump = []\<rparr>)"

definition ruleToWire :: "RuleDump \<Rightarrow> ClientRule" where
  "ruleToWire p = \<lparr>cr_NodeId = rd_NodeID p, cr_Id = rd_RuleID p, cr_Addr = rd_Address p, cr_TargetAddr = rd_TargetAddress p,
     cr_Protocol = rd_Protocol p, cr_PortRangeStart = ucast (rd_PortRangeStart p),
     cr_PortRangeEnd = map_option ucast (rd_PortRangeEnd p)\<rparr>"

definition buildFirewallSyncEvent :: "('l, 'r) sync_Router \<Rightarrow> 'r \<Rightarrow> ClientRuleEvent" where
  "buildFirewallSyncEvent R r = \<lparr>cre_Type = EVENT_SYNC, cre_Update = None, cre_Dump = map ruleToWire (ri_DumpRules R r)\<rparr>"

definition generateRoutingeEvent :: "RouterEvent \<Rightarrow> ClientEvent" where
  "generateRoutingeEvent upd =
     \<lparr>ce_Type = (case re_Type upd of ClientAdded \<Rightarrow> EVENT_ADDED | ClientRemoved \<Rightarrow> EVENT_REMOVED),
      ce_Update = Some \<lparr>ci_NodeId = re_NodeID upd, ci_VirtualIp = re_VirtualIP upd\<rparr>, ce_Dump = []\<rparr>"

definition buildRoutingSyncEvent :: "('l, 'r) sync_Router \<Rightarrow> 'r \<Rightarrow> ClientEvent" where
  "buildRoutingSyncEvent R r =
     \<lparr>ce_Type = EVENT_SYNC, ce_Update = None,
      ce_Dump = map (\<lambda>p. \<lparr>ci_NodeId = rtd_NodeID p, ci_VirtualIp = rtd_VirtualIP p\<rparr>) (ri_DumpRoutingTable R r)\<rparr>"

text \<open>What wakes the serving loop, and what it sends; None ends the stream.\<close>

datatype 'e wake = WakeCtx | WakeTick | WakeEvent 'e | WakeClosed

fun serveRules :: "('l, 'r) sync_Router \<Rightarrow> FirewallEvent wake \<Rightarrow> 'r \<Rightarrow> ClientRuleEvent option" where
  "serveRules R WakeCtx r = None"
| "serveRules R WakeTick r = Some (buildFirewallSyncEvent R r)"
| "serveRules R (WakeEvent upd) r = Some (generateFirewallEvent upd)"
| "serveRules R WakeClosed r = None"

fun serveClients :: "('l, 'r) sync_Router \<Rightarrow> RouterEvent wake \<Rightarrow> 'r \<Rightarrow> ClientEvent option" where
  "serveClients R WakeCtx r = None"
| "serveClients R WakeTick r = Some (buildRoutingSyncEvent R r)"
| "serveClients R (WakeEvent upd) r = Some (generateRoutingeEvent upd)"
| "serveClients R WakeClosed r = None"

text \<open>The streams subscribe first and dump afterwards.\<close>

definition SubscribeClientsRules :: "('l, 'n) Router \<Rightarrow> ClientRuleEvent \<times> nat \<times> ('l, 'n) Router" where
  "SubscribeClientsRules r = (let (ch, r1) = SubscribeFirewallEvents r in (buildFirewallSyncEvent the_router r1, ch, r1))"

definition SubscribeClients :: "('l, 'n) Router \<Rightarrow> ClientEvent \<times> nat \<times> ('l, 'n) Router" where
  "SubscribeClients r = (let (ch, r1) = SubscribeRoutingEvents r in (buildRoutingSyncEvent the_router r1, ch, r1))"

section \<open>What the syncer relies on: a store of rules\<close>

text \<open>
  \<open>inv\<close> is the store's invariant, \<open>okidx\<close> the indices it can tell apart, \<open>view\<close> the rules it holds.
\<close>

locale rule_authority =
  fixes R :: "('l, 'r) sync_Router"
    and inv :: "'r \<Rightarrow> bool"
    and okidx :: "PortRuleIndex \<Rightarrow> bool"
    and view :: "'r \<Rightarrow> PortRuleIndex \<Rightarrow> PortRule option"
  assumes exists_law: "inv r \<Longrightarrow> ri_ExistsRule R idx r \<longleftrightarrow> view r idx \<noteq> None"
    and add_law: "inv r \<Longrightarrow> okidx idx \<Longrightarrow> ri_AddRemoteRule R idx rule r = (ok, r') \<Longrightarrow>
      inv r' \<and> (ok \<longleftrightarrow> pri_NodeID idx \<noteq> '''' \<and> view r idx = None) \<and>
      (\<forall>k. okidx k \<longrightarrow> view r' k = (if ok \<and> k = idx then Some (rule\<lparr>pr_index := idx\<rparr>) else view r k))"
    and remove_law: "inv r \<Longrightarrow> okidx idx \<Longrightarrow> ri_RemoveRemoteRule R idx r = (ok, r') \<Longrightarrow>
      inv r' \<and> (\<forall>k. okidx k \<longrightarrow> view r' k = (if k = idx then None else view r k))"
    and dump_law: "inv r \<Longrightarrow> okidx idx \<Longrightarrow>
      (\<exists>d \<in> set (ri_DumpRules R r). rd_NodeID d = pri_NodeID idx \<and> rd_RuleID d = pri_RuleID idx) \<longleftrightarrow> view r idx \<noteq> None"
    and dump_ok: "inv r \<Longrightarrow> d \<in> set (ri_DumpRules R r) \<Longrightarrow> okidx \<lparr>pri_NodeID = rd_NodeID d, pri_RuleID = rd_RuleID d\<rparr>"
begin

lemma syncRuleObject_law:
  assumes "inv r" and "okidx (wire_index ev)"
  shows "inv (syncRuleObject R me ev r)"
    and "okidx k \<Longrightarrow> view (syncRuleObject R me ev r) k =
      (if view r k = None \<and> k = wire_index ev \<and> pri_NodeID k \<noteq> me \<and> pri_NodeID k \<noteq> ''''
       then Some ((wire_rule ev)\<lparr>pr_index := k\<rparr>) else view r k)"
proof -
  obtain ok r' where a: "ri_AddRemoteRule R (wire_index ev) (wire_rule ev) r = (ok, r')" by fastforce
  note l = add_law [OF assms a] and e = exists_law [OF assms(1), of "wire_index ev"]
  have n: "cr_NodeId ev = pri_NodeID (wire_index ev)" by (simp add: wire_index_def)
  show "inv (syncRuleObject R me ev r)"
    using assms(1) l a by (simp add: syncRuleObject_def addRemoteRuleObject_def)
  show "okidx k \<Longrightarrow> view (syncRuleObject R me ev r) k =
      (if view r k = None \<and> k = wire_index ev \<and> pri_NodeID k \<noteq> me \<and> pri_NodeID k \<noteq> ''''
       then Some ((wire_rule ev)\<lparr>pr_index := k\<rparr>) else view r k)"
    using l a e by (auto simp: syncRuleObject_def addRemoteRuleObject_def n)
qed

lemma fold_sync_law:
  assumes "inv r" and "\<forall>ev \<in> set dump. okidx (wire_index ev)"
  shows "inv (fold (syncRuleObject R me) dump r) \<and>
    (\<forall>k. okidx k \<longrightarrow>
      (\<forall>x. view r k = Some x \<longrightarrow> view (fold (syncRuleObject R me) dump r) k = Some x) \<and>
      (view (fold (syncRuleObject R me) dump r) k \<noteq> None \<longleftrightarrow>
        view r k \<noteq> None \<or> (pri_NodeID k \<noteq> me \<and> pri_NodeID k \<noteq> '''' \<and> k \<in> wire_index ` set dump)) \<and>
      (\<forall>x. view r k = None \<longrightarrow> view (fold (syncRuleObject R me) dump r) k = Some x \<longrightarrow>
        (\<exists>ev \<in> set dump. wire_index ev = k \<and> x = (wire_rule ev)\<lparr>pr_index := k\<rparr>)))"
  using assms
proof (induction dump arbitrary: r)
  case Nil
  then show ?case by simp
next
  case (Cons ev dump)
  let ?r = "syncRuleObject R me ev r" and ?f = "fold (syncRuleObject R me) dump (syncRuleObject R me ev r)"
  have ok: "okidx (wire_index ev)" using Cons.prems(2) by simp
  note s = syncRuleObject_law [OF Cons.prems(1) ok, where me = me]
  have IH: "inv ?f" "\<And>k x. okidx k \<Longrightarrow> view ?r k = Some x \<Longrightarrow> view ?f k = Some x"
    "\<And>k. okidx k \<Longrightarrow> view ?f k \<noteq> None \<longleftrightarrow>
        view ?r k \<noteq> None \<or> (pri_NodeID k \<noteq> me \<and> pri_NodeID k \<noteq> '''' \<and> k \<in> wire_index ` set dump)"
    "\<And>k x. okidx k \<Longrightarrow> view ?r k = None \<Longrightarrow> view ?f k = Some x \<Longrightarrow>
        (\<exists>ev \<in> set dump. wire_index ev = k \<and> x = (wire_rule ev)\<lparr>pr_index := k\<rparr>)"
    using Cons.IH [OF s(1)] Cons.prems(2) by auto
  show ?case
  proof (intro conjI allI impI, goal_cases)
    case 1
    then show ?case using IH(1) by simp
  next
    case (2 k x)
    then show ?case using IH(2) [of k x] s(2) [of k] by simp
  next
    case (3 k)
    then show ?case using IH(3) [of k] s(2) [of k] by auto
  next
    case (4 k x)
    show ?case
    proof (cases "view ?r k")
      case None
      with IH(4) [OF 4(1) None] 4(3) show ?thesis by auto
    next
      case (Some y)
      with IH(2) [OF 4(1) Some] 4 s(2) [OF 4(1)] show ?thesis by (auto split: if_splits)
    qed
  qed
qed

lemma fold_drop_law:
  assumes "inv r" and "\<forall>d \<in> set ds. okidx \<lparr>pri_NodeID = rd_NodeID d, pri_RuleID = rd_RuleID d\<rparr>"
  shows "inv (fold (dropStaleRule R peer alive) ds r) \<and>
    (\<forall>k. okidx k \<longrightarrow> view (fold (dropStaleRule R peer alive) ds r) k =
      (if pri_NodeID k = peer \<and> pri_RuleID k \<notin> set alive \<and>
          (\<exists>d \<in> set ds. rd_NodeID d = pri_NodeID k \<and> rd_RuleID d = pri_RuleID k) then None else view r k))"
  using assms
proof (induction ds arbitrary: r)
  case Nil
  then show ?case by simp
next
  case (Cons d ds)
  let ?i = "\<lparr>pri_NodeID = peer, pri_RuleID = rd_RuleID d\<rparr>" and ?r = "dropStaleRule R peer alive d r"
  obtain ok r' where a: "ri_RemoveRemoteRule R ?i r = (ok, r')" by fastforce
  have l: "inv r' \<and> (\<forall>k. okidx k \<longrightarrow> view r' k = (if k = ?i then None else view r k))" if "rd_NodeID d = peer"
    using remove_law [OF Cons.prems(1) _ a] Cons.prems(2) that by auto
  have inv: "inv ?r" using l a Cons.prems(1) by (simp add: dropStaleRule_def)
  have v: "view ?r k = (if pri_NodeID k = peer \<and> rd_NodeID d = peer \<and> pri_RuleID k = rd_RuleID d \<and> pri_RuleID k \<notin> set alive
      then None else view r k)" if "okidx k" for k
    using l a that unfolding dropStaleRule_def by (cases k) auto
  from Cons.IH [OF inv] Cons.prems(2) v show ?case by auto
qed

text \<open>The dump of a peer decides its own rules, leaves ours alone and can only add to those of others.\<close>

lemma syncRules_law:
  assumes "inv r" and "\<forall>ev \<in> set dump. okidx (wire_index ev)" and "okidx k" and "peer \<noteq> me" and "peer \<noteq> ''''"
  shows "inv (syncRules R me peer dump r)"
    and "pri_NodeID k = peer \<Longrightarrow> view (syncRules R me peer dump r) k \<noteq> None \<longleftrightarrow> k \<in> wire_index ` set dump"
    and "pri_NodeID k = me \<Longrightarrow> view (syncRules R me peer dump r) k = view r k"
    and "pri_NodeID k \<noteq> peer \<Longrightarrow> view r k = Some x \<Longrightarrow> view (syncRules R me peer dump r) k = Some x"
    and "view r k = None \<Longrightarrow> view (syncRules R me peer dump r) k = Some x \<Longrightarrow>
      \<exists>ev \<in> set dump. wire_index ev = k \<and> x = (wire_rule ev)\<lparr>pr_index := k\<rparr>"
    and "view r k = Some x \<Longrightarrow> view (syncRules R me peer dump r) k \<noteq> None \<Longrightarrow> view (syncRules R me peer dump r) k = Some x"
    and "pri_NodeID k \<noteq> me \<Longrightarrow> pri_NodeID k \<noteq> '''' \<Longrightarrow> k \<in> wire_index ` set dump \<Longrightarrow> view (syncRules R me peer dump r) k \<noteq> None"
proof -
  let ?alive = "map cr_Id (filter (\<lambda>ev. cr_NodeId ev = peer) dump)"
  let ?r1 = "fold (syncRuleObject R me) dump r"
  note f = fold_sync_law [OF assms(1,2), where me = me]
  then have inv1: "inv ?r1" by blast
  have "\<forall>d \<in> set (ri_DumpRules R ?r1). okidx \<lparr>pri_NodeID = rd_NodeID d, pri_RuleID = rd_RuleID d\<rparr>"
    using dump_ok [OF inv1] by blast
  note d = fold_drop_law [OF inv1 this, of peer ?alive]
  have al: "pri_NodeID k = peer \<Longrightarrow> pri_RuleID k \<in> set ?alive \<longleftrightarrow> k \<in> wire_index ` set dump"
    by (cases k) (force simp: wire_index_def)
  have v: "view (syncRules R me peer dump r) k =
      (if pri_NodeID k = peer \<and> pri_RuleID k \<notin> set ?alive \<and> view ?r1 k \<noteq> None then None else view ?r1 k)"
    using d assms(3) dump_law [OF inv1 assms(3)] by (auto simp: syncRules_def Let_def)
  have f1: "\<And>x. view r k = Some x \<Longrightarrow> view ?r1 k = Some x"
    "view ?r1 k \<noteq> None \<longleftrightarrow> view r k \<noteq> None \<or> (pri_NodeID k \<noteq> me \<and> pri_NodeID k \<noteq> '''' \<and> k \<in> wire_index ` set dump)"
    "\<And>x. view r k = None \<Longrightarrow> view ?r1 k = Some x \<Longrightarrow> \<exists>ev \<in> set dump. wire_index ev = k \<and> x = (wire_rule ev)\<lparr>pr_index := k\<rparr>"
    using f assms(3) by blast+
  show "inv (syncRules R me peer dump r)" using d by (simp add: syncRules_def Let_def)
  show "pri_NodeID k = peer \<Longrightarrow> view (syncRules R me peer dump r) k \<noteq> None \<longleftrightarrow> k \<in> wire_index ` set dump"
    using v al f1(2) assms(4,5) by auto
  show "pri_NodeID k = me \<Longrightarrow> view (syncRules R me peer dump r) k = view r k"
    using v f1(1,2) assms(4) by (cases "view r k") auto
  show "pri_NodeID k \<noteq> peer \<Longrightarrow> view r k = Some x \<Longrightarrow> view (syncRules R me peer dump r) k = Some x"
    using v f1(1) by simp
  show "view r k = None \<Longrightarrow> view (syncRules R me peer dump r) k = Some x \<Longrightarrow>
      \<exists>ev \<in> set dump. wire_index ev = k \<and> x = (wire_rule ev)\<lparr>pr_index := k\<rparr>"
    using v f1(3) by (auto split: if_splits)
  show "view r k = Some x \<Longrightarrow> view (syncRules R me peer dump r) k \<noteq> None \<Longrightarrow> view (syncRules R me peer dump r) k = Some x"
    using v f1(1) by (auto split: if_splits)
  show "pri_NodeID k \<noteq> me \<Longrightarrow> pri_NodeID k \<noteq> '''' \<Longrightarrow> k \<in> wire_index ` set dump \<Longrightarrow> view (syncRules R me peer dump r) k \<noteq> None"
    using v f1(2) al by auto
qed

end

section \<open>The router provides it\<close>

text \<open>
  Rules of the nodes \<open>U\<close>, of which there are fewer than 65535, with numbers below 2^48.
\<close>

definition rules_okidx :: "string set \<Rightarrow> PortRuleIndex \<Rightarrow> bool" where
  "rules_okidx U idx \<longleftrightarrow> pri_NodeID idx \<in> U \<and> pri_RuleID idx < 2 ^ 48"

definition rules_inv :: "string set \<Rightarrow> ('l, 'n) Router \<Rightarrow> bool" where
  "rules_inv U r \<longleftrightarrow> finite U \<and> card U < 65535 \<and> fw_inv (firewall r) \<and> short_ok (firewall r) \<and>
     fst ` set (shortIdByNodeId (firewall r)) \<subseteq> U \<and>
     (\<forall>i rule. gm_get (rulesByID (firewall r)) i = Some rule \<longrightarrow> pri_RuleID (pr_index rule) < 2 ^ 48)"

definition rules_view :: "('l, 'n) Router \<Rightarrow> PortRuleIndex \<Rightarrow> PortRule option" where
  "rules_view r = policy (firewall r)"

lemma rules_inv_count:
  assumes "rules_inv U r" shows "length (shortIdByNodeId (firewall r)) < 65535"
proof -
  from assms have d: "distinct (map fst (shortIdByNodeId (firewall r)))"
    and U: "finite U" "card U < 65535" "fst ` set (shortIdByNodeId (firewall r)) \<subseteq> U"
    by (simp_all add: rules_inv_def fw_inv_def fw_wf_def gm_wf_def)
  have "length (shortIdByNodeId (firewall r)) = card (fst ` set (shortIdByNodeId (firewall r)))"
    using distinct_card [OF d] by simp
  also have "\<dots> \<le> card U" by (rule card_mono [OF U(1,3)])
  finally show ?thesis using U(2) by simp
qed

lemma getOrCreate_nodes:
  "fst ` set (shortIdByNodeId (snd (getOrCreateShortID n fw))) \<subseteq> insert n (fst ` set (shortIdByNodeId fw))"
proof -
  have "fst ` set (gm_set n v m) = insert n (fst ` set m)" for v and m :: "(string, u16) gomap"
    using dom_update [of n v m] by (auto simp: gm_set_def dom_map_of_conv_image_fst [symmetric] update_conv')
  then show ?thesis by (auto simp: getOrCreateShortID_def Let_def split: option.splits)
qed

lemma rules_inv_add:
  assumes "rules_inv U r" and "rules_okidx U idx" and "AddRemoteRule idx rule r = (ok, r')"
  shows "rules_inv U r'"
proof -
  let ?fw = "firewall r"
  obtain s fw1 where g: "getOrCreateShortID (pri_NodeID idx) ?fw = (s, fw1)" by fastforce
  from assms(1) have i: "fw_inv ?fw" "short_ok ?fw" by (simp_all add: rules_inv_def)
  note s1 = short_ok_getOrCreate [OF i(2) rules_inv_count [OF assms(1)] g]
  have nodes: "fst ` set (shortIdByNodeId fw1) \<subseteq> U"
  proof -
    have "insert (pri_NodeID idx) (fst ` set (shortIdByNodeId ?fw)) \<subseteq> U"
      using assms(1,2) by (simp add: rules_inv_def rules_okidx_def)
    then show ?thesis using order.trans [OF getOrCreate_nodes [of "pri_NodeID idx" ?fw, unfolded g snd_conv]] by simp
  qed
  obtain fw' where a: "AddRule idx rule ?fw = (ok, fw')" and r': "r' = r\<lparr>firewall := fw'\<rparr>"
    using assms(3) by (auto simp: AddRemoteRule_def split: prod.splits)
  have "fw_inv fw'" using fw_inv_AddRule [OF i(1), of idx rule] a by simp
  moreover have "short_ok fw' \<and> fst ` set (shortIdByNodeId fw') \<subseteq> U"
  proof -
    have U: "fst ` set (shortIdByNodeId ?fw) \<subseteq> U" using assms(1) by (simp add: rules_inv_def)
    from a g have "shortIdByNodeId fw' = shortIdByNodeId fw1 \<and> nextShortID fw' = nextShortID fw1 \<or> fw' = ?fw"
      by (auto simp: AddRule_def Let_def split: if_splits option.splits)
    with s1 nodes i(2) U show ?thesis by (elim disjE conjE) (simp_all add: short_ok_def)
  qed
  moreover have "gm_get (rulesByID fw') k = Some x \<Longrightarrow> pri_RuleID (pr_index x) < 2 ^ 48" for k x
    using a g getOrCreateShortID_props(2) [OF g] assms(1,2)
    by (auto simp: AddRule_def Let_def rules_inv_def rules_okidx_def split: if_splits option.splits)
  ultimately show ?thesis using assms(1) r' by (simp add: rules_inv_def)
qed

lemma rules_inv_remove:
  assumes "rules_inv U r" and "RemoveRemoteRule idx r = (ok, r')"
  shows "rules_inv U r'"
proof -
  from assms(1) have i: "fw_inv (firewall r)" by (simp add: rules_inv_def)
  obtain fw' where a: "RemoveRule idx (firewall r) = (ok, fw')" and r': "r' = r\<lparr>firewall := fw'\<rparr>"
    using assms(2) by (auto simp: RemoveRemoteRule_def split: prod.splits)
  have "fw_inv fw'" using fw_inv_RemoveRule [OF i, of idx] a by simp
  moreover have "shortIdByNodeId fw' = shortIdByNodeId (firewall r)" "nextShortID fw' = nextShortID (firewall r)"
    using a by (auto simp: RemoveRule_def Let_def dropUnauthorizedHoles_def split: option.splits if_splits)
  moreover have "\<forall>k x. gm_get (rulesByID fw') k = Some x \<longrightarrow> gm_get (rulesByID (firewall r)) k = Some x"
    using a by (auto simp: RemoveRule_def Let_def dropUnauthorizedHoles_def split: option.splits if_splits)
  moreover from this assms(1) have "\<forall>k x. gm_get (rulesByID fw') k = Some x \<longrightarrow> pri_RuleID (pr_index x) < 2 ^ 48"
    unfolding rules_inv_def by metis
  ultimately show ?thesis using assms(1) r' unfolding rules_inv_def short_ok_def by simp
qed

lemma rules_dump:
  assumes "rules_inv U r"
  shows "d \<in> set (router_DumpRules r) \<longleftrightarrow> (\<exists>i rule. gm_get (rulesByID (firewall r)) i = Some rule \<and> d = dumpRule rule)"
proof -
  have "gm_wf (rulesByID (firewall r))" using assms by (simp add: rules_inv_def fw_inv_def fw_wf_def)
  then have "x \<in> set (gm_vals (rulesByID (firewall r))) \<longleftrightarrow> (\<exists>i. gm_get (rulesByID (firewall r)) i = Some x)" for x
    by (simp add: gm_vals_iff)
  then show ?thesis by (simp add: router_DumpRules_def DumpRules_def image_iff) blast
qed

lemma rules_dump_index:
  assumes "rules_inv U r" and "rules_okidx U idx"
  shows "(\<exists>d \<in> set (router_DumpRules r). rd_NodeID d = pri_NodeID idx \<and> rd_RuleID d = pri_RuleID idx) \<longleftrightarrow>
    rules_view r idx \<noteq> None"
proof
  assume "\<exists>d \<in> set (router_DumpRules r). rd_NodeID d = pri_NodeID idx \<and> rd_RuleID d = pri_RuleID idx"
  then obtain i rule where "gm_get (rulesByID (firewall r)) i = Some rule"
    "pri_NodeID (pr_index rule) = pri_NodeID idx" "pri_RuleID (pr_index rule) = pri_RuleID idx"
    using rules_dump [OF assms(1)] by (auto simp: dumpRule_def)
  with policy_own_index [of "firewall r" i rule] assms(1) show "rules_view r idx \<noteq> None"
    by (cases "pr_index rule"; cases idx) (auto simp: rules_inv_def rules_view_def)
next
  assume "rules_view r idx \<noteq> None"
  then obtain s rule where s: "getShortID (pri_NodeID idx) (firewall r) = Some s"
    "gm_get (rulesByID (firewall r)) (makeGlobalKey s (pri_RuleID idx)) = Some rule"
    by (auto simp: rules_view_def policy_def split: option.splits)
  from assms(1) have i: "fw_inv (firewall r)" "short_ok (firewall r)" by (simp_all add: rules_inv_def)
  from fw_keysD(2) [OF i(1) s(2)] obtain t where t: "getShortID (pri_NodeID (pr_index rule)) (firewall r) = Some t"
    "makeGlobalKey s (pri_RuleID idx) = makeGlobalKey t (pri_RuleID (pr_index rule))" by blast
  have "pri_RuleID (pr_index rule) < 2 ^ 48" "pri_RuleID idx < 2 ^ 48"
    using assms s(2) by (auto simp: rules_inv_def rules_okidx_def)
  with key_index_inject [OF i(2) s(1) t(1)] t(2) have "pr_index rule = idx" by auto
  with s(2) show "\<exists>d \<in> set (router_DumpRules r). rd_NodeID d = pri_NodeID idx \<and> rd_RuleID d = pri_RuleID idx"
    using rules_dump [OF assms(1)] by (intro bexI [of _ "dumpRule rule"]) (auto simp: dumpRule_def)
qed

lemma rules_dump_ok:
  assumes "rules_inv U r" and "d \<in> set (router_DumpRules r)"
  shows "rules_okidx U \<lparr>pri_NodeID = rd_NodeID d, pri_RuleID = rd_RuleID d\<rparr>"
proof -
  from rules_dump [OF assms(1)] assms(2) obtain i rule where
    g: "gm_get (rulesByID (firewall r)) i = Some rule" "d = dumpRule rule" by blast
  from fw_keysD(2) [OF _ g(1)] assms(1) obtain s where
    "gm_get (shortIdByNodeId (firewall r)) (pri_NodeID (pr_index rule)) = Some s"
    by (auto simp: rules_inv_def getShortID_def)
  then have "pri_NodeID (pr_index rule) \<in> fst ` set (shortIdByNodeId (firewall r))"
    using gm_get_in_set by force
  with assms(1) g show ?thesis by (auto simp: rules_inv_def rules_okidx_def dumpRule_def)
qed

interpretation router_rules: rule_authority the_router "rules_inv U" "rules_okidx U" rules_view for U
proof
  fix r :: "('a, 'b) Router" and idx rule ok r' and d :: RuleDump
  assume i: "rules_inv U r"
  then have f: "fw_inv (firewall r)" "short_ok (firewall r)" by (simp_all add: rules_inv_def)
  show "ri_ExistsRule the_router idx r \<longleftrightarrow> rules_view r idx \<noteq> None"
    by (simp add: the_router_def router_ExistsRule_def ExistsRule_policy rules_view_def)
  show "d \<in> set (ri_DumpRules the_router r) \<Longrightarrow> rules_okidx U \<lparr>pri_NodeID = rd_NodeID d, pri_RuleID = rd_RuleID d\<rparr>"
    using rules_dump_ok [OF i] by (simp add: the_router_def)
  assume o: "rules_okidx U idx"
  show "(\<exists>d \<in> set (ri_DumpRules the_router r). rd_NodeID d = pri_NodeID idx \<and> rd_RuleID d = pri_RuleID idx) \<longleftrightarrow>
      rules_view r idx \<noteq> None"
    using rules_dump_index [OF i o] by (simp add: the_router_def)
  show "rules_inv U r' \<and> (ok \<longleftrightarrow> pri_NodeID idx \<noteq> '''' \<and> rules_view r idx = None) \<and>
      (\<forall>k. rules_okidx U k \<longrightarrow> rules_view r' k = (if ok \<and> k = idx then Some (rule\<lparr>pr_index := idx\<rparr>) else rules_view r k))"
    if "ri_AddRemoteRule the_router idx rule r = (ok, r')"
  proof -
    from that have a: "AddRemoteRule idx rule r = (ok, r')" by (simp add: the_router_def)
    then have "AddRule idx rule (firewall r) = (ok, firewall r')" by (auto simp: AddRemoteRule_def split: prod.splits)
    from AddRule_policy [OF f rules_inv_count [OF i] _ this] o rules_inv_add [OF i o a] show ?thesis
      by (simp add: rules_okidx_def rules_view_def)
  qed
  show "rules_inv U r' \<and> (\<forall>k. rules_okidx U k \<longrightarrow> rules_view r' k = (if k = idx then None else rules_view r k))"
    if "ri_RemoveRemoteRule the_router idx r = (ok, r')"
  proof -
    from that have a: "RemoveRemoteRule idx r = (ok, r')" by (simp add: the_router_def)
    then have "RemoveRule idx (firewall r) = (ok, firewall r')" by (auto simp: RemoveRemoteRule_def split: prod.splits)
    from RemoveRule_policy [OF f _ this] o rules_inv_remove [OF i a] show ?thesis
      by (simp add: rules_okidx_def rules_view_def)
  qed
qed


section \<open>What the syncer relies on: a table of clients\<close>

locale client_table =
  fixes R :: "('l, 'r) sync_Router"
    and inv :: "'r \<Rightarrow> bool"
    and view :: "'r \<Rightarrow> u32 \<Rightarrow> 'l RoutingObject option"
  assumes get_law: "inv r \<Longrightarrow> ri_GetRemoteRoutingObject R ip r = view r ip"
    and add_law: "inv r \<Longrightarrow> inv (snd (ri_AddRemoteRoutingObject R obj r)) \<and>
      view (snd (ri_AddRemoteRoutingObject R obj r)) ip =
        (case view r ip of None \<Rightarrow> if ip = GetVirtualIP obj then Some obj else None | Some v \<Rightarrow> Some v)"
    and delete_law: "inv r \<Longrightarrow> inv (snd (ri_DeleteRemoteRoutingObject R ip' r)) \<and>
      view (snd (ri_DeleteRemoteRoutingObject R ip' r)) ip = (if ip = ip' then None else view r ip)"
    and dump_law: "inv r \<Longrightarrow> d \<in> set (ri_DumpRoutingTable R r) \<longleftrightarrow>
      (\<exists>obj. view r (rtd_VirtualIP d) = Some obj \<and> GetNodeID obj = rtd_NodeID d)"
begin

definition owner :: "'r \<Rightarrow> u32 \<Rightarrow> string option" where
  "owner r ip = map_option GetNodeID (view r ip)"

lemma add_client_law:
  assumes "inv r"
  shows "inv (addRemoteRoutingObject R c me ev r)"
    and "view (addRemoteRoutingObject R c me ev r) ip =
      (if ip = ci_VirtualIp ev \<and> ci_NodeId ev \<noteq> me \<and> view r ip = None
       then Some (remote_object (newRemoteClient c ip (ci_NodeId ev))) else view r ip)"
  using add_law [OF assms, of "remote_object (newRemoteClient c (ci_VirtualIp ev) (ci_NodeId ev))" ip] assms
  by (auto simp: addRemoteRoutingObject_def remote_object_def newRemoteClient_def GetVirtualIP_def split: option.splits)

lemma delete_client_law:
  assumes "inv r"
  shows "inv (deleteRemoteRoutingObject R ev r)"
    and "view (deleteRemoteRoutingObject R ev r) ip = (if ip = ci_VirtualIp ev then None else view r ip)"
  using delete_law [OF assms, of "ci_VirtualIp ev" ip] by (simp_all add: deleteRemoteRoutingObject_def)

lemma syncPeerObject_law:
  assumes "inv r"
  shows "inv (syncPeerObject R c me ev r)"
    and "ip \<noteq> ci_VirtualIp ev \<or> owner r ip = Some me \<Longrightarrow> view (syncPeerObject R c me ev r) ip = view r ip"
    and "ci_NodeId ev \<noteq> me \<Longrightarrow> owner r (ci_VirtualIp ev) \<noteq> Some me \<Longrightarrow>
      owner (syncPeerObject R c me ev r) (ci_VirtualIp ev) = Some (ci_NodeId ev)"
proof -
  note d = delete_client_law [OF assms, of ev]
  note a = add_client_law [OF assms, of c me ev] add_client_law [OF d(1), of c me ev]
  have n: "GetNodeID (remote_object (newRemoteClient c ip n)) = n" for ip n
    by (simp add: remote_object_def newRemoteClient_def GetNodeID_def)
  show "inv (syncPeerObject R c me ev r)" using a assms by (simp add: syncPeerObject_def split: option.split)
  show "ip \<noteq> ci_VirtualIp ev \<or> owner r ip = Some me \<Longrightarrow> view (syncPeerObject R c me ev r) ip = view r ip"
    by (auto simp: syncPeerObject_def get_law [OF assms] a d owner_def split: option.splits)
  show "ci_NodeId ev \<noteq> me \<Longrightarrow> owner r (ci_VirtualIp ev) \<noteq> Some me \<Longrightarrow>
      owner (syncPeerObject R c me ev r) (ci_VirtualIp ev) = Some (ci_NodeId ev)"
    by (auto simp: syncPeerObject_def get_law [OF assms] a d owner_def n split: option.splits)
qed

lemma fold_syncPeer_law:
  assumes "inv r"
  shows "inv (fold (syncPeerObject R c me) dump r) \<and>
    (owner r ip = Some me \<or> ip \<notin> ci_VirtualIp ` set dump \<longrightarrow> view (fold (syncPeerObject R c me) dump r) ip = view r ip)"
  using assms
proof (induction dump arbitrary: r)
  case Nil
  then show ?case by simp
next
  case (Cons ev dump)
  let ?r = "syncPeerObject R c me ev r"
  note s = syncPeerObject_law(1,2) [OF Cons.prems, where c = c and me = me and ev = ev]
  show ?case
  proof (intro conjI impI)
    show "inv (fold (syncPeerObject R c me) (ev # dump) r)" using Cons.IH [OF s(1)] by simp
    assume a: "owner r ip = Some me \<or> ip \<notin> ci_VirtualIp ` set (ev # dump)"
    then have "view ?r ip = view r ip" by (intro s(2)) auto
    with Cons.IH [OF s(1)] a show "view (fold (syncPeerObject R c me) (ev # dump) r) ip = view r ip" by (auto simp: owner_def)
  qed
qed

lemma fold_syncPeer_claims:
  assumes "inv r" and "distinct (map ci_VirtualIp dump)" and "ev \<in> set dump" and "ci_NodeId ev \<noteq> me"
    and "owner r (ci_VirtualIp ev) \<noteq> Some me"
  shows "owner (fold (syncPeerObject R c me) dump r) (ci_VirtualIp ev) = Some (ci_NodeId ev)"
  using assms
proof (induction dump arbitrary: r)
  case Nil
  then show ?case by simp
next
  case (Cons e dump)
  let ?r = "syncPeerObject R c me e r"
  note s = syncPeerObject_law [OF Cons.prems(1), where c = c and me = me and ev = e]
  show ?case
  proof (cases "ev = e")
    case True
    with Cons.prems(2) have "view (fold (syncPeerObject R c me) dump ?r) (ci_VirtualIp ev) = view ?r (ci_VirtualIp ev)"
      using fold_syncPeer_law [OF s(1), where ip = "ci_VirtualIp ev" and me = me and c = c and dump = dump] by simp
    with True Cons.prems(4,5) s(3) show ?thesis by (simp add: owner_def)
  next
    case False
    with Cons.prems(3) have mem: "ev \<in> set dump" by simp
    moreover have "ci_VirtualIp ev \<noteq> ci_VirtualIp e" using imageI [OF mem, of ci_VirtualIp] Cons.prems(2) by auto
    ultimately show ?thesis using Cons.IH [OF s(1)] Cons.prems s(2) [of "ci_VirtualIp ev"] by (simp add: owner_def)
  qed
qed

lemma fold_dropClient_law:
  assumes "inv r"
  shows "inv (fold (dropStaleClient R peer alive) ds r) \<and>
    view (fold (dropStaleClient R peer alive) ds r) ip =
      (if ip \<notin> set alive \<and> (\<exists>d \<in> set ds. rtd_NodeID d = peer \<and> rtd_VirtualIP d = ip) then None else view r ip)"
  using assms
proof (induction ds arbitrary: r)
  case Nil
  then show ?case by simp
next
  case (Cons d ds)
  let ?r = "dropStaleClient R peer alive d r"
  have "inv ?r" "view ?r ip = (if ip \<notin> set alive \<and> rtd_NodeID d = peer \<and> rtd_VirtualIP d = ip then None else view r ip)"
    using delete_law [OF Cons.prems, of "rtd_VirtualIP d" ip] Cons.prems by (auto simp: dropStaleClient_def)
  with Cons.IH [of ?r] show ?case by auto
qed

text \<open>A dump of a peer never touches our clients and decides, for every other address, whether the peer has it.\<close>

lemma syncClients_law:
  assumes "inv r" and "peer \<noteq> me"
  shows "inv (syncClients R c me peer dump r)"
    and "owner r ip = Some me \<Longrightarrow> view (syncClients R c me peer dump r) ip = view r ip"
    and "distinct (map ci_VirtualIp dump) \<Longrightarrow> owner (syncClients R c me peer dump r) ip = Some peer \<longleftrightarrow>
      \<lparr>ci_NodeId = peer, ci_VirtualIp = ip\<rparr> \<in> set dump \<and> owner r ip \<noteq> Some me"
proof -
  let ?alive = "map ci_VirtualIp (filter (\<lambda>ev. ci_NodeId ev = peer) dump)"
  let ?r1 = "fold (syncPeerObject R c me) dump r"
  let ?e = "\<lparr>ci_NodeId = peer, ci_VirtualIp = ip\<rparr>"
  note f = fold_syncPeer_law [OF assms(1), where c = c and me = me and dump = dump, THEN conjunct1]
    fold_syncPeer_law [OF assms(1), where c = c and me = me and dump = dump, THEN conjunct2, THEN mp]
  note g = fold_dropClient_law [OF f(1), of peer ?alive "ri_DumpRoutingTable R ?r1" ip]
  have al: "ip \<in> set ?alive \<longleftrightarrow> ?e \<in> set dump"
  proof
    assume "ip \<in> set ?alive"
    then obtain ev where "ev \<in> set dump" "ci_NodeId ev = peer" "ci_VirtualIp ev = ip" by auto
    moreover from this have "ev = ?e" by (auto intro: ClientInfo.equality)
    ultimately show "?e \<in> set dump" by simp
  next
    assume "?e \<in> set dump"
    then have "ci_VirtualIp ?e \<in> set ?alive" unfolding set_map by (intro imageI) simp
    then show "ip \<in> set ?alive" by simp
  qed
  have d: "(\<exists>d \<in> set (ri_DumpRoutingTable R ?r1). rtd_NodeID d = peer \<and> rtd_VirtualIP d = ip) \<longleftrightarrow> owner ?r1 ip = Some peer"
  proof
    assume "\<exists>d \<in> set (ri_DumpRoutingTable R ?r1). rtd_NodeID d = peer \<and> rtd_VirtualIP d = ip"
    with dump_law [OF f(1)] show "owner ?r1 ip = Some peer" by (auto simp: owner_def)
  next
    assume "owner ?r1 ip = Some peer"
    then show "\<exists>d \<in> set (ri_DumpRoutingTable R ?r1). rtd_NodeID d = peer \<and> rtd_VirtualIP d = ip"
      using dump_law [OF f(1), of "\<lparr>rtd_NodeID = peer, rtd_VirtualIP = ip\<rparr>"]
      by (intro bexI [of _ "\<lparr>rtd_NodeID = peer, rtd_VirtualIP = ip\<rparr>"]) (auto simp: owner_def)
  qed
  have v: "view (syncClients R c me peer dump r) ip =
      (if ip \<notin> set ?alive \<and> owner ?r1 ip = Some peer then None else view ?r1 ip)"
    using g d by (simp add: syncClients_def Let_def)
  show "inv (syncClients R c me peer dump r)" using g by (simp add: syncClients_def Let_def)
  show own: "view (syncClients R c me peer dump r) ip = view r ip" if "owner r ip = Some me"
    using v f(2) [of ip] that assms(2) by (auto simp: owner_def)
  show "owner (syncClients R c me peer dump r) ip = Some peer \<longleftrightarrow> ?e \<in> set dump \<and> owner r ip \<noteq> Some me"
    if dist: "distinct (map ci_VirtualIp dump)"
  proof (cases "owner r ip = Some me")
    case True
    with own assms(2) show ?thesis by (auto simp: owner_def)
  next
    case False
    have "owner ?r1 ip = Some peer" if "?e \<in> set dump"
      using fold_syncPeer_claims [OF assms(1) dist that] assms(2) False by simp
    with v al False show ?thesis by (auto simp: owner_def)
  qed
qed

end

interpretation router_clients: client_table the_router "\<lambda>r. rt_ok (routingTable r)" "\<lambda>r ip. rt_GetByIP ip (routingTable r)"
  by unfold_locales
    (simp_all add: the_router_def GetRemoteRoutingObject_def AddRemoteRoutingObject_def DeleteRemoteRoutingObject_def
      DumpRoutingTable_def split_beta rt_ok_Add rt_ok_Delete rt_GetByIP_Add rt_GetByIP_Delete rt_Dump_iff)


section \<open>Properties of the replication\<close>

text \<open>A peer's dump is authoritative for that peer only. For a router whose rules belong to fewer than 65535
  nodes, after a full rules dump of \<open>peer\<close> the router holds exactly the dumped rules of \<open>peer\<close>, the node's own
  rules are as they were, and no rule of a third node is lost or replaced.\<close>

theorem rule_dump_is_authoritative:
  assumes "rules_inv U r" and "peer \<noteq> me" and "peer \<noteq> ''''"
    and "\<forall>rule \<in> set dump. rules_okidx U (wire_index rule)" and "rules_okidx U k"
    and "r' = applyRuleEvent the_router me peer \<lparr>cre_Type = EVENT_SYNC, cre_Update = u, cre_Dump = dump\<rparr> r"
  shows "rules_inv U r' \<and>
    (pri_NodeID k = peer \<longrightarrow> (rules_view r' k \<noteq> None \<longleftrightarrow> k \<in> wire_index ` set dump)) \<and>
    (pri_NodeID k = me \<longrightarrow> rules_view r' k = rules_view r k) \<and>
    (pri_NodeID k \<noteq> peer \<longrightarrow> rules_view r k \<noteq> None \<longrightarrow> rules_view r' k = rules_view r k)"
  using router_rules.syncRules_law(1-4) [OF assms(1,4,5,2,3)] assms(6) by (auto simp: applyRuleEvent_def)

lemma wire_roundtrip: "(wire_rule (ruleToWire (dumpRule rule)))\<lparr>pr_index := pr_index rule\<rparr> = rule"
proof -
  have w: "ucast (ucast (x :: u16) :: u32) = x" for x     by (rule bit_word_eqI) (simp add: bit_simps)
  show ?thesis
    by (cases rule) (simp add: wire_rule_def ruleToWire_def dumpRule_def w option.map_comp comp_def option.map_ident)
qed

lemma wire_index_dump: "wire_index (ruleToWire d) = \<lparr>pri_NodeID = rd_NodeID d, pri_RuleID = rd_RuleID d\<rparr>"
  by (simp add: wire_index_def ruleToWire_def)

text \<open>Rules are replicated faithfully. When the node \<open>b\<close> applies the full dump that the node \<open>a\<close> serves, the
  router of \<open>b\<close> then holds exactly the rules that \<open>a\<close> itself has, field by field (the 16-bit ports survive the
  32-bit wire format), provided that no rule of \<open>a\<close> that \<open>b\<close> already had was changed under the same number.\<close>

theorem rule_replication:
  assumes "rules_inv U ra" and "rules_inv U rb" and "a \<noteq> b" and "a \<noteq> ''''"
    and "rules_okidx U k" and "pri_NodeID k = a"
    and "\<forall>x y. rules_view ra k = Some x \<longrightarrow> rules_view rb k = Some y \<longrightarrow> x = y"
  shows "rules_view (applyRuleEvent the_router b a (buildFirewallSyncEvent the_router ra) rb) k = rules_view ra k"
proof -
  let ?dump = "map ruleToWire (router_DumpRules ra)"
  let ?r = "syncRules the_router b a ?dump rb"
  have ok: "\<forall>ev \<in> set ?dump. rules_okidx U (wire_index ev)"
    using rules_dump_ok [OF assms(1)] by (auto simp: wire_index_dump)
  note l = router_rules.syncRules_law [OF assms(2) ok assms(5) assms(3,4)]
  have "k \<in> wire_index ` set ?dump \<longleftrightarrow>
      (\<exists>d \<in> set (router_DumpRules ra). rd_NodeID d = pri_NodeID k \<and> rd_RuleID d = pri_RuleID k)"
    by (cases k) (auto simp: image_iff wire_index_dump)
  then have dom: "rules_view ?r k \<noteq> None \<longleftrightarrow> rules_view ra k \<noteq> None"
    using l(2) [OF assms(6)] rules_dump_index [OF assms(1,5)] by simp
  have "rules_view ?r k = rules_view ra k"
  proof (cases "rules_view ra k")
    case None
    with dom show ?thesis by simp
  next
    case (Some x)
    with dom obtain y where y: "rules_view ?r k = Some y" by auto
    show ?thesis
    proof (cases "rules_view rb k")
      case None
      from l(5) [OF None y] obtain d where d: "d \<in> set (router_DumpRules ra)" "wire_index (ruleToWire d) = k"
        "y = (wire_rule (ruleToWire d))\<lparr>pr_index := k\<rparr>" by auto
      from d(1) rules_dump [OF assms(1)] obtain i rule where rule: "gm_get (rulesByID (firewall ra)) i = Some rule"
        "d = dumpRule rule" by blast
      then have k: "pr_index rule = k" using d(2) by (cases "pr_index rule") (simp add: wire_index_dump dumpRule_def)
      with policy_own_index [OF _ rule(1)] assms(1) have "rules_view ra k = Some rule"
        by (simp add: rules_inv_def rules_view_def)
      with y d(3) rule(2) k wire_roundtrip [of rule] show ?thesis by simp
    next
      case (Some z)
      from l(6) [OF Some] y have "rules_view ?r k = Some z" by simp
      with Some assms(7) \<open>rules_view ra k = Some x\<close> show ?thesis by simp
    qed
  qed
  then show ?thesis by (simp add: applyRuleEvent_def buildFirewallSyncEvent_def the_router_def)
qed


definition exWire :: ClientRule where
  "exWire = \<lparr>cr_NodeId = ''a'', cr_Id = 4, cr_Addr = 0x0A000105, cr_TargetAddr = None, cr_Protocol = ''tcp'',
     cr_PortRangeStart = 80, cr_PortRangeEnd = Some 90\<rparr>"

lemma exRouter_rules: "rules_inv {''a'', ''b''} exRouter"
  by (simp add: rules_inv_def exRouter_def fw_inv_New, simp add: short_ok_def fw_New_def)

lemma rule_dump_is_authoritative_witness:
  "rules_view (applyRuleEvent the_router ''b'' ''a'' \<lparr>cre_Type = EVENT_SYNC, cre_Update = None, cre_Dump = [exWire]\<rparr> exRouter)
     (wire_index exWire) \<noteq> None"
  using rule_dump_is_authoritative [OF exRouter_rules, of "''a''" "''b''" "[exWire]" "wire_index exWire" _ None, OF _ _ _ _ refl]
  by (simp add: rules_okidx_def wire_index_def exWire_def)

definition exServed :: "(nat, nat list) Router" where
  "exServed = snd (AddRemoteRule (wire_index exWire) (wire_rule exWire) exRouter)"

lemma exServed_rules:
  "rules_inv {''a'', ''b''} exServed"
  "rules_view exServed (wire_index exWire) = Some ((wire_rule exWire)\<lparr>pr_index := wire_index exWire\<rparr>)"
proof -
  have o: "rules_okidx {''a'', ''b''} (wire_index exWire)" "pri_NodeID (wire_index exWire) \<noteq> ''''"
    by (simp_all add: rules_okidx_def wire_index_def exWire_def)
  have e: "rules_view exRouter idx = None" for idx
    by (simp add: rules_view_def exRouter_def policy_def fw_New_def getShortID_def)
  obtain ok r' where "ri_AddRemoteRule the_router (wire_index exWire) (wire_rule exWire) exRouter = (ok, r')" by fastforce
  with router_rules.add_law [OF exRouter_rules o(1) this] o e
  show "rules_inv {''a'', ''b''} exServed"
    "rules_view exServed (wire_index exWire) = Some ((wire_rule exWire)\<lparr>pr_index := wire_index exWire\<rparr>)"
    by (auto simp: exServed_def the_router_def)
qed

lemma rule_replication_witness:
  "rules_view (applyRuleEvent the_router ''b'' ''a'' (buildFirewallSyncEvent the_router exServed) exRouter) (wire_index exWire) =
     Some ((wire_rule exWire)\<lparr>pr_index := wire_index exWire\<rparr>)"
  using rule_replication [OF exServed_rules(1) exRouter_rules, of "''a''" "''b''" "wire_index exWire"] exServed_rules(2)
  by (simp add: rules_okidx_def wire_index_def exWire_def rules_view_def exRouter_def policy_def fw_New_def getShortID_def)

text \<open>C21: the replicated client table tells where a client sits. A full clients dump of \<open>peer\<close> never touches a
  client of this node, and for every other address the table afterwards places the client on \<open>peer\<close> exactly when
  the dump says so (a dump that lists each address once, as a dump of a routing table does).\<close>

theorem client_dump_is_authoritative:
  assumes "rt_ok (routingTable r)" and "peer \<noteq> me"
    and "r' = applyClientEvent the_router done me peer \<lparr>ce_Type = EVENT_SYNC, ce_Update = u, ce_Dump = dump\<rparr> r"
  shows "rt_ok (routingTable r') \<and>
    (map_option GetNodeID (rt_GetByIP ip (routingTable r)) = Some me \<longrightarrow>
      rt_GetByIP ip (routingTable r') = rt_GetByIP ip (routingTable r)) \<and>
    (distinct (map ci_VirtualIp dump) \<longrightarrow>
      (map_option GetNodeID (rt_GetByIP ip (routingTable r')) = Some peer \<longleftrightarrow>
        \<lparr>ci_NodeId = peer, ci_VirtualIp = ip\<rparr> \<in> set dump \<and> map_option GetNodeID (rt_GetByIP ip (routingTable r)) \<noteq> Some me))"
  using router_clients.syncClients_law(1) [OF assms(1,2)] router_clients.syncClients_law(2,3) [OF assms(1,2), where ip = ip] assms(3)
  unfolding router_clients.owner_def by (simp add: applyClientEvent_def)

lemma client_dump_is_authoritative_witness:
  "map_option GetNodeID (rt_GetByIP 7 (routingTable (applyClientEvent the_router False ''b'' ''a''
     \<lparr>ce_Type = EVENT_SYNC, ce_Update = None, ce_Dump = [\<lparr>ci_NodeId = ''a'', ci_VirtualIp = 7\<rparr>]\<rparr> exRouter))) = Some ''a''"
proof -
  have "rt_ok (routingTable exRouter)" by (simp add: exRouter_def rt_ok_New)
  from client_dump_is_authoritative [OF this, of "''a''" "''b''" _ False None "[\<lparr>ci_NodeId = ''a'', ci_VirtualIp = 7\<rparr>]" 7, OF _ refl]
  show ?thesis by (simp add: exRouter_def rt_GetByIP_def rt_New_def)
qed

text \<open>A peer can delete what it does not own. Additions are refused when they name this node, removals are not:
  a single REMOVED event from any peer deletes the rule it names, a rule of this very node included, and a REMOVED
  client event takes this node's own client out of the routing table.\<close>

theorem removed_event_deletes_own_state:
  assumes "rules_inv U r" and "rules_okidx U (wire_index u)" and "cr_NodeId u = me" and "ci_NodeId v = me"
  shows "rules_view (applyRuleEvent the_router me peer \<lparr>cre_Type = EVENT_REMOVED, cre_Update = Some u, cre_Dump = d\<rparr> r)
      (wire_index u) = None \<and>
    rt_GetByIP (ci_VirtualIp v) (routingTable (applyClientEvent the_router done me peer
      \<lparr>ce_Type = EVENT_REMOVED, ce_Update = Some v, ce_Dump = e\<rparr> r)) = None"
proof
  obtain ok r' where a: "ri_RemoveRemoteRule the_router (wire_index u) r = (ok, r')" by fastforce
  from router_rules.remove_law [OF assms(1,2) this] assms(2)
  show "rules_view (applyRuleEvent the_router me peer \<lparr>cre_Type = EVENT_REMOVED, cre_Update = Some u, cre_Dump = d\<rparr> r)
      (wire_index u) = None"
    using a by (simp add: applyRuleEvent_def deleteRemoteRuleObject_def)
  show "rt_GetByIP (ci_VirtualIp v) (routingTable (applyClientEvent the_router done me peer
      \<lparr>ce_Type = EVENT_REMOVED, ce_Update = Some v, ce_Dump = e\<rparr> r)) = None"
    by (simp add: applyClientEvent_def deleteRemoteRoutingObject_def the_router_def DeleteRemoteRoutingObject_def
      split_beta rt_GetByIP_Delete)
qed

lemma removed_event_deletes_own_state_witness:
  "rules_view exServed (wire_index exWire) \<noteq> None \<and>
   rules_view (applyRuleEvent the_router ''a'' ''b'' \<lparr>cre_Type = EVENT_REMOVED, cre_Update = Some exWire, cre_Dump = []\<rparr> exServed)
      (wire_index exWire) = None"
  using removed_event_deletes_own_state [OF exServed_rules(1), of exWire "''a''" "\<lparr>ci_NodeId = ''a'', ci_VirtualIp = 7\<rparr>" "''b''" "[]"]
    exServed_rules(2)
  by (simp add: rules_okidx_def wire_index_def exWire_def)

text \<open>A dump speaks for third nodes. A rule of a third node that a peer's dump still names is added, also when this node has
  heard from the owner that the rule is gone: the owner's removal is undone here by the peer's older view, until the owner's
  own next dump.\<close>

theorem stale_dump_reopens_rule:
  assumes "rules_inv U r" and "\<forall>rule \<in> set dump. rules_okidx U (wire_index rule)" and "u \<in> set dump"
    and "cr_NodeId u \<noteq> me" and "cr_NodeId u \<noteq> peer" and "cr_NodeId u \<noteq> ''''" and "peer \<noteq> me" and "peer \<noteq> ''''"
    and "r1 = applyRuleEvent the_router me (cr_NodeId u) \<lparr>cre_Type = EVENT_REMOVED, cre_Update = Some u, cre_Dump = []\<rparr> r"
    and "r2 = applyRuleEvent the_router me peer \<lparr>cre_Type = EVENT_SYNC, cre_Update = None, cre_Dump = dump\<rparr> r1"
  shows "rules_view r1 (wire_index u) = None \<and> rules_view r2 (wire_index u) \<noteq> None"
proof -
  have k: "rules_okidx U (wire_index u)" "wire_index u \<in> wire_index ` set dump" "pri_NodeID (wire_index u) = cr_NodeId u"
    using assms(2,3) by (simp_all add: wire_index_def)
  obtain ok r' where a: "ri_RemoveRemoteRule the_router (wire_index u) r = (ok, r')" by fastforce
  with assms(9) have "r1 = r'" by (simp add: applyRuleEvent_def deleteRemoteRuleObject_def)
  with router_rules.remove_law [OF assms(1) k(1) a] k(1) have r1: "rules_inv U r1" "rules_view r1 (wire_index u) = None" by auto
  with router_rules.syncRules_law(7) [OF r1(1) assms(2) k(1) assms(7,8)] k assms(4,6,10) show ?thesis by (simp add: applyRuleEvent_def)
qed

lemma stale_dump_reopens_rule_witness:
  "rules_view (applyRuleEvent the_router ''b'' ''c'' \<lparr>cre_Type = EVENT_SYNC, cre_Update = None, cre_Dump = [exWire]\<rparr>
     (applyRuleEvent the_router ''b'' ''a'' \<lparr>cre_Type = EVENT_REMOVED, cre_Update = Some exWire, cre_Dump = []\<rparr> exServed))
     (wire_index exWire) \<noteq> None"
  using stale_dump_reopens_rule [OF exServed_rules(1), of "[exWire]" exWire "''b''" "''c''"]
  by (simp add: rules_okidx_def wire_index_def exWire_def)

end
