(* ===== verification/FirewallManager.thy ===== *)
theory FirewallManager
  imports Repos PeersSync
begin

text \<open>
  \<^verbatim>\<open>pkg/services/firewallmanager\<close>: the port rules an operator configures, kept in the database and mirrored into the
  firewall under this node's identifier. The firewall is reached through the interface \<^verbatim>\<open>Firewall\<close>, here a record of
  two operations; what the manager relies on is the locale \<open>own_rules\<close>, interpreted on the router. The argument \<open>io\<close>
  says of the n-th query of an operation whether the connection delivers it. The outer option is a panic.
\<close>

section \<open>State and operations\<close>

record model_PortRule =
  mp_ID :: u64
  mp_TargetAddress :: "u32 option"
  mp_Protocol :: string
  mp_PortRangeStart :: u16
  mp_PortRangeEnd :: "u16 option"

record 'r fw_port =
  fp_AddRule :: "PortRuleIndex \<Rightarrow> PortRule \<Rightarrow> 'r \<Rightarrow> (bool \<times> 'r) option"
  fp_RemoveRule :: "PortRuleIndex \<Rightarrow> 'r \<Rightarrow> (bool \<times> 'r) option"

record 'r Firewallmanager =
  fm_firewall :: 'r
  fm_db :: database
  fm_nodeID :: string

text \<open>The conversions of Go: \<^verbatim>\<open>int64(x)\<close> of an unsigned word reads it as signed, \<^verbatim>\<open>uint32(x)\<close> and the like cut off.\<close>

definition ownIndex :: "string \<Rightarrow> u64 \<Rightarrow> PortRuleIndex" where
  "ownIndex node i = \<lparr>pri_NodeID = node, pri_RuleID = i\<rparr>"

definition rowRule :: "PeersRule \<Rightarrow> int \<Rightarrow> PortRule" where
  "rowRule r vip = \<lparr>pr_index = \<lparr>pri_NodeID = '''', pri_RuleID = 0\<rparr>, pr_Address = of_int vip, pr_TargetAddress = pru_TargetIp r,
     pr_Protocol = pru_Protocol r, pr_PortRangeStart = of_int (pru_PortRangeStart r), pr_PortRangeEnd = pru_PortRangeEnd r\<rparr>"

fun addRows :: "'r fw_port \<Rightarrow> string \<Rightarrow> (PeersRule \<times> int) list \<Rightarrow> 'r \<Rightarrow> 'r option" where
  "addRows F node [] r = Some r"
| "addRows F node ((row, vip) # rows) r =
     Option.bind (fp_AddRule F (ownIndex node (of_int (pru_ID row))) (rowRule row vip) r) (\<lambda>(_, r'). addRows F node rows r')"

definition fm_Run :: "'r fw_port \<Rightarrow> (nat \<Rightarrow> bool) \<Rightarrow> 'r Firewallmanager \<Rightarrow> ((sql_error + unit) \<times> 'r Firewallmanager) option" where
  "fm_Run F io fm =
     (if \<not> io 0 then Some (Inl DbFailure, fm)
      else map_option (\<lambda>r. (Inr (), fm\<lparr>fm_firewall := r\<rparr>))
             (addRows F (fm_nodeID fm) (sql_LoadAllRules (fm_db fm)) (fm_firewall fm)))"

definition fm_AddRule ::
  "'r fw_port \<Rightarrow> (nat \<Rightarrow> bool) \<Rightarrow> u64 \<Rightarrow> model_PortRule \<Rightarrow> 'r Firewallmanager \<Rightarrow> ((sql_error + model_PortRule) \<times> 'r Firewallmanager) option" where
  "fm_AddRule F io peerID rule fm =
     (if \<not> io 0 then Some (Inl DbFailure, fm)
      else case sql_InsertPeerRule \<lparr>ir_PeerID = sint peerID, ir_TargetIp = mp_TargetAddress rule, ir_Protocol = mp_Protocol rule,
                  ir_PortRangeStart = uint (mp_PortRangeStart rule), ir_PortRangeEnd = mp_PortRangeEnd rule\<rparr> (fm_db fm) of
             (Inl e, db) \<Rightarrow> Some (Inl e, fm\<lparr>fm_db := db\<rparr>)
           | (Inr ruleID, db) \<Rightarrow>
               let fm1 = fm\<lparr>fm_db := db\<rparr>
               in if \<not> io 1 then Some (Inl DbFailure, fm1)
                  else case sql_GetPeerByID (sint peerID) db of
                         Inl e \<Rightarrow> Some (Inl e, fm1)
                       | Inr peer \<Rightarrow>
                           map_option (\<lambda>(_, r). (Inr (rule\<lparr>mp_ID := of_int ruleID\<rparr>), fm1\<lparr>fm_firewall := r\<rparr>))
                             (fp_AddRule F (ownIndex (fm_nodeID fm) (of_int ruleID))
                               \<lparr>pr_index = \<lparr>pri_NodeID = '''', pri_RuleID = 0\<rparr>, pr_Address = of_int (rp_VirtualIp peer),
                                pr_TargetAddress = mp_TargetAddress rule, pr_Protocol = mp_Protocol rule,
                                pr_PortRangeStart = mp_PortRangeStart rule, pr_PortRangeEnd = mp_PortRangeEnd rule\<rparr>
                               (fm_firewall fm1)))"

definition fm_RemoveRule :: "'r fw_port \<Rightarrow> (nat \<Rightarrow> bool) \<Rightarrow> u64 \<Rightarrow> 'r Firewallmanager \<Rightarrow> ((sql_error + unit) \<times> 'r Firewallmanager) option" where
  "fm_RemoveRule F io ruleID fm =
     (if \<not> io 0 then Some (Inl DbFailure, fm)
      else let fm1 = fm\<lparr>fm_db := sql_DeletePeerRule (sint ruleID) (fm_db fm)\<rparr>
           in map_option (\<lambda>(_, r). (Inr (), fm1\<lparr>fm_firewall := r\<rparr>))
                (fp_RemoveRule F (ownIndex (fm_nodeID fm) ruleID) (fm_firewall fm1)))"

fun removeRows :: "'r fw_port \<Rightarrow> string \<Rightarrow> PeersRule list \<Rightarrow> 'r \<Rightarrow> 'r option" where
  "removeRows F node [] r = Some r"
| "removeRows F node (row # rows) r =
     Option.bind (fp_RemoveRule F (ownIndex node (of_int (pru_ID row))) r) (\<lambda>(_, r'). removeRows F node rows r')"

definition RemoveAllPeerRules :: "'r fw_port \<Rightarrow> (nat \<Rightarrow> bool) \<Rightarrow> u64 \<Rightarrow> 'r Firewallmanager \<Rightarrow> ((sql_error + unit) \<times> 'r Firewallmanager) option" where
  "RemoveAllPeerRules F io peerID fm =
     (if \<not> io 0 then Some (Inl DbFailure, fm)
      else case removeRows F (fm_nodeID fm) (sql_LoadRulesByPeerID (sint peerID) (fm_db fm)) (fm_firewall fm) of
             None \<Rightarrow> None
           | Some r \<Rightarrow>
               let fm1 = fm\<lparr>fm_firewall := r\<rparr>
               in if \<not> io 1 then Some (Inl DbFailure, fm1)
                  else Some (Inr (), fm1\<lparr>fm_db := sql_DeleteAllPeerRules (sint peerID) (fm_db fm1)\<rparr>))"

definition ListPeerRules :: "(nat \<Rightarrow> bool) \<Rightarrow> u64 \<Rightarrow> 'r Firewallmanager \<Rightarrow> sql_error + model_PortRule list" where
  "ListPeerRules io peerID fm =
     (if \<not> io 0 then Inl DbFailure
      else Inr (map (\<lambda>row. \<lparr>mp_ID = of_int (pru_ID row), mp_TargetAddress = pru_TargetIp row, mp_Protocol = pru_Protocol row,
                            mp_PortRangeStart = of_int (pru_PortRangeStart row), mp_PortRangeEnd = pru_PortRangeEnd row\<rparr>)
                 (sql_LoadRulesByPeerID (sint peerID) (fm_db fm))))"

section \<open>What the database says\<close>

text \<open>The rules of this node that the database describes: those whose peer exists, at the address of that peer.\<close>

definition db_view :: "string \<Rightarrow> database \<Rightarrow> u64 \<Rightarrow> PortRule option" where
  "db_view node db = map_of (map (\<lambda>(r, v). (of_int (pru_ID r), (rowRule r v)\<lparr>pr_index := ownIndex node (of_int (pru_ID r))\<rparr>))
     (sql_LoadAllRules db))"

text \<open>A database in its constraints whose identifiers fit the firewall's 48-bit rule numbers.\<close>

definition db_fits :: "database \<Rightarrow> bool" where
  "db_fits db \<longleftrightarrow> db_ok db \<and> db_ruleSeq db < 2 ^ 48"

lemma LoadAllRules_iff:
  "(r, v) \<in> set (sql_LoadAllRules db) \<longleftrightarrow>
     r \<in> set (db_rules db) \<and> (\<exists>p \<in> set (db_peers db). rp_ID p = pru_PeerID r \<and> v = rp_VirtualIp p)"
  by (auto simp: sql_LoadAllRules_def joinPeer_def)

lemma rule_number:
  assumes "0 < i" and "i < (2 ^ 48 :: int)"
  shows "uint (of_int i :: u64) = i" and "of_int i < (2 ^ 48 :: u64)" and "sint (of_int i :: u64) = i"
proof -
  show u: "uint (of_int i :: u64) = i" using assms by (simp add: uint_word_of_int_eq take_bit_int_eq_self)
  show "of_int i < (2 ^ 48 :: u64)" using assms u by (simp add: word_less_def)
  show "sint (of_int i :: u64) = i" using assms by (simp add: signed_of_int signed_take_bit_int_eq_self_iff)
qed


lemma map_of_functional:
  assumes "\<And>x y. (k, x) \<in> set xs \<Longrightarrow> (k, y) \<in> set xs \<Longrightarrow> x = y"
  shows "map_of xs k = Some x \<longleftrightarrow> (k, x) \<in> set xs"
proof
  show "map_of xs k = Some x \<Longrightarrow> (k, x) \<in> set xs" by (rule map_of_SomeD)
next
  assume m: "(k, x) \<in> set xs"
  then obtain y where y: "map_of xs k = Some y" using weak_map_of_SomeI by fastforce
  from assms [OF map_of_SomeD [OF y] m] y show "map_of xs k = Some x" by simp
qed

lemma rule_ids:
  assumes "db_fits db" and "r \<in> set (db_rules db)"
  shows "0 < pru_ID r" and "pru_ID r < 2 ^ 48"
  using assms by (force simp: db_fits_def db_ok_def rules_ok_def)+

lemma rule_id_inject:
  assumes "db_fits db" and "r \<in> set (db_rules db)" and "s \<in> set (db_rules db)" and "of_int (pru_ID r) = (of_int (pru_ID s) :: u64)"
  shows "r = s"
proof -
  have "pru_ID r = uint (of_int (pru_ID r) :: u64)" by (rule rule_number(1) [OF rule_ids [OF assms(1,2)], symmetric])
  also have "\<dots> = uint (of_int (pru_ID s) :: u64)" unfolding assms(4) ..
  also have "\<dots> = pru_ID s" by (rule rule_number(1) [OF rule_ids [OF assms(1,3)]])
  finally have "pru_ID r = pru_ID s" .
  moreover have "inj_on pru_ID (set (db_rules db))" using assms(1) by (simp add: db_fits_def db_ok_def rules_ok_def distinct_map)
  ultimately show ?thesis using assms(2,3) by (auto dest: inj_onD)
qed

lemma db_view_iff:
  assumes "db_fits db"
  shows "db_view node db i = Some x \<longleftrightarrow>
    (\<exists>r \<in> set (db_rules db). \<exists>p \<in> set (db_peers db). rp_ID p = pru_PeerID r \<and> of_int (pru_ID r) = i \<and>
      x = (rowRule r (rp_VirtualIp p))\<lparr>pr_index := ownIndex node i\<rparr>)"
proof -
  let ?xs = "map (\<lambda>(r, v). (of_int (pru_ID r) :: u64, (rowRule r v)\<lparr>pr_index := ownIndex node (of_int (pru_ID r))\<rparr>)) (sql_LoadAllRules db)"
  have mem: "(i, x) \<in> set ?xs \<longleftrightarrow> (\<exists>r \<in> set (db_rules db). \<exists>p \<in> set (db_peers db). rp_ID p = pru_PeerID r \<and>
      of_int (pru_ID r) = i \<and> x = (rowRule r (rp_VirtualIp p))\<lparr>pr_index := ownIndex node i\<rparr>)" for x
    by (auto simp: image_iff Bex_def LoadAllRules_iff split_beta)
  have inj: "p = q" if "p \<in> set (db_peers db)" "q \<in> set (db_peers db)" "rp_ID p = rp_ID q" for p q
  proof -
    have "inj_on rp_ID (set (db_peers db))" using assms by (simp add: db_fits_def db_ok_def peers_ok_def distinct_map)
    with that show ?thesis by (auto dest: inj_onD)
  qed
  have "x = y" if xy: "(i, x) \<in> set ?xs" "(i, y) \<in> set ?xs" for x y
  proof -
    from xy(1) obtain r p where r: "r \<in> set (db_rules db)" "p \<in> set (db_peers db)" "rp_ID p = pru_PeerID r" "of_int (pru_ID r) = i"
      "x = (rowRule r (rp_VirtualIp p))\<lparr>pr_index := ownIndex node i\<rparr>" unfolding mem by blast
    from xy(2) obtain s q where s: "s \<in> set (db_rules db)" "q \<in> set (db_peers db)" "rp_ID q = pru_PeerID s" "of_int (pru_ID s) = i"
      "y = (rowRule s (rp_VirtualIp q))\<lparr>pr_index := ownIndex node i\<rparr>" unfolding mem by blast
    have "r = s" using rule_id_inject [OF assms r(1) s(1)] r(4) s(4) by simp
    with inj [OF r(2) s(2)] r s show ?thesis by simp
  qed
  then have "map_of ?xs i = Some x \<longleftrightarrow> (i, x) \<in> set ?xs" by (rule map_of_functional)
  then show ?thesis unfolding db_view_def mem .
qed


section \<open>What the manager relies on\<close>

text \<open>\<open>view r i\<close> is the rule of this node with the number \<open>i\<close>; the firewall keeps its word for numbers below 2^48.\<close>

locale own_rules =
  fixes F :: "'r fw_port"
    and me :: string
    and inv :: "'r \<Rightarrow> bool"
    and view :: "'r \<Rightarrow> u64 \<Rightarrow> PortRule option"
  assumes add_law: "inv r \<Longrightarrow> i < 2 ^ 48 \<Longrightarrow> \<exists>ok r'. fp_AddRule F (ownIndex me i) rule r = Some (ok, r') \<and> inv r' \<and>
      (\<forall>k < 2 ^ 48. view r' k = (if k = i \<and> view r i = None then Some (rule\<lparr>pr_index := ownIndex me i\<rparr>) else view r k))"
    and remove_law: "inv r \<Longrightarrow> i < 2 ^ 48 \<Longrightarrow> \<exists>ok r'. fp_RemoveRule F (ownIndex me i) r = Some (ok, r') \<and> inv r' \<and>
      (\<forall>k < 2 ^ 48. view r' k = (if k = i then None else view r k))"
begin

lemma addRows_law:
  assumes "inv r" and "\<forall>(row, v) \<in> set rows. 0 < pru_ID row \<and> pru_ID row < 2 ^ 48"
  shows "\<exists>r'. addRows F me rows r = Some r' \<and> inv r' \<and>
    (\<forall>k < 2 ^ 48. view r' k = (case view r k of Some x \<Rightarrow> Some x | None \<Rightarrow>
      map_of (map (\<lambda>(row, v). (of_int (pru_ID row), (rowRule row v)\<lparr>pr_index := ownIndex me (of_int (pru_ID row))\<rparr>)) rows) k))"
  using assms
proof (induction rows arbitrary: r)
  case Nil
  then show ?case by (auto split: option.split)
next
  case (Cons rv rows)
  obtain row v where rv: "rv = (row, v)" by fastforce
  let ?i = "of_int (pru_ID row) :: u64"
  have "?i < 2 ^ 48" using Cons.prems(2) rule_number(2) [of "pru_ID row"] by (simp add: rv)
  from add_law [OF Cons.prems(1) this, of "rowRule row v"] obtain ok r1 where
    r1: "fp_AddRule F (ownIndex me ?i) (rowRule row v) r = Some (ok, r1)" "inv r1"
    "\<forall>k < 2 ^ 48. view r1 k = (if k = ?i \<and> view r ?i = None then Some ((rowRule row v)\<lparr>pr_index := ownIndex me ?i\<rparr>) else view r k)"
    by blast
  from Cons.IH [OF r1(2)] Cons.prems(2) obtain r2 where r2: "addRows F me rows r1 = Some r2" "inv r2"
    "\<forall>k < 2 ^ 48. view r2 k = (case view r1 k of Some x \<Rightarrow> Some x | None \<Rightarrow>
      map_of (map (\<lambda>(row, v). (of_int (pru_ID row), (rowRule row v)\<lparr>pr_index := ownIndex me (of_int (pru_ID row))\<rparr>)) rows) k)"
    by auto
  show ?case
    by (intro exI [of _ r2] conjI) (use r1 r2 in \<open>auto simp: rv split: option.splits\<close>)
qed

lemma removeRows_law:
  assumes "inv r" and "\<forall>row \<in> set rows. 0 < pru_ID row \<and> pru_ID row < 2 ^ 48"
  shows "\<exists>r'. removeRows F me rows r = Some r' \<and> inv r' \<and>
    (\<forall>k < 2 ^ 48. view r' k = (if k \<in> (\<lambda>row. of_int (pru_ID row)) ` set rows then None else view r k))"
  using assms
proof (induction rows arbitrary: r)
  case Nil
  then show ?case by simp
next
  case (Cons row rows)
  let ?i = "of_int (pru_ID row) :: u64"
  have "?i < 2 ^ 48" using Cons.prems(2) rule_number(2) [of "pru_ID row"] by simp
  from remove_law [OF Cons.prems(1) this] obtain ok r1 where
    r1: "fp_RemoveRule F (ownIndex me ?i) r = Some (ok, r1)" "inv r1" "\<forall>k < 2 ^ 48. view r1 k = (if k = ?i then None else view r k)"
    by blast
  from Cons.IH [OF r1(2)] Cons.prems(2) obtain r2 where r2: "removeRows F me rows r1 = Some r2" "inv r2"
    "\<forall>k < 2 ^ 48. view r2 k = (if k \<in> (\<lambda>row. of_int (pru_ID row)) ` set rows then None else view r1 k)"
    by auto
  show ?case
    by (intro exI [of _ r2] conjI) (use r1 r2 in \<open>auto\<close>)
qed

end


section \<open>How the queries change what the database says\<close>

lemma GetPeerByID_iff:
  assumes "db_ok db"
  shows "sql_GetPeerByID i db = Inr p \<longleftrightarrow> p \<in> set (db_peers db) \<and> rp_ID p = i"
proof -
  have inj: "inj_on rp_ID (set (db_peers db))" using assms by (simp add: db_ok_def peers_ok_def distinct_map)
  show ?thesis
  proof (cases "List.find (\<lambda>p. rp_ID p = i) (db_peers db)")
    case None
    then have "\<forall>p \<in> set (db_peers db). rp_ID p \<noteq> i" by (simp add: find_None_iff)
    with None show ?thesis by (auto simp: sql_GetPeerByID_def)
  next
    case (Some q)
    then have q: "q \<in> set (db_peers db)" "rp_ID q = i" by (auto simp: find_Some_iff)
    with Some inj show ?thesis by (auto simp: sql_GetPeerByID_def dest: inj_onD)
  qed
qed

lemma option_eqI: "(\<And>x. a = Some x \<longleftrightarrow> b = Some x) \<Longrightarrow> a = b"
  by (cases a; cases b) auto

lemma db_fits_keep_rules: "db_fits db \<Longrightarrow> db_ok db' \<Longrightarrow> db_ruleSeq db' = db_ruleSeq db \<Longrightarrow> db_fits db'"
  by (simp add: db_fits_def)

lemma db_view_DeleteRule:
  assumes "db_fits db"
  shows "db_fits (sql_DeletePeerRule (sint i) db)"
    and "db_view node (sql_DeletePeerRule (sint i) db) k = (if k = i then None else db_view node db k)"
proof -
  have id: "pru_ID r = sint i \<longleftrightarrow> of_int (pru_ID r) = i" if "r \<in> set (db_rules db)" for r
  proof
    show "pru_ID r = sint i \<Longrightarrow> of_int (pru_ID r) = i" by simp
    show "of_int (pru_ID r) = i \<Longrightarrow> pru_ID r = sint i" using rule_number(3) [OF rule_ids [OF assms that]] by auto
  qed
  have "db_ok (sql_DeletePeerRule (sint i) db)" using assms db_ok_DeletePeerRule by (simp add: db_fits_def)
  from db_fits_keep_rules [OF assms this] show f: "db_fits (sql_DeletePeerRule (sint i) db)" by (simp add: sql_DeletePeerRule_def)
  show "db_view node (sql_DeletePeerRule (sint i) db) k = (if k = i then None else db_view node db k)"
  proof (intro option_eqI)
    fix x
    have rows: "set (db_rules (sql_DeletePeerRule (sint i) db)) = {r \<in> set (db_rules db). pru_ID r \<noteq> sint i}"
      "db_peers (sql_DeletePeerRule (sint i) db) = db_peers db" by (auto simp: sql_DeletePeerRule_def)
    show "db_view node (sql_DeletePeerRule (sint i) db) k = Some x \<longleftrightarrow> (if k = i then None else db_view node db k) = Some x"
    proof (cases "k = i")
      case True
      then show ?thesis unfolding db_view_iff [OF f] rows using id by auto
    next
      case False
      then show ?thesis unfolding if_not_P [OF False] db_view_iff [OF f] db_view_iff [OF assms] rows using id by auto
    qed
  qed
qed

lemma db_view_DeleteAll:
  assumes "db_fits db"
  shows "db_fits (sql_DeleteAllPeerRules j db)"
    and "db_view node (sql_DeleteAllPeerRules j db) k =
      (if k \<in> (\<lambda>r. of_int (pru_ID r)) ` set (sql_LoadRulesByPeerID j db) then None else db_view node db k)"
proof -
  have "db_ok (sql_DeleteAllPeerRules j db)" using assms db_ok_DeleteAllPeerRules by (simp add: db_fits_def)
  from db_fits_keep_rules [OF assms this] show f: "db_fits (sql_DeleteAllPeerRules j db)" by (simp add: sql_DeleteAllPeerRules_def)
  have m: "k \<in> (\<lambda>r. of_int (pru_ID r)) ` set (sql_LoadRulesByPeerID j db) \<longleftrightarrow>
      (\<exists>r \<in> set (db_rules db). pru_PeerID r = j \<and> of_int (pru_ID r) = k)" by (auto simp: sql_LoadRulesByPeerID_def)
  have rows: "set (db_rules (sql_DeleteAllPeerRules j db)) = {r \<in> set (db_rules db). pru_PeerID r \<noteq> j}"
    "db_peers (sql_DeleteAllPeerRules j db) = db_peers db" by (auto simp: sql_DeleteAllPeerRules_def)
  show "db_view node (sql_DeleteAllPeerRules j db) k =
      (if k \<in> (\<lambda>r. of_int (pru_ID r)) ` set (sql_LoadRulesByPeerID j db) then None else db_view node db k)"
  proof (intro option_eqI)
    fix x
    show "db_view node (sql_DeleteAllPeerRules j db) k = Some x \<longleftrightarrow>
      (if k \<in> (\<lambda>r. of_int (pru_ID r)) ` set (sql_LoadRulesByPeerID j db) then None else db_view node db k) = Some x"
    proof (cases "\<exists>r \<in> set (db_rules db). pru_PeerID r = j \<and> of_int (pru_ID r) = k")
      case True
      then obtain s where s: "s \<in> set (db_rules db)" "pru_PeerID s = j" "of_int (pru_ID s) = k" by blast
      then have "r = s" if "r \<in> set (db_rules db)" "of_int (pru_ID r) = k" for r using rule_id_inject [OF assms that(1) s(1)] that(2) s(3) by simp
      with s(2) True show ?thesis unfolding m if_P [OF True] db_view_iff [OF f] rows by blast
    next
      case False
      then show ?thesis unfolding m if_not_P [OF False] db_view_iff [OF f] db_view_iff [OF assms] rows by blast
    qed
  qed
qed

lemma db_view_Insert:
  assumes "db_fits db" and "db_ruleSeq db + 1 < 2 ^ 48" and "sql_InsertPeerRule arg db = (Inr i, db')"
  shows "db_fits db'" and "0 < i" and "i < 2 ^ 48" and "db_peers db' = db_peers db"
    and "db_view node db (of_int i) = None"
    and "k \<noteq> of_int i \<Longrightarrow> db_view node db' k = db_view node db k"
    and "db_view node db' (of_int i) = Some x \<longleftrightarrow> (\<exists>p \<in> set (db_peers db). rp_ID p = ir_PeerID arg \<and>
      x = \<lparr>pr_index = ownIndex node (of_int i), pr_Address = of_int (rp_VirtualIp p), pr_TargetAddress = ir_TargetIp arg,
           pr_Protocol = ir_Protocol arg, pr_PortRangeStart = of_int (ir_PortRangeStart arg), pr_PortRangeEnd = ir_PortRangeEnd arg\<rparr>)"
proof -
  let ?row = "\<lparr>pru_ID = db_ruleSeq db + 1, pru_PeerID = ir_PeerID arg, pru_TargetIp = ir_TargetIp arg,
     pru_Protocol = ir_Protocol arg, pru_PortRangeStart = ir_PortRangeStart arg, pru_PortRangeEnd = ir_PortRangeEnd arg\<rparr>"
  from assms(3) have i: "i = db_ruleSeq db + 1" and db': "db' = db\<lparr>db_rules := db_rules db @ [?row], db_ruleSeq := i\<rparr>"
    by (auto simp: sql_InsertPeerRule_def Let_def split: if_splits)
  have ok': "db_ok db'" using db_ok_InsertPeerRule [OF _ assms(3)] assms(1) by (simp add: db_fits_def)
  with assms(2) i db' show f: "db_fits db'" by (simp add: db_fits_def)
  show pos: "0 < i" "i < 2 ^ 48" using assms(1,2) i by (simp_all add: db_fits_def db_ok_def rules_ok_def)
  show "db_peers db' = db_peers db" using db' by simp
  have rows: "set (db_rules db') = insert ?row (set (db_rules db))" "db_peers db' = db_peers db" using db' by auto
  then have row: "?row \<in> set (db_rules db')" by simp
  have new: "of_int (pru_ID r) \<noteq> (of_int i :: u64)" if "r \<in> set (db_rules db)" for r
  proof
    assume "of_int (pru_ID r) = (of_int i :: u64)"
    then have "r = ?row" using rule_id_inject [OF f _ row, of r] that db' i by simp
    with that assms(1) i show False by (auto simp: db_fits_def db_ok_def rules_ok_def)
  qed
  then show "db_view node db (of_int i) = None" using db_view_iff [OF assms(1), of node "of_int i"] by (metis option.exhaust)
  show "k \<noteq> of_int i \<Longrightarrow> db_view node db' k = db_view node db k"
    by (rule option_eqI, unfold db_view_iff [OF f] db_view_iff [OF assms(1)] rows) (auto simp: i)
  show "db_view node db' (of_int i) = Some x \<longleftrightarrow> (\<exists>p \<in> set (db_peers db). rp_ID p = ir_PeerID arg \<and>
      x = \<lparr>pr_index = ownIndex node (of_int i), pr_Address = of_int (rp_VirtualIp p), pr_TargetAddress = ir_TargetIp arg,
           pr_Protocol = ir_Protocol arg, pr_PortRangeStart = of_int (ir_PortRangeStart arg), pr_PortRangeEnd = ir_PortRangeEnd arg\<rparr>)"
    unfolding db_view_iff [OF f] rows using new by (auto simp: i rowRule_def)
qed


section \<open>The manager keeps firewall and database together\<close>

text \<open>The firewall opens no port of this node that the database does not describe; both say the same.\<close>

definition opens_within :: "(u64 \<Rightarrow> PortRule option) \<Rightarrow> (u64 \<Rightarrow> PortRule option) \<Rightarrow> bool" where
  "opens_within v d \<longleftrightarrow> (\<forall>k < 2 ^ 48. \<forall>x. v k = Some x \<longrightarrow> d k = Some x)"

definition agree :: "(u64 \<Rightarrow> PortRule option) \<Rightarrow> (u64 \<Rightarrow> PortRule option) \<Rightarrow> bool" where
  "agree v d \<longleftrightarrow> (\<forall>k < 2 ^ 48. v k = d k)"

definition fm_good :: "('r \<Rightarrow> bool) \<Rightarrow> string \<Rightarrow> 'r Firewallmanager \<Rightarrow> bool" where
  "fm_good iv me fm \<longleftrightarrow> iv (fm_firewall fm) \<and> db_fits (fm_db fm) \<and> fm_nodeID fm = me"

context own_rules
begin

abbreviation "fw_view fm \<equiv> view (fm_firewall fm)"

abbreviation "db_rules_view fm \<equiv> db_view me (fm_db fm)"

lemma fm_Run_law:
  assumes "fm_good inv me fm" and "io 0" and "\<forall>k < 2 ^ 48. fw_view fm k = None"
  shows "\<exists>fm'. fm_Run F io fm = Some (Inr (), fm') \<and> fm_good inv me fm' \<and> agree (fw_view fm') (db_rules_view fm') \<and> fm_db fm' = fm_db fm"
proof -
  from assms(1) have g: "inv (fm_firewall fm)" "db_fits (fm_db fm)" "fm_nodeID fm = me" by (simp_all add: fm_good_def)
  have "\<forall>(row, v) \<in> set (sql_LoadAllRules (fm_db fm)). 0 < pru_ID row \<and> pru_ID row < 2 ^ 48"
    using rule_ids [OF g(2)] by (auto simp: LoadAllRules_iff)
  from addRows_law [OF g(1) this] obtain r where
    r: "addRows F me (sql_LoadAllRules (fm_db fm)) (fm_firewall fm) = Some r" "inv r"
    "\<forall>k < 2 ^ 48. view r k = (case fw_view fm k of Some x \<Rightarrow> Some x | None \<Rightarrow> db_view me (fm_db fm) k)"
    unfolding db_view_def by blast
  with assms(2,3) g show ?thesis by (auto simp: fm_Run_def fm_good_def agree_def)
qed

lemma fm_AddRule_law:
  assumes "fm_good inv me fm" and "db_ruleSeq (fm_db fm) + 1 < 2 ^ 48" and "opens_within (fw_view fm) (db_rules_view fm)"
  shows "\<exists>res fm'. fm_AddRule F io peerID rule fm = Some (res, fm') \<and> fm_good inv me fm' \<and> opens_within (fw_view fm') (db_rules_view fm') \<and>
    (agree (fw_view fm) (db_rules_view fm) \<and> (\<exists>x. res = Inr x) \<longrightarrow> agree (fw_view fm') (db_rules_view fm'))"
proof -
  from assms(1) have g: "inv (fm_firewall fm)" "db_fits (fm_db fm)" "fm_nodeID fm = me" by (simp_all add: fm_good_def)
  let ?arg = "\<lparr>ir_PeerID = sint peerID, ir_TargetIp = mp_TargetAddress rule, ir_Protocol = mp_Protocol rule,
      ir_PortRangeStart = uint (mp_PortRangeStart rule), ir_PortRangeEnd = mp_PortRangeEnd rule\<rparr>"
  obtain ins db where ins: "sql_InsertPeerRule ?arg (fm_db fm) = (ins, db)" by fastforce
  show ?thesis
  proof (cases "io 0")
    case False
    then show ?thesis using assms by (simp add: fm_AddRule_def)
  next
    case io0: True
    show ?thesis
    proof (cases ins)
      case (Inl e)
      with ins have "db = fm_db fm" by (auto simp: sql_InsertPeerRule_def Let_def split: if_splits)
      with Inl io0 ins assms show ?thesis by (simp add: fm_AddRule_def)
    next
      case (Inr i)
      note d0 = db_view_Insert(1-4) [OF g(2) assms(2) ins [unfolded Inr]] and d1 = db_view_Insert(5-7) [OF g(2) assms(2) ins [unfolded Inr], where node = me]
      note d = d0 d1
      have n: "of_int i < (2 ^ 48 :: u64)" by (rule rule_number(2) [OF d(2,3)])
      have sub: "db_view me db k = Some x" if "db_view me (fm_db fm) k = Some x" for k x
        using that d(5,6) by (cases "k = of_int i") auto
      have none: "view (fm_firewall fm) (of_int i) = None" using assms(3) n d(5) by (fastforce simp: opens_within_def)
      have w1: "opens_within (fw_view fm) (db_view me db)" using assms(3) sub by (auto simp: opens_within_def)
      show ?thesis
      proof (cases "io 1 \<and> (\<exists>p. sql_GetPeerByID (sint peerID) db = Inr p)")
        case False
        with io0 ins Inr g w1 d(1) show ?thesis by (auto simp: fm_AddRule_def Let_def fm_good_def split: sum.splits)
      next
        case True
        then obtain p where p: "sql_GetPeerByID (sint peerID) db = Inr p" and io1: "io 1" by blast
        let ?rule = "\<lparr>pr_index = \<lparr>pri_NodeID = '''', pri_RuleID = 0\<rparr>, pr_Address = of_int (rp_VirtualIp p),
            pr_TargetAddress = mp_TargetAddress rule, pr_Protocol = mp_Protocol rule,
            pr_PortRangeStart = mp_PortRangeStart rule, pr_PortRangeEnd = mp_PortRangeEnd rule\<rparr>"
        from p GetPeerByID_iff [of db "sint peerID" p] d(1,4) have pp: "p \<in> set (db_peers (fm_db fm))" "rp_ID p = sint peerID"
          by (simp_all add: db_fits_def)
        have new: "db_view me db (of_int i) = Some (?rule\<lparr>pr_index := ownIndex me (of_int i)\<rparr>)"
          unfolding d(7) using pp by (intro bexI [of _ p]) simp_all
        from add_law [OF g(1) n, of ?rule] none obtain ok r' where
          r': "fp_AddRule F (ownIndex me (of_int i)) ?rule (fm_firewall fm) = Some (ok, r')" "inv r'"
          "\<forall>k < 2 ^ 48. view r' k = (if k = of_int i then Some (?rule\<lparr>pr_index := ownIndex me (of_int i)\<rparr>) else view (fm_firewall fm) k)"
          by auto
        have res: "fm_AddRule F io peerID rule fm =
            Some (Inr (rule\<lparr>mp_ID := of_int i\<rparr>), fm\<lparr>fm_db := db, fm_firewall := r'\<rparr>)"
          using io0 io1 ins Inr p r'(1) g(3) by (simp add: fm_AddRule_def Let_def)
        have "opens_within (view r') (db_view me db)" using r'(3) w1 new by (auto simp: opens_within_def)
        moreover have "agree (view r') (db_view me db)" if "agree (fw_view fm) (db_rules_view fm)"
          using r'(3) new that d(6) by (auto simp: agree_def)
        ultimately show ?thesis using res r'(2) d(1) g(3) by (simp add: fm_good_def)
      qed
    qed
  qed
qed

lemma fm_RemoveRule_law:
  assumes "fm_good inv me fm" and "i < 2 ^ 48" and "opens_within (fw_view fm) (db_rules_view fm)"
  shows "\<exists>res fm'. fm_RemoveRule F io i fm = Some (res, fm') \<and> fm_good inv me fm' \<and> opens_within (fw_view fm') (db_rules_view fm') \<and>
    (agree (fw_view fm) (db_rules_view fm) \<longrightarrow> agree (fw_view fm') (db_rules_view fm')) \<and>
    (res = Inr () \<longrightarrow> fw_view fm' i = None \<and> db_rules_view fm' i = None)"
proof (cases "io 0")
  case False
  then show ?thesis using assms by (simp add: fm_RemoveRule_def)
next
  case True
  from assms(1) have g: "inv (fm_firewall fm)" "db_fits (fm_db fm)" "fm_nodeID fm = me" by (simp_all add: fm_good_def)
  note d = db_view_DeleteRule(1) [OF g(2), of i] db_view_DeleteRule(2) [OF g(2), of me i]
  from remove_law [OF g(1) assms(2)] obtain ok r' where r': "fp_RemoveRule F (ownIndex me i) (fm_firewall fm) = Some (ok, r')" "inv r'"
    "\<forall>k < 2 ^ 48. view r' k = (if k = i then None else view (fm_firewall fm) k)" by blast
  let ?db = "sql_DeletePeerRule (sint i) (fm_db fm)"
  have res: "fm_RemoveRule F io i fm = Some (Inr (), fm\<lparr>fm_db := ?db, fm_firewall := r'\<rparr>)"
    using True r'(1) g(3) by (simp add: fm_RemoveRule_def)
  have "opens_within (view r') (db_view me ?db)" using r'(3) assms(3) by (simp add: opens_within_def d(2))
  moreover have "agree (view r') (db_view me ?db)" if "agree (fw_view fm) (db_rules_view fm)"
    using r'(3) that by (simp add: agree_def d(2))
  ultimately show ?thesis using res r'(2,3) d g(3) assms(2) by (simp add: fm_good_def)
qed

lemma RemoveAllPeerRules_law:
  assumes "fm_good inv me fm" and "opens_within (fw_view fm) (db_rules_view fm)"
  shows "\<exists>res fm'. RemoveAllPeerRules F io peerID fm = Some (res, fm') \<and> fm_good inv me fm' \<and> opens_within (fw_view fm') (db_rules_view fm') \<and>
    (agree (fw_view fm) (db_rules_view fm) \<and> res = Inr () \<longrightarrow> agree (fw_view fm') (db_rules_view fm')) \<and>
    (res = Inr () \<longrightarrow> (\<forall>r \<in> set (db_rules (fm_db fm')). pru_PeerID r \<noteq> sint peerID)) \<and>
    db_peers (fm_db fm') = db_peers (fm_db fm) \<and> db_peerSeq (fm_db fm') = db_peerSeq (fm_db fm) \<and> db_fk (fm_db fm') = db_fk (fm_db fm)"
proof (cases "io 0")
  case False
  then show ?thesis using assms by (simp add: RemoveAllPeerRules_def)
next
  case True
  from assms(1) have g: "inv (fm_firewall fm)" "db_fits (fm_db fm)" "fm_nodeID fm = me" by (simp_all add: fm_good_def)
  let ?rows = "sql_LoadRulesByPeerID (sint peerID) (fm_db fm)"
  note d = db_view_DeleteAll(1) [OF g(2), of "sint peerID"] db_view_DeleteAll(2) [OF g(2), of me "sint peerID"]
  have "\<forall>row \<in> set ?rows. 0 < pru_ID row \<and> pru_ID row < 2 ^ 48" using rule_ids [OF g(2)] by (auto simp: sql_LoadRulesByPeerID_def)
  from removeRows_law [OF g(1) this] obtain r' where r': "removeRows F me ?rows (fm_firewall fm) = Some r'" "inv r'"
    "\<forall>k < 2 ^ 48. view r' k = (if k \<in> (\<lambda>row. of_int (pru_ID row)) ` set ?rows then None else view (fm_firewall fm) k)" by blast
  have w: "opens_within (view r') (db_rules_view fm)" using r'(3) assms(2) by (simp add: opens_within_def)
  show ?thesis
  proof (cases "io 1")
    case False
    with True w g r' show ?thesis by (simp add: RemoveAllPeerRules_def fm_good_def)
  next
    case io1: True
    let ?db = "sql_DeleteAllPeerRules (sint peerID) (fm_db fm)"
    have res: "RemoveAllPeerRules F io peerID fm = Some (Inr (), fm\<lparr>fm_firewall := r', fm_db := ?db\<rparr>)"
      using True io1 r'(1) g(3) by (simp add: RemoveAllPeerRules_def)
    have "opens_within (view r') (db_view me ?db)" using r'(3) assms(2) by (auto simp: opens_within_def d(2))
    moreover have "agree (view r') (db_view me ?db)" if "agree (fw_view fm) (db_rules_view fm)"
      using r'(3) that by (auto simp: agree_def d(2))
    ultimately show ?thesis using res r'(2) d(1) g(3) by (simp add: fm_good_def, simp add: sql_DeleteAllPeerRules_def)
  qed
qed

end


section \<open>The router provides it\<close>

definition router_port :: "('l, 'n) Router fw_port" where
  "router_port = \<lparr>fp_AddRule = router_AddRule, fp_RemoveRule = router_RemoveRule\<rparr>"

definition own_inv :: "string set \<Rightarrow> string \<Rightarrow> ('l, 'n) Router \<Rightarrow> bool" where
  "own_inv U me r \<longleftrightarrow> rules_inv U r \<and> bus_ok (firewallsubs r) \<and> me \<in> U \<and> me \<noteq> ''''"

definition own_view :: "string \<Rightarrow> ('l, 'n) Router \<Rightarrow> u64 \<Rightarrow> PortRule option" where
  "own_view me r i = rules_view r (ownIndex me i)"

lemma notify_keeps:
  assumes "bus_ok (firewallsubs r)"
  shows "\<exists>b. notifyFirewallEvent ev r = Some (r\<lparr>firewallsubs := b\<rparr>) \<and> bus_ok b"
  using bus_notify_spec [OF assms, of ev] by (auto simp: notifyFirewallEvent_def)

lemma rules_subs: "rules_inv U (r\<lparr>firewallsubs := b\<rparr>) = rules_inv U r" "rules_view (r\<lparr>firewallsubs := b\<rparr>) = rules_view r"
  by (simp_all add: rules_inv_def rules_view_def)

interpretation router_own: own_rules router_port me "own_inv U me" "own_view me" for U me
proof
  fix r :: "('a, 'b) Router" and i and rule
  assume inv: "own_inv U me r" and i: "i < (2 ^ 48 :: u64)"
  then have o: "rules_inv U r" "rules_okidx U (ownIndex me i)" "bus_ok (firewallsubs r)" "pri_NodeID (ownIndex me i) \<noteq> ''''"
    by (simp_all add: own_inv_def rules_okidx_def ownIndex_def)
  have ok: "rules_okidx U (ownIndex me k)" if "k < 2 ^ 48" for k
    using inv that by (simp add: own_inv_def rules_okidx_def ownIndex_def)
  have inj: "ownIndex me k = ownIndex me i \<longleftrightarrow> k = i" for k by (simp add: ownIndex_def)
  obtain b r1 where a: "AddRemoteRule (ownIndex me i) rule r = (b, r1)" by fastforce
  note la = router_rules.add_law [OF o(1,2), of rule b r1, simplified the_router_def sync_Router.simps, OF a]
  have s1: "bus_ok (firewallsubs r1)" using a o(3) by (auto simp: AddRemoteRule_def split: prod.splits)
  have "router_AddRule (ownIndex me i) rule r = (if b then map_option (Pair True) (notifyFirewallEvent (addedEvent (ownIndex me i) rule) r1) else Some (False, r1))"
    using a by (auto simp: router_AddRule_def AddRemoteRule_def Let_def split: prod.splits)
  with notify_keeps [OF s1] la s1 inv obtain r' where r': "router_AddRule (ownIndex me i) rule r = Some (b, r')" "own_inv U me r'" "rules_view r' = rules_view r1"
    by (cases b) (fastforce simp: own_inv_def rules_subs)+
  show "\<exists>ok r'. fp_AddRule router_port (ownIndex me i) rule r = Some (ok, r') \<and> own_inv U me r' \<and>
      (\<forall>k < 2 ^ 48. own_view me r' k = (if k = i \<and> own_view me r i = None then Some (rule\<lparr>pr_index := ownIndex me i\<rparr>) else own_view me r k))"
    using r' la ok inj o(4) by (intro exI [of _ b] exI [of _ r']) (auto simp: router_port_def own_view_def)
  obtain c r2 where c: "RemoveRemoteRule (ownIndex me i) r = (c, r2)" by fastforce
  note lr = router_rules.remove_law [OF o(1,2), of c r2, simplified the_router_def sync_Router.simps, OF c]
  have s2: "bus_ok (firewallsubs r2)" using c o(3) by (auto simp: RemoveRemoteRule_def split: prod.splits)
  have "router_RemoveRule (ownIndex me i) r = (if c then map_option (Pair True) (notifyFirewallEvent (removedEvent (ownIndex me i)) r2) else Some (False, r2))"
    using c by (auto simp: router_RemoveRule_def RemoveRemoteRule_def Let_def split: prod.splits)
  with notify_keeps [OF s2] lr s2 inv obtain r'' where r'': "router_RemoveRule (ownIndex me i) r = Some (c, r'')" "own_inv U me r''" "rules_view r'' = rules_view r2"
    by (cases c) (fastforce simp: own_inv_def rules_subs)+
  show "\<exists>ok r'. fp_RemoveRule router_port (ownIndex me i) r = Some (ok, r') \<and> own_inv U me r' \<and>
      (\<forall>k < 2 ^ 48. own_view me r' k = (if k = i then None else own_view me r k))"
    using r'' lr ok inj by (intro exI [of _ c] exI [of _ r'']) (auto simp: router_port_def own_view_def)
qed


section \<open>Histories of the manager\<close>

datatype fm_op = OpAdd u64 model_PortRule | OpRemove u64 | OpRemoveAll u64

text \<open>One request, with the connection's behaviour during it: whether it succeeded, and the new state.\<close>

fun fm_step :: "'r fw_port \<Rightarrow> (nat \<Rightarrow> bool) \<times> fm_op \<Rightarrow> 'r Firewallmanager \<Rightarrow> (bool \<times> 'r Firewallmanager) option" where
  "fm_step F (io, OpAdd p rule) fm = map_option (\<lambda>(res, fm'). (\<not> isl res, fm')) (fm_AddRule F io p rule fm)"
| "fm_step F (io, OpRemove i) fm = map_option (\<lambda>(res, fm'). (\<not> isl res, fm')) (fm_RemoveRule F io i fm)"
| "fm_step F (io, OpRemoveAll p) fm = map_option (\<lambda>(res, fm'). (\<not> isl res, fm')) (RemoveAllPeerRules F io p fm)"

fun fm_ops :: "'r fw_port \<Rightarrow> ((nat \<Rightarrow> bool) \<times> fm_op) list \<Rightarrow> 'r Firewallmanager \<Rightarrow> (bool list \<times> 'r Firewallmanager) option" where
  "fm_ops F [] fm = Some ([], fm)"
| "fm_ops F (x # xs) fm =
     (case fm_step F x fm of
        None \<Rightarrow> None
      | Some (ok, fm1) \<Rightarrow> map_option (\<lambda>(oks, fm2). (ok # oks, fm2)) (fm_ops F xs fm1))"

definition small_op :: "(nat \<Rightarrow> bool) \<times> fm_op \<Rightarrow> bool" where
  "small_op x \<longleftrightarrow> (case snd x of OpRemove i \<Rightarrow> i < 2 ^ 48 | _ \<Rightarrow> True)"

lemma fm_step_seq:
  assumes "fm_step F x fm = Some (ok, fm')"
  shows "db_ruleSeq (fm_db fm') \<le> db_ruleSeq (fm_db fm) + 1"
proof -
  obtain io op where x: "x = (io, op)" by fastforce
  show ?thesis
  proof (cases op)
    case (OpAdd p rule)
    with assms x show ?thesis
      by (auto simp: fm_AddRule_def sql_InsertPeerRule_def Let_def split: if_splits sum.splits)
  next
    case (OpRemove i)
    with assms x show ?thesis by (auto simp: fm_RemoveRule_def sql_DeletePeerRule_def split: if_splits)
  next
    case (OpRemoveAll p)
    with assms x show ?thesis
      by (auto simp: RemoveAllPeerRules_def sql_DeleteAllPeerRules_def Let_def split: if_splits option.splits)
  qed
qed

context own_rules
begin

lemma fm_step_law:
  assumes "fm_good inv me fm" and "opens_within (fw_view fm) (db_rules_view fm)" and "db_ruleSeq (fm_db fm) + 1 < 2 ^ 48" and "small_op x"
  shows "\<exists>ok fm'. fm_step F x fm = Some (ok, fm') \<and> fm_good inv me fm' \<and> opens_within (fw_view fm') (db_rules_view fm') \<and>
    (agree (fw_view fm) (db_rules_view fm) \<and> ok \<longrightarrow> agree (fw_view fm') (db_rules_view fm'))"
proof -
  obtain io op where x: "x = (io, op)" by fastforce
  have isl: "\<not> isl res \<longleftrightarrow> (\<exists>y. res = Inr y)" for res :: "sql_error + 'x" by (cases res) auto
  show ?thesis
  proof (cases op)
    case (OpAdd p rule)
    from fm_AddRule_law [OF assms(1,3,2), of io p rule] show ?thesis by (auto simp: x OpAdd isl)
  next
    case (OpRemove i)
    with assms(4) x have "i < 2 ^ 48" by (simp add: small_op_def)
    from fm_RemoveRule_law [OF assms(1) this assms(2), of io] show ?thesis by (auto simp: x OpRemove)
  next
    case (OpRemoveAll p)
    from RemoveAllPeerRules_law [OF assms(1,2), of io p] show ?thesis by (auto simp: x OpRemoveAll isl)
  qed
qed

lemma fm_ops_law:
  assumes "fm_good inv me fm" and "opens_within (fw_view fm) (db_rules_view fm)" and "db_ruleSeq (fm_db fm) + int (length xs) < 2 ^ 48"
    and "list_all small_op xs"
  shows "\<exists>oks fm'. fm_ops F xs fm = Some (oks, fm') \<and> fm_good inv me fm' \<and> opens_within (fw_view fm') (db_rules_view fm') \<and>
    (agree (fw_view fm) (db_rules_view fm) \<and> list_all id oks \<longrightarrow> agree (fw_view fm') (db_rules_view fm'))"
  using assms
proof (induction xs arbitrary: fm)
  case Nil
  then show ?case by simp
next
  case (Cons x xs)
  have "db_ruleSeq (fm_db fm) + 1 < 2 ^ 48" "small_op x" using Cons.prems(3,4) by simp_all
  from fm_step_law [OF Cons.prems(1,2) this] obtain ok fm1 where s: "fm_step F x fm = Some (ok, fm1)" "fm_good inv me fm1"
    "opens_within (fw_view fm1) (db_rules_view fm1)"
    "agree (fw_view fm) (db_rules_view fm) \<and> ok \<longrightarrow> agree (fw_view fm1) (db_rules_view fm1)" by blast
  have "db_ruleSeq (fm_db fm1) + int (length xs) < 2 ^ 48" using fm_step_seq [OF s(1)] Cons.prems(3) by simp
  moreover have "list_all small_op xs" using Cons.prems(4) by simp
  ultimately obtain oks fm2 where f:
    "fm_ops F xs fm1 = Some (oks, fm2)" "fm_good inv me fm2" "opens_within (fw_view fm2) (db_rules_view fm2)"
    "agree (fw_view fm1) (db_rules_view fm1) \<and> list_all id oks \<longrightarrow> agree (fw_view fm2) (db_rules_view fm2)"
    using Cons.IH [OF s(2,3)] by blast
  have "fm_ops F (x # xs) fm = Some (ok # oks, fm2)" using s(1) f(1) by simp
  moreover have "agree (fw_view fm2) (db_rules_view fm2)" if "agree (fw_view fm) (db_rules_view fm)" "list_all id (ok # oks)"
    using that s(4) f(4) by simp
  ultimately show ?case using f(2,3) by blast
qed

end

section \<open>Properties of the manager\<close>

text \<open>C7: the firewall mirrors the database and fails closed. Start the manager on a firewall without rules of this node and
  let it serve any sequence of requests, with database failures at any point of any of them (fewer than 2^48 rules
  are ever created, and removals name numbers below 2^48): it never panics; every rule of this node in the firewall
  is described by the database, field by field and at the address of its peer; and if no request failed, the firewall
  has exactly the rules of the database.\<close>

theorem firewall_mirrors_database:
  fixes fm :: "('l, 'n) Router Firewallmanager"
  assumes "own_inv U me (fm_firewall fm)" and "db_fits (fm_db fm)" and "fm_nodeID fm = me"
    and "\<forall>k < 2 ^ 48. own_view me (fm_firewall fm) k = None"
    and "db_ruleSeq (fm_db fm) + int (length ops) < 2 ^ 48" and "list_all small_op ops"
  shows "\<exists>fm1 oks fm2. fm_Run router_port (\<lambda>_. True) fm = Some (Inr (), fm1) \<and> fm_ops router_port ops fm1 = Some (oks, fm2) \<and>
    (\<forall>k < 2 ^ 48. \<forall>rule. own_view me (fm_firewall fm2) k = Some rule \<longrightarrow> db_view me (fm_db fm2) k = Some rule) \<and>
    (list_all id oks \<longrightarrow> (\<forall>k < 2 ^ 48. own_view me (fm_firewall fm2) k = db_view me (fm_db fm2) k))"
proof -
  have g: "fm_good (own_inv U me) me fm" using assms(1-3) by (simp add: fm_good_def)
  from router_own.fm_Run_law [OF g, of "\<lambda>_. True"] assms(4) obtain fm1 where
    r: "fm_Run router_port (\<lambda>_. True) fm = Some (Inr (), fm1)" "fm_good (own_inv U me) me fm1"
    "agree (own_view me (fm_firewall fm1)) (db_view me (fm_db fm1))" "fm_db fm1 = fm_db fm" by auto
  have w: "opens_within (own_view me (fm_firewall fm1)) (db_view me (fm_db fm1))" using r(3) by (simp add: opens_within_def agree_def)
  have l: "db_ruleSeq (fm_db fm1) + int (length ops) < 2 ^ 48" using assms(5) r(4) by simp
  from router_own.fm_ops_law [OF r(2) w l assms(6)] r(1,3) show ?thesis
    unfolding opens_within_def agree_def by blast
qed

definition exManager :: "bool \<Rightarrow> (nat, nat list) Router Firewallmanager" where
  "exManager fk = \<lparr>fm_firewall = exRouter, fm_db = db_empty fk, fm_nodeID = ''b''\<rparr>"

lemma exManager_good:
  "own_inv {''a'', ''b''} ''b'' (fm_firewall (exManager fk))" "db_fits (fm_db (exManager fk))"
  "fm_nodeID (exManager fk) = ''b''" "own_view ''b'' (fm_firewall (exManager fk)) k = None"
  using exRouter_rules
  by (simp_all add: exManager_def own_inv_def db_fits_def db_ok_empty, simp_all add: exRouter_def bus_ok_New db_empty_def
    own_view_def rules_view_def policy_def fw_New_def getShortID_def)

lemma firewall_mirrors_database_witness:
  "\<exists>fm1 oks fm2. fm_Run router_port (\<lambda>_. True) (exManager True) = Some (Inr (), fm1) \<and>
     fm_ops router_port [((\<lambda>_. True), OpRemove 3)] fm1 = Some (oks, fm2)"
  using firewall_mirrors_database [OF exManager_good(1-3) allI, of True "[((\<lambda>_. True), OpRemove 3)]"] exManager_good(4) [of True]
  by (simp add: small_op_def) (simp add: exManager_def db_empty_def, blast)


text \<open>A refused rule comes back to life. Without foreign-key enforcement (the SQLite default, which the node does not
  change), adding a rule for a peer that does not exist yet is answered with an error and leaves the firewall alone,
  but the row stays; when the next peer is created it gets that identifier, and after a restart the firewall opens the
  refused rule's ports on the new peer's address.\<close>

theorem orphan_rule_activates:
  fixes fm :: "('l, 'n) Router Firewallmanager"
  assumes "db_fits (fm_db fm)" and "\<not> db_fk (fm_db fm)" and "db_ruleSeq (fm_db fm) + 1 < 2 ^ 48" and "fm_nodeID fm = me"
    and "sint peerID = db_peerSeq (fm_db fm) + 1" and "mp_Protocol rule \<in> {''tcp'', ''udp'', ''both''}" and "mp_TargetAddress rule = None"
    and "own_inv U me r0" and "\<forall>k < 2 ^ 48. own_view me r0 k = None"
    and "sql_CreatePeerAutoID now arg (fm_db fm1) = (Inr peer, db2)"
    and "fm_AddRule router_port (\<lambda>_. True) peerID rule fm = Some (res, fm1)"
  shows "res = Inl NoRows \<and> fm_firewall fm1 = fm_firewall fm \<and>
    (\<exists>fm2 i. fm_Run router_port (\<lambda>_. True) \<lparr>fm_firewall = r0, fm_db = db2, fm_nodeID = me\<rparr> = Some (Inr (), fm2) \<and>
      own_view me (fm_firewall fm2) i = Some \<lparr>pr_index = ownIndex me i, pr_Address = of_int (rp_VirtualIp peer), pr_TargetAddress = None,
        pr_Protocol = mp_Protocol rule, pr_PortRangeStart = mp_PortRangeStart rule, pr_PortRangeEnd = mp_PortRangeEnd rule\<rparr>)"
proof -
  let ?db = "fm_db fm"
  let ?arg = "\<lparr>ir_PeerID = sint peerID, ir_TargetIp = mp_TargetAddress rule, ir_Protocol = mp_Protocol rule,
      ir_PortRangeStart = uint (mp_PortRangeStart rule), ir_PortRangeEnd = mp_PortRangeEnd rule\<rparr>"
  let ?row = "\<lparr>pru_ID = db_ruleSeq ?db + 1, pru_PeerID = sint peerID, pru_TargetIp = None, pru_Protocol = mp_Protocol rule,
      pru_PortRangeStart = uint (mp_PortRangeStart rule), pru_PortRangeEnd = mp_PortRangeEnd rule\<rparr>"
  have "\<not> sameRule ?arg r" for r using assms(7) by (simp add: sameRule_def)
  then have "\<not> list_ex (sameRule ?arg) (db_rules ?db)" by (simp add: list_ex_iff)
  then have ins: "sql_InsertPeerRule ?arg ?db = (Inr (db_ruleSeq ?db + 1), ?db\<lparr>db_rules := db_rules ?db @ [?row], db_ruleSeq := db_ruleSeq ?db + 1\<rparr>)"
    using assms(2,6,7) by (auto simp: sql_InsertPeerRule_def Let_def)
  define db1 where "db1 = ?db\<lparr>db_rules := db_rules ?db @ [?row], db_ruleSeq := db_ruleSeq ?db + 1\<rparr>"
  note d = db_view_Insert(1-3) [OF assms(1,3) ins, folded db1_def]
  have "sint peerID \<notin> rp_ID ` set (db_peers ?db)" using assms(1,5) by (force simp: db_fits_def db_ok_def peers_ok_def)
  then have "sql_GetPeerByID (sint peerID) db1 \<noteq> Inr p" for p
  proof -
    have "db_peers db1 = db_peers ?db" by (simp add: db1_def)
    with \<open>sint peerID \<notin> rp_ID ` set (db_peers ?db)\<close> have "\<not> (p \<in> set (db_peers db1) \<and> rp_ID p = sint peerID)" by (metis imageI)
    with GetPeerByID_iff [of db1 "sint peerID" p] d(1) show ?thesis by (simp add: db_fits_def)
  qed
  then have get: "sql_GetPeerByID (sint peerID) db1 = Inl NoRows"
    unfolding sql_GetPeerByID_def by (cases "List.find (\<lambda>p. rp_ID p = sint peerID) (db_peers db1)") auto
  have "Some (res, fm1) = Some (Inl NoRows, fm\<lparr>fm_db := db1\<rparr>)"
    unfolding assms(11) [symmetric] using ins get by (simp add: fm_AddRule_def db1_def Let_def)
  then have res: "res = Inl NoRows" and fm1: "fm1 = fm\<lparr>fm_db := db1\<rparr>" by simp_all
  from CreatePeerAutoID_succeeds [of now arg db1] assms(10) have p: "db2 = db1\<lparr>db_peers := db_peers db1 @ [peer], db_peerSeq := rp_ID peer\<rparr>"
    "rp_ID peer = sint peerID" by (auto simp: fm1 db1_def assms(5))
  have "db_ok db2" using db_ok_CreatePeer [of db1 now arg "Inr peer" db2] d(1) assms(10) by (simp add: fm1 db_fits_def)
  from db_fits_keep_rules [OF d(1) this] have f2: "db_fits db2" by (simp add: p)
  let ?i = "of_int (db_ruleSeq ?db + 1) :: u64"
  have mem: "?row \<in> set (db_rules db2)" "peer \<in> set (db_peers db2)" by (simp_all add: p db1_def)
  have v: "db_view me db2 ?i = Some ((rowRule ?row (rp_VirtualIp peer))\<lparr>pr_index := ownIndex me ?i\<rparr>)"
    unfolding db_view_iff [OF f2] using mem p(2) by (intro bexI [of _ ?row] bexI [of _ peer]) simp_all
  have g: "fm_good (own_inv U me) me \<lparr>fm_firewall = r0, fm_db = db2, fm_nodeID = me\<rparr>" using assms(8) f2 by (simp add: fm_good_def)
  from router_own.fm_Run_law [OF g, of "\<lambda>_. True"] assms(9) obtain fm2 where
    r: "fm_Run router_port (\<lambda>_. True) \<lparr>fm_firewall = r0, fm_db = db2, fm_nodeID = me\<rparr> = Some (Inr (), fm2)"
    "agree (own_view me (fm_firewall fm2)) (db_view me db2)" by auto
  have "?i < 2 ^ 48" by (rule rule_number(2) [OF d(2,3)])
  with r(2) v have "own_view me (fm_firewall fm2) ?i = Some ((rowRule ?row (rp_VirtualIp peer))\<lparr>pr_index := ownIndex me ?i\<rparr>)"
    unfolding agree_def by metis
  with res fm1 r(1) show ?thesis by (auto simp: rowRule_def)
qed

definition exNewRule :: model_PortRule where
  "exNewRule = \<lparr>mp_ID = 0, mp_TargetAddress = None, mp_Protocol = ''tcp'', mp_PortRangeStart = 22, mp_PortRangeEnd = None\<rparr>"

definition exNewPeer :: CreatePeerAutoIDParams where
  "exNewPeer = \<lparr>cp_Type = ''awg'', cp_MinVirtualIp = 7, cp_ExpirationDate = None, cp_TrafficLimitGb = None, cp_SpeedLimitMbps = None,
     cp_AwgPrivateKey = '''', cp_AwgPublicKey = ''''\<rparr>"

lemma orphan_rule_activates_witness:
  "\<exists>fm1. fm_AddRule router_port (\<lambda>_. True) 1 exNewRule (exManager False) = Some (Inl NoRows, fm1)"
proof -
  have "\<exists>res fm1. fm_AddRule router_port (\<lambda>_. True) 1 exNewRule (exManager False) = Some (res, fm1)"
    by (simp add: fm_AddRule_def exManager_def exNewRule_def db_empty_def sql_InsertPeerRule_def sql_GetPeerByID_def)
  then obtain res fm1 where a: "fm_AddRule router_port (\<lambda>_. True) 1 exNewRule (exManager False) = Some (res, fm1)" by blast
  obtain row db2 where c: "sql_CreatePeerAutoID 0 exNewPeer (fm_db fm1) = (Inr row, db2)"
    using CreatePeerAutoID_succeeds [of 0 exNewPeer "fm_db fm1"] by blast
  have "res = Inl NoRows"
    using orphan_rule_activates [OF exManager_good(2) _ _ exManager_good(3) _ _ _ exManager_good(1), of False 1 exNewRule False 0 exNewPeer fm1 row db2 res]
      exManager_good(4) [of False] c a by (simp add: exNewRule_def exManager_def db_empty_def)
  with a show ?thesis by simp
qed

end
