(* ===== verification/Safemap.thy ===== *)
theory Safemap
  imports Prelude
begin

text \<open>
  \<^verbatim>\<open>internal/utils/safemap\<close>: a map behind a read-write lock. Every method holds the lock for its whole
  body, so each is one atomic operation on the data; the iterations fold the callback's effect over the
  entries in the map's order.
\<close>

record ('k, 'v) safemapImpl =
  sm_data :: "('k, 'v) gomap"

definition sm_From :: "('k, 'v) gomap \<Rightarrow> ('k, 'v) safemapImpl" where
  "sm_From m = \<lparr>sm_data = m\<rparr>"

definition sm_New :: "('k, 'v) safemapImpl" where
  "sm_New = \<lparr>sm_data = []\<rparr>"

definition sm_Get :: "('k, 'v) safemapImpl \<Rightarrow> 'k \<Rightarrow> 'v option" where
  "sm_Get h key = gm_get (sm_data h) key"

definition sm_Set :: "'k \<Rightarrow> 'v \<Rightarrow> ('k, 'v) safemapImpl \<Rightarrow> ('k, 'v) safemapImpl" where
  "sm_Set key val h = h\<lparr>sm_data := gm_set key val (sm_data h)\<rparr>"

definition sm_Exists :: "('k, 'v) safemapImpl \<Rightarrow> 'k \<Rightarrow> bool" where
  "sm_Exists h key = gm_has (sm_data h) key"

fun range_while :: "('k \<Rightarrow> 'v \<Rightarrow> 's \<Rightarrow> bool \<times> 's) \<Rightarrow> ('k, 'v) gomap \<Rightarrow> 's \<Rightarrow> 's" where
  "range_while it [] s = s"
| "range_while it ((k, v) # m) s = (let (go, s') = it k v s in if go then range_while it m s' else s')"

definition sm_ForeachCond :: "('k \<Rightarrow> 'v \<Rightarrow> 's \<Rightarrow> bool \<times> 's) \<Rightarrow> ('k, 'v) safemapImpl \<Rightarrow> 's \<Rightarrow> 's" where
  "sm_ForeachCond it h s = range_while it (sm_data h) s"

definition sm_Foreach :: "('k \<Rightarrow> 'v \<Rightarrow> 's \<Rightarrow> 's) \<Rightarrow> ('k, 'v) safemapImpl \<Rightarrow> 's \<Rightarrow> 's" where
  "sm_Foreach it h s = fold (\<lambda>(k, v). it k v) (sm_data h) s"

definition sm_Delete :: "'k \<Rightarrow> ('k, 'v) safemapImpl \<Rightarrow> ('k, 'v) safemapImpl" where
  "sm_Delete key h = h\<lparr>sm_data := gm_del key (sm_data h)\<rparr>"

definition sm_Count :: "('k, 'v) safemapImpl \<Rightarrow> nat" where
  "sm_Count h = length (sm_data h)"

definition sm_Clone :: "('k, 'v) safemapImpl \<Rightarrow> ('k, 'v) safemapImpl" where
  "sm_Clone h = \<lparr>sm_data = sm_data h\<rparr>"

definition sm_CloneRaw :: "('k, 'v) safemapImpl \<Rightarrow> ('k, 'v) gomap" where
  "sm_CloneRaw h = sm_data h"

definition sm_wf :: "('k, 'v) safemapImpl \<Rightarrow> bool" where
  "sm_wf h = gm_wf (sm_data h)"

lemmas sm_defs = sm_New_def sm_Get_def sm_Set_def sm_Delete_def sm_wf_def sm_Exists_def sm_Clone_def
  sm_CloneRaw_def sm_From_def

interpretation sm: kv_store sm_Get sm_Set sm_Delete sm_New sm_wf
  by unfold_locales (simp_all add: sm_defs)

lemmas sm_simps [simp] = sm.get_empty sm.wf_empty sm.wf_put sm.wf_del

lemma sm_Get_Set [simp]: "sm_Get (sm_Set k v h) k' = (if k' = k then Some v else sm_Get h k')"
  by (simp add: sm_defs)

lemma sm_Get_Delete [simp]: "sm_Get (sm_Delete k h) k' = (if k' = k then None else sm_Get h k')"
  by (simp add: sm_defs)

lemma sm_Exists_iff: "sm_Exists h k \<longleftrightarrow> sm_Get h k \<noteq> None"
  by (simp add: sm_defs)

lemma sm_Count_Set:
  "sm_Count (sm_Set k v h) = (if sm_Exists h k then sm_Count h else Suc (sm_Count h))"
  by (auto simp: sm_Count_def sm_defs gm_set_absent_length gm_set_present_length)

text \<open>An iteration that never stops early is the plain one; one that stops visits a prefix.\<close>

lemma range_while_fold: "(\<And>k v s. fst (it k v s)) \<Longrightarrow> range_while it m s = fold (\<lambda>(k, v) s. snd (it k v s)) m s"
  by (induction m arbitrary: s) (auto simp: split_beta Let_def)

lemma range_while_prefix: "\<exists>n. range_while it m s = fold (\<lambda>(k, v) s. snd (it k v s)) (take n m) s"
proof (induction m arbitrary: s)
  case Nil
  then show ?case by simp
next
  case (Cons e m)
  obtain k v where e: "e = (k, v)" by (cases e)
  show ?case
  proof (cases "fst (it k v s)")
    case True
    with Cons.IH [of "snd (it k v s)"] obtain n where
      "range_while it m (snd (it k v s)) = fold (\<lambda>(k, v) s. snd (it k v s)) (take n m) (snd (it k v s))" by blast
    with True show ?thesis by (intro exI [of _ "Suc n"]) (simp add: e split_beta')
  next
    case False
    then show ?thesis by (intro exI [of _ 1]) (simp add: e split_beta')
  qed
qed

end
