(* ===== verification/Codec.thy ===== *)
theory Codec
  imports NetUtils
begin

text \<open>
  What the program uses of Go's text encodings: \<^verbatim>\<open>encoding/hex\<close>, \<^verbatim>\<open>encoding/base64\<close> (the standard alphabet with
  padding, the URL alphabet without), the string quoting of \<^verbatim>\<open>encoding/json\<close>, and \<^verbatim>\<open>%d\<close> of a signed number. The
  decoders that only the other side of a connection runs are here as specifications, with the round trips.
\<close>

section \<open>Bytes and text\<close>

definition bytes_of :: "string \<Rightarrow> bytes" where
  "bytes_of s = map (\<lambda>c. of_nat (of_char c)) s"

definition string_of :: "bytes \<Rightarrow> string" where
  "string_of bs = map (\<lambda>b. char_of (unat b)) bs"

lemma unat_u8 [simp]: "unat (b :: u8) < 256"
  using unsigned_less [of b] by simp

lemma string_of_bytes_of [simp]: "string_of (bytes_of s) = s"
proof -
  have "char_of (unat (of_nat (of_char c) :: u8)) = c" for c :: char
  proof -
    have "(of_char c :: nat) < 256" using nat_of_char_less_256 .
    then show ?thesis by (simp add: unat_of_nat take_bit_nat_eq_self)
  qed
  then show ?thesis by (simp add: string_of_def bytes_of_def o_def)
qed

lemma length_string_of [simp]: "length (string_of bs) = length bs"
  by (simp add: string_of_def)

lemma length_bytes_of [simp]: "length (bytes_of s) = length s"
  by (simp add: bytes_of_def)

lemma bytes_of_string_of [simp]: "bytes_of (string_of bs) = bs"
proof -
  have "(of_nat (of_char (char_of (unat b) :: char)) :: u8) = b" for b :: u8
  proof -
    have "(of_char (char_of (unat b) :: char) :: nat) = unat b" by (simp add: of_char_of)
    then show ?thesis by simp
  qed
  then show ?thesis by (simp add: string_of_def bytes_of_def o_def)
qed

text \<open>\<^verbatim>\<open>fmt.Sprintf("%d", x)\<close> and \<^verbatim>\<open>strconv.Itoa\<close> of a signed value.\<close>

definition show_int :: "int \<Rightarrow> string" where
  "show_int i = (if i < 0 then CHR ''-'' # show_nat (nat (- i)) else show_nat (nat i))"

lemma show_int_inject [simp]: "show_int i = show_int j \<longleftrightarrow> i = j"
proof -
  have "CHR ''-'' # s \<noteq> show_nat n" for s n
    using show_nat_digits [of "CHR ''-''" n] by (auto simp: is_digit_def) (metis list.set_intros(1))
  from this this [THEN not_sym] show ?thesis by (auto simp: show_int_def)
qed

section \<open>Hexadecimal\<close>

definition hexDigit :: "nat \<Rightarrow> char" where
  "hexDigit d = char_of (if d < 10 then 48 + d else 87 + d)"

definition hexEncode :: "bytes \<Rightarrow> string" where
  "hexEncode bs = concat (map (\<lambda>b. [hexDigit (unat b div 16), hexDigit (unat b mod 16)]) bs)"

text \<open>\<^verbatim>\<open>hex.DecodeString\<close> returns the bytes before the first error, and whether there was none.\<close>

fun hexDecode :: "string \<Rightarrow> bytes \<times> bool" where
  "hexDecode [] = ([], True)"
| "hexDecode [c] = ([], False)"
| "hexDecode (c # d # s) =
     (case (hex_val c, hex_val d) of
        (Some a, Some b) \<Rightarrow> (let (bs, ok) = hexDecode s in (of_nat (16 * a + b) # bs, ok))
      | _ \<Rightarrow> ([], False))"

lemma hex_val_hexDigit: "d < 16 \<Longrightarrow> hex_val (hexDigit d) = Some d"
  by (auto simp: hex_val_def hexDigit_def Let_def of_char_of)

lemma hexDecode_hexEncode [simp]: "hexDecode (hexEncode bs) = (bs, True)"
proof (induction bs)
  case Nil
  then show ?case by (simp add: hexEncode_def)
next
  case (Cons b bs)
  have "unat b < 256" by simp
  then have "unat b div 16 < 16" by (simp only: less_mult_imp_div_less)
  then have "hex_val (hexDigit (unat b div 16)) = Some (unat b div 16)"
    "hex_val (hexDigit (unat b mod 16)) = Some (unat b mod 16)" by (simp_all add: hex_val_hexDigit)
  with Cons.IH show ?case by (simp add: hexEncode_def)
qed

lemma length_hexEncode [simp]: "length (hexEncode bs) = 2 * length bs"
  by (induction bs) (simp_all add: hexEncode_def)

section \<open>Base64\<close>

text \<open>The two characters in which the alphabets differ are arguments.\<close>

definition b64char :: "char \<times> char \<Rightarrow> nat \<Rightarrow> char" where
  "b64char al d = (if d < 26 then char_of (65 + d) else if d < 52 then char_of (71 + d)
     else if d < 62 then char_of (d - 4) else if d = 62 then fst al else snd al)"

definition b64val :: "char \<times> char \<Rightarrow> char \<Rightarrow> nat option" where
  "b64val al c = (let k = of_char c :: nat in
     if 65 \<le> k \<and> k \<le> 90 then Some (k - 65) else if 97 \<le> k \<and> k \<le> 122 then Some (k - 71)
     else if 48 \<le> k \<and> k \<le> 57 then Some (k + 4) else if c = fst al then Some 62 else if c = snd al then Some 63 else None)"

definition stdAlphabet :: "char \<times> char" where "stdAlphabet = (CHR ''+'', CHR ''/'')"

definition urlAlphabet :: "char \<times> char" where "urlAlphabet = (CHR ''-'', CHR ''_'')"

text \<open>The digits of base 64, without padding.\<close>

fun b64digits :: "nat list \<Rightarrow> nat list" where
  "b64digits [] = []"
| "b64digits [a] = [a div 4, a mod 4 * 16]"
| "b64digits [a, b] = [a div 4, a mod 4 * 16 + b div 16, b mod 16 * 4]"
| "b64digits (a # b # c # r) = a div 4 # (a mod 4 * 16 + b div 16) # (b mod 16 * 4 + c div 64) # c mod 64 # b64digits r"

fun b64bytes :: "nat list \<Rightarrow> nat list option" where
  "b64bytes [] = Some []"
| "b64bytes [p] = None"
| "b64bytes [p, q] = Some [p * 4 + q div 16]"
| "b64bytes [p, q, r] = Some [p * 4 + q div 16, q mod 16 * 16 + r div 4]"
| "b64bytes (p # q # r # s # t) = map_option (\<lambda>bs. (p * 4 + q div 16) # (q mod 16 * 16 + r div 4) # (r mod 4 * 64 + s) # bs) (b64bytes t)"

definition rawEncode :: "char \<times> char \<Rightarrow> bytes \<Rightarrow> string" where
  "rawEncode al bs = map (b64char al) (b64digits (map unat bs))"

definition b64pad :: "nat \<Rightarrow> string" where
  "b64pad n = (if n mod 3 = 1 then ''=='' else if n mod 3 = 2 then ''='' else '''')"

text \<open>\<^verbatim>\<open>base64.StdEncoding.EncodeToString\<close> and \<^verbatim>\<open>base64.RawURLEncoding.EncodeToString\<close>.\<close>

definition stdEncodeToString :: "bytes \<Rightarrow> string" where
  "stdEncodeToString bs = rawEncode stdAlphabet bs @ b64pad (length bs)"

definition rawURLEncodeToString :: "bytes \<Rightarrow> string" where
  "rawURLEncodeToString bs = rawEncode urlAlphabet bs"

definition rawDecode :: "char \<times> char \<Rightarrow> string \<Rightarrow> bytes option" where
  "rawDecode al s = Option.bind (those (map (b64val al) s)) (\<lambda>ds. map_option (map of_nat) (b64bytes ds))"

lemma b64digits_bytes: "\<forall>x \<in> set xs. x < 256 \<Longrightarrow> b64bytes (b64digits xs) = Some xs \<and> (\<forall>d \<in> set (b64digits xs). d < 64)"
proof (induction xs rule: b64digits.induct)
  case (2 a)
  then show ?case by auto
next
  case (3 a b)
  then have "(a mod 4 * 16 + b div 16) div 16 = a mod 4" "(a mod 4 * 16 + b div 16) mod 16 = b div 16" by auto
  with 3 show ?case by auto
next
  case (4 a b c r)
  then have "(a mod 4 * 16 + b div 16) div 16 = a mod 4" "(a mod 4 * 16 + b div 16) mod 16 = b div 16"
    "(b mod 16 * 4 + c div 64) div 4 = b mod 16" "(b mod 16 * 4 + c div 64) mod 4 = c div 64" by auto
  with 4 show ?case by auto
qed simp

lemma b64val_char:
  assumes "al = stdAlphabet \<or> al = urlAlphabet" and "d < 64" shows "b64val al (b64char al d) = Some d"
proof -
  have "of_char (char_of k :: char) = k" if "k < 256" for k :: nat using that by (simp add: of_char_of)
  with assms show ?thesis
    by (auto simp: b64val_def b64char_def stdAlphabet_def urlAlphabet_def Let_def split: if_splits)
qed

text \<open>What was encoded without padding decodes.\<close>

lemma rawDecode_rawEncode:
  assumes "al = stdAlphabet \<or> al = urlAlphabet" shows "rawDecode al (rawEncode al bs) = Some bs"
proof -
  have "\<forall>x \<in> set (map unat bs). x < 256" by simp
  from b64digits_bytes [OF this] have d: "b64bytes (b64digits (map unat bs)) = Some (map unat bs)"
    "\<forall>d \<in> set (b64digits (map unat bs)). d < 64" by auto
  have "those (map (b64val al) (rawEncode al bs)) = Some (map id (b64digits (map unat bs)))"
    unfolding rawEncode_def map_map by (rule those_map_Some) (use d(2) b64val_char [OF assms] in simp)
  with d(1) show ?thesis by (simp add: rawDecode_def o_def)
qed

section \<open>JSON strings\<close>

text \<open>
  The quoting of \<^verbatim>\<open>encoding/json\<close>, which also escapes the characters of HTML. Bytes from 128 up are passed
  through: the texts are valid UTF-8 and hold neither of the line separators U+2028 and U+2029.
\<close>

definition jsonEscape :: "char \<Rightarrow> string" where
  "jsonEscape c = (let k = of_char c :: nat in
     if k = 34 \<or> k = 92 then [char_of (92 :: nat), c]
     else if k = 8 then [char_of (92 :: nat), CHR ''b''] else if k = 12 then [char_of (92 :: nat), CHR ''f'']
     else if k = 10 then [char_of (92 :: nat), CHR ''n''] else if k = 13 then [char_of (92 :: nat), CHR ''r'']
     else if k = 9 then [char_of (92 :: nat), CHR ''t'']
     else if k < 32 \<or> k = 60 \<or> k = 62 \<or> k = 38
     then [char_of (92 :: nat), CHR ''u'', CHR ''0'', CHR ''0'', hexDigit (k div 16), hexDigit (k mod 16)]
     else [c])"

definition jsonString :: "string \<Rightarrow> string" where
  "jsonString s = char_of (34 :: nat) # concat (map jsonEscape s) @ [char_of (34 :: nat)]"

text \<open>A reader of quoted strings: the text up to the closing quote and what follows it.\<close>

definition jsonShort :: "char \<Rightarrow> nat option" where
  "jsonShort c = (let k = of_char c :: nat in
     if k = 98 then Some 8 else if k = 102 then Some 12 else if k = 110 then Some 10 else if k = 114 then Some 13
     else if k = 116 then Some 9 else if k = 34 \<or> k = 47 \<or> k = 92 then Some k else None)"

text \<open>\<open>p\<close> is the escape sequence read so far.\<close>

fun jsonChars :: "string \<Rightarrow> string \<Rightarrow> (string \<times> string) option" where
  "jsonChars p [] = None"
| "jsonChars p (c # s) =
     (if p = [] then
        (if of_char c = (34 :: nat) then Some ([], s)
         else if of_char c = (92 :: nat) then jsonChars [c] s
         else map_option (\<lambda>(r, t). (c # r, t)) (jsonChars [] s))
      else if length p = 1 \<and> jsonShort c \<noteq> None then
        map_option (\<lambda>(r, t). (char_of (the (jsonShort c)) # r, t)) (jsonChars [] s)
      else if length p < 5 then jsonChars (p @ [c]) s
      else if take 3 (tl p) = ''u00'' \<and> hex_val (last p) \<noteq> None \<and> hex_val c \<noteq> None then
        map_option (\<lambda>(r, t). (char_of (16 * the (hex_val (last p)) + the (hex_val c)) # r, t)) (jsonChars [] s)
      else None)"

lemma jsonChars_escape:
  "jsonChars [] (jsonEscape c @ s) = map_option (\<lambda>(r, t). (c # r, t)) (jsonChars [] s)"
proof -
  let ?k = "of_char c :: nat"
  have c: "char_of ?k = c" by simp
  have k: "?k < 256" using nat_of_char_less_256 .
  have cases: "c = char_of n" if "?k = n" for n using that c by simp
  consider "?k \<in> {8, 9, 10, 12, 13, 34, 92}" | "?k \<notin> {8, 9, 10, 12, 13, 34, 92}" "?k < 32 \<or> ?k = 60 \<or> ?k = 62 \<or> ?k = 38"
    | "?k \<notin> {8, 9, 10, 12, 13, 34, 92}" "\<not> (?k < 32 \<or> ?k = 60 \<or> ?k = 62 \<or> ?k = 38)" by blast
  then show ?thesis
  proof cases
    case 1
    then consider "c = char_of (8 :: nat)" | "c = char_of (9 :: nat)" | "c = char_of (10 :: nat)" | "c = char_of (12 :: nat)"
      | "c = char_of (13 :: nat)" | "c = char_of (34 :: nat)" | "c = char_of (92 :: nat)" using cases by blast
    then show ?thesis by cases (simp_all add: jsonEscape_def jsonShort_def)
  next
    case 2
    then have e: "jsonEscape c = [char_of (92 :: nat), CHR ''u'', CHR ''0'', CHR ''0'', hexDigit (?k div 16), hexDigit (?k mod 16)]"
      by (simp add: jsonEscape_def Let_def)
    have "hex_val (hexDigit (?k div 16)) = Some (?k div 16)" "hex_val (hexDigit (?k mod 16)) = Some (?k mod 16)"
      using less_mult_imp_div_less [of ?k 16 16] k by (simp_all add: hex_val_hexDigit)
    then show ?thesis by (simp add: e jsonShort_def)
  next
    case 3
    then show ?thesis by (simp add: jsonEscape_def)
  qed
qed

text \<open>A quoted text reads back, whatever follows it.\<close>

lemma jsonChars_jsonString: "jsonChars [] (tl (jsonString s) @ t) = Some (s, t)"
proof -
  have "jsonChars [] (concat (map jsonEscape s) @ char_of (34 :: nat) # t) = Some (s, t)"
    by (induction s) (simp_all add: jsonChars_escape)
  then show ?thesis by (simp add: jsonString_def)
qed

end
