(* ===== verification/AWG.thy ===== *)
theory AWG
  imports Router Safemap Codec Complex_Main
begin

text \<open>
  \<^verbatim>\<open>pkg/transport/awg\<close>: the AmneziaWG transport. It keeps the peers of this node by address, twice (its own map and
  the one of the TUN adapter, both pointing to the same objects), tells the AmneziaWG device about them in the
  device's text protocol, and adds and deletes their routes at the router. The device of \<^verbatim>\<open>amneziawg-go\<close> is the record
  \<open>awg_device\<close> of what the code calls, X25519 an argument; readings of the clock are arguments. An operation acts on
  the transport and the router together; the outer option is a panic.
\<close>

section \<open>Peers, configuration and state\<close>

text \<open>\<^verbatim>\<open>model.Peer\<close>; a floating-point limit is the rational number it stands for.\<close>

record model_Peer =
  me_ID :: u64
  me_Type :: string
  me_VirtualIP :: u32
  me_LastSeen :: gotime
  me_ExpirationDate :: "gotime option"
  me_FromPeerTotal :: u64
  me_ToPeerTotal :: u64
  me_TrafficLimitGb :: "rat option"
  me_SpeedLimitMbps :: "rat option"
  me_AwgPrivateKey :: string
  me_AwgPublicKey :: string

definition IsExpired :: "gotime \<Rightarrow> model_Peer \<Rightarrow> bool" where
  "IsExpired now p = (case me_ExpirationDate p of None \<Rightarrow> False | Some e \<Rightarrow> e < now)"

record TransportConfig =
  tc_MTU :: int
  tc_ListenPort :: int
  tc_PrivateKey :: string
  tc_WatchdogInterval :: duration
  tc_H1 :: string
  tc_H2 :: string
  tc_H3 :: string
  tc_H4 :: string
  tc_Jc :: int
  tc_JMin :: int
  tc_JMax :: int
  tc_S1 :: int
  tc_S2 :: int
  tc_S3 :: int
  tc_S4 :: int

record TransportPeerStats =
  ts_VirtualIP :: u32
  ts_DeltaToPeer :: u64
  ts_DeltaFromPeer :: u64
  ts_LastSeen :: gotime

record AWGPeer =
  ap_nodeID :: string
  ap_virtualIP :: u32
  ap_pubKey :: string
  ap_lastSeen :: gotime
  ap_expiration :: "gotime option"
  ap_totalToPeer :: u64
  ap_totalFromPeer :: u64

definition NewAWGPeer :: "gotime \<Rightarrow> string \<Rightarrow> u32 \<Rightarrow> string \<Rightarrow> gotime option \<Rightarrow> AWGPeer" where
  "NewAWGPeer now node ip pubKey expiration =
     \<lparr>ap_nodeID = node, ap_virtualIP = ip, ap_pubKey = pubKey, ap_lastSeen = now, ap_expiration = expiration,
      ap_totalToPeer = 0, ap_totalFromPeer = 0\<rparr>"

record 'd awg_device =
  dv_NewDevice :: "int \<Rightarrow> 'd" \<comment> \<open>on a TUN adapter with this MTU\<close>
  dv_IpcSet :: "string \<Rightarrow> 'd \<Rightarrow> bool \<times> 'd"
  dv_Up :: "'d \<Rightarrow> bool \<times> 'd"
  dv_Close :: "'d \<Rightarrow> 'd"

text \<open>Pointers to peers are numbers; \<open>aw_heap\<close> holds the objects. The TUN adapter is part of the record.\<close>

record 'd AWGTransport =
  aw_done :: bool
  aw_cfg :: TransportConfig
  aw_publicKey :: string
  aw_nodeID :: string
  aw_device :: 'd
  aw_in :: "slice chan"
  aw_peersByIP :: "(u32, nat) safemapImpl"
  aw_tunPeers :: "(u32, nat) safemapImpl"
  aw_tunClosed :: bool
  aw_deltaChan :: "TransportPeerStats chan"
  aw_heap :: "(nat, AWGPeer) gomap"
  aw_next :: nat

type_synonym ('l, 'n, 'd) awg_state = "'d AWGTransport \<times> ('l, 'n) Router"

datatype awg_error = BadHex | KeyLength | X25519Failed | BaseConfigFailed | ObfuscationFailed | JcFailed | JminFailed
  | JmaxFailed | UpFailed | KernelAddFailed | RoutingFailed route_error

section \<open>Construction\<close>

definition getServerPubKey :: "(bytes \<Rightarrow> bytes option) \<Rightarrow> string \<Rightarrow> awg_error + string" where
  "getServerPubKey x25519 privKeyHex =
     (let (privBytes, ok) = hexDecode privKeyHex
      in if \<not> ok then Inl BadHex
         else if length privBytes \<noteq> 32 then Inl KeyLength
         else case x25519 privBytes of None \<Rightarrow> Inl X25519Failed | Some pub \<Rightarrow> Inr (hexEncode pub))"

definition cmdLine :: "string \<Rightarrow> string \<Rightarrow> string" where
  "cmdLine key val = key @ ''='' @ val @ [char_of (10 :: nat)]"

text \<open>The commands \<^verbatim>\<open>New\<close> gives the device, each with the error it ends in when the device refuses it.\<close>

definition configCmds :: "TransportConfig \<Rightarrow> (awg_error \<times> string) list" where
  "configCmds cfg =
     [(BaseConfigFailed, cmdLine ''private_key'' (tc_PrivateKey cfg) @ cmdLine ''listen_port'' (show_int (tc_ListenPort cfg))),
      (ObfuscationFailed, cmdLine ''h1'' (tc_H1 cfg) @ cmdLine ''h2'' (tc_H2 cfg) @ cmdLine ''h3'' (tc_H3 cfg) @
         cmdLine ''h4'' (tc_H4 cfg) @ cmdLine ''s1'' (show_int (tc_S1 cfg)) @ cmdLine ''s2'' (show_int (tc_S2 cfg)) @
         cmdLine ''s3'' (show_int (tc_S3 cfg)) @ cmdLine ''s4'' (show_int (tc_S4 cfg)))] @
     (if tc_Jc cfg > 0 then [(JcFailed, cmdLine ''jc'' (show_int (tc_Jc cfg)))] else []) @
     (if tc_JMin cfg > 0 then [(JminFailed, cmdLine ''jmin'' (show_int (tc_Jc cfg)))] else []) @
     (if tc_JMax cfg > 0 then [(JmaxFailed, cmdLine ''jmax'' (show_int (tc_Jc cfg)))] else [])"

fun runCmds :: "'d awg_device \<Rightarrow> (awg_error \<times> string) list \<Rightarrow> 'd \<Rightarrow> awg_error + 'd" where
  "runCmds D [] d = Inr d"
| "runCmds D ((e, cmd) # cmds) d =
     (case dv_IpcSet D cmd d of (False, _) \<Rightarrow> Inl e | (True, d') \<Rightarrow> runCmds D cmds d')"

definition awg_New ::
  "'d awg_device \<Rightarrow> (bytes \<Rightarrow> bytes option) \<Rightarrow> TransportConfig \<Rightarrow> string \<Rightarrow> awg_error + 'd AWGTransport" where
  "awg_New D x25519 cfg node =
     (case getServerPubKey x25519 (tc_PrivateKey cfg) of
        Inl e \<Rightarrow> Inl e
      | Inr pub \<Rightarrow>
          (case runCmds D (configCmds cfg) (dv_NewDevice D (tc_MTU cfg)) of
             Inl e \<Rightarrow> Inl e
           | Inr d \<Rightarrow>
               (case dv_Up D d of
                  (False, _) \<Rightarrow> Inl UpFailed
                | (True, d') \<Rightarrow>
                    Inr \<lparr>aw_done = False, aw_cfg = cfg, aw_publicKey = pub, aw_nodeID = node, aw_device = d',
                         aw_in = mkchan 1000, aw_peersByIP = sm_New, aw_tunPeers = sm_New, aw_tunClosed = False,
                         aw_deltaChan = mkchan 100, aw_heap = [], aw_next = 0\<rparr>)))"

section \<open>Peers\<close>

definition removePeerInternal :: "'d awg_device \<Rightarrow> nat \<Rightarrow> ('l, 'n, 'd) awg_state \<Rightarrow> ('l, 'n, 'd) awg_state option" where
  "removePeerInternal D ref s =
     (case gm_get (aw_heap (fst s)) ref of
        None \<Rightarrow> None
      | Some peer \<Rightarrow>
          (case DeleteRoutingObject (ap_virtualIP peer) (snd s) of
             None \<Rightarrow> None
           | Some (_, r) \<Rightarrow>
               Some ((fst s)\<lparr>aw_peersByIP := sm_Delete (ap_virtualIP peer) (aw_peersByIP (fst s)),
                        aw_tunPeers := sm_Delete (ap_virtualIP peer) (aw_tunPeers (fst s)),
                        aw_device := snd (dv_IpcSet D (cmdLine ''public_key'' (ap_pubKey peer) @ cmdLine ''remove'' ''true'')
                                       (aw_device (fst s)))\<rparr>, r)))"

definition KickPeer :: "'d awg_device \<Rightarrow> u32 \<Rightarrow> ('l, 'n, 'd) awg_state \<Rightarrow> (bool \<times> ('l, 'n, 'd) awg_state) option" where
  "KickPeer D ip s =
     (case sm_Get (aw_peersByIP (fst s)) ip of
        None \<Rightarrow> Some (False, s)
      | Some ref \<Rightarrow> map_option (Pair True) (removePeerInternal D ref s))"

definition ExistsPeer :: "u32 \<Rightarrow> 'd AWGTransport \<Rightarrow> bool" where
  "ExistsPeer ip t = sm_Exists (aw_peersByIP t) ip"

text \<open>
  \<^verbatim>\<open>uint64(x)\<close> of a floating-point number drops the fraction; scaling by a power of two is exact. (Outside the range of
  the type the result is implementation-specific in Go; here it wraps.)
\<close>

definition float_u64 :: "rat \<Rightarrow> u64" where
  "float_u64 x = of_int (if 0 \<le> x then \<lfloor>x\<rfloor> else \<lceil>x\<rceil>)"

definition speedLimit :: "model_Peer \<Rightarrow> u64 option" where
  "speedLimit p = map_option (\<lambda>x. float_u64 (x * 1024 * 1024)) (me_SpeedLimitMbps p)"

definition trafficLimit :: "model_Peer \<Rightarrow> u64 option" where
  "trafficLimit p =
     map_option (\<lambda>x. float_u64 (x * 1024 * 1024 * 1024) - (me_FromPeerTotal p + me_ToPeerTotal p)) (me_TrafficLimitGb p)"

text \<open>The object for the routing table: the peer itself, or the peer behind its limits.\<close>

definition peerRoute :: "(u64 \<Rightarrow> nat \<Rightarrow> 'l) \<Rightarrow> model_Peer \<Rightarrow> 'd AWGTransport \<Rightarrow> 'l RoutingObject" where
  "peerRoute newLimiter p t =
     (let ob = \<lparr>ro_NodeID = aw_nodeID t, ro_VirtualIP = me_VirtualIP p, ro_done = aw_done t\<rparr>
      in if me_SpeedLimitMbps p \<noteq> None \<or> me_TrafficLimitGb p \<noteq> None
         then Shaped (NewShapedRoute newLimiter ob (speedLimit p) (trafficLimit p))
         else PlainRoute ob)"

definition addCmd :: "model_Peer \<Rightarrow> string" where
  "addCmd p = cmdLine ''public_key'' (me_AwgPublicKey p) @ cmdLine ''allowed_ip'' (Uint32ToIPString (me_VirtualIP p) @ ''/32'')"

definition CreatePeer ::
  "'d awg_device \<Rightarrow> (u64 \<Rightarrow> nat \<Rightarrow> 'l) \<Rightarrow> gotime \<Rightarrow> model_Peer \<Rightarrow> ('l, 'n, 'd) awg_state \<Rightarrow>
   (awg_error option \<times> ('l, 'n, 'd) awg_state) option" where
  "CreatePeer D newLimiter now p s =
     (case KickPeer D (me_VirtualIP p) s of
        None \<Rightarrow> None
      | Some (_, t0, r0) \<Rightarrow>
          let ref = aw_next t0;
              peer = NewAWGPeer now (aw_nodeID t0) (me_VirtualIP p) (me_AwgPublicKey p) (me_ExpirationDate p);
              t1 = t0\<lparr>aw_heap := gm_set ref peer (aw_heap t0), aw_next := Suc ref\<rparr>;
              (ok, d) = dv_IpcSet D (addCmd p) (aw_device t1);
              t2 = t1\<lparr>aw_device := d\<rparr>
          in if \<not> ok then Some (Some KernelAddFailed, t2, r0)
             else
               let t3 = t2\<lparr>aw_peersByIP := sm_Set (ap_virtualIP peer) ref (aw_peersByIP t2),
                            aw_tunPeers := sm_Set (ap_virtualIP peer) ref (aw_tunPeers t2)\<rparr>
               in case AddRoutingObject (peerRoute newLimiter p t3) r0 of
                    None \<Rightarrow> None
                  | Some (None, r1) \<Rightarrow> Some (None, t3, r1)
                  | Some (Some e, r1) \<Rightarrow> map_option (Pair (Some (RoutingFailed e))) (removePeerInternal D ref (t3, r1)))"

text \<open>
  \<^verbatim>\<open>watchPeers\<close>. A \<^verbatim>\<open>select\<close> evaluates the value it offers before it knows whether the channel takes it, so the counters
  are reset in either case.
\<close>

definition watchPeer ::
  "gotime \<Rightarrow> u32 \<Rightarrow> nat \<Rightarrow> ('d AWGTransport \<times> nat list) option \<Rightarrow> ('d AWGTransport \<times> nat list) option" where
  "watchPeer now ip ref st =
     Option.bind st (\<lambda>(t, toDelete). Option.bind (gm_get (aw_heap t) ref) (\<lambda>peer.
       let toDelete' = (case ap_expiration peer of None \<Rightarrow> toDelete
                        | Some e \<Rightarrow> if e < now then toDelete @ [ref] else toDelete);
           stats = \<lparr>ts_VirtualIP = ap_virtualIP peer, ts_DeltaToPeer = ap_totalToPeer peer,
                    ts_DeltaFromPeer = ap_totalFromPeer peer, ts_LastSeen = ap_lastSeen peer\<rparr>;
           t1 = t\<lparr>aw_heap := gm_set ref (peer\<lparr>ap_totalToPeer := 0, ap_totalFromPeer := 0\<rparr>) (aw_heap t)\<rparr>
       in case try_send stats (aw_deltaChan t1) of
            Sent c \<Rightarrow> Some (t1\<lparr>aw_deltaChan := c\<rparr>, toDelete')
          | Full \<Rightarrow> Some (t1, toDelete')
          | Panic \<Rightarrow> None))"

fun removePeers :: "'d awg_device \<Rightarrow> nat list \<Rightarrow> ('l, 'n, 'd) awg_state \<Rightarrow> ('l, 'n, 'd) awg_state option" where
  "removePeers D [] s = Some s"
| "removePeers D (ref # refs) s = Option.bind (removePeerInternal D ref s) (removePeers D refs)"

definition watchPeers :: "'d awg_device \<Rightarrow> gotime \<Rightarrow> ('l, 'n, 'd) awg_state \<Rightarrow> ('l, 'n, 'd) awg_state option" where
  "watchPeers D now s =
     Option.bind (sm_Foreach (watchPeer now) (aw_peersByIP (fst s)) (Some (fst s, [])))
       (\<lambda>(t, toDelete). removePeers D toDelete (t, snd s))"

text \<open>One round of \<^verbatim>\<open>Run\<close>: the tick, or the end of the context. The first component says whether the loop goes on.\<close>

definition awg_Run_step ::
  "'d awg_device \<Rightarrow> gotime \<Rightarrow> bool \<Rightarrow> ('l, 'n, 'd) awg_state \<Rightarrow> (bool \<times> ('l, 'n, 'd) awg_state) option" where
  "awg_Run_step D now pickDone s =
     (if aw_done (fst s) \<and> pickDone then
        Some (False, (fst s)\<lparr>aw_device := dv_Close D (aw_device (fst s))\<rparr>, snd s)
      else map_option (Pair True) (watchPeers D now s))"

section \<open>Packets to the peers\<close>

definition awg_writePacket :: "bool \<Rightarrow> slice \<Rightarrow> 'd AWGTransport \<Rightarrow> 'd AWGTransport send_outcome" where
  "awg_writePacket pickDone data t =
     (case try_send data (aw_in t) of
        Sent c \<Rightarrow> if aw_done t \<and> pickDone then SendErr else SendOk (t\<lparr>aw_in := c\<rparr>)
      | Full \<Rightarrow> if aw_done t then SendErr else SendBlocks
      | Panic \<Rightarrow> if aw_done t \<and> pickDone then SendErr else SendPanic)"

text \<open>\<^verbatim>\<open>SendDatagram\<close> of a peer object: the counter goes up whatever becomes of the packet.\<close>

definition awg_SendDatagram ::
  "bool \<Rightarrow> nat \<Rightarrow> slice \<Rightarrow> 'd AWGTransport \<Rightarrow> ('d AWGTransport \<times> 'd AWGTransport send_outcome) option" where
  "awg_SendDatagram pickDone ref data t =
     (case gm_get (aw_heap t) ref of
        None \<Rightarrow> None
      | Some peer \<Rightarrow>
          let t1 = t\<lparr>aw_heap := gm_set ref (peer\<lparr>ap_totalToPeer := ap_totalToPeer peer + of_nat (snd data)\<rparr>) (aw_heap t)\<rparr>
          in Some (t1, awg_writePacket pickDone data t1))"

text \<open>\<^verbatim>\<open>copy(dst[offset:], src)\<close> for a source that fits.\<close>

definition copyAt :: "nat \<Rightarrow> bytes \<Rightarrow> bytes \<Rightarrow> bytes" where
  "copyAt offset src dst = take offset dst @ src @ drop (offset + length src) dst"

text \<open>
  \<^verbatim>\<open>ChannelTun.Read\<close>. What the queue holds is copied out at the moment of the read; \<open>arr k\<close> are the packets that arrive
  just before the k-th attempt to receive. The loop runs over the buffers from index \<open>i\<close>; \<open>n\<close> counts the packets
  delivered. \<open>ReadWaits\<close>: the first receive still waits.
\<close>

record tun_read =
  rd_bufs :: "bytes list"
  rd_sizes :: "nat list"
  rd_queue :: "bytes list"

datatype read_result = ReadN nat tun_read | ReadTooLarge tun_read | ReadClosed | ReadWaits | ReadPanic

definition putPacket :: "nat \<Rightarrow> nat \<Rightarrow> bytes \<Rightarrow> tun_read \<Rightarrow> tun_read option" where
  "putPacket offset i pkt st =
     (if i < length (rd_sizes st)
      then Some (st\<lparr>rd_bufs := (rd_bufs st)[i := copyAt offset pkt (rd_bufs st ! i)], rd_sizes := (rd_sizes st)[i := length pkt]\<rparr>)
      else None)"

definition fits :: "nat \<Rightarrow> nat \<Rightarrow> bytes \<Rightarrow> tun_read \<Rightarrow> bool" where
  "fits offset i pkt st = (int (length pkt) \<le> int (length (rd_bufs st ! i)) - int offset)"

lemma putPacket_length: "putPacket offset i pkt st = Some st' \<Longrightarrow> length (rd_bufs st') = length (rd_bufs st)"
  by (auto simp: putPacket_def split: if_splits)

text \<open>Every round moves on to the next buffer.\<close>

function readMore :: "(nat \<Rightarrow> bytes list) \<Rightarrow> nat \<Rightarrow> nat \<Rightarrow> nat \<Rightarrow> nat \<Rightarrow> tun_read \<Rightarrow> read_result" where
  "readMore arr k offset i n st =
     (if \<not> i < length (rd_bufs st) then ReadN n st
      else case rd_queue st @ arr k of
             pkt2 # q \<Rightarrow>
               let st1 = st\<lparr>rd_queue := q\<rparr> in
               if length pkt2 = 0 then readMore arr (Suc k) offset (Suc i) n st1
               else if \<not> fits offset i pkt2 st1 then ReadN n st1
               else (case putPacket offset i pkt2 st1 of
                       None \<Rightarrow> ReadPanic
                     | Some st2 \<Rightarrow> readMore arr (Suc k) offset (Suc i) (Suc n) st2)
           | [] \<Rightarrow>
               if n < 4 then
                 (case arr (Suc k) of
                    pkt2 # q \<Rightarrow>
                      let st1 = st\<lparr>rd_queue := q\<rparr> in
                      if length pkt2 = 0 then ReadN n st1
                      else if \<not> n < length (rd_bufs st1) then ReadPanic
                      else if \<not> fits offset n pkt2 st1 then ReadN n st1
                      else (case putPacket offset n pkt2 st1 of
                              None \<Rightarrow> ReadPanic
                            | Some st2 \<Rightarrow> readMore arr (k + 2) offset (Suc i) (Suc n) st2)
                  | [] \<Rightarrow> ReadN n (st\<lparr>rd_queue := []\<rparr>))
               else ReadN n (st\<lparr>rd_queue := []\<rparr>))"
  by pat_completeness auto

termination
  by (relation "measure (\<lambda>(arr, k, offset, i, n, st). length (rd_bufs st) - i)")
    (auto dest!: putPacket_length)

declare readMore.simps [simp del]

definition tun_Read :: "bool \<Rightarrow> bool \<Rightarrow> (nat \<Rightarrow> bytes list) \<Rightarrow> nat \<Rightarrow> tun_read \<Rightarrow> read_result" where
  "tun_Read ctxDone pickDone arr offset st =
     (case rd_queue st @ arr 0 of
        [] \<Rightarrow> if ctxDone then ReadClosed else ReadWaits
      | pkt # q \<Rightarrow>
          if ctxDone \<and> pickDone then ReadClosed
          else
            let st1 = st\<lparr>rd_queue := q\<rparr> in
            if length pkt = 0 then ReadN 0 st1
            else if rd_bufs st1 = [] then ReadPanic
            else if \<not> fits offset 0 pkt st1 then ReadTooLarge st1
            else (case putPacket offset 0 pkt st1 of
                    None \<Rightarrow> ReadPanic
                  | Some st2 \<Rightarrow> readMore arr 1 offset 1 1 st2))"

section \<open>Packets from the peers\<close>

text \<open>
  \<^verbatim>\<open>ChannelTun.Write\<close>: each decrypted packet is copied into the pool, accounted to the peer with its source address, and
  handed to the router. \<open>choices\<close> are the pool's choices of a recycled object. None: a slice out of range panics, or
  the router's worker queue is full and the call waits.
\<close>

definition seenPeer :: "gotime \<Rightarrow> nat \<Rightarrow> AWGPeer \<Rightarrow> AWGPeer" where
  "seenPeer now n peer =
     (let peer1 = (if now - ap_lastSeen peer > second then peer\<lparr>ap_lastSeen := now\<rparr> else peer)
      in peer1\<lparr>ap_totalFromPeer := ap_totalFromPeer peer1 + of_nat n\<rparr>)"

definition accountFrom :: "gotime \<Rightarrow> u32 \<Rightarrow> nat \<Rightarrow> 'd AWGTransport \<Rightarrow> 'd AWGTransport option" where
  "accountFrom now src n t =
     (case sm_Get (aw_tunPeers t) src of
        None \<Rightarrow> Some t
      | Some ref \<Rightarrow>
          map_option (\<lambda>peer. t\<lparr>aw_heap := gm_set ref (seenPeer now n peer) (aw_heap t)\<rparr>) (gm_get (aw_heap t) ref))"

definition writeOne ::
  "gotime \<Rightarrow> nat option \<Rightarrow> nat \<Rightarrow> bytes \<Rightarrow> ('l, 'n, 'd) awg_state \<Rightarrow> ('l, 'n, 'd) awg_state option" where
  "writeOne now choice offset buf s =
     (if length buf < offset then None
      else
        let pkt = drop offset buf in
        case router_NewMessageCopyFrom choice pkt (snd s) of
          None \<Rightarrow> None
        | Some (Inl _, r) \<Rightarrow> Some (fst s, r)
        | Some (Inr msg, r) \<Rightarrow>
            Option.bind (accountFrom now (hi_SrcIP (msg_hole msg (packetsPool r))) (length pkt) (fst s))
              (\<lambda>t. map_option (Pair t) (HandleTransportPacket msg r)))"

fun writeAll ::
  "gotime \<Rightarrow> nat option list \<Rightarrow> nat \<Rightarrow> bytes list \<Rightarrow> ('l, 'n, 'd) awg_state \<Rightarrow> ('l, 'n, 'd) awg_state option" where
  "writeAll now choices offset [] s = Some s"
| "writeAll now choices offset (buf # bufs) s =
     Option.bind (writeOne now (case choices of [] \<Rightarrow> None | c # _ \<Rightarrow> c) offset buf s) (writeAll now (tl choices) offset bufs)"

text \<open>The number of packets reported is always 0.\<close>

definition tun_Write ::
  "gotime \<Rightarrow> nat option list \<Rightarrow> nat \<Rightarrow> bytes list \<Rightarrow> ('l, 'n, 'd) awg_state \<Rightarrow> (nat \<times> ('l, 'n, 'd) awg_state) option" where
  "tun_Write now choices offset bufs s =
     (if bufs = [] then Some (0, s) else map_option (Pair 0) (writeAll now choices offset bufs s))"

definition tun_Close :: "'d AWGTransport \<Rightarrow> 'd AWGTransport" where
  "tun_Close t = t\<lparr>aw_tunClosed := True\<rparr>"

section \<open>The invariant\<close>

text \<open>The routing changes the transport asks for, in one equation each.\<close>

lemma DeleteRoutingObject_eq:
  assumes "bus_ok (routingsubs r)"
  shows "\<exists>b. DeleteRoutingObject ip r = Some (None, r\<lparr>routingTable := snd (rt_Delete ip (routingTable r)), routingsubs := b\<rparr>) \<and> bus_ok b"
proof (cases "rt_GetByIP ip (routingTable r)")
  case None
  then have "snd (rt_Delete ip (routingTable r)) = routingTable r" by (simp add: rt_Delete_def rt_GetByIP_def)
  with None assms show ?thesis by (intro exI [of _ "routingsubs r"]) (simp add: DeleteRoutingObject_def)
next
  case (Some obj)
  from bus_notify_spec [OF assms, of "\<lparr>re_Type = ClientRemoved, re_VirtualIP = ip, re_NodeID = GetNodeID obj\<rparr>"] obtain b where
    "bus_notify \<lparr>re_Type = ClientRemoved, re_VirtualIP = ip, re_NodeID = GetNodeID obj\<rparr> (routingsubs r) = Some b" "bus_ok b" by blast
  moreover have "fst (rt_Delete ip (routingTable r)) = None" by (simp add: rt_Delete_def)
  ultimately show ?thesis using Some
    by (intro exI [of _ b]) (simp add: DeleteRoutingObject_def notifyRoutingEvent_def split_beta Let_def)
qed

lemma AddRoutingObject_eq:
  assumes "bus_ok (routingsubs r)"
  shows "\<exists>b. AddRoutingObject obj r = Some (fst (rt_Add obj (routingTable r)),
      r\<lparr>routingTable := snd (rt_Add obj (routingTable r)), routingsubs := b\<rparr>) \<and> bus_ok b"
proof (cases "fst (rt_Add obj (routingTable r))")
  case None
  from bus_notify_spec [OF assms, of "\<lparr>re_Type = ClientAdded, re_VirtualIP = GetVirtualIP obj, re_NodeID = GetNodeID obj\<rparr>"] obtain b where
    "bus_notify \<lparr>re_Type = ClientAdded, re_VirtualIP = GetVirtualIP obj, re_NodeID = GetNodeID obj\<rparr> (routingsubs r) = Some b" "bus_ok b" by blast
  with None show ?thesis
    by (intro exI [of _ b]) (simp add: AddRoutingObject_def notifyRoutingEvent_def split_beta Let_def)
next
  case (Some e)
  with assms show ?thesis
    by (intro exI [of _ "routingsubs r"]) (simp add: AddRoutingObject_def split_beta Let_def)
qed

lemma rt_Add_err: "fst (rt_Add obj t) = None \<longleftrightarrow> rt_GetByIP (GetVirtualIP obj) t = None"
  by (simp add: rt_Add_def rt_GetByIP_def)

text \<open>The peer object with an address, and the route to an address.\<close>

definition awg_peer :: "'d AWGTransport \<Rightarrow> u32 \<Rightarrow> AWGPeer option" where
  "awg_peer t ip = Option.bind (sm_Get (aw_peersByIP t) ip) (gm_get (aw_heap t))"

definition route_to :: "('l, 'n) Router \<Rightarrow> u32 \<Rightarrow> 'l RoutingObject option" where
  "route_to r ip = rt_GetByIP ip (routingTable r)"

definition maps_ok :: "'d AWGTransport \<Rightarrow> bool" where
  "maps_ok t \<longleftrightarrow> sm_wf (aw_peersByIP t) \<and> sm_wf (aw_tunPeers t) \<and>
     (\<forall>ip. sm_Get (aw_tunPeers t) ip = sm_Get (aw_peersByIP t) ip) \<and>
     (\<forall>ip ref. sm_Get (aw_peersByIP t) ip = Some ref \<longrightarrow> (\<exists>p. gm_get (aw_heap t) ref = Some p \<and> ap_virtualIP p = ip)) \<and>
     (\<forall>ref \<ge> aw_next t. gm_get (aw_heap t) ref = None) \<and> \<not> ch_closed (aw_deltaChan t) \<and> chan_ok (aw_deltaChan t)"

definition awg_wf :: "('l, 'n, 'd) awg_state \<Rightarrow> bool" where
  "awg_wf s \<longleftrightarrow> maps_ok (fst s) \<and> bus_ok (routingsubs (snd s)) \<and> rt_ok (routingTable (snd s))"

text \<open>Every peer of the transport has its route, and it is a route to this node.\<close>

definition awg_ok :: "('l, 'n, 'd) awg_state \<Rightarrow> bool" where
  "awg_ok s \<longleftrightarrow> awg_wf s \<and>
     (\<forall>ip. ExistsPeer ip (fst s) \<longrightarrow> (\<exists>obj. route_to (snd s) ip = Some obj \<and> GetNodeID obj = aw_nodeID (fst s)))"

lemma ExistsPeer_iff: "ExistsPeer ip t \<longleftrightarrow> sm_Get (aw_peersByIP t) ip \<noteq> None"
  by (simp add: ExistsPeer_def sm_Exists_iff)

lemma maps_okD:
  assumes "maps_ok t"
  shows "sm_wf (aw_peersByIP t)" "sm_wf (aw_tunPeers t)" "sm_Get (aw_tunPeers t) ip = sm_Get (aw_peersByIP t) ip"
    "sm_Get (aw_peersByIP t) ip = Some ref \<Longrightarrow> \<exists>p. gm_get (aw_heap t) ref = Some p \<and> ap_virtualIP p = ip"
    "aw_next t \<le> ref \<Longrightarrow> gm_get (aw_heap t) ref = None" "\<not> ch_closed (aw_deltaChan t)" "chan_ok (aw_deltaChan t)"
  using assms by (auto simp: maps_ok_def)

lemma ExistsPeer_peer: "awg_ok s \<Longrightarrow> ExistsPeer ip (fst s) \<longleftrightarrow> awg_peer (fst s) ip \<noteq> None"
  using maps_okD(4) [of "fst s" ip] by (auto simp: awg_ok_def awg_wf_def ExistsPeer_iff awg_peer_def bind_eq_None_conv)

text \<open>Removing an object that the heap holds: its address leaves both maps and the routing table.\<close>

lemma removePeerInternal_spec:
  assumes "awg_wf s" and "gm_get (aw_heap (fst s)) ref = Some p"
  shows "\<exists>s'. removePeerInternal D ref s = Some s' \<and> awg_wf s' \<and>
    aw_peersByIP (fst s') = sm_Delete (ap_virtualIP p) (aw_peersByIP (fst s)) \<and> aw_heap (fst s') = aw_heap (fst s) \<and>
    aw_next (fst s') = aw_next (fst s) \<and> aw_nodeID (fst s') = aw_nodeID (fst s) \<and> aw_deltaChan (fst s') = aw_deltaChan (fst s) \<and>
    aw_done (fst s') = aw_done (fst s) \<and>
    (\<forall>ip. route_to (snd s') ip = (if ip = ap_virtualIP p then None else route_to (snd s) ip))"
proof -
  from DeleteRoutingObject_eq [of "snd s" "ap_virtualIP p"] assms(1) obtain b where
    d: "DeleteRoutingObject (ap_virtualIP p) (snd s) = Some (None, (snd s)\<lparr>routingTable := snd (rt_Delete (ap_virtualIP p) (routingTable (snd s))), routingsubs := b\<rparr>)"
    "bus_ok b" by (auto simp: awg_wf_def)
  show ?thesis
    using assms d rt_ok_Delete [of "routingTable (snd s)" "ap_virtualIP p"]
    by (auto simp: removePeerInternal_def awg_wf_def maps_ok_def route_to_def rt_GetByIP_Delete)
qed

text \<open>\<open>awg_ok\<close> of a state in which only one address changed.\<close>

lemma awg_ok_frame:
  assumes "awg_ok s" and "awg_wf s'" and "aw_nodeID (fst s') = aw_nodeID (fst s)"
    and "\<And>ip. ip \<noteq> a \<Longrightarrow> ExistsPeer ip (fst s') = ExistsPeer ip (fst s) \<and> route_to (snd s') ip = route_to (snd s) ip"
    and "ExistsPeer a (fst s') \<Longrightarrow> \<exists>obj. route_to (snd s') a = Some obj \<and> GetNodeID obj = aw_nodeID (fst s')"
  shows "awg_ok s'"
  using assms by (auto simp: awg_ok_def) metis

theorem KickPeer_spec:
  assumes "awg_ok s"
  shows "\<exists>s'. KickPeer D ip s = Some (ExistsPeer ip (fst s), s') \<and> awg_ok s' \<and> \<not> ExistsPeer ip (fst s') \<and>
    aw_heap (fst s') = aw_heap (fst s) \<and> aw_next (fst s') = aw_next (fst s) \<and> aw_nodeID (fst s') = aw_nodeID (fst s) \<and>
    aw_done (fst s') = aw_done (fst s) \<and> aw_deltaChan (fst s') = aw_deltaChan (fst s) \<and>
    (\<forall>k. sm_Get (aw_peersByIP (fst s')) k = (if k = ip then None else sm_Get (aw_peersByIP (fst s)) k)) \<and>
    (\<forall>k. route_to (snd s') k = (if k = ip \<and> ExistsPeer ip (fst s) then None else route_to (snd s) k))"
proof (cases "sm_Get (aw_peersByIP (fst s)) ip")
  case None
  with assms show ?thesis by (auto simp: KickPeer_def ExistsPeer_iff)
next
  case (Some ref)
  have wf: "awg_wf s" using assms by (simp add: awg_ok_def)
  with Some obtain p where p: "gm_get (aw_heap (fst s)) ref = Some p" "ap_virtualIP p = ip"
    using maps_okD(4) by (fastforce simp: awg_wf_def)
  from removePeerInternal_spec [OF wf p(1), of D] p(2) obtain s' where
    s': "removePeerInternal D ref s = Some s'" "awg_wf s'" "aw_peersByIP (fst s') = sm_Delete ip (aw_peersByIP (fst s))"
    "aw_heap (fst s') = aw_heap (fst s)" "aw_next (fst s') = aw_next (fst s)" "aw_nodeID (fst s') = aw_nodeID (fst s)"
    "aw_deltaChan (fst s') = aw_deltaChan (fst s)" "aw_done (fst s') = aw_done (fst s)"
    "\<forall>k. route_to (snd s') k = (if k = ip then None else route_to (snd s) k)" by auto
  have "awg_ok s'" by (rule awg_ok_frame [OF assms s'(2,6), of ip]) (use s' in \<open>auto simp: ExistsPeer_iff\<close>)
  with s' Some show ?thesis by (auto simp: KickPeer_def ExistsPeer_iff)
qed


section \<open>Creating a peer\<close>

lemma GetVirtualIP_peerRoute [simp]: "GetVirtualIP (peerRoute nl p t) = me_VirtualIP p"
  and GetNodeID_peerRoute [simp]: "GetNodeID (peerRoute nl p t) = aw_nodeID t"
  by (simp_all add: peerRoute_def GetVirtualIP_def GetNodeID_def NewShapedRoute_def Let_def)

lemma peerRoute_cong:
  "aw_nodeID t = aw_nodeID t' \<Longrightarrow> aw_done t = aw_done t' \<Longrightarrow> peerRoute nl p t = peerRoute nl p t'"
  by (simp add: peerRoute_def)

text \<open>The two things that can go wrong: the device refuses the peer, or the address is routed elsewhere.\<close>

definition kernel_takes :: "'d awg_device \<Rightarrow> model_Peer \<Rightarrow> ('l, 'n, 'd) awg_state \<Rightarrow> bool" where
  "kernel_takes D p s =
     (case KickPeer D (me_VirtualIP p) s of None \<Rightarrow> False | Some (_, s0) \<Rightarrow> fst (dv_IpcSet D (addCmd p) (aw_device (fst s0))))"

definition foreign_route :: "u32 \<Rightarrow> ('l, 'n, 'd) awg_state \<Rightarrow> bool" where
  "foreign_route ip s \<longleftrightarrow> \<not> ExistsPeer ip (fst s) \<and> route_to (snd s) ip \<noteq> None"

text \<open>The transport with a new object in the heap, and with that object in both maps.\<close>

definition alloc :: "AWGPeer \<Rightarrow> 'd \<Rightarrow> 'd AWGTransport \<Rightarrow> 'd AWGTransport" where
  "alloc peer d t = t\<lparr>aw_heap := gm_set (aw_next t) peer (aw_heap t), aw_next := Suc (aw_next t), aw_device := d\<rparr>"

definition enlist :: "AWGPeer \<Rightarrow> 'd \<Rightarrow> 'd AWGTransport \<Rightarrow> 'd AWGTransport" where
  "enlist peer d t = (alloc peer d t)\<lparr>aw_peersByIP := sm_Set (ap_virtualIP peer) (aw_next t) (aw_peersByIP t),
     aw_tunPeers := sm_Set (ap_virtualIP peer) (aw_next t) (aw_tunPeers t)\<rparr>"

lemma maps_ok_used: "maps_ok t \<Longrightarrow> sm_Get (aw_peersByIP t) ip = Some ref \<Longrightarrow> ref < aw_next t"
  using maps_okD(4) [of t ip ref] maps_okD(5) [of t ref] by (cases "ref < aw_next t") auto

lemma alloc_sel [simp]:
  "aw_peersByIP (alloc peer d t) = aw_peersByIP t" "aw_nodeID (alloc peer d t) = aw_nodeID t" "aw_done (alloc peer d t) = aw_done t"
  "aw_nodeID (enlist peer d t) = aw_nodeID t" "aw_done (enlist peer d t) = aw_done t"
  "aw_peersByIP (enlist peer d t) = sm_Set (ap_virtualIP peer) (aw_next t) (aw_peersByIP t)"
  "gm_get (aw_heap (enlist peer d t)) (aw_next t) = Some peer"
  by (simp_all add: alloc_def enlist_def)

lemma maps_ok_alloc:
  assumes "maps_ok t" shows "maps_ok (alloc peer d t)" and "awg_peer (alloc peer d t) k = awg_peer t k"
proof -
  have old: "gm_get (aw_heap (alloc peer d t)) ref = gm_get (aw_heap t) ref" if "sm_Get (aw_peersByIP t) k = Some ref" for k ref
    using maps_ok_used [OF assms that] by (simp add: alloc_def)
  show "maps_ok (alloc peer d t)" using assms old by (auto simp: maps_ok_def) (auto simp: alloc_def)
  show "awg_peer (alloc peer d t) k = awg_peer t k"
    using old by (cases "sm_Get (aw_peersByIP t) k") (simp_all add: awg_peer_def)
qed

lemma maps_ok_enlist:
  assumes "maps_ok t"
  shows "maps_ok (enlist peer d t)" and "awg_peer (enlist peer d t) k = (if k = ap_virtualIP peer then Some peer else awg_peer t k)"
proof -
  have old: "gm_get (aw_heap (enlist peer d t)) ref = gm_get (aw_heap t) ref" if "sm_Get (aw_peersByIP t) k = Some ref" for k ref
    using maps_ok_used [OF assms that] by (simp add: alloc_def enlist_def)
  show "maps_ok (enlist peer d t)" using assms old by (auto simp: maps_ok_def) (auto simp: alloc_def enlist_def)
  show "awg_peer (enlist peer d t) k = (if k = ap_virtualIP peer then Some peer else awg_peer t k)"
    using old by (cases "sm_Get (aw_peersByIP t) k") (simp_all add: awg_peer_def)
qed

text \<open>\<^verbatim>\<open>CreatePeer\<close> after the kick, in these terms.\<close>

lemma CreatePeer_eq:
  assumes "KickPeer D (me_VirtualIP p) s = Some (b, t0, r0)" and "bus_ok (routingsubs r0)"
    and "peer = NewAWGPeer now (aw_nodeID t0) (me_VirtualIP p) (me_AwgPublicKey p) (me_ExpirationDate p)"
    and "d = snd (dv_IpcSet D (addCmd p) (aw_device t0))"
  shows "\<exists>b. bus_ok b \<and> CreatePeer D nl now p s =
    (let obj = peerRoute nl p t0; r1 = r0\<lparr>routingTable := snd (rt_Add obj (routingTable r0)), routingsubs := b\<rparr> in
     if \<not> kernel_takes D p s then Some (Some KernelAddFailed, alloc peer d t0, r0)
     else case fst (rt_Add obj (routingTable r0)) of
            None \<Rightarrow> Some (None, enlist peer d t0, r1)
          | Some e \<Rightarrow> map_option (Pair (Some (RoutingFailed e))) (removePeerInternal D (aw_next t0) (enlist peer d t0, r1)))"
proof -
  have obj: "peerRoute nl p (enlist peer d t0) = peerRoute nl p t0" by (rule peerRoute_cong) simp_all
  from AddRoutingObject_eq [OF assms(2), of "peerRoute nl p (enlist peer d t0)"] obtain b' where
    b': "bus_ok b'" "AddRoutingObject (peerRoute nl p (enlist peer d t0)) r0 = Some (fst (rt_Add (peerRoute nl p t0) (routingTable r0)),
      r0\<lparr>routingTable := snd (rt_Add (peerRoute nl p t0) (routingTable r0)), routingsubs := b'\<rparr>)" by (auto simp: obj)
  from assms(3) have vip: "ap_virtualIP peer = me_VirtualIP p" by (simp add: NewAWGPeer_def)
  have "CreatePeer D nl now p s = (if \<not> kernel_takes D p s then Some (Some KernelAddFailed, alloc peer d t0, r0)
     else case AddRoutingObject (peerRoute nl p (enlist peer d t0)) r0 of None \<Rightarrow> None
          | Some (None, r1) \<Rightarrow> Some (None, enlist peer d t0, r1)
          | Some (Some e, r1) \<Rightarrow> map_option (Pair (Some (RoutingFailed e))) (removePeerInternal D (aw_next t0) (enlist peer d t0, r1)))"
    using assms(1) vip by (simp add: CreatePeer_def kernel_takes_def alloc_def enlist_def assms(3) [symmetric] assms(4) Let_def split_beta split: option.split)
  with b' show ?thesis by (intro exI [of _ b']) (simp split: option.split)
qed

text \<open>What \<^verbatim>\<open>CreatePeer\<close> leaves behind, from a state in which the address is not in use by the transport.\<close>

definition created ::
  "(u64 \<Rightarrow> nat \<Rightarrow> 'l) \<Rightarrow> gotime \<Rightarrow> model_Peer \<Rightarrow> bool \<Rightarrow> ('l, 'n, 'd) awg_state \<Rightarrow> awg_error option \<Rightarrow> ('l, 'n, 'd) awg_state \<Rightarrow> bool" where
  "created nl now p kernelOk s err s' \<longleftrightarrow>
     awg_ok s' \<and> aw_nodeID (fst s') = aw_nodeID (fst s) \<and>
     err = (if \<not> kernelOk then Some KernelAddFailed
            else if foreign_route (me_VirtualIP p) s then Some (RoutingFailed (RecordExists (me_VirtualIP p))) else None) \<and>
     (\<forall>k. awg_peer (fst s') k = (if k = me_VirtualIP p then
         (if err = None then Some (NewAWGPeer now (aw_nodeID (fst s)) k (me_AwgPublicKey p) (me_ExpirationDate p)) else None)
         else awg_peer (fst s) k)) \<and>
     (\<forall>k. route_to (snd s') k = (if k = me_VirtualIP p then
         (if err = None then Some (peerRoute nl p (fst s)) else if kernelOk \<or> ExistsPeer k (fst s) then None else route_to (snd s) k)
         else route_to (snd s) k)) \<and>
     (\<forall>k. ExistsPeer k (fst s') = (if k = me_VirtualIP p then err = None else ExistsPeer k (fst s)))"

lemma CreatePeer_after_kick:
  assumes ok: "awg_ok (t0, r0)" and kick: "KickPeer D (me_VirtualIP p) s = Some (b, t0, r0)" and new: "\<not> ExistsPeer (me_VirtualIP p) t0"
  shows "\<exists>err s'. CreatePeer D nl now p s = Some (err, s') \<and> created nl now p (kernel_takes D p s) (t0, r0) err s'"
proof -
  let ?ip = "me_VirtualIP p" and ?obj = "peerRoute nl p t0"
  define peer where "peer = NewAWGPeer now (aw_nodeID t0) ?ip (me_AwgPublicKey p) (me_ExpirationDate p)"
  define d where "d = snd (dv_IpcSet D (addCmd p) (aw_device t0))"
  have vip: "ap_virtualIP peer = ?ip" by (simp add: peer_def NewAWGPeer_def)
  have m: "maps_ok t0" and bus: "bus_ok (routingsubs r0)" and rt: "rt_ok (routingTable r0)"
    using ok by (simp_all add: awg_ok_def awg_wf_def)
  have none: "awg_peer t0 ?ip = None" using new by (simp add: awg_peer_def ExistsPeer_iff)
  from CreatePeer_eq [OF kick bus peer_def d_def, of nl] obtain b' where b': "bus_ok b'" and
    c: "CreatePeer D nl now p s = (let r1 = r0\<lparr>routingTable := snd (rt_Add ?obj (routingTable r0)), routingsubs := b'\<rparr> in
     if \<not> kernel_takes D p s then Some (Some KernelAddFailed, alloc peer d t0, r0)
     else case fst (rt_Add ?obj (routingTable r0)) of
            None \<Rightarrow> Some (None, enlist peer d t0, r1)
          | Some e \<Rightarrow> map_option (Pair (Some (RoutingFailed e))) (removePeerInternal D (aw_next t0) (enlist peer d t0, r1)))"
    by (auto simp: Let_def)
  let ?r1 = "r0\<lparr>routingTable := snd (rt_Add ?obj (routingTable r0)), routingsubs := b'\<rparr>"
  have wf3: "awg_wf (enlist peer d t0, ?r1)"
    using maps_ok_enlist(1) [OF m] b' rt rt_ok_Add [of "routingTable r0" ?obj] by (simp add: awg_wf_def)
  consider "\<not> kernel_takes D p s" | "kernel_takes D p s" "route_to r0 ?ip = None" | obj' where "kernel_takes D p s" "route_to r0 ?ip = Some obj'"
    by fastforce
  then show ?thesis
  proof cases
    case 1
    have wf: "awg_wf (alloc peer d t0, r0)" using maps_ok_alloc(1) [OF m] bus rt by (simp add: awg_wf_def)
    have "awg_ok (alloc peer d t0, r0)" by (rule awg_ok_frame [OF ok wf, of ?ip]) (use new in \<open>auto simp: ExistsPeer_iff\<close>)
    with 1 c none new maps_ok_alloc(2) [OF m] show ?thesis by (auto simp: created_def ExistsPeer_iff)
  next
    case 2
    then have e: "fst (rt_Add ?obj (routingTable r0)) = None" by (simp add: rt_Add_err route_to_def)
    have r: "route_to ?r1 k = (if k = ?ip then Some ?obj else route_to r0 k)" for k
      using 2 by (auto simp: route_to_def rt_GetByIP_Add split: option.splits)
    have "awg_ok (enlist peer d t0, ?r1)"
      by (rule awg_ok_frame [OF ok wf3, of ?ip]) (use r vip in \<open>auto simp: ExistsPeer_iff\<close>)
    with 2 c e r vip maps_ok_enlist(2) [OF m] show ?thesis by (auto simp: created_def foreign_route_def ExistsPeer_iff peer_def)
  next
    case 3
    then have e: "fst (rt_Add ?obj (routingTable r0)) = Some (RecordExists ?ip)" "snd (rt_Add ?obj (routingTable r0)) = routingTable r0"
      by (simp_all add: rt_Add_def route_to_def rt_GetByIP_def)
    from removePeerInternal_spec [OF wf3, of "aw_next t0" peer D] vip obtain s' where
      s': "removePeerInternal D (aw_next t0) (enlist peer d t0, ?r1) = Some s'" "awg_wf s'"
      "aw_peersByIP (fst s') = sm_Delete ?ip (aw_peersByIP (enlist peer d t0))" "aw_heap (fst s') = aw_heap (enlist peer d t0)"
      "aw_nodeID (fst s') = aw_nodeID t0" "\<forall>k. route_to (snd s') k = (if k = ?ip then None else route_to r0 k)"
      using e(2) by (auto simp: route_to_def)
    have p: "awg_peer (fst s') k = (if k = ?ip then None else awg_peer t0 k)" for k
      using maps_ok_enlist(2) [OF m, of peer d k] s'(3,4) vip by (cases "k = ?ip") (simp_all add: awg_peer_def)
    have "awg_ok s'" by (rule awg_ok_frame [OF ok s'(2), of ?ip]) (use s' vip in \<open>auto simp: ExistsPeer_iff\<close>)
    with 3 c e s' vip new p show ?thesis by (auto simp: created_def foreign_route_def ExistsPeer_iff)
  qed
qed

lemma CreatePeer_spec:
  assumes "awg_ok s"
  shows "\<exists>err s'. CreatePeer D nl now p s = Some (err, s') \<and> created nl now p (kernel_takes D p s) s err s'"
proof -
  let ?ip = "me_VirtualIP p"
  from KickPeer_spec [OF assms, of D ?ip] obtain t0 r0 where
    k: "KickPeer D ?ip s = Some (ExistsPeer ?ip (fst s), t0, r0)" "awg_ok (t0, r0)" "\<not> ExistsPeer ?ip t0"
    "aw_heap t0 = aw_heap (fst s)" "aw_nodeID t0 = aw_nodeID (fst s)" "aw_done t0 = aw_done (fst s)"
    "\<forall>k. sm_Get (aw_peersByIP t0) k = (if k = ?ip then None else sm_Get (aw_peersByIP (fst s)) k)"
    "\<forall>k. route_to r0 k = (if k = ?ip \<and> ExistsPeer ?ip (fst s) then None else route_to (snd s) k)" by auto
  have obj: "peerRoute nl p t0 = peerRoute nl p (fst s)" by (rule peerRoute_cong) (use k in simp_all)
  have other: "awg_peer t0 a = awg_peer (fst s) a" "ExistsPeer a t0 = ExistsPeer a (fst s)" if "a \<noteq> ?ip" for a
    using k(4,7) that by (simp_all add: awg_peer_def ExistsPeer_iff)
  have "created nl now p o1 (t0, r0) err s' \<Longrightarrow> created nl now p o1 s err s'" for o1 err s'
    using k(3,5,8) obj other by (auto simp: created_def foreign_route_def)
  with CreatePeer_after_kick [OF k(2,1,3), of nl now] show ?thesis by blast
qed

section \<open>The watchdog\<close>

definition past :: "gotime \<Rightarrow> AWGPeer \<Rightarrow> bool" where
  "past now p = (case ap_expiration p of None \<Rightarrow> False | Some e \<Rightarrow> e < now)"

definition peer_stats :: "AWGPeer \<Rightarrow> TransportPeerStats" where
  "peer_stats p = \<lparr>ts_VirtualIP = ap_virtualIP p, ts_DeltaToPeer = ap_totalToPeer p, ts_DeltaFromPeer = ap_totalFromPeer p,
     ts_LastSeen = ap_lastSeen p\<rparr>"

definition reset :: "AWGPeer \<Rightarrow> AWGPeer" where
  "reset p = p\<lparr>ap_totalToPeer := 0, ap_totalFromPeer := 0\<rparr>"

lemma reset_sel [simp]: "ap_virtualIP (reset p) = ap_virtualIP p" "ap_totalToPeer (reset p) = 0" "ap_totalFromPeer (reset p) = 0"
  by (simp_all add: reset_def)

definition peerAt :: "'d AWGTransport \<Rightarrow> nat \<Rightarrow> AWGPeer" where
  "peerAt t ref = the (gm_get (aw_heap t) ref)"

text \<open>A channel after offers that never wait: it takes what it has room for.\<close>

definition offered :: "'a list \<Rightarrow> 'a chan \<Rightarrow> 'a chan" where
  "offered xs c = c\<lparr>ch_buf := ch_buf c @ take (ch_cap c - length (ch_buf c)) xs\<rparr>"

lemma offered_Nil [simp]: "offered [] c = c"
  by (simp add: offered_def)

lemma offered_sel [simp]: "ch_closed (offered xs c) = ch_closed c" "ch_cap (offered xs c) = ch_cap c"
  by (simp_all add: offered_def)

lemma chan_ok_offered: "chan_ok c \<Longrightarrow> chan_ok (offered xs c)"
  by (auto simp: chan_ok_def offered_def)

lemma offered_Cons:
  assumes "\<not> ch_closed c" and "chan_ok c"
  shows "offered (x # xs) c = (case try_send x c of Sent c' \<Rightarrow> offered xs c' | _ \<Rightarrow> offered xs c)"
proof (cases "length (ch_buf c) < ch_cap c")
  case True
  then have "ch_cap c - length (ch_buf c) = Suc (ch_cap c - Suc (length (ch_buf c)))" by simp
  with True assms show ?thesis by (simp add: try_send_def offered_def)
next
  case False
  with assms show ?thesis by (simp add: try_send_def offered_def chan_ok_def)
qed

lemma watchPeer_eq:
  assumes "gm_get (aw_heap t) ref = Some p" and "\<not> ch_closed (aw_deltaChan t)" and "chan_ok (aw_deltaChan t)"
  shows "watchPeer now ip ref (Some (t, del)) =
    Some (t\<lparr>aw_heap := gm_set ref (reset p) (aw_heap t), aw_deltaChan := offered [peer_stats p] (aw_deltaChan t)\<rparr>,
          if past now p then del @ [ref] else del)"
  using assms offered_Cons [OF assms(2,3), of "peer_stats p" "[]"] try_send_open [OF assms(2), of "peer_stats p"]
  by (auto simp: watchPeer_def reset_def peer_stats_def past_def Let_def split: option.split send_result.split)

lemma watch_fold:
  assumes "distinct (map snd xs)" and "\<forall>ref \<in> set (map snd xs). gm_get (aw_heap t) ref \<noteq> None"
    and "\<not> ch_closed (aw_deltaChan t)" and "chan_ok (aw_deltaChan t)"
  shows "\<exists>h. fold (\<lambda>(k, v). watchPeer now k v) xs (Some (t, del)) =
      Some (t\<lparr>aw_heap := h, aw_deltaChan := offered (map (peer_stats \<circ> peerAt t) (map snd xs)) (aw_deltaChan t)\<rparr>,
            del @ filter (past now \<circ> peerAt t) (map snd xs)) \<and>
    (\<forall>ref. gm_get h ref = (if ref \<in> set (map snd xs) then map_option reset (gm_get (aw_heap t) ref) else gm_get (aw_heap t) ref))"
  using assms
proof (induction xs arbitrary: t del)
  case Nil
  then show ?case by (intro exI [of _ "aw_heap t"]) simp
next
  case (Cons x xs)
  obtain ip ref where x: "x = (ip, ref)" by (cases x)
  obtain p where p: "gm_get (aw_heap t) ref = Some p" using Cons.prems(2) by (auto simp: x)
  define t1 where "t1 = t\<lparr>aw_heap := gm_set ref (reset p) (aw_heap t), aw_deltaChan := offered [peer_stats p] (aw_deltaChan t)\<rparr>"
  have new: "ref \<notin> set (map snd xs)" using Cons.prems(1) by (simp add: x)
  have same: "peerAt t1 q = peerAt t q" if "q \<in> set (map snd xs)" for q using that new by (auto simp: peerAt_def t1_def)
  have prem: "distinct (map snd xs)" "\<forall>q \<in> set (map snd xs). gm_get (aw_heap t1) q \<noteq> None" "\<not> ch_closed (aw_deltaChan t1)" "chan_ok (aw_deltaChan t1)"
    using Cons.prems chan_ok_offered [OF Cons.prems(4)] by (simp_all add: t1_def)
  obtain h where
    h: "fold (\<lambda>(k, v). watchPeer now k v) xs (Some (t1, if past now p then del @ [ref] else del)) =
      Some (t1\<lparr>aw_heap := h, aw_deltaChan := offered (map (peer_stats \<circ> peerAt t1) (map snd xs)) (aw_deltaChan t1)\<rparr>,
            (if past now p then del @ [ref] else del) @ filter (past now \<circ> peerAt t1) (map snd xs))"
    "\<forall>q. gm_get h q = (if q \<in> set (map snd xs) then map_option reset (gm_get (aw_heap t1) q) else gm_get (aw_heap t1) q)"
    using Cons.IH [OF prem, of "if past now p then del @ [ref] else del"] by blast
  have m: "map (peer_stats \<circ> peerAt t1) (map snd xs) = map (peer_stats \<circ> peerAt t) (map snd xs)" using same by simp
  have f: "filter (past now \<circ> peerAt t1) (map snd xs) = filter (past now \<circ> peerAt t) (map snd xs)" using same by (intro filter_cong) simp_all
  have o: "offered ys (offered [peer_stats p] (aw_deltaChan t)) = offered (peer_stats p # ys) (aw_deltaChan t)" for ys
    using offered_Cons [OF Cons.prems(3,4)] try_send_open [OF Cons.prems(3), of "peer_stats p"]
    by (simp split: send_result.split)
  have "peerAt t ref = p" using p by (simp add: peerAt_def)
  moreover have "fold (\<lambda>(k, v). watchPeer now k v) (x # xs) (Some (t, del)) =
      Some (t1\<lparr>aw_heap := h, aw_deltaChan := offered (map (peer_stats \<circ> peerAt t) (map snd xs)) (aw_deltaChan t1)\<rparr>,
            (if past now p then del @ [ref] else del) @ filter (past now \<circ> peerAt t) (map snd xs))"
    using h(1) watchPeer_eq [OF p Cons.prems(3,4), of now ip del, folded t1_def] by (simp only: x m f fold_Cons o_apply prod.case)
  ultimately show ?case
    using h(2) o new p by (intro exI [of _ h]) (simp add: x t1_def comp_def)
qed

text \<open>Removing a list of peers.\<close>

lemma removePeers_spec:
  assumes "awg_wf s" and "\<forall>ref \<in> set refs. gm_get (aw_heap (fst s)) ref \<noteq> None"
  shows "\<exists>s'. removePeers D refs s = Some s' \<and> awg_wf s' \<and> aw_heap (fst s') = aw_heap (fst s) \<and>
    aw_nodeID (fst s') = aw_nodeID (fst s) \<and> aw_deltaChan (fst s') = aw_deltaChan (fst s) \<and>
    (\<forall>ip. sm_Get (aw_peersByIP (fst s')) ip = (if ip \<in> ap_virtualIP ` peerAt (fst s) ` set refs then None else sm_Get (aw_peersByIP (fst s)) ip)) \<and>
    (\<forall>ip. route_to (snd s') ip = (if ip \<in> ap_virtualIP ` peerAt (fst s) ` set refs then None else route_to (snd s) ip))"
  using assms
proof (induction refs arbitrary: s)
  case Nil
  then show ?case by simp
next
  case (Cons ref refs)
  obtain p where p: "gm_get (aw_heap (fst s)) ref = Some p" using Cons.prems(2) by auto
  from removePeerInternal_spec [OF Cons.prems(1) p, of D] obtain s1 where
    s1: "removePeerInternal D ref s = Some s1" "awg_wf s1" "aw_peersByIP (fst s1) = sm_Delete (ap_virtualIP p) (aw_peersByIP (fst s))"
    "aw_heap (fst s1) = aw_heap (fst s)" "aw_nodeID (fst s1) = aw_nodeID (fst s)" "aw_deltaChan (fst s1) = aw_deltaChan (fst s)"
    "\<forall>ip. route_to (snd s1) ip = (if ip = ap_virtualIP p then None else route_to (snd s) ip)" by blast
  have "\<forall>ref \<in> set refs. gm_get (aw_heap (fst s1)) ref \<noteq> None" using Cons.prems(2) by (simp add: s1(4))
  from Cons.IH [OF s1(2) this] obtain s' where
    s': "removePeers D refs s1 = Some s'" "awg_wf s'" "aw_heap (fst s') = aw_heap (fst s1)" "aw_nodeID (fst s') = aw_nodeID (fst s1)"
    "aw_deltaChan (fst s') = aw_deltaChan (fst s1)"
    "\<forall>ip. sm_Get (aw_peersByIP (fst s')) ip = (if ip \<in> ap_virtualIP ` peerAt (fst s1) ` set refs then None else sm_Get (aw_peersByIP (fst s1)) ip)"
    "\<forall>ip. route_to (snd s') ip = (if ip \<in> ap_virtualIP ` peerAt (fst s1) ` set refs then None else route_to (snd s1) ip)" by blast
  have "peerAt (fst s1) = peerAt (fst s)" "peerAt (fst s) ref = p" using p s1(4) by (auto simp: peerAt_def)
  with s1 s' show ?case by (intro exI [of _ s']) auto
qed

text \<open>The pointers of the transport are one per address.\<close>

lemma peer_refs:
  assumes "maps_ok t"
  shows "distinct (map snd (sm_data (aw_peersByIP t)))"
    and "ref \<in> set (map snd (sm_data (aw_peersByIP t))) \<Longrightarrow> gm_get (aw_heap t) ref \<noteq> None"
    and "ref \<in> set (map snd (sm_data (aw_peersByIP t))) \<longleftrightarrow> (\<exists>ip. sm_Get (aw_peersByIP t) ip = Some ref)"
proof -
  let ?m = "sm_data (aw_peersByIP t)"
  have wf: "gm_wf ?m" using maps_okD(1) [OF assms] by (simp add: sm_wf_def)
  have iff: "(ip, ref) \<in> set ?m \<longleftrightarrow> sm_Get (aw_peersByIP t) ip = Some ref" for ip ref
    using gm_in_set_iff [OF wf] by (simp add: sm_Get_def)
  have "inj_on snd (set ?m)"
  proof (rule inj_onI)
    fix x y assume xy: "x \<in> set ?m" "y \<in> set ?m" "snd x = snd y"
    obtain a ref b where x: "x = (a, ref)" "y = (b, ref)" using xy(3) by (cases x, cases y) auto
    with xy iff have "sm_Get (aw_peersByIP t) a = Some ref" "sm_Get (aw_peersByIP t) b = Some ref" by simp_all
    from this [THEN maps_okD(4) [OF assms]] x show "x = y" by auto
  qed
  moreover have "distinct ?m" using wf by (simp add: gm_wf_def distinct_map)
  ultimately show "distinct (map snd ?m)" by (simp add: distinct_map)
  show *: "ref \<in> set (map snd ?m) \<longleftrightarrow> (\<exists>ip. sm_Get (aw_peersByIP t) ip = Some ref)" for ref
    by (force simp: iff [symmetric])
  show "ref \<in> set (map snd ?m) \<Longrightarrow> gm_get (aw_heap t) ref \<noteq> None" using * maps_okD(4) [OF assms] by fastforce
qed

lemma past_addresses:
  assumes m: "maps_ok t" and f: "\<And>ref. ref \<in> set (map snd (sm_data (aw_peersByIP t))) \<Longrightarrow> ap_virtualIP (f ref) = ap_virtualIP (peerAt t ref)"
  shows "ip \<in> ap_virtualIP ` f ` set (filter (past now \<circ> peerAt t) (map snd (sm_data (aw_peersByIP t)))) \<longleftrightarrow>
    (\<exists>p. awg_peer t ip = Some p \<and> past now p)"
proof
  note refs = peer_refs [OF m]
  let ?refs = "map snd (sm_data (aw_peersByIP t))"
  { assume "ip \<in> ap_virtualIP ` f ` set (filter (past now \<circ> peerAt t) ?refs)"
    then obtain ref where ref: "ref \<in> set ?refs" "past now (peerAt t ref)" "ip = ap_virtualIP (f ref)" by auto
    then obtain k where k: "sm_Get (aw_peersByIP t) k = Some ref" using refs(3) by blast
    with maps_okD(4) [OF m k] ref f [OF ref(1)] show "\<exists>p. awg_peer t ip = Some p \<and> past now p" by (auto simp: peerAt_def awg_peer_def) }
  { assume "\<exists>p. awg_peer t ip = Some p \<and> past now p"
    then obtain p ref where p: "sm_Get (aw_peersByIP t) ip = Some ref" "gm_get (aw_heap t) ref = Some p" "past now p"
      by (auto simp: awg_peer_def bind_eq_Some_conv)
    then have ref: "ref \<in> set ?refs" "peerAt t ref = p" using refs(3) by (auto simp: peerAt_def)
    moreover have "ap_virtualIP p = ip" using maps_okD(4) [OF m p(1)] p(2) by simp
    ultimately show "ip \<in> ap_virtualIP ` f ` set (filter (past now \<circ> peerAt t) ?refs)"
      using p(3) f [OF ref(1)] by (force simp: image_iff) }
qed

lemma watchPeers_spec:
  assumes "awg_ok s"
  shows "\<exists>s'. watchPeers D now s = Some s' \<and> awg_ok s' \<and>
    (\<forall>ip. awg_peer (fst s') ip = (case awg_peer (fst s) ip of None \<Rightarrow> None | Some p \<Rightarrow> if past now p then None else Some (reset p))) \<and>
    (\<forall>ip. route_to (snd s') ip = (if \<exists>p. awg_peer (fst s) ip = Some p \<and> past now p then None else route_to (snd s) ip)) \<and>
    aw_deltaChan (fst s') = offered (map (peer_stats \<circ> peerAt (fst s)) (map snd (sm_data (aw_peersByIP (fst s))))) (aw_deltaChan (fst s))"
proof -
  obtain t r where s: "s = (t, r)" by (cases s)
  let ?refs = "map snd (sm_data (aw_peersByIP t))"
  have m: "maps_ok t" and wf: "awg_wf (t, r)" using assms by (simp_all add: awg_ok_def awg_wf_def s)
  note refs = peer_refs [OF m]
  from watch_fold [of "sm_data (aw_peersByIP t)" t now "[]"] refs(1,2) maps_okD(6,7) [OF m] obtain h where
    h: "fold (\<lambda>(k, v). watchPeer now k v) (sm_data (aw_peersByIP t)) (Some (t, [])) =
      Some (t\<lparr>aw_heap := h, aw_deltaChan := offered (map (peer_stats \<circ> peerAt t) ?refs) (aw_deltaChan t)\<rparr>, filter (past now \<circ> peerAt t) ?refs)"
    "\<forall>ref. gm_get h ref = (if ref \<in> set ?refs then map_option reset (gm_get (aw_heap t) ref) else gm_get (aw_heap t) ref)"
    by auto
  define t1 where "t1 = t\<lparr>aw_heap := h, aw_deltaChan := offered (map (peer_stats \<circ> peerAt t) ?refs) (aw_deltaChan t)\<rparr>"
  have held: "\<exists>q. gm_get h ref = Some q \<and> ap_virtualIP q = ip" if "sm_Get (aw_peersByIP t) ip = Some ref" for ip ref
    using maps_okD(4) [OF m that] h(2) by auto
  have m1: "maps_ok t1" using m h(2) held unfolding maps_ok_def t1_def by (simp add: chan_ok_offered)
  then have wf1: "awg_wf (t1, r)" using wf by (simp add: awg_wf_def)
  have at1: "peerAt t1 ref = reset (peerAt t ref)" if "ref \<in> set ?refs" for ref
    using that h(2) refs(2) [OF that] by (auto simp: peerAt_def t1_def)
  have del: "\<forall>ref \<in> set (filter (past now \<circ> peerAt t) ?refs). gm_get (aw_heap (fst (t1, r))) ref \<noteq> None"
    using h(2) refs(2) by (auto simp: t1_def)
  from removePeers_spec [OF wf1 del, of D] obtain s' where
    s': "removePeers D (filter (past now \<circ> peerAt t) ?refs) (t1, r) = Some s'" "awg_wf s'" "aw_heap (fst s') = h" "aw_nodeID (fst s') = aw_nodeID t"
    "aw_deltaChan (fst s') = aw_deltaChan t1"
    "\<forall>ip. sm_Get (aw_peersByIP (fst s')) ip = (if ip \<in> ap_virtualIP ` peerAt t1 ` set (filter (past now \<circ> peerAt t) ?refs) then None else sm_Get (aw_peersByIP t) ip)"
    "\<forall>ip. route_to (snd s') ip = (if ip \<in> ap_virtualIP ` peerAt t1 ` set (filter (past now \<circ> peerAt t) ?refs) then None else route_to r ip)"
    by (auto simp: t1_def)
  have gone: "ip \<in> ap_virtualIP ` peerAt t1 ` set (filter (past now \<circ> peerAt t) ?refs) \<longleftrightarrow> (\<exists>p. awg_peer t ip = Some p \<and> past now p)" for ip
    by (rule past_addresses [OF m]) (simp add: at1)
  have peers: "awg_peer (fst s') ip = (case awg_peer t ip of None \<Rightarrow> None | Some p \<Rightarrow> if past now p then None else Some (reset p))" for ip
  proof (cases "sm_Get (aw_peersByIP t) ip")
    case None
    with s'(6) show ?thesis by (simp add: awg_peer_def)
  next
    case (Some ref)
    then have "ref \<in> set ?refs" using refs(3) by blast
    with Some s'(3,6) h(2) gone [of ip] maps_okD(4) [OF m Some] show ?thesis by (auto simp: awg_peer_def)
  qed
  have ex: "ExistsPeer ip (fst s') \<longleftrightarrow> ExistsPeer ip t \<and> \<not> (\<exists>p. awg_peer t ip = Some p \<and> past now p)" for ip
    using s'(6) gone by (auto simp: ExistsPeer_iff)
  have "awg_ok s'" using assms s'(2,4,7) ex gone by (auto simp: awg_ok_def s)
  moreover have "watchPeers D now s = Some s'" using h(1) s'(1) by (simp add: s watchPeers_def sm_Foreach_def t1_def)
  moreover have "\<forall>ip. route_to (snd s') ip = (if \<exists>p. awg_peer t ip = Some p \<and> past now p then None else route_to r ip)"
    using s'(7) unfolding gone .
  moreover have "aw_deltaChan (fst s') = offered (map (peer_stats \<circ> peerAt t) ?refs) (aw_deltaChan t)" using s'(5) by (simp add: t1_def)
  ultimately show ?thesis using peers by (intro exI [of _ s']) (simp only: s fst_conv snd_conv simp_thms)
qed

section \<open>Properties of the transport\<close>

lemma maps_ok_New:
  assumes "awg_New D x25519 cfg node = Inr t"
  shows "maps_ok t" "aw_peersByIP t = sm_New" "aw_nodeID t = node"
  using assms by (auto simp: awg_New_def maps_ok_def chan_ok_def split: sum.splits prod.splits bool.splits)

lemma awg_ok_New:
  assumes "awg_New D x25519 cfg node = Inr t" and "bus_ok (routingsubs r)" and "rt_ok (routingTable r)"
  shows "awg_ok (t, r)"
  using maps_ok_New [OF assms(1)] assms(2,3) by (simp add: awg_ok_def awg_wf_def ExistsPeer_iff)

text \<open>A device that records its commands, a configuration and a client.\<close>

definition exDevice :: "string list awg_device" where
  "exDevice = \<lparr>dv_NewDevice = (\<lambda>_. []), dv_IpcSet = (\<lambda>c d. (True, d @ [c])), dv_Up = (\<lambda>d. (True, d)), dv_Close = id\<rparr>"

definition exConfig :: TransportConfig where
  "exConfig = \<lparr>tc_MTU = 1280, tc_ListenPort = 51820, tc_PrivateKey = hexEncode (replicate 32 7), tc_WatchdogInterval = 0,
     tc_H1 = ''1'', tc_H2 = ''2'', tc_H3 = ''3'', tc_H4 = ''4'', tc_Jc = 4, tc_JMin = 40, tc_JMax = 70,
     tc_S1 = 0, tc_S2 = 0, tc_S3 = 0, tc_S4 = 0\<rparr>"

definition exTransport :: "string list AWGTransport" where
  "exTransport = \<lparr>aw_done = False, aw_cfg = exConfig, aw_publicKey = hexEncode (replicate 32 9), aw_nodeID = ''b'', aw_device = map snd (configCmds exConfig),
     aw_in = mkchan 1000, aw_peersByIP = sm_New, aw_tunPeers = sm_New, aw_tunClosed = False, aw_deltaChan = mkchan 100, aw_heap = [], aw_next = 0\<rparr>"

definition exClient :: model_Peer where
  "exClient = \<lparr>me_ID = 1, me_Type = ''awg'', me_VirtualIP = 0x0A000002, me_LastSeen = 0, me_ExpirationDate = Some 100, me_FromPeerTotal = 700000000,
     me_ToPeerTotal = 300000000, me_TrafficLimitGb = Some 1, me_SpeedLimitMbps = None, me_AwgPrivateKey = ''aa'', me_AwgPublicKey = ''bb''\<rparr>"

lemma exTransport_New: "awg_New exDevice (\<lambda>_. Some (replicate 32 9)) exConfig ''b'' = Inr exTransport"
proof -
  have "runCmds exDevice cs d = Inr (d @ map snd cs)" for cs d by (induction cs arbitrary: d) (auto simp: exDevice_def)
  then show ?thesis by (simp add: awg_New_def getServerPubKey_def exTransport_def) (simp add: exConfig_def exDevice_def)
qed

lemma exTransport_ok: "awg_ok (exTransport, exRouter)"
  by (rule awg_ok_New [OF exTransport_New]) (simp_all add: exRouter_def bus_ok_New rt_ok_New)

text \<open>C10: the outcome of \<^verbatim>\<open>CreatePeer\<close> on every branch, when it runs alone on a transport all of whose peers
  have their route. A session the address already has is kicked first, whatever follows. The call then succeeds
  exactly when the device takes the peer and the address is not routed to someone else, and names which of the two
  failed. On success the transport knows the new peer and the routing table leads to it, behind its limits if it has
  any. On failure the transport does not know the address; its route is gone too if the address had a session or the
  device had taken the peer, so the rollback deletes a route of someone else, and is left as it was otherwise. No
  other peer and no other route changes, and every peer of the transport has its route again.\<close>

theorem CreatePeer_outcome:
  assumes "awg_ok s"
  shows "\<exists>err s'. CreatePeer D newLimiter now p s = Some (err, s') \<and> awg_ok s' \<and>
    err = (if \<not> kernel_takes D p s then Some KernelAddFailed
           else if foreign_route (me_VirtualIP p) s then Some (RoutingFailed (RecordExists (me_VirtualIP p))) else None) \<and>
    (\<forall>k. awg_peer (fst s') k =
       (if k \<noteq> me_VirtualIP p then awg_peer (fst s) k
        else if err = None then Some (NewAWGPeer now (aw_nodeID (fst s)) k (me_AwgPublicKey p) (me_ExpirationDate p)) else None)) \<and>
    (\<forall>k. route_to (snd s') k =
       (if k \<noteq> me_VirtualIP p then route_to (snd s) k
        else if err = None then Some (peerRoute newLimiter p (fst s))
        else if kernel_takes D p s \<or> ExistsPeer k (fst s) then None else route_to (snd s) k)) \<and>
    (\<forall>k. ExistsPeer k (fst s') \<longleftrightarrow> (if k \<noteq> me_VirtualIP p then ExistsPeer k (fst s) else err = None))"
proof -
  from CreatePeer_spec [OF assms, of D newLimiter now p] obtain err s' where
    "CreatePeer D newLimiter now p s = Some (err, s')" "created newLimiter now p (kernel_takes D p s) s err s'" by blast
  then show ?thesis by (intro exI [of _ err] exI [of _ s']) (auto simp: created_def)
qed

lemma CreatePeer_outcome_witness:
  "\<exists>s'. CreatePeer exDevice (\<lambda>_ _. (0 :: nat)) 50 exClient (exTransport, exRouter) = Some (None, s') \<and> ExistsPeer 0x0A000002 (fst s')"
proof -
  have "kernel_takes exDevice exClient (exTransport, exRouter)" "\<not> foreign_route (me_VirtualIP exClient) (exTransport, exRouter)"
    by (simp_all add: kernel_takes_def KickPeer_def exTransport_def sm_Get_def sm_New_def exDevice_def foreign_route_def
        route_to_def rt_GetByIP_def exRouter_def rt_New_def)
  with CreatePeer_outcome [OF exTransport_ok, of exDevice "\<lambda>_ _. 0" 50 exClient] show ?thesis
    by (auto simp: exClient_def)
qed

text \<open>Rolling a failed creation back breaks a route of someone else. When the device takes the peer and the
  address is routed to another object, the creation fails, and the clean-up deletes that object's route.\<close>

theorem rollback_drops_foreign_route:
  assumes "awg_ok s" and "kernel_takes D p s" and "foreign_route (me_VirtualIP p) s"
  shows "\<exists>s'. CreatePeer D newLimiter now p s = Some (Some (RoutingFailed (RecordExists (me_VirtualIP p))), s') \<and>
    route_to (snd s) (me_VirtualIP p) \<noteq> None \<and> route_to (snd s') (me_VirtualIP p) = None"
proof -
  from CreatePeer_spec [OF assms(1), of D newLimiter now p] obtain err s' where
    "CreatePeer D newLimiter now p s = Some (err, s')" "created newLimiter now p (kernel_takes D p s) s err s'" by blast
  with assms(2,3) show ?thesis by (intro exI [of _ s']) (auto simp: created_def foreign_route_def)
qed

definition exForeign :: "(nat, nat list) Router" where
  "exForeign = exRouter\<lparr>routingTable := \<lparr>byVirtualIp = [(0x0A000002, PlainRoute \<lparr>ro_NodeID = ''a'', ro_VirtualIP = 0x0A000002, ro_done = False\<rparr>)]\<rparr>\<rparr>"

lemma exForeign_ok: "awg_ok (exTransport, exForeign)"
  by (rule awg_ok_New [OF exTransport_New]) (simp_all add: exForeign_def exRouter_def bus_ok_New rt_ok_def gm_wf_def gm_get_def GetVirtualIP_def)

lemma rollback_drops_foreign_route_witness:
  "\<exists>s'. CreatePeer exDevice (\<lambda>_ _. (0 :: nat)) 50 exClient (exTransport, exForeign) =
      Some (Some (RoutingFailed (RecordExists 0x0A000002)), s') \<and> route_to (snd s') 0x0A000002 = None"
proof -
  have "kernel_takes exDevice exClient (exTransport, exForeign)" "foreign_route (me_VirtualIP exClient) (exTransport, exForeign)"
    by (simp_all add: kernel_takes_def KickPeer_def exTransport_def sm_Get_def sm_New_def exDevice_def foreign_route_def ExistsPeer_iff
        route_to_def rt_GetByIP_def exForeign_def exClient_def gm_get_def)
  from rollback_drops_foreign_route [OF exForeign_ok this, of "\<lambda>_ _. 0" 50] show ?thesis by (auto simp: exClient_def)
qed

text \<open>C12: the watchdog removes exactly the peers whose time is over. After a round the transport knows a peer if and
  only if it knew it before and its expiration has not passed; the routes of the others are gone and no other route
  changes; what the removed and the remaining peers transferred since the last round has been offered, in the order of
  the map, to the statistics channel, which took as many reports as it had room for.\<close>

theorem watchPeers_removes_expired:
  assumes "awg_ok s"
  shows "\<exists>s'. watchPeers D now s = Some s' \<and> awg_ok s' \<and>
    (\<forall>ip. ExistsPeer ip (fst s') \<longleftrightarrow> (\<exists>p. awg_peer (fst s) ip = Some p \<and> \<not> past now p)) \<and>
    (\<forall>ip. route_to (snd s') ip = (if \<exists>p. awg_peer (fst s) ip = Some p \<and> past now p then None else route_to (snd s) ip)) \<and>
    ch_buf (aw_deltaChan (fst s')) = ch_buf (aw_deltaChan (fst s)) @
      take (ch_cap (aw_deltaChan (fst s)) - length (ch_buf (aw_deltaChan (fst s))))
        (map (peer_stats \<circ> peerAt (fst s)) (map snd (sm_data (aw_peersByIP (fst s)))))"
proof -
  from watchPeers_spec [OF assms, of D now] obtain s' where
    s': "watchPeers D now s = Some s'" "awg_ok s'"
    "\<forall>ip. awg_peer (fst s') ip = (case awg_peer (fst s) ip of None \<Rightarrow> None | Some p \<Rightarrow> if past now p then None else Some (reset p))"
    "\<forall>ip. route_to (snd s') ip = (if \<exists>p. awg_peer (fst s) ip = Some p \<and> past now p then None else route_to (snd s) ip)"
    "aw_deltaChan (fst s') = offered (map (peer_stats \<circ> peerAt (fst s)) (map snd (sm_data (aw_peersByIP (fst s))))) (aw_deltaChan (fst s))" by blast
  have "ExistsPeer ip (fst s') \<longleftrightarrow> (\<exists>p. awg_peer (fst s) ip = Some p \<and> \<not> past now p)" for ip
    using s'(3) ExistsPeer_peer [OF s'(2), of ip] by (auto split: option.splits)
  with s' show ?thesis by (intro exI [of _ s']) (auto simp: offered_def)
qed

lemma watchPeers_removes_expired_witness:
  "\<exists>s'. watchPeers exDevice 200 (exTransport, exForeign) = Some s' \<and> route_to (snd s') 0x0A000002 = route_to exForeign 0x0A000002"
  using watchPeers_removes_expired [OF exForeign_ok, of exDevice 200]
  by (auto simp: awg_peer_def exTransport_def sm_Get_def sm_New_def)

text \<open>Statistics are lost while nobody drains the channel. With the statistics channel full, a round of the
  watchdog resets the traffic counters of every peer and reports none of them, so what the peers transferred since the
  last round never counts against their limits.\<close>

theorem full_statistics_channel_loses_traffic:
  assumes "awg_ok s" and "length (ch_buf (aw_deltaChan (fst s))) = ch_cap (aw_deltaChan (fst s))"
    and "awg_peer (fst s) ip = Some p" and "\<not> past now p"
  shows "\<exists>s' p'. watchPeers D now s = Some s' \<and> aw_deltaChan (fst s') = aw_deltaChan (fst s) \<and>
    awg_peer (fst s') ip = Some p' \<and> ap_totalToPeer p' = 0 \<and> ap_totalFromPeer p' = 0"
proof -
  from watchPeers_spec [OF assms(1), of D now] assms(2-4) show ?thesis by (auto simp: offered_def)
qed

definition exBusy :: "string list AWGTransport" where
  "exBusy = exTransport\<lparr>aw_heap := [(0, (NewAWGPeer 0 ''b'' 0x0A000002 ''bb'' None)\<lparr>ap_totalFromPeer := 5000\<rparr>)], aw_next := 1,
     aw_peersByIP := sm_From [(0x0A000002, 0)], aw_tunPeers := sm_From [(0x0A000002, 0)],
     aw_deltaChan := \<lparr>ch_cap = 100, ch_buf = replicate 100 (peer_stats (NewAWGPeer 0 ''b'' 9 ''cc'' None)), ch_closed = False\<rparr>\<rparr>"

definition exOwnRoute :: "(nat, nat list) Router" where
  "exOwnRoute = exRouter\<lparr>routingTable := \<lparr>byVirtualIp = [(0x0A000002, PlainRoute \<lparr>ro_NodeID = ''b'', ro_VirtualIP = 0x0A000002, ro_done = False\<rparr>)]\<rparr>\<rparr>"

lemma exBusy_ok: "awg_ok (exBusy, exOwnRoute)"
proof -
  have "maps_ok exBusy"
    by (auto simp: maps_ok_def exBusy_def exTransport_def sm_defs gm_wf_def gm_get_def chan_ok_def NewAWGPeer_def)
  moreover have "bus_ok (routingsubs exOwnRoute)" "rt_ok (routingTable exOwnRoute)"
    by (simp_all add: exOwnRoute_def exRouter_def bus_ok_New rt_ok_def gm_wf_def gm_get_def GetVirtualIP_def)
  ultimately show ?thesis
    by (auto simp: awg_ok_def awg_wf_def ExistsPeer_iff exBusy_def sm_From_def sm_Get_def gm_get_def route_to_def rt_GetByIP_def
        exOwnRoute_def GetNodeID_def exTransport_def split: if_splits)
qed

lemma full_statistics_channel_loses_traffic_witness:
  "\<exists>s' p'. watchPeers exDevice 200 (exBusy, exOwnRoute) = Some s' \<and> aw_deltaChan (fst s') = aw_deltaChan exBusy \<and>
    awg_peer (fst s') 0x0A000002 = Some p' \<and> ap_totalFromPeer p' = 0 \<and> ap_totalFromPeer (peerAt exBusy 0) = 5000"
proof -
  have "length (ch_buf (aw_deltaChan (fst (exBusy, exOwnRoute)))) = ch_cap (aw_deltaChan (fst (exBusy, exOwnRoute)))"
    "awg_peer (fst (exBusy, exOwnRoute)) 0x0A000002 = Some (peerAt exBusy 0)" "\<not> past 200 (peerAt exBusy 0)" "ap_totalFromPeer (peerAt exBusy 0) = 5000"
    by (simp_all add: exBusy_def awg_peer_def peerAt_def sm_From_def sm_Get_def gm_get_def past_def NewAWGPeer_def)
  with full_statistics_channel_loses_traffic [OF exBusy_ok, where ip = "0x0A000002" and p = "peerAt exBusy 0" and now = 200 and D = exDevice]
  show ?thesis by auto
qed

lemma sint_small: "- (2 ^ 62) \<le> i \<Longrightarrow> i < 2 ^ 62 \<Longrightarrow> sint (of_int i :: u64) = i"
  by (simp add: signed_of_int signed_take_bit_int_eq_self_iff)

lemma budget_left:
  assumes "me_TrafficLimitGb p = Some x" and "0 \<le> x" and "\<lfloor>x * 2 ^ 30\<rfloor> < 2 ^ 62"
    and "uint (me_FromPeerTotal p) + uint (me_ToPeerTotal p) < 2 ^ 62"
  shows "sint (the (trafficLimit p)) = \<lfloor>x * 2 ^ 30\<rfloor> - (uint (me_FromPeerTotal p) + uint (me_ToPeerTotal p))"
proof -
  let ?l = "\<lfloor>x * 2 ^ 30\<rfloor>" and ?u = "uint (me_FromPeerTotal p) + uint (me_ToPeerTotal p)"
  have e: "x * 1024 * 1024 * 1024 = x * 2 ^ 30" by simp
  have l: "0 \<le> ?l" and u: "0 \<le> ?u" using assms(2) by simp_all
  have "float_u64 (x * 1024 * 1024 * 1024) = of_int ?l" unfolding e using assms(2) by (simp add: float_u64_def)
  moreover have "me_FromPeerTotal p + me_ToPeerTotal p = of_int ?u" by simp
  ultimately have "the (trafficLimit p) = of_int (?l - ?u)" using assms(1) by (simp add: trafficLimit_def)
  moreover have "sint (of_int (?l - ?u) :: u64) = ?l - ?u"
    by (rule sint_small) (use l u assms(3,4) in linarith)+
  ultimately show ?thesis by simp
qed

lemma recreated_budget:
  assumes "me_TrafficLimitGb p = Some x" and "0 \<le> x" and "\<lfloor>x * 2 ^ 30\<rfloor> < 2 ^ 62"
    and "uint (me_FromPeerTotal p) + uint (me_ToPeerTotal p) < 2 ^ 61" and "int (sum_list sizes) < 2 ^ 61"
    and "peerRoute newLimiter p t = Shaped sr"
  shows "int (allowed_bytes sizes sr) \<le> max 0 (\<lfloor>x * 2 ^ 30\<rfloor> - (uint (me_FromPeerTotal p) + uint (me_ToPeerTotal p)))"
proof -
  have "sr_totalLimit sr = the (trafficLimit p)" "sr_trafficLimited sr"
    using assms(1,6) by (auto simp: peerRoute_def NewShapedRoute_def trafficLimit_def Let_def split: if_splits)
  moreover have l: "sint (the (trafficLimit p)) = \<lfloor>x * 2 ^ 30\<rfloor> - (uint (me_FromPeerTotal p) + uint (me_ToPeerTotal p))"
    by (rule budget_left [OF assms(1-3)]) (use assms(4) in simp)
  moreover have "0 \<le> \<lfloor>x * 2 ^ 30\<rfloor>" and two: "(2 :: int) ^ 62 = 2 * 2 ^ 61" "(0 :: int) < 2 ^ 61" using assms(2) by simp_all
  then have "- (2 ^ 62) \<le> \<lfloor>x * 2 ^ 30\<rfloor> - (uint (me_FromPeerTotal p) + uint (me_ToPeerTotal p)) - int (sum_list sizes)"
    using assms(4,5) two by linarith
  moreover have "int (sum_list sizes) < 2 ^ 62" using assms(5) two by linarith
  ultimately show ?thesis using allowed_bytes_bound [of sr sizes] by metis
qed



text \<open>A limit of 0 is a budget that is used up, not the absence of a limit: a peer whose recorded traffic is exactly
  its limit gets no packet of at least one byte through.\<close>

theorem zero_limit_blocks:
  assumes "me_TrafficLimitGb p = Some x" and "0 \<le> x" and "\<lfloor>x * 2 ^ 30\<rfloor> < 2 ^ 61"
    and "uint (me_FromPeerTotal p) + uint (me_ToPeerTotal p) = \<lfloor>x * 2 ^ 30\<rfloor>" and "int (sum_list sizes) < 2 ^ 61"
    and "peerRoute newLimiter p t = Shaped sr"
  shows "trafficLimit p = Some 0 \<and> allowed_bytes sizes sr = 0"
proof -
  have "int (allowed_bytes sizes sr) \<le> max 0 (\<lfloor>x * 2 ^ 30\<rfloor> - (uint (me_FromPeerTotal p) + uint (me_ToPeerTotal p)))"
    by (rule recreated_budget [OF assms(1,2) _ _ assms(5,6)]) (use assms(3,4) in auto)
  moreover have "sint (the (trafficLimit p)) = 0"
    using budget_left [OF assms(1,2)] assms(3,4) by simp
  then have "the (trafficLimit p) = 0" by (simp add: signed_eq_0_iff)
  ultimately show ?thesis using assms(1,4) by (simp add: trafficLimit_def)
qed

lemma zero_limit_blocks_witness:
  "\<exists>sr. peerRoute (\<lambda>_ _. (0 :: nat)) (exClient\<lparr>me_FromPeerTotal := 2 ^ 30, me_ToPeerTotal := 0\<rparr>) exTransport = Shaped sr \<and>
     allowed_bytes [100, 200] sr = 0"
proof -
  let ?p = "exClient\<lparr>me_FromPeerTotal := 2 ^ 30, me_ToPeerTotal := 0\<rparr>"
  obtain sr where sr: "peerRoute (\<lambda>_ _. (0 :: nat)) ?p exTransport = Shaped sr" by (auto simp: peerRoute_def exClient_def Let_def)
  have "trafficLimit ?p = Some 0 \<and> allowed_bytes [100, 200] sr = 0"
    by (rule zero_limit_blocks [OF _ _ _ _ _ sr, where x = 1]) (simp_all add: exClient_def)
  with sr show ?thesis by blast
qed

section \<open>Reading for the device\<close>

text \<open>The packets \<open>D\<close> are in the first buffers.\<close>

definition delivered :: "nat \<Rightarrow> bytes list \<Rightarrow> tun_read \<Rightarrow> bool" where
  "delivered offset D st \<longleftrightarrow> length D \<le> length (rd_bufs st) \<and>
     (\<forall>j < length D. take (length (D ! j)) (drop offset (rd_bufs st ! j)) = D ! j \<and> rd_sizes st ! j = length (D ! j))"

lemma copyAt_read:
  assumes "offset + length src \<le> length dst"
  shows "take (length src) (drop offset (copyAt offset src dst)) = src" and "length (copyAt offset src dst) = length dst"
  using assms by (simp_all add: copyAt_def)

lemma putPacket_delivers:
  assumes "delivered offset D st" and "length D < length (rd_bufs st)" and "length (rd_bufs st) \<le> length (rd_sizes st)"
    and "fits offset (length D) pkt st" and "\<forall>b \<in> set (rd_bufs st). offset \<le> length b"
  shows "\<exists>st'. putPacket offset (length D) pkt st = Some st' \<and> delivered offset (D @ [pkt]) st' \<and> rd_queue st' = rd_queue st \<and>
    length (rd_sizes st') = length (rd_sizes st) \<and> map length (rd_bufs st') = map length (rd_bufs st)"
proof -
  let ?i = "length D" and ?b = "rd_bufs st ! length D"
  have "offset \<le> length ?b" using assms(2,5) by simp
  then have fit: "offset + length pkt \<le> length ?b" using assms(4) by (simp add: fits_def)
  have len: "map length ((rd_bufs st)[?i := copyAt offset pkt ?b]) = map length (rd_bufs st)"
    using copyAt_read(2) [OF fit] by (simp add: map_update list_update_same_conv assms(2))
  show ?thesis using assms(1-3) fit len copyAt_read(1) [OF fit]
    by (auto simp: putPacket_def delivered_def nth_append less_Suc_eq)
qed

text \<open>What the environment promises: no empty packet, and room in every buffer for every packet.\<close>

definition packets_fit :: "nat \<Rightarrow> nat list \<Rightarrow> bytes list \<Rightarrow> bool" where
  "packets_fit offset lens ps \<longleftrightarrow> (\<forall>p \<in> set ps. 0 < length p \<and> (\<forall>l \<in> set lens. offset + length p \<le> l))"

lemma packets_fit_append [simp]: "packets_fit offset lens (ps @ qs) \<longleftrightarrow> packets_fit offset lens ps \<and> packets_fit offset lens qs"
  by (auto simp: packets_fit_def)

lemma packets_fitD:
  assumes "packets_fit offset (map length (rd_bufs st)) (p # ps)" and "i < length (rd_bufs st)"
  shows "fits offset i p st" "p \<noteq> []" "packets_fit offset (map length (rd_bufs st)) ps"
proof -
  have "offset + length p \<le> length (rd_bufs st ! i)" using assms nth_mem [OF assms(2)] by (auto simp: packets_fit_def)
  then show "fits offset i p st" by (simp add: fits_def)
  show "p \<noteq> []" "packets_fit offset (map length (rd_bufs st)) ps" using assms by (auto simp: packets_fit_def)
qed

lemma packets_fit_room:
  assumes "packets_fit offset (map length (rd_bufs st)) (p # ps)" shows "\<forall>b \<in> set (rd_bufs st). offset \<le> length b"
  using assms by (fastforce simp: packets_fit_def)

text \<open>Taking a packet off the queue into the next buffer.\<close>

lemma putPacket_fit:
  assumes "delivered offset D st" and "length D < length (rd_bufs st)" and "length (rd_bufs st) \<le> length (rd_sizes st)"
    and "packets_fit offset (map length (rd_bufs st)) (pkt # q)"
  obtains st' where "putPacket offset (length D) pkt (st\<lparr>rd_queue := q\<rparr>) = Some st'" "delivered offset (D @ [pkt]) st'" "rd_queue st' = q"
    "length (rd_sizes st') = length (rd_sizes st)" "map length (rd_bufs st') = map length (rd_bufs st)"
    "packets_fit offset (map length (rd_bufs st)) q" "fits offset (length D) pkt (st\<lparr>rd_queue := q\<rparr>)" "pkt \<noteq> []"
proof -
  have f: "fits offset (length D) pkt (st\<lparr>rd_queue := q\<rparr>)" "delivered offset D (st\<lparr>rd_queue := q\<rparr>)"
    using packets_fitD(1) [OF assms(4,2)] assms(1) by (simp_all add: fits_def delivered_def)
  from putPacket_delivers [OF f(2) _ _ f(1)] assms(2,3) packets_fit_room [OF assms(4)] packets_fitD(2,3) [OF assms(4,2)] f(1) that
  show thesis by auto
qed

lemma upt_max: "[k..<max m (Suc k)] = k # [Suc k..<m]"
  by (cases "Suc k \<le> m") (simp_all add: upt_conv_Cons max_def)

lemma upt_max2: "[k..<max m (Suc (Suc k))] = k # Suc k # [Suc (Suc k)..<m]"
  using upt_max [of k "max m (Suc (Suc k))"] upt_max [of "Suc k" m] by simp

lemma readMore_in_order:
  assumes "delivered offset D st" and "length (rd_bufs st) \<le> length (rd_sizes st)"
    and "packets_fit offset (map length (rd_bufs st)) (rd_queue st)" and "\<forall>k. packets_fit offset (map length (rd_bufs st)) (arr k)"
  shows "\<exists>E m st'. readMore arr k offset (length D) (length D) st = ReadN (length D + length E) st' \<and> delivered offset (D @ E) st' \<and>
    E @ rd_queue st' = rd_queue st @ concat (map arr [k..<m]) \<and> length (rd_bufs st') = length (rd_bufs st)"
  using assms
proof (induction "length (rd_bufs st) - length D" arbitrary: D st k)
  case 0
  then have "\<not> length D < length (rd_bufs st)" by simp
  then show ?case using 0(2) by (intro exI [of _ "[]"] exI [of _ k] exI [of _ st]) (simp add: readMore.simps [of arr k])
next
  case (Suc w)
  then have lt: "length D < length (rd_bufs st)" by simp
  have round: "\<exists>E m st' st2. putPacket offset (length D) pkt (st\<lparr>rd_queue := q\<rparr>) = Some st2 \<and> fits offset (length D) pkt (st\<lparr>rd_queue := q\<rparr>) \<and> pkt \<noteq> [] \<and>
      readMore arr k' offset (Suc (length D)) (Suc (length D)) st2 = ReadN (length D + length E) st' \<and> delivered offset (D @ E) st' \<and>
      E @ rd_queue st' = pkt # q @ concat (map arr [k'..<m]) \<and> length (rd_bufs st') = length (rd_bufs st)"
    if fit: "packets_fit offset (map length (rd_bufs st)) (pkt # q)" for k' pkt q
  proof -
    obtain st2 where put: "putPacket offset (length D) pkt (st\<lparr>rd_queue := q\<rparr>) = Some st2" "delivered offset (D @ [pkt]) st2" "rd_queue st2 = q"
      "length (rd_sizes st2) = length (rd_sizes st)" "map length (rd_bufs st2) = map length (rd_bufs st)"
      "packets_fit offset (map length (rd_bufs st)) q" "fits offset (length D) pkt (st\<lparr>rd_queue := q\<rparr>)" "pkt \<noteq> []"
      by (rule putPacket_fit [OF Suc.prems(1) lt Suc.prems(2) fit])
    have bl: "length (rd_bufs st2) = length (rd_bufs st)" using put(5) by (metis length_map)
    then have "w = length (rd_bufs st2) - length (D @ [pkt])" using Suc.hyps(2) by simp
    from Suc.hyps(1) [OF this put(2), of k'] Suc.prems(2,4) put(3-6) bl obtain E m st' where
      "readMore arr k' offset (Suc (length D)) (Suc (length D)) st2 = ReadN (Suc (length D) + length E) st'" "delivered offset ((D @ [pkt]) @ E) st'"
      "E @ rd_queue st' = q @ concat (map arr [k'..<m])" "length (rd_bufs st') = length (rd_bufs st)" by auto
    with put show ?thesis by (intro exI [of _ "pkt # E"] exI [of _ m] exI [of _ st'] exI [of _ st2]) simp
  qed
  show ?case
  proof (cases "rd_queue st @ arr k")
    case (Cons pkt q)
    have "packets_fit offset (map length (rd_bufs st)) (pkt # q)" using Suc.prems(3,4) by (simp flip: Cons)
    from round [OF this, of "Suc k"] obtain E m st' where
      "readMore arr k offset (length D) (length D) st = ReadN (length D + length E) st'" "delivered offset (D @ E) st'"
      "E @ rd_queue st' = (rd_queue st @ arr k) @ concat (map arr [Suc k..<m])" "length (rd_bufs st') = length (rd_bufs st)" using Cons lt by (auto simp: readMore.simps [of arr k])
    then show ?thesis by (intro exI [of _ E] exI [of _ "max m (Suc k)"] exI [of _ st']) (simp add: upt_max)
  next
    case Nil
    show ?thesis
    proof (cases "length D < 4 \<and> arr (Suc k) \<noteq> []")
      case True
      then obtain pkt q where a: "arr (Suc k) = pkt # q" by (cases "arr (Suc k)") auto
      then have "packets_fit offset (map length (rd_bufs st)) (pkt # q)" using Suc.prems(4) by (metis)
      from round [OF this, of "k + 2"] obtain E m st' where
        "readMore arr k offset (length D) (length D) st = ReadN (length D + length E) st'" "delivered offset (D @ E) st'"
        "E @ rd_queue st' = arr (Suc k) @ concat (map arr [k + 2..<m])" "length (rd_bufs st') = length (rd_bufs st)" using Nil lt a True by (auto simp: readMore.simps [of arr k])
      then show ?thesis using Nil
        by (intro exI [of _ E] exI [of _ "max m (Suc (Suc k))"] exI [of _ st']) (simp add: upt_max2)
    next
      case False
      then have "readMore arr k offset (length D) (length D) st = ReadN (length D) (st\<lparr>rd_queue := []\<rparr>)"
        using Nil lt by (auto simp: readMore.simps [of arr k])
      then show ?thesis using Suc.prems(1) Nil
        by (intro exI [of _ "[]"] exI [of _ k] exI [of _ "st\<lparr>rd_queue := []\<rparr>"]) (simp add: delivered_def)
    qed
  qed
qed

text \<open>C36: the device gets the packets in order, each once. With a packet waiting, \<^verbatim>\<open>Read\<close> returns after at most one round
  per buffer, however fast further packets arrive: a prefix of the packets that were queued and that arrived meanwhile is
  in the first buffers with their sizes, and exactly the others are still queued. (No packet is empty, and the buffers are
  large enough.)\<close>

theorem Read_delivers_in_order:
  assumes "rd_queue st @ arr 0 \<noteq> []" and "rd_bufs st \<noteq> []" and "length (rd_bufs st) \<le> length (rd_sizes st)" and "\<not> (ctxDone \<and> pickDone)"
    and "packets_fit offset (map length (rd_bufs st)) (rd_queue st)" and "\<forall>k. packets_fit offset (map length (rd_bufs st)) (arr k)"
  shows "\<exists>E m st'. tun_Read ctxDone pickDone arr offset st = ReadN (length E) st' \<and> 1 \<le> length E \<and> length E \<le> length (rd_bufs st) \<and>
    E @ rd_queue st' = rd_queue st @ concat (map arr [0..<m]) \<and>
    (\<forall>j < length E. take (rd_sizes st' ! j) (drop offset (rd_bufs st' ! j)) = E ! j)"
proof -
  obtain pkt q where q: "rd_queue st @ arr 0 = pkt # q" using assms(1) by (meson list.exhaust)
  have fit: "packets_fit offset (map length (rd_bufs st)) (pkt # q)" using assms(5,6) by (simp flip: q)
  have 0: "delivered offset [] st" "length ([] :: bytes list) < length (rd_bufs st)" using assms(2) by (simp_all add: delivered_def)
  obtain st2 where put: "putPacket offset 0 pkt (st\<lparr>rd_queue := q\<rparr>) = Some st2" "delivered offset [pkt] st2" "rd_queue st2 = q"
    "length (rd_sizes st2) = length (rd_sizes st)" "map length (rd_bufs st2) = map length (rd_bufs st)"
    "packets_fit offset (map length (rd_bufs st)) q" "fits offset 0 pkt (st\<lparr>rd_queue := q\<rparr>)" "pkt \<noteq> []"
    using putPacket_fit [OF 0 assms(3) fit] by force
  then have bl: "length (rd_bufs st2) = length (rd_bufs st)" by (metis length_map)
  from readMore_in_order [OF put(2), of arr 1] put(3-6) bl assms(3,6) obtain E m st' where
    E: "readMore arr 1 offset 1 1 st2 = ReadN (Suc (length E)) st'" "delivered offset (pkt # E) st'" "E @ rd_queue st' = q @ concat (map arr [1..<m])"
    "length (rd_bufs st') = length (rd_bufs st)" by auto
  have "tun_Read ctxDone pickDone arr offset st = ReadN (Suc (length E)) st'"
    using q put(1,7,8) E(1) assms(2,4) by (simp add: tun_Read_def)
  moreover have "(pkt # E) @ rd_queue st' = rd_queue st @ concat (map arr [0..<max m (Suc 0)])"
    using E(3) q unfolding upt_max by (simp flip: append_assoc)
  ultimately show ?thesis using E(2,4)
    by (intro exI [of _ "pkt # E"] exI [of _ "max m (Suc 0)"] exI [of _ st']) (auto simp: delivered_def)
qed

lemma Read_delivers_in_order_witness:
  "\<exists>E m st'. tun_Read False False (\<lambda>k. if k = 1 then [[5, 6]] else []) 1
      \<lparr>rd_bufs = [[0, 0, 0, 0], [0, 0, 0, 0]], rd_sizes = [0, 0], rd_queue = [[1, 2, 3]]\<rparr> = ReadN (length E) st' \<and>
    1 \<le> length E \<and> E @ rd_queue st' = [1, 2, 3] # concat (map (\<lambda>k. if k = 1 then [[5, 6]] else []) [0..<m])"
  using Read_delivers_in_order [of "\<lparr>rd_bufs = [[0, 0, 0, 0], [0, 0, 0, 0]], rd_sizes = [0, 0], rd_queue = [[1, 2, 3]]\<rparr>"
      "\<lambda>k. if k = 1 then [[5, 6]] else []" False False 1]
  by (force simp: packets_fit_def)

section \<open>Sequences of operations\<close>

text \<open>
  The operations of the transport one after the other, and what the rest of the node does to the router it shares
  in between. \<^verbatim>\<open>CreatePeer\<close>, \<^verbatim>\<open>KickPeer\<close> and \<^verbatim>\<open>watchPeers\<close> hold no mutex, so a step here is a call that no other
  call on the transport overlaps; and the rest of the node is held to leave the routes of the transport's own peers
  alone, which a routing event of another node need not do.
\<close>

inductive awg_step :: "'d awg_device \<Rightarrow> (u64 \<Rightarrow> nat \<Rightarrow> 'l) \<Rightarrow> ('l, 'n, 'd) awg_state \<Rightarrow> ('l, 'n, 'd) awg_state \<Rightarrow> bool"
  for D :: "'d awg_device" and nl :: "u64 \<Rightarrow> nat \<Rightarrow> 'l" where
  step_create: "CreatePeer D nl now p s = Some (err, s') \<Longrightarrow> awg_step D nl s s'"
| step_kick: "KickPeer D ip s = Some (b, s') \<Longrightarrow> awg_step D nl s s'"
| step_run: "awg_Run_step D now pickDone s = Some (go, s') \<Longrightarrow> awg_step D nl s s'"
| step_write: "tun_Write now choices offset bufs s = Some (n, s') \<Longrightarrow> awg_step D nl s s'"
| step_send: "awg_SendDatagram pickDone ref data (fst s) = Some (t, out) \<Longrightarrow> out = SendOk t' \<or> (\<forall>u. out \<noteq> SendOk u) \<and> t' = t \<Longrightarrow>
    awg_step D nl s (t', snd s)"
| step_node: "bus_ok (routingsubs r') \<Longrightarrow> rt_ok (routingTable r') \<Longrightarrow>
    (\<And>ip. ExistsPeer ip t \<Longrightarrow> route_to r' ip = route_to r ip) \<Longrightarrow> awg_step D nl (t, r) (t, r')"

text \<open>What only touches counters, queues and the packet pool keeps the invariant.\<close>

lemma maps_ok_touch:
  assumes "maps_ok t" and "gm_get (aw_heap t) ref = Some p" and "ap_virtualIP q = ap_virtualIP p"
  shows "maps_ok (t\<lparr>aw_heap := gm_set ref q (aw_heap t)\<rparr>)"
proof -
  have "\<exists>x. gm_get (gm_set ref q (aw_heap t)) k = Some x \<and> ap_virtualIP x = ip" if "sm_Get (aw_peersByIP t) ip = Some k" for ip k
    using maps_okD(4) [OF assms(1) that] assms(2,3) by auto
  moreover have "gm_get (gm_set ref q (aw_heap t)) k = None" if "aw_next t \<le> k" for k
    using maps_okD(5) [OF assms(1) that] assms(2) by auto
  ultimately show ?thesis using assms(1) unfolding maps_ok_def by simp
qed

lemma awg_ok_touch:
  assumes "awg_ok (t, r)" and "maps_ok t'" and "aw_peersByIP t' = aw_peersByIP t" and "aw_nodeID t' = aw_nodeID t"
    and "routingTable r' = routingTable r" and "routingsubs r' = routingsubs r"
  shows "awg_ok (t', r')"
  using assms by (simp add: awg_ok_def awg_wf_def ExistsPeer_iff route_to_def)

lemma accountFrom_ok:
  assumes "awg_ok (t, r)" and "accountFrom now src n t = Some t'"
  shows "awg_ok (t', r)"
proof -
  have m: "maps_ok t" using assms(1) by (simp add: awg_ok_def awg_wf_def)
  show ?thesis
  proof (cases "sm_Get (aw_tunPeers t) src")
    case None
    with assms show ?thesis by (simp add: accountFrom_def)
  next
    case (Some ref)
    with assms(2) obtain p where p: "gm_get (aw_heap t) ref = Some p" "t' = t\<lparr>aw_heap := gm_set ref (seenPeer now n p) (aw_heap t)\<rparr>"
      by (auto simp: accountFrom_def)
    have "ap_virtualIP (seenPeer now n p) = ap_virtualIP p" by (simp add: seenPeer_def Let_def)
    from maps_ok_touch [OF m p(1) this] show ?thesis by (intro awg_ok_touch [OF assms(1)]) (simp_all add: p(2))
  qed
qed

lemma HandlePacket_routing:
  "HandlePacket from pkt r = Some r' \<Longrightarrow> routingTable r' = routingTable r \<and> routingsubs r' = routingsubs r"
  by (auto simp: HandlePacket_def split: option.splits if_splits send_result.splits)

lemma writeOne_ok:
  assumes "awg_ok s" and "writeOne now choice offset buf s = Some s'"
  shows "awg_ok s'"
proof -
  obtain t r where s: "s = (t, r)" by (cases s)
  from assms(2) obtain res r1 where n: "router_NewMessageCopyFrom choice (drop offset buf) r = Some (res, r1)"
    by (auto simp: writeOne_def s Let_def split: if_splits option.splits)
  then have "routingTable r1 = routingTable r" "routingsubs r1 = routingsubs r" by (auto simp: router_NewMessageCopyFrom_def)
  moreover have "maps_ok t" using assms(1) by (simp add: s awg_ok_def awg_wf_def)
  ultimately have ok1: "awg_ok (t, r1)" by (intro awg_ok_touch [OF assms(1) [unfolded s]]) simp_all
  show ?thesis
  proof (cases res)
    case (Inl e)
    with assms(2) n ok1 show ?thesis by (auto simp: writeOne_def s split: if_splits)
  next
    case (Inr msg)
    with assms(2) n obtain t2 r2 where w: "accountFrom now (hi_SrcIP (msg_hole msg (packetsPool r1))) (length (drop offset buf)) t = Some t2"
      "HandleTransportPacket msg r1 = Some r2" "s' = (t2, r2)"
      by (auto simp: writeOne_def s bind_eq_Some_conv split: if_splits)
    have "awg_ok (t2, r1)" by (rule accountFrom_ok [OF ok1 w(1)])
    moreover from this have "maps_ok t2" by (simp add: awg_ok_def awg_wf_def)
    ultimately show ?thesis unfolding w(3)
      by (rule awg_ok_touch) (use HandlePacket_routing [of fromTransport msg r1 r2] w(2) in \<open>simp_all add: HandleTransportPacket_def\<close>)
  qed
qed

lemma writeAll_ok: "awg_ok s \<Longrightarrow> writeAll now choices offset bufs s = Some s' \<Longrightarrow> awg_ok s'"
proof (induction bufs arbitrary: choices s)
  case (Cons buf bufs)
  from Cons.prems(2) obtain s1 where "writeOne now (case choices of [] \<Rightarrow> None | c # _ \<Rightarrow> c) offset buf s = Some s1"
    "writeAll now (tl choices) offset bufs s1 = Some s'" by (auto simp: bind_eq_Some_conv)
  with Cons.IH writeOne_ok [OF Cons.prems(1)] show ?case by blast
qed simp

lemma SendDatagram_ok:
  assumes "awg_ok (t, r)" and "awg_SendDatagram pickDone ref data t = Some (t1, out)"
    and "out = SendOk t' \<or> (\<forall>u. out \<noteq> SendOk u) \<and> t' = t1"
  shows "awg_ok (t', r)"
proof -
  have m: "maps_ok t" using assms(1) by (simp add: awg_ok_def awg_wf_def)
  from assms(2) obtain p where p: "gm_get (aw_heap t) ref = Some p"
    "t1 = t\<lparr>aw_heap := gm_set ref (p\<lparr>ap_totalToPeer := ap_totalToPeer p + of_nat (snd data)\<rparr>) (aw_heap t)\<rparr>" "out = awg_writePacket pickDone data t1"
    by (auto simp: awg_SendDatagram_def Let_def split: option.splits)
  have m1: "maps_ok t1" unfolding p(2) by (rule maps_ok_touch [OF m p(1)]) simp
  then have "maps_ok (t1\<lparr>aw_in := c\<rparr>)" for c by (simp add: maps_ok_def)
  with m1 p assms(3) have "maps_ok t' \<and> aw_peersByIP t' = aw_peersByIP t \<and> aw_nodeID t' = aw_nodeID t"
    by (auto simp: awg_writePacket_def split: send_result.splits if_splits)
  then show ?thesis by (intro awg_ok_touch [OF assms(1)]) simp_all
qed

lemma awg_ok_step:
  assumes "awg_ok s" and "awg_step D nl s s'"
  shows "awg_ok s'"
  using assms(2)
proof (cases rule: awg_step.cases)
  case (step_create now p err)
  with CreatePeer_spec [OF assms(1), of D nl now p] show ?thesis by (auto simp: created_def)
next
  case (step_kick ip b)
  with KickPeer_spec [OF assms(1), of D ip] show ?thesis by auto
next
  case (step_run now pickDone go)
  have "awg_ok (t\<lparr>aw_device := d\<rparr>, r)" if "awg_ok (t, r)" for t r d
    using that by (intro awg_ok_touch [OF that]) (simp_all add: awg_ok_def awg_wf_def maps_ok_def)
  with step_run watchPeers_spec [OF assms(1), of D now] assms(1) show ?thesis by (cases s) (auto simp: awg_Run_step_def split: if_splits)
next
  case (step_write now choices offset bufs n)
  with writeAll_ok [OF assms(1)] assms(1) show ?thesis by (auto simp: tun_Write_def split: if_splits)
next
  case (step_send pickDone ref data t out t')
  with SendDatagram_ok [of "fst s" "snd s"] assms(1) show ?thesis by auto
next
  case (step_node r' t r)
  with assms(1) show ?thesis by (auto simp: awg_ok_def awg_wf_def)
qed

interpretation awg_system: invariant_system "\<lambda>s. \<exists>x25519 cfg node. awg_New D x25519 cfg node = Inr (fst s) \<and> bus_ok (routingsubs (snd s)) \<and> rt_ok (routingTable (snd s))"
  "awg_step D nl" awg_ok for D nl
  by unfold_locales (use awg_ok_New awg_ok_step in \<open>fastforce+\<close>)

text \<open>As long as the operations do not overlap and the rest of the node leaves the routes of the transport's peers
  alone, the two peer maps of the transport agree, every entry points to the object with that address, and every peer
  has a route to this node in the routing table.\<close>

theorem awg_reachable_inv:
  assumes "awg_New D x25519 cfg node = Inr t" and "bus_ok (routingsubs r)" and "rt_ok (routingTable r)"
    and "(awg_step D nl)\<^sup>*\<^sup>* (t, r) s"
  shows "sm_Get (aw_tunPeers (fst s)) ip = sm_Get (aw_peersByIP (fst s)) ip \<and>
    (ExistsPeer ip (fst s) \<longrightarrow> (\<exists>p. awg_peer (fst s) ip = Some p \<and> ap_virtualIP p = ip) \<and>
       (\<exists>obj. route_to (snd s) ip = Some obj \<and> GetNodeID obj = aw_nodeID (fst s) \<and> GetVirtualIP obj = ip))"
proof -
  have ok: "awg_ok s" by (rule awg_system.inv_reachable [OF _ assms(4)]) (use assms(1-3) in auto)
  then have m: "maps_ok (fst s)" and rt: "rt_ok (routingTable (snd s))" by (simp_all add: awg_ok_def awg_wf_def)
  have "\<exists>p. awg_peer (fst s) ip = Some p \<and> ap_virtualIP p = ip" if "ExistsPeer ip (fst s)"
    using that maps_okD(4) [OF m] by (fastforce simp: ExistsPeer_iff awg_peer_def)
  moreover have "\<exists>obj. route_to (snd s) ip = Some obj \<and> GetNodeID obj = aw_nodeID (fst s) \<and> GetVirtualIP obj = ip" if "ExistsPeer ip (fst s)"
    using that ok rt by (fastforce simp: awg_ok_def route_to_def rt_ok_def rt_GetByIP_def)
  ultimately show ?thesis using maps_okD(3) [OF m] by blast
qed

lemma awg_reachable_inv_witness:
  "\<exists>s. (awg_step exDevice (\<lambda>_ _. (0 :: nat)))\<^sup>*\<^sup>* (exTransport, exRouter) s \<and> ExistsPeer 0x0A000002 (fst s) \<and>
    (\<exists>obj. route_to (snd s) 0x0A000002 = Some obj \<and> GetNodeID obj = aw_nodeID (fst s))"
proof -
  have "kernel_takes exDevice exClient (exTransport, exRouter)" "\<not> foreign_route (me_VirtualIP exClient) (exTransport, exRouter)"
    by (simp_all add: kernel_takes_def KickPeer_def exTransport_def sm_Get_def sm_New_def exDevice_def foreign_route_def
        route_to_def rt_GetByIP_def exRouter_def rt_New_def)
  with CreatePeer_spec [OF exTransport_ok, of exDevice "\<lambda>_ _. 0" 50 exClient] obtain s where
    s: "CreatePeer exDevice (\<lambda>_ _. 0) 50 exClient (exTransport, exRouter) = Some (None, s)" "ExistsPeer 0x0A000002 (fst s)"
    by (auto simp: created_def exClient_def)
  then have "(awg_step exDevice (\<lambda>_ _. 0))\<^sup>*\<^sup>* (exTransport, exRouter) s" using step_create by (metis r_into_rtranclp)
  moreover have "bus_ok (routingsubs exRouter)" "rt_ok (routingTable exRouter)" by (simp_all add: exRouter_def bus_ok_New rt_ok_New)
  ultimately show ?thesis using awg_reachable_inv [OF exTransport_New, where ip = "0x0A000002"] s(2) by blast
qed

end
