(* ===== verification/AWGUtils.thy ===== *)
theory AWGUtils
  imports AWG
begin

text \<open>
  \<^verbatim>\<open>pkg/transport/awg/utils.go\<close>: the connection string a client imports (an INI text and two nested JSON documents,
  compressed, with a length header, in URL base64), and the key pairs of clients. The compressor of \<^verbatim>\<open>compress/zlib\<close>,
  X25519, the random bytes and the UUID are arguments; hexadecimal, base64 and the JSON text are written out.
  \<^verbatim>\<open>json.Marshal\<close> of these structures cannot fail, so its error branches are left out.
\<close>

section \<open>Structures\<close>

record ClientParams =
  cl_EndpointName :: string
  cl_ServerAddr :: string
  cl_ServerPort :: int
  cl_ServerPubKey :: string
  cl_ServerPSK :: string
  cl_ClientPrivKey :: string
  cl_ClientPubKey :: string
  cl_ClientIP :: string
  cl_DNSServer1 :: string
  cl_DNSServer2 :: string
  cl_H1 :: string
  cl_H2 :: string
  cl_H3 :: string
  cl_H4 :: string
  cl_I1 :: string
  cl_I2 :: string
  cl_I3 :: string
  cl_I4 :: string
  cl_I5 :: string
  cl_Jc :: string
  cl_Jmin :: string
  cl_Jmax :: string
  cl_S1 :: string
  cl_S2 :: string
  cl_S3 :: string
  cl_S4 :: string

record awgConfig =
  ac_H1 :: string
  ac_H2 :: string
  ac_H3 :: string
  ac_H4 :: string
  ac_I1 :: string
  ac_I2 :: string
  ac_I3 :: string
  ac_I4 :: string
  ac_I5 :: string
  ac_Jc :: string
  ac_Jmax :: string
  ac_Jmin :: string
  ac_S1 :: string
  ac_S2 :: string
  ac_S3 :: string
  ac_S4 :: string
  ac_LastConfig :: string
  ac_Port :: string
  ac_ProtocolVersion :: string
  ac_SubnetAddress :: string
  ac_TransportProto :: string

record container =
  co_Container :: string
  co_Awg :: awgConfig

record rootConfig =
  rc_Containers :: "container list"
  rc_DefaultContainer :: string
  rc_Description :: string
  rc_Dns1 :: string
  rc_Dns2 :: string
  rc_HostName :: string

record lastConfigInner =
  lc_H1 :: string
  lc_H2 :: string
  lc_H3 :: string
  lc_H4 :: string
  lc_I1 :: string
  lc_I2 :: string
  lc_I3 :: string
  lc_I4 :: string
  lc_I5 :: string
  lc_Jc :: string
  lc_Jmin :: string
  lc_Jmax :: string
  lc_S1 :: string
  lc_S2 :: string
  lc_S3 :: string
  lc_S4 :: string
  lc_AllowedIPs :: "string list"
  lc_ClientId :: string
  lc_ClientIP :: string
  lc_ClientPrivKey :: string
  lc_ClientPubKey :: string
  lc_Config :: string
  lc_HostName :: string
  lc_Mtu :: string
  lc_PersistentKeepAlive :: string
  lc_Port :: int
  lc_PskKey :: string
  lc_ServerPubKey :: string

section \<open>JSON documents\<close>

fun commas :: "string list \<Rightarrow> string" where
  "commas [] = ''''"
| "commas [x] = x"
| "commas (x # xs) = x @ '','' @ commas xs"

definition jsonObject :: "(string \<times> string) list \<Rightarrow> string" where
  "jsonObject fs = ''{'' @ commas (map (\<lambda>(k, v). jsonString k @ '':'' @ v) fs) @ ''}''"

definition jsonArray :: "string list \<Rightarrow> string" where
  "jsonArray vs = ''['' @ commas vs @ '']''"

definition marshalAwg :: "awgConfig \<Rightarrow> string" where
  "marshalAwg c = jsonObject [(''H1'', jsonString (ac_H1 c)), (''H2'', jsonString (ac_H2 c)), (''H3'', jsonString (ac_H3 c)),
     (''H4'', jsonString (ac_H4 c)), (''I1'', jsonString (ac_I1 c)), (''I2'', jsonString (ac_I2 c)), (''I3'', jsonString (ac_I3 c)),
     (''I4'', jsonString (ac_I4 c)), (''I5'', jsonString (ac_I5 c)), (''Jc'', jsonString (ac_Jc c)), (''Jmax'', jsonString (ac_Jmax c)),
     (''Jmin'', jsonString (ac_Jmin c)), (''S1'', jsonString (ac_S1 c)), (''S2'', jsonString (ac_S2 c)), (''S3'', jsonString (ac_S3 c)),
     (''S4'', jsonString (ac_S4 c)), (''last_config'', jsonString (ac_LastConfig c)), (''port'', jsonString (ac_Port c)),
     (''protocol_version'', jsonString (ac_ProtocolVersion c)), (''subnet_address'', jsonString (ac_SubnetAddress c)),
     (''transport_proto'', jsonString (ac_TransportProto c))]"

definition marshalContainer :: "container \<Rightarrow> string" where
  "marshalContainer c = jsonObject [(''container'', jsonString (co_Container c)), (''awg'', marshalAwg (co_Awg c))]"

definition marshalRoot :: "rootConfig \<Rightarrow> string" where
  "marshalRoot r = jsonObject [(''containers'', jsonArray (map marshalContainer (rc_Containers r))),
     (''defaultContainer'', jsonString (rc_DefaultContainer r)), (''description'', jsonString (rc_Description r)),
     (''dns1'', jsonString (rc_Dns1 r)), (''dns2'', jsonString (rc_Dns2 r)), (''hostName'', jsonString (rc_HostName r))]"

definition marshalLast :: "lastConfigInner \<Rightarrow> string" where
  "marshalLast c = jsonObject ([(''H1'', jsonString (lc_H1 c)), (''H2'', jsonString (lc_H2 c)), (''H3'', jsonString (lc_H3 c)),
     (''H4'', jsonString (lc_H4 c)), (''I1'', jsonString (lc_I1 c)), (''I2'', jsonString (lc_I2 c)), (''I3'', jsonString (lc_I3 c)),
     (''I4'', jsonString (lc_I4 c)), (''I5'', jsonString (lc_I5 c)), (''Jc'', jsonString (lc_Jc c)), (''Jmin'', jsonString (lc_Jmin c)),
     (''Jmax'', jsonString (lc_Jmax c)), (''S1'', jsonString (lc_S1 c)), (''S2'', jsonString (lc_S2 c)), (''S3'', jsonString (lc_S3 c)),
     (''S4'', jsonString (lc_S4 c)), (''allowed_ips'', jsonArray (map jsonString (lc_AllowedIPs c))),
     (''clientId'', jsonString (lc_ClientId c)), (''client_ip'', jsonString (lc_ClientIP c)),
     (''client_priv_key'', jsonString (lc_ClientPrivKey c)), (''client_pub_key'', jsonString (lc_ClientPubKey c)),
     (''config'', jsonString (lc_Config c)), (''hostName'', jsonString (lc_HostName c)), (''mtu'', jsonString (lc_Mtu c)),
     (''persistent_keep_alive'', jsonString (lc_PersistentKeepAlive c)), (''port'', show_int (lc_Port c))] @
     (if lc_PskKey c = '''' then [] else [(''psk_key'', jsonString (lc_PskKey c))]) @
     [(''server_pub_key'', jsonString (lc_ServerPubKey c))])"

section \<open>The connection string\<close>

definition iniLine :: "string \<Rightarrow> string \<Rightarrow> string" where
  "iniLine key val = key @ '' = '' @ val @ [char_of (10 :: nat)]"

definition buildINIString :: "ClientParams \<Rightarrow> string" where
  "buildINIString p =
     ''[Interface]'' @ [char_of (10 :: nat)] @ iniLine ''Address'' (cl_ClientIP p) @ iniLine ''DNS'' (cl_DNSServer1 p) @
     iniLine ''PrivateKey'' (cl_ClientPrivKey p) @ iniLine ''Jc'' (cl_Jc p) @ iniLine ''Jmin'' (cl_Jmin p) @ iniLine ''Jmax'' (cl_Jmax p) @
     iniLine ''S1'' (cl_S1 p) @ iniLine ''S2'' (cl_S2 p) @ iniLine ''S3'' (cl_S3 p) @ iniLine ''S4'' (cl_S4 p) @
     iniLine ''H1'' (cl_H1 p) @ iniLine ''H2'' (cl_H2 p) @ iniLine ''H3'' (cl_H3 p) @ iniLine ''H4'' (cl_H4 p) @
     iniLine ''I1'' (cl_I1 p) @ iniLine ''I2'' (cl_I2 p) @ iniLine ''I3'' (cl_I3 p) @ iniLine ''I4'' (cl_I4 p) @ iniLine ''I5'' (cl_I5 p) @
     [char_of (10 :: nat)] @ ''[Peer]'' @ [char_of (10 :: nat)] @ iniLine ''PublicKey'' (cl_ServerPubKey p) @
     iniLine ''PresharedKey'' (cl_ServerPSK p) @ iniLine ''AllowedIPs'' ''0.0.0.0/0, ::/0'' @
     iniLine ''Endpoint'' (cl_ServerAddr p @ '':'' @ show_int (cl_ServerPort p)) @ iniLine ''PersistentKeepalive'' ''25''"

definition hexToBase64 :: "string \<Rightarrow> string" where
  "hexToBase64 h = stdEncodeToString (fst (hexDecode h))"

text \<open>\<^verbatim>\<open>strings.Replace(s, old, "", 1)\<close>.\<close>

fun removeFirst :: "string \<Rightarrow> string \<Rightarrow> string" where
  "removeFirst old [] = []"
| "removeFirst old (c # s) =
     (if take (length old) (c # s) = old then drop (length old) (c # s) else c # removeFirst old s)"

text \<open>\<^verbatim>\<open>IP.String\<close> of the network address; the text of an IPv6 address is an argument, for the callers pass IPv4.\<close>

definition netIPString :: "(netIP \<Rightarrow> string) \<Rightarrow> netIP \<Rightarrow> string" where
  "netIPString v6text ip = (if To4 ip \<noteq> [] then dotted (To4 ip) else v6text ip)"

definition lastCfgOf :: "string \<Rightarrow> ClientParams \<Rightarrow> lastConfigInner" where
  "lastCfgOf uuid p =
     \<lparr>lc_H1 = cl_H1 p, lc_H2 = cl_H2 p, lc_H3 = cl_H3 p, lc_H4 = cl_H4 p, lc_I1 = '''', lc_I2 = '''', lc_I3 = '''', lc_I4 = '''', lc_I5 = '''',
      lc_Jc = cl_Jc p, lc_Jmin = cl_Jmin p, lc_Jmax = cl_Jmax p, lc_S1 = cl_S1 p, lc_S2 = cl_S2 p, lc_S3 = cl_S3 p, lc_S4 = cl_S4 p,
      lc_AllowedIPs = [''0.0.0.0/0'', ''::/0''], lc_ClientId = stdEncodeToString (bytes_of uuid),
      lc_ClientIP = removeFirst ''/32'' (cl_ClientIP p), lc_ClientPrivKey = hexToBase64 (cl_ClientPrivKey p),
      lc_ClientPubKey = hexToBase64 (cl_ClientPubKey p), lc_Config = buildINIString p, lc_HostName = cl_ServerAddr p, lc_Mtu = ''1280'',
      lc_PersistentKeepAlive = ''25'', lc_Port = cl_ServerPort p, lc_PskKey = cl_ServerPSK p, lc_ServerPubKey = hexToBase64 (cl_ServerPubKey p)\<rparr>"

definition rootOf :: "string \<Rightarrow> string \<Rightarrow> ClientParams \<Rightarrow> rootConfig" where
  "rootOf subnet lastCfg p =
     \<lparr>rc_Containers = [\<lparr>co_Container = ''amnezia-awg2'', co_Awg =
        \<lparr>ac_H1 = cl_H1 p, ac_H2 = cl_H2 p, ac_H3 = cl_H3 p, ac_H4 = cl_H4 p, ac_I1 = cl_I1 p, ac_I2 = cl_I2 p, ac_I3 = cl_I3 p, ac_I4 = cl_I4 p,
         ac_I5 = cl_I5 p, ac_Jc = cl_Jc p, ac_Jmax = cl_Jmax p, ac_Jmin = cl_Jmin p, ac_S1 = cl_S1 p, ac_S2 = cl_S2 p, ac_S3 = cl_S3 p, ac_S4 = cl_S4 p,
         ac_LastConfig = lastCfg, ac_Port = show_int (cl_ServerPort p), ac_ProtocolVersion = ''2'', ac_SubnetAddress = subnet, ac_TransportProto = ''udp''\<rparr>\<rparr>],
      rc_DefaultContainer = ''amnezia-awg2'', rc_Description = cl_EndpointName p, rc_Dns1 = cl_DNSServer1 p, rc_Dns2 = cl_DNSServer2 p,
      rc_HostName = cl_ServerAddr p\<rparr>"

definition generateURI :: "(netIP \<Rightarrow> string) \<Rightarrow> (bytes \<Rightarrow> bytes) \<Rightarrow> string \<Rightarrow> ClientParams \<Rightarrow> string option" where
  "generateURI v6text deflate uuid p =
     (case ParseCIDR (cl_ClientIP p) of
        None \<Rightarrow> None
      | Some (_, ipNet) \<Rightarrow>
          let root = rootOf (netIPString v6text (net_IP ipNet)) (marshalLast (lastCfgOf uuid p)) p;
              rootJsonBytes = bytes_of (marshalRoot root);
              finalBytes = put32 (of_nat (length rootJsonBytes)) @ deflate rootJsonBytes
          in Some (''vpn://'' @ rawURLEncodeToString finalBytes))"

definition clientParams :: "'d AWGTransport \<Rightarrow> model_Peer \<Rightarrow> string \<Rightarrow> string \<Rightarrow> ClientParams" where
  "clientParams t peer addr name =
     \<lparr>cl_EndpointName = name, cl_ServerAddr = addr, cl_ServerPort = tc_ListenPort (aw_cfg t), cl_ServerPubKey = aw_publicKey t, cl_ServerPSK = '''',
      cl_ClientPrivKey = me_AwgPrivateKey peer, cl_ClientPubKey = '''', cl_ClientIP = Uint32ToIPString (me_VirtualIP peer) @ ''/32'',
      cl_DNSServer1 = ''8.8.8.8'', cl_DNSServer2 = ''1.1.1.1'',
      cl_H1 = tc_H1 (aw_cfg t), cl_H2 = tc_H2 (aw_cfg t), cl_H3 = tc_H3 (aw_cfg t), cl_H4 = tc_H4 (aw_cfg t),
      cl_I1 = '''', cl_I2 = '''', cl_I3 = '''', cl_I4 = '''', cl_I5 = '''',
      cl_Jc = show_int (tc_Jc (aw_cfg t)), cl_Jmin = show_int (tc_JMin (aw_cfg t)), cl_Jmax = show_int (tc_JMax (aw_cfg t)),
      cl_S1 = show_int (tc_S1 (aw_cfg t)), cl_S2 = show_int (tc_S2 (aw_cfg t)), cl_S3 = show_int (tc_S3 (aw_cfg t)), cl_S4 = show_int (tc_S4 (aw_cfg t))\<rparr>"

definition GenerateClientConnectionString ::
  "(netIP \<Rightarrow> string) \<Rightarrow> (bytes \<Rightarrow> bytes) \<Rightarrow> string \<Rightarrow> 'd AWGTransport \<Rightarrow> model_Peer \<Rightarrow> string \<Rightarrow> string \<Rightarrow> string option" where
  "GenerateClientConnectionString v6text deflate uuid t peer addr name = generateURI v6text deflate uuid (clientParams t peer addr name)"

section \<open>Keys\<close>

text \<open>The private key as it is stored; \<open>rnd\<close> are the random bytes, None when the source of randomness fails.\<close>

definition clamp :: "bytes \<Rightarrow> bytes" where
  "clamp k = k[0 := (k ! 0) AND 248, 31 := ((k ! 31) AND 127) OR 64]"

definition generateKeyPair :: "(bytes \<Rightarrow> bytes option) \<Rightarrow> bytes option \<Rightarrow> (string \<times> string) option" where
  "generateKeyPair x25519 rnd =
     (case rnd of
        None \<Rightarrow> None
      | Some privBytes \<Rightarrow>
          (case x25519 privBytes of
             None \<Rightarrow> None
           | Some pubBytes \<Rightarrow> Some (hexEncode (clamp privBytes), hexEncode pubBytes)))"

definition GeneratePeerKeys :: "(bytes \<Rightarrow> bytes option) \<Rightarrow> bytes option \<Rightarrow> model_Peer \<Rightarrow> model_Peer option" where
  "GeneratePeerKeys x25519 rnd peer =
     map_option (\<lambda>(priv, pub). peer\<lparr>me_AwgPrivateKey := priv, me_AwgPublicKey := pub\<rparr>) (generateKeyPair x25519 rnd)"

section \<open>What the client reads\<close>

lemma commas_member: "x \<in> set xs \<Longrightarrow> \<exists>a b. commas xs = a @ x @ b"
proof (induction xs rule: commas.induct)
  case (3 y z zs)
  show ?case
  proof (cases "x = y")
    case True
    then show ?thesis by (intro exI [of _ "[]"] exI [of _ "'','' @ commas (z # zs)"]) simp
  next
    case False
    with 3 obtain a b where "commas (z # zs) = a @ x @ b" by auto
    then show ?thesis by (intro exI [of _ "y @ '','' @ a"] exI [of _ b]) simp
  qed
qed (auto intro: exI [of _ "[]"])

lemma jsonObject_member:
  assumes "(k, v) \<in> set fs" shows "\<exists>a b. jsonObject fs = a @ jsonString k @ '':'' @ v @ b"
proof -
  have "jsonString k @ '':'' @ v \<in> set (map (\<lambda>(k, v). jsonString k @ '':'' @ v) fs)" using assms by force
  from commas_member [OF this] obtain a b where "commas (map (\<lambda>(k, v). jsonString k @ '':'' @ v) fs) = a @ (jsonString k @ '':'' @ v) @ b" by blast
  then show ?thesis by (intro exI [of _ "''{'' @ a"] exI [of _ "b @ ''}''"]) (simp add: jsonObject_def)
qed

text \<open>The inner document is a member of the outer one, as a quoted string.\<close>

lemma last_config_inside:
  "\<exists>a b. marshalRoot (rootOf subnet lastCfg p) = a @ jsonString ''last_config'' @ '':'' @ jsonString lastCfg @ b"
proof -
  let ?r = "rootOf subnet lastCfg p" let ?c = "hd (rc_Containers ?r)"
  have "(''last_config'', jsonString lastCfg) \<in> set [(''last_config'', jsonString (ac_LastConfig (co_Awg ?c)))]" by (simp add: rootOf_def)
  then obtain a1 b1 where 1: "marshalAwg (co_Awg ?c) = a1 @ jsonString ''last_config'' @ '':'' @ jsonString lastCfg @ b1"
    unfolding marshalAwg_def by (metis (no_types, lifting) jsonObject_member list.set_intros(1,2) singletonD list.set(1) list.simps(15) prod.inject)
  obtain a2 b2 where 2: "marshalContainer ?c = a2 @ jsonString ''awg'' @ '':'' @ marshalAwg (co_Awg ?c) @ b2"
    using jsonObject_member [of "''awg''" "marshalAwg (co_Awg ?c)"] unfolding marshalContainer_def by fastforce
  obtain a3 b3 where 3: "marshalRoot ?r = a3 @ jsonString ''containers'' @ '':'' @ jsonArray (map marshalContainer (rc_Containers ?r)) @ b3"
    using jsonObject_member [of "''containers''" "jsonArray (map marshalContainer (rc_Containers ?r))"] unfolding marshalRoot_def by fastforce
  have "rc_Containers ?r = [?c]" by (simp add: rootOf_def)
  then have "jsonArray (map marshalContainer (rc_Containers ?r)) = ''['' @ marshalContainer ?c @ '']''" by (metis commas.simps(2) jsonArray_def list.simps(8,9))
  with 1 2 3 show ?thesis
    by (intro exI [of _ "a3 @ jsonString ''containers'' @ '':['' @ a2 @ jsonString ''awg'' @ '':'' @ a1"] exI [of _ "b1 @ b2 @ '']'' @ b3"]) simp
qed

text \<open>The client's side of the connection string: strip the scheme, decode, inflate, compare the length with the 32 bits of the header.\<close>

definition readURI :: "(bytes \<Rightarrow> bytes) \<Rightarrow> string \<Rightarrow> string option" where
  "readURI inflate s =
     (if take 6 s = ''vpn://'' then
        Option.bind (rawDecode urlAlphabet (drop 6 s)) (\<lambda>bs. Option.bind (be32 bs) (\<lambda>n.
          let js = inflate (drop 4 bs) in if n = of_nat (length js) then Some (string_of js) else None))
      else None)"

lemma ParseCIDR_client: "\<exists>net. ParseCIDR (Uint32ToIPString ip @ ''/32'') = Some (v4InV6Prefix @ put32 ip, net) \<and>
    netIPString v6text (net_IP net) = Uint32ToIPString ip"
proof -
  have m: "CIDRMask 32 4 = [0xff, 0xff, 0xff, 0xff]" by code_simp
  have "(0xff :: u8) = - 1" by simp
  then have "x AND 0xff = x" for x :: u8 by (simp only: and.right_neutral)
  then have "map2 (AND) (put32 ip) (CIDRMask 32 4) = put32 ip" by (simp add: m put32_def)
  moreover have "show_nat 32 = ''32''" by (simp add: show_nat.simps char_of_def bit_0)
  moreover have "netIPString v6text (put32 ip) = Uint32ToIPString ip"
    by (simp add: netIPString_def To4_def Uint32ToIPString_def put32_def del: dotted.simps)
  ultimately show ?thesis using ParseCIDR_text [of 32 ip] by simp
qed

lemma readURI_generateURI:
  assumes "inflate (deflate (bytes_of js)) = bytes_of js"
  shows "readURI inflate (''vpn://'' @ rawURLEncodeToString (put32 (of_nat (length (bytes_of js))) @ deflate (bytes_of js))) = Some js"
  using assms by (simp add: readURI_def rawURLEncodeToString_def rawDecode_rawEncode)

section \<open>Properties of connection strings and keys\<close>



text \<open>The connection string carries no client public key. Although the code that builds it says the client needs its own
  public key, the field \<^verbatim>\<open>client_pub_key\<close> is empty for every peer.\<close>

theorem client_public_key_missing:
  "lc_ClientPubKey (lastCfgOf uuid (clientParams t peer addr name)) = ''''"
  by (simp add: lastCfgOf_def clientParams_def hexToBase64_def stdEncodeToString_def rawEncode_def b64pad_def)

text \<open>Server and client disagree on the junk packets. When the minimal or maximal size is configured, the server sets its
  device to the packet count instead, while the client is told the configured size; the two differ unless count and size
  happen to be equal.\<close>

theorem obfuscation_parameters_disagree:
  assumes "tc_JMin (aw_cfg t) > 0" and "tc_JMax (aw_cfg t) > 0" and "tc_JMin (aw_cfg t) \<noteq> tc_Jc (aw_cfg t)" and "tc_JMax (aw_cfg t) \<noteq> tc_Jc (aw_cfg t)"
  shows "\<exists>vmin vmax. (JminFailed, cmdLine ''jmin'' vmin) \<in> set (configCmds (aw_cfg t)) \<and> (JmaxFailed, cmdLine ''jmax'' vmax) \<in> set (configCmds (aw_cfg t)) \<and>
    vmin \<noteq> cl_Jmin (clientParams t peer addr name) \<and> vmax \<noteq> cl_Jmax (clientParams t peer addr name)"
  using assms by (intro exI [of _ "show_int (tc_Jc (aw_cfg t))"]) (simp add: configCmds_def clientParams_def)

lemma obfuscation_parameters_disagree_witness:
  "\<exists>vmin vmax. (JminFailed, cmdLine ''jmin'' vmin) \<in> set (configCmds exConfig) \<and> (JmaxFailed, cmdLine ''jmax'' vmax) \<in> set (configCmds exConfig) \<and>
    vmin \<noteq> cl_Jmin (clientParams exTransport exClient ''h'' ''n'') \<and> vmax \<noteq> cl_Jmax (clientParams exTransport exClient ''h'' ''n'')"
  using obfuscation_parameters_disagree [of exTransport exClient "''h''" "''n''"] by (simp add: exTransport_def exConfig_def)

lemma clamp_length [simp]: "length (clamp k) = length k"
  by (simp add: clamp_def)

text \<open>A client's stored private key belongs to its public key. The public key is computed before the private key is
  clamped, and deriving the public key from the stored, clamped key gives the same one, since X25519 clamps its scalar itself.\<close>

theorem key_pair_consistent:
  assumes "\<And>k. length k = 32 \<Longrightarrow> x25519 (clamp k) = x25519 k" and "length rnd = 32"
    and "generateKeyPair x25519 (Some rnd) = Some (priv, pub)"
  shows "getServerPubKey x25519 priv = Inr pub"
  using assms by (auto simp: generateKeyPair_def getServerPubKey_def split: option.splits)

lemma key_pair_consistent_witness:
  "getServerPubKey (\<lambda>k. Some (rev (clamp k))) (hexEncode (clamp (replicate 32 255))) = Inr (hexEncode (rev (clamp (replicate 32 255))))"
proof (rule key_pair_consistent [where rnd = "replicate 32 255"])
  fix k :: bytes assume "length k = 32"
  moreover have "x AND 248 AND 248 = x AND (248 :: u8)" "(x AND 127 OR 64) AND 127 OR 64 = x AND 127 OR (64 :: u8)" for x
    by (auto simp: bit_eq_iff bit_simps)
  ultimately have "clamp (clamp k) = clamp k" by (simp add: clamp_def list_update_swap)
  then show "Some (rev (clamp (clamp k))) = Some (rev (clamp k))" by simp
qed (simp_all add: generateKeyPair_def)

end
