(* ===== verification/PeersManager.thy ===== *)
theory PeersManager
  imports FirewallManager AWGUtils
begin

text \<open>
  \<^verbatim>\<open>pkg/services/peersmanager\<close>: the clients of this node, kept in the database and handed to the transport of their type.
  The manager reaches a transport through the interface \<^verbatim>\<open>transport.Transport\<close>, here the record \<open>transport_port\<close>; what it
  relies on is the locale \<open>peer_transport\<close>, interpreted on the AmneziaWG transport. A transport's state \<open>'t\<close> and the
  router \<open>'r\<close> change together. The database is the one of the firewall manager; the argument \<open>io\<close> says of the n-th
  statement of an operation whether the connection delivers it. The outer option is a panic.
\<close>

section \<open>State\<close>

record ('t, 'r) transport_port =
  tp_CreatePeer :: "gotime \<Rightarrow> model_Peer \<Rightarrow> 't \<times> 'r \<Rightarrow> (bool \<times> 't \<times> 'r) option"
  tp_KickPeer :: "u32 \<Rightarrow> 't \<times> 'r \<Rightarrow> (bool \<times> 't \<times> 'r) option"
  tp_ExistsPeer :: "u32 \<Rightarrow> 't \<Rightarrow> bool"
  tp_GeneratePeerKeys :: "bytes option \<Rightarrow> model_Peer \<Rightarrow> model_Peer option"
  tp_GenerateClientConnectionString :: "'t \<Rightarrow> model_Peer \<Rightarrow> string \<Rightarrow> string \<Rightarrow> string option"
  tp_takeDelta :: "'t \<Rightarrow> (TransportPeerStats \<times> 't) option" \<comment> \<open>a receive from \<^verbatim>\<open>DeltaChan()\<close>\<close>

record ('t, 'r) PeersManager =
  pm_startingIP :: u32
  pm_fm :: "'r Firewallmanager"
  pm_transports :: "(string, 't) safemapImpl"
  pm_statsDrain :: "TransportPeerStats chan"

abbreviation pm_db :: "('t, 'r) PeersManager \<Rightarrow> database" where
  "pm_db pm \<equiv> fm_db (pm_fm pm)"

abbreviation pm_router :: "('t, 'r) PeersManager \<Rightarrow> 'r" where
  "pm_router pm \<equiv> fm_firewall (pm_fm pm)"

datatype pm_error = TransportNotFound | KeysFailed | PrepareFailed | ConnectionStringFailed | Sql sql_error

text \<open>The error of the address is ignored and leaves the address 0.\<close>

definition pm_New :: "'r Firewallmanager \<Rightarrow> string \<Rightarrow> ('t, 'r) PeersManager" where
  "pm_New fm netCIDR =
     \<lparr>pm_startingIP = (case NewNativeIPNet netCIDR of Inl _ \<Rightarrow> 0 | Inr (ip, _) \<Rightarrow> ip) + 1, pm_fm = fm,
      pm_transports = sm_New, pm_statsDrain = mkchan 1000\<rparr>"

definition set_db :: "database \<Rightarrow> ('t, 'r) PeersManager \<Rightarrow> ('t, 'r) PeersManager" where
  "set_db db pm = pm\<lparr>pm_fm := (pm_fm pm)\<lparr>fm_db := db\<rparr>\<rparr>"

text \<open>After a call of the transport with this name.\<close>

definition set_transport :: "string \<Rightarrow> 't \<times> 'r \<Rightarrow> ('t, 'r) PeersManager \<Rightarrow> ('t, 'r) PeersManager" where
  "set_transport name s pm =
     pm\<lparr>pm_transports := sm_Set name (fst s) (pm_transports pm), pm_fm := (pm_fm pm)\<lparr>fm_firewall := snd s\<rparr>\<rparr>"

section \<open>Operations\<close>

definition peerFromRow :: "repos_Peer \<Rightarrow> model_Peer" where
  "peerFromRow row =
     \<lparr>me_ID = of_int (rp_ID row), me_Type = rp_Type row, me_VirtualIP = of_int (rp_VirtualIp row), me_LastSeen = rp_LastSeen row,
      me_ExpirationDate = rp_ExpirationDate row, me_FromPeerTotal = of_int (rp_FromPeerTotal row), me_ToPeerTotal = of_int (rp_ToPeerTotal row),
      me_TrafficLimitGb = rp_TrafficLimitGb row, me_SpeedLimitMbps = rp_SpeedLimitMbps row,
      me_AwgPrivateKey = rp_AwgPrivateKey row, me_AwgPublicKey = rp_AwgPublicKey row\<rparr>"

definition RegisterTransport :: "string \<Rightarrow> 't \<Rightarrow> ('t, 'r) PeersManager \<Rightarrow> ('t, 'r) PeersManager" where
  "RegisterTransport name trp pm = pm\<lparr>pm_transports := sm_Set name trp (pm_transports pm)\<rparr>"

text \<open>
  One round of the goroutine of \<^verbatim>\<open>RegisterTransport\<close>: a report moves on to the common channel. None: nothing to receive,
  or no room, and the goroutine waits (with the report in hand, which the model leaves in its channel).
\<close>

definition drainStep :: "('t, 'r) transport_port \<Rightarrow> string \<Rightarrow> ('t, 'r) PeersManager \<Rightarrow> ('t, 'r) PeersManager option" where
  "drainStep T name pm =
     Option.bind (sm_Get (pm_transports pm) name) (\<lambda>t. Option.bind (tp_takeDelta T t) (\<lambda>(data, t').
       case try_send data (pm_statsDrain pm) of
         Sent c \<Rightarrow> Some (pm\<lparr>pm_transports := sm_Set name t' (pm_transports pm), pm_statsDrain := c\<rparr>)
       | _ \<Rightarrow> None))"

text \<open>One round of the first goroutine of \<^verbatim>\<open>Run\<close>: a report goes to the database; a failing statement loses it.\<close>

definition statsStep :: "(nat \<Rightarrow> bool) \<Rightarrow> ('t, 'r) PeersManager \<Rightarrow> ('t, 'r) PeersManager option" where
  "statsStep io pm =
     map_option (\<lambda>(data, c).
       let pm1 = pm\<lparr>pm_statsDrain := c\<rparr>
       in if io 0 then set_db (sql_UpdatePeerStats (sint (ts_DeltaFromPeer data)) (sint (ts_DeltaToPeer data)) (ts_LastSeen data)
                               (uint (ts_VirtualIP data)) (pm_db pm1)) pm1
          else pm1)
       (chan_recv (pm_statsDrain pm))"

text \<open>The body of the loops over the rows in \<^verbatim>\<open>Run\<close> and, with the check that skips known peers, in \<^verbatim>\<open>syncPeers\<close>.\<close>

definition preparePeer ::
  "('t, 'r) transport_port \<Rightarrow> bool \<Rightarrow> gotime \<Rightarrow> repos_Peer \<Rightarrow> ('t, 'r) PeersManager \<Rightarrow> ('t, 'r) PeersManager option" where
  "preparePeer T skipKnown now row pm =
     (let peer = peerFromRow row in
      if IsExpired now peer then Some pm
      else case sm_Get (pm_transports pm) (me_Type peer) of
             None \<Rightarrow> Some pm
           | Some t \<Rightarrow>
               if skipKnown \<and> tp_ExistsPeer T (me_VirtualIP peer) t then Some pm
               else map_option (\<lambda>(_, s). set_transport (me_Type peer) s pm) (tp_CreatePeer T now peer (t, pm_router pm)))"

fun prepareAll ::
  "('t, 'r) transport_port \<Rightarrow> bool \<Rightarrow> gotime \<Rightarrow> repos_Peer list \<Rightarrow> ('t, 'r) PeersManager \<Rightarrow> ('t, 'r) PeersManager option" where
  "prepareAll T skipKnown now [] pm = Some pm"
| "prepareAll T skipKnown now (row # rows) pm =
     Option.bind (preparePeer T skipKnown now row pm) (prepareAll T skipKnown now rows)"

definition syncPeers ::
  "('t, 'r) transport_port \<Rightarrow> (nat \<Rightarrow> bool) \<Rightarrow> gotime \<Rightarrow> ('t, 'r) PeersManager \<Rightarrow> ((pm_error + unit) \<times> ('t, 'r) PeersManager) option" where
  "syncPeers T io now pm =
     (if \<not> io 0 then Some (Inl (Sql DbFailure), pm)
      else map_option (Pair (Inr ())) (prepareAll T True now (sql_ListPeers (pm_db pm)) pm))"

definition pm_Run ::
  "('t, 'r) transport_port \<Rightarrow> (nat \<Rightarrow> bool) \<Rightarrow> gotime \<Rightarrow> ('t, 'r) PeersManager \<Rightarrow> ((pm_error + unit) \<times> ('t, 'r) PeersManager) option" where
  "pm_Run T io now pm =
     (if \<not> io 0 then Some (Inl (Sql DbFailure), pm)
      else map_option (Pair (Inr ())) (prepareAll T False now (sql_ListPeers (pm_db pm)) pm))"

text \<open>
  The statements of \<^verbatim>\<open>CreatePeerAutoID\<close>: begin, insert, commit. The insertion is in a transaction: an error after it, a
  failing commit included, leaves the database as it was. The caller's peer object is a result as well.
\<close>

definition CreatePeerAutoID ::
  "('t, 'r) transport_port \<Rightarrow> (nat \<Rightarrow> bool) \<Rightarrow> gotime \<Rightarrow> bytes option \<Rightarrow> model_Peer \<Rightarrow> ('t, 'r) PeersManager \<Rightarrow>
   ((pm_error + unit) \<times> model_Peer \<times> ('t, 'r) PeersManager) option" where
  "CreatePeerAutoID T io now rnd peer pm =
     (case sm_Get (pm_transports pm) (me_Type peer) of
        None \<Rightarrow> Some (Inl TransportNotFound, peer, pm)
      | Some t \<Rightarrow>
          (case tp_GeneratePeerKeys T rnd peer of
             None \<Rightarrow> Some (Inl KeysFailed, peer, pm)
           | Some peer1 \<Rightarrow>
               if \<not> io 0 \<or> \<not> io 1 then Some (Inl (Sql DbFailure), peer1, pm)
               else
                 (case sql_CreatePeerAutoID now \<lparr>cp_Type = me_Type peer1, cp_MinVirtualIp = uint (pm_startingIP pm),
                         cp_ExpirationDate = me_ExpirationDate peer1, cp_TrafficLimitGb = me_TrafficLimitGb peer1,
                         cp_SpeedLimitMbps = me_SpeedLimitMbps peer1, cp_AwgPrivateKey = me_AwgPrivateKey peer1,
                         cp_AwgPublicKey = me_AwgPublicKey peer1\<rparr> (pm_db pm) of
                    (Inl e, _) \<Rightarrow> Some (Inl (Sql e), peer1, pm)
                  | (Inr row, db) \<Rightarrow>
                      let peer2 = peer1\<lparr>me_ID := of_int (rp_ID row), me_VirtualIP := of_int (rp_VirtualIp row)\<rparr> in
                      (case tp_CreatePeer T now peer2 (t, pm_router pm) of
                         None \<Rightarrow> None
                       | Some (False, s) \<Rightarrow> Some (Inl PrepareFailed, peer2, set_transport (me_Type peer) s pm)
                       | Some (True, s) \<Rightarrow>
                           let pm1 = set_transport (me_Type peer) s pm
                           in if \<not> io 2 then Some (Inl (Sql DbFailure), peer2, pm1)
                              else Some (Inr (), peer2, set_db db pm1)))))"

definition pm_GetPeerByID :: "(nat \<Rightarrow> bool) \<Rightarrow> u64 \<Rightarrow> ('t, 'r) PeersManager \<Rightarrow> pm_error + model_Peer" where
  "pm_GetPeerByID io i pm =
     (if \<not> io 0 then Inl (Sql DbFailure)
      else case sql_GetPeerByID (sint i) (pm_db pm) of Inl e \<Rightarrow> Inl (Sql e) | Inr row \<Rightarrow> Inr (peerFromRow row))"

definition pm_GetPeerByVirtualIP :: "(nat \<Rightarrow> bool) \<Rightarrow> u32 \<Rightarrow> ('t, 'r) PeersManager \<Rightarrow> pm_error + model_Peer" where
  "pm_GetPeerByVirtualIP io ip pm =
     (if \<not> io 0 then Inl (Sql DbFailure)
      else case sql_GetPeerByVirtualIP (uint ip) (pm_db pm) of Inl e \<Rightarrow> Inl (Sql e) | Inr row \<Rightarrow> Inr (peerFromRow row))"

text \<open>The rules go first: two statements of the firewall manager, then the two of the row.\<close>

definition DeletePeer ::
  "('t, 'r) transport_port \<Rightarrow> 'r fw_port \<Rightarrow> (nat \<Rightarrow> bool) \<Rightarrow> u64 \<Rightarrow> ('t, 'r) PeersManager \<Rightarrow> ((pm_error + unit) \<times> ('t, 'r) PeersManager) option" where
  "DeletePeer T F io peerId pm =
     (case RemoveAllPeerRules F io peerId (pm_fm pm) of
        None \<Rightarrow> None
      | Some (Inl e, fm) \<Rightarrow> Some (Inl (Sql e), pm\<lparr>pm_fm := fm\<rparr>)
      | Some (Inr _, fm) \<Rightarrow>
          let pm1 = pm\<lparr>pm_fm := fm\<rparr> in
          if \<not> io 2 then Some (Inl (Sql DbFailure), pm1)
          else case sql_GetPeerByID (sint peerId) (pm_db pm1) of
                 Inl e \<Rightarrow> Some (Inl (Sql e), pm1)
               | Inr row \<Rightarrow>
                   if \<not> io 3 then Some (Inl (Sql DbFailure), pm1)
                   else
                     let pm2 = set_db (sql_DeletePeer (sint peerId) (pm_db pm1)) pm1 in
                     (case sm_Get (pm_transports pm2) (rp_Type row) of
                        None \<Rightarrow> Some (Inr (), pm2)
                      | Some t \<Rightarrow>
                          map_option (\<lambda>(_, s). (Inr (), set_transport (rp_Type row) s pm2))
                            (tp_KickPeer T (of_int (rp_VirtualIp row)) (t, pm_router pm2))))"

definition pm_ProlongPeer :: "(nat \<Rightarrow> bool) \<Rightarrow> u64 \<Rightarrow> gotime \<Rightarrow> ('t, 'r) PeersManager \<Rightarrow> (pm_error + unit) \<times> ('t, 'r) PeersManager" where
  "pm_ProlongPeer io peerId newExpiration pm =
     (if \<not> io 0 then (Inl (Sql DbFailure), pm)
      else case sql_ProlongPeer (Some newExpiration) (sint peerId) (pm_db pm) of
             (Inl e, db) \<Rightarrow> (Inl (Sql e), set_db db pm)
           | (Inr _, db) \<Rightarrow> (Inr (), set_db db pm))"

definition pm_ListPeers :: "(nat \<Rightarrow> bool) \<Rightarrow> ('t, 'r) PeersManager \<Rightarrow> pm_error + model_Peer list" where
  "pm_ListPeers io pm = (if \<not> io 0 then Inl (Sql DbFailure) else Inr (map peerFromRow (sql_ListPeers (pm_db pm))))"

definition GenerateClientKey ::
  "('t, 'r) transport_port \<Rightarrow> (nat \<Rightarrow> bool) \<Rightarrow> u64 \<Rightarrow> string \<Rightarrow> string \<Rightarrow> ('t, 'r) PeersManager \<Rightarrow> pm_error + string" where
  "GenerateClientKey T io peerId addr name pm =
     (case pm_GetPeerByID io peerId pm of
        Inl e \<Rightarrow> Inl e
      | Inr peer \<Rightarrow>
          (case sm_Get (pm_transports pm) (me_Type peer) of
             None \<Rightarrow> Inl TransportNotFound
           | Some t \<Rightarrow>
               (case tp_GenerateClientConnectionString T t peer addr name of
                  None \<Rightarrow> Inl ConnectionStringFailed
                | Some s \<Rightarrow> Inr s)))"

section \<open>What the manager relies on\<close>

text \<open>
  A transport keeps its word in the states \<open>tinv\<close>: creating a peer makes it known exactly when it reports success, kicking
  makes it unknown, no other address is touched, and a known peer is routed. \<open>willing\<close> are the peers it cannot refuse as long
  as nobody else uses the address.
\<close>

locale peer_transport =
  fixes T :: "('t, 'r) transport_port"
    and tinv :: "'t \<times> 'r \<Rightarrow> bool"
    and routed :: "'r \<Rightarrow> u32 \<Rightarrow> bool"
    and willing :: "model_Peer \<Rightarrow> bool"
  assumes create_law: "tinv s \<Longrightarrow> \<exists>ok s'. tp_CreatePeer T now p s = Some (ok, s') \<and> tinv s' \<and>
      (\<forall>k. tp_ExistsPeer T k (fst s') = (if k = me_VirtualIP p then ok else tp_ExistsPeer T k (fst s))) \<and>
      (\<forall>k. k \<noteq> me_VirtualIP p \<longrightarrow> routed (snd s') k = routed (snd s) k) \<and>
      (willing p \<and> (routed (snd s) (me_VirtualIP p) \<longrightarrow> tp_ExistsPeer T (me_VirtualIP p) (fst s)) \<longrightarrow> ok)"
    and kick_law: "tinv s \<Longrightarrow> \<exists>s'. tp_KickPeer T ip s = Some (tp_ExistsPeer T ip (fst s), s') \<and> tinv s' \<and>
      (\<forall>k. tp_ExistsPeer T k (fst s') = (k \<noteq> ip \<and> tp_ExistsPeer T k (fst s))) \<and>
      (\<forall>k. routed (snd s') k = (\<not> (k = ip \<and> tp_ExistsPeer T ip (fst s)) \<and> routed (snd s) k))"
    and known_routed: "tinv s \<Longrightarrow> tp_ExistsPeer T k (fst s) \<Longrightarrow> routed (snd s) k"

text \<open>A manager with one transport.\<close>

definition single :: "string \<Rightarrow> 't \<Rightarrow> ('t, 'r) PeersManager \<Rightarrow> bool" where
  "single name t pm \<longleftrightarrow> pm_transports pm = sm_From [(name, t)]"

lemma single_Get: "single name t pm \<Longrightarrow> sm_Get (pm_transports pm) n = (if n = name then Some t else None)"
  by (simp add: single_def sm_From_def sm_Get_def gm_get_Cons)

lemma single_set [simp]: "single name t pm \<Longrightarrow> single name (fst s) (set_transport name s pm)"
  by (simp add: single_def set_transport_def sm_From_def sm_Set_def gm_set_def)

lemma set_transport_sel [simp]:
  "pm_router (set_transport name s pm) = snd s" "pm_db (set_transport name s pm) = pm_db pm"
  "pm_startingIP (set_transport name s pm) = pm_startingIP pm" "fm_nodeID (pm_fm (set_transport name s pm)) = fm_nodeID (pm_fm pm)"
  by (simp_all add: set_transport_def)

lemma set_db_sel [simp]:
  "pm_router (set_db db pm) = pm_router pm" "pm_db (set_db db pm) = db" "pm_transports (set_db db pm) = pm_transports pm"
  "fm_nodeID (pm_fm (set_db db pm)) = fm_nodeID (pm_fm pm)" "single name t (set_db db pm) = single name t pm"
  by (simp_all add: set_db_def single_def)

text \<open>The rows that belong on a transport: of its type and not expired.\<close>

definition active :: "string \<Rightarrow> gotime \<Rightarrow> repos_Peer \<Rightarrow> bool" where
  "active name now row \<longleftrightarrow> rp_Type row = name \<and> \<not> IsExpired now (peerFromRow row)"

abbreviation row_ip :: "repos_Peer \<Rightarrow> u32" where
  "row_ip row \<equiv> me_VirtualIP (peerFromRow row)"

context peer_transport
begin

abbreviation "known \<equiv> tp_ExistsPeer T"

lemma preparePeer_law:
  assumes "tinv (t, pm_router pm)" and "single name t pm"
    and "active name now row \<Longrightarrow> willing (peerFromRow row)"
    and "active name now row \<Longrightarrow> routed (pm_router pm) (row_ip row) \<Longrightarrow> known (row_ip row) t"
  shows "\<exists>t' pm'. preparePeer T skip now row pm = Some pm' \<and> single name t' pm' \<and> tinv (t', pm_router pm') \<and> pm_db pm' = pm_db pm \<and>
    (\<forall>k. known k t' = (known k t \<or> active name now row \<and> k = row_ip row)) \<and>
    (\<forall>k. routed (pm_router pm') k \<longrightarrow> known k t' \<or> routed (pm_router pm) k)"
proof (cases "active name now row \<and> \<not> (skip \<and> known (row_ip row) t)")
  case False
  then have "preparePeer T skip now row pm = Some pm"
    using single_Get [OF assms(2)] by (auto simp: preparePeer_def active_def peerFromRow_def Let_def)
  then show ?thesis using False assms by auto
next
  case True
  from create_law [OF assms(1), of now "peerFromRow row"] obtain ok s' where
    c: "tp_CreatePeer T now (peerFromRow row) (t, pm_router pm) = Some (ok, s')" "tinv s'"
    "\<forall>k. known k (fst s') = (if k = row_ip row then ok else known k t)"
    "\<forall>k. k \<noteq> row_ip row \<longrightarrow> routed (snd s') k = routed (pm_router pm) k" ok using True assms(3,4) by auto
  have "preparePeer T skip now row pm = Some (set_transport name s' pm)"
    using True c(1) single_Get [OF assms(2)] by (auto simp: preparePeer_def active_def peerFromRow_def Let_def)
  moreover have "known k (fst s') \<or> routed (pm_router pm) k" if "routed (snd s') k" for k using c(3-5) that by (cases "k = row_ip row") auto
  ultimately show ?thesis using c True single_set [OF assms(2), of s'] by (intro exI [of _ "fst s'"] exI [of _ "set_transport name s' pm"]) auto
qed

lemma prepareAll_law:
  assumes "tinv (t, pm_router pm)" and "single name t pm"
    and "\<forall>row \<in> set rows. active name now row \<longrightarrow> willing (peerFromRow row)"
    and "\<forall>row \<in> set rows. active name now row \<longrightarrow> routed (pm_router pm) (row_ip row) \<longrightarrow> known (row_ip row) t"
  shows "\<exists>t' pm'. prepareAll T skip now rows pm = Some pm' \<and> single name t' pm' \<and> tinv (t', pm_router pm') \<and> pm_db pm' = pm_db pm \<and>
    (\<forall>k. known k t' = (known k t \<or> (\<exists>row \<in> set rows. active name now row \<and> k = row_ip row)))"
  using assms
proof (induction rows arbitrary: pm t)
  case Nil
  then show ?case by auto
next
  case (Cons row rows)
  from preparePeer_law [OF Cons.prems(1,2), of now row skip] Cons.prems(3,4) obtain t1 pm1 where
    p: "preparePeer T skip now row pm = Some pm1" "single name t1 pm1" "tinv (t1, pm_router pm1)" "pm_db pm1 = pm_db pm"
    "\<forall>k. known k t1 = (known k t \<or> active name now row \<and> k = row_ip row)"
    "\<forall>k. routed (pm_router pm1) k \<longrightarrow> known k t1 \<or> routed (pm_router pm) k" by auto
  have "\<forall>row \<in> set rows. active name now row \<longrightarrow> routed (pm_router pm1) (row_ip row) \<longrightarrow> known (row_ip row) t1"
    using Cons.prems(4) p(5,6) by auto
  from Cons.IH [OF p(3,2) _ this] Cons.prems(3) p show ?case by auto
qed

end

context peer_transport
begin

lemma CreatePeerAutoID_law:
  assumes "tinv (t, pm_router pm)" and "single name t pm" and "me_Type peer = name" and "db_ok (pm_db pm)"
    and keys: "\<And>p'. tp_GeneratePeerKeys T rnd peer = Some p' \<Longrightarrow> me_Type p' = me_Type peer"
  shows "\<exists>res peer' t' pm'. CreatePeerAutoID T io now rnd peer pm = Some (res, peer', pm') \<and> single name t' pm' \<and> tinv (t', pm_router pm') \<and>
    db_ok (pm_db pm') \<and> (isl res \<longrightarrow> pm_db pm' = pm_db pm) \<and>
    (\<forall>k. known k t' \<longrightarrow> known k t \<or> k = me_VirtualIP peer' \<and> (isl res \<longrightarrow> \<not> io 2)) \<and>
    (\<forall>k. known k t \<longrightarrow> known k t' \<or> k = me_VirtualIP peer') \<and>
    (tp_GeneratePeerKeys T rnd peer \<noteq> None \<and> io 0 \<and> io 1 \<and> res \<noteq> Inl PrepareFailed \<longrightarrow> known (me_VirtualIP peer') t' \<and> isl res = (\<not> io 2)) \<and>
    (\<not> isl res \<longrightarrow> known (me_VirtualIP peer') t') \<and>
    (\<not> isl res \<longrightarrow> (\<exists>row. db_peers (pm_db pm') = db_peers (pm_db pm) @ [row] \<and> db_rules (pm_db pm') = db_rules (pm_db pm) \<and>
       rp_VirtualIp row \<notin> rp_VirtualIp ` set (db_peers (pm_db pm)) \<and> uint (pm_startingIP pm) \<le> rp_VirtualIp row \<and>
       rp_Type row = name \<and> me_VirtualIP peer' = of_int (rp_VirtualIp row) \<and> me_ID peer' = of_int (rp_ID row)))"
proof (cases "tp_GeneratePeerKeys T rnd peer")
  case None
  then show ?thesis using assms single_Get [OF assms(2)] by (auto simp: CreatePeerAutoID_def)
next
  case (Some p1)
  have ty: "me_Type p1 = name" using keys [OF Some] assms(3) by simp
  show ?thesis
  proof (cases "io 0 \<and> io 1")
    case False
    then show ?thesis using assms single_Get [OF assms(2)] Some by (auto simp: CreatePeerAutoID_def)
  next
    case True
    let ?arg = "\<lparr>cp_Type = me_Type p1, cp_MinVirtualIp = uint (pm_startingIP pm), cp_ExpirationDate = me_ExpirationDate p1,
       cp_TrafficLimitGb = me_TrafficLimitGb p1, cp_SpeedLimitMbps = me_SpeedLimitMbps p1, cp_AwgPrivateKey = me_AwgPrivateKey p1,
       cp_AwgPublicKey = me_AwgPublicKey p1\<rparr>"
    from CreatePeerAutoID_succeeds [of now ?arg "pm_db pm"] obtain row where
      ins: "sql_CreatePeerAutoID now ?arg (pm_db pm) = (Inr row, (pm_db pm)\<lparr>db_peers := db_peers (pm_db pm) @ [row], db_peerSeq := rp_ID row\<rparr>)"
      "uint (pm_startingIP pm) \<le> rp_VirtualIp row" "rp_VirtualIp row \<notin> rp_VirtualIp ` set (db_peers (pm_db pm))" "rp_Type row = name"
      using ty by auto
    define db where "db = (pm_db pm)\<lparr>db_peers := db_peers (pm_db pm) @ [row], db_peerSeq := rp_ID row\<rparr>"
    have db: "db_ok db" using db_ok_CreatePeer [OF assms(4) ins(1)] by (simp add: db_def)
    let ?p2 = "p1\<lparr>me_ID := of_int (rp_ID row), me_VirtualIP := of_int (rp_VirtualIp row)\<rparr>"
    from create_law [OF assms(1), of now ?p2] obtain ok s' where
      c: "tp_CreatePeer T now ?p2 (t, pm_router pm) = Some (ok, s')" "tinv s'"
      "\<forall>k. known k (fst s') = (if k = me_VirtualIP ?p2 then ok else known k t)" unfolding fst_conv snd_conv by blast
    have eq: "CreatePeerAutoID T io now rnd peer pm =
        (if \<not> ok then Some (Inl PrepareFailed, ?p2, set_transport name s' pm)
         else if \<not> io 2 then Some (Inl (Sql DbFailure), ?p2, set_transport name s' pm)
         else Some (Inr (), ?p2, set_db db (set_transport name s' pm)))"
      using Some True ins(1) c(1) single_Get [OF assms(2)] assms(3) by (simp add: CreatePeerAutoID_def db_def Let_def split: bool.split)
    show ?thesis unfolding eq
      using True Some c single_set [OF assms(2), of s'] assms(4) db ins
      by (intro exI [of _ "if \<not> ok then Inl PrepareFailed else if \<not> io 2 then Inl (Sql DbFailure) else Inr ()"] exI [of _ ?p2] exI [of _ "fst s'"]
          exI [of _ "if ok \<and> io 2 then set_db db (set_transport name s' pm) else set_transport name s' pm"]) (auto simp: db_def)
  qed
qed

end

text \<open>Deleting a peer that has no rules does not change what the database says about rules.\<close>

lemma db_view_DeletePeer:
  assumes "db_fits db" and "\<forall>r \<in> set (db_rules db). pru_PeerID r \<noteq> i"
  shows "db_fits (sql_DeletePeer i db)" and "db_view node (sql_DeletePeer i db) = db_view node db"
    and "db_peers (sql_DeletePeer i db) = filter (\<lambda>p. rp_ID p \<noteq> i) (db_peers db)" and "db_rules (sql_DeletePeer i db) = db_rules db"
proof -
  show rows: "db_peers (sql_DeletePeer i db) = filter (\<lambda>p. rp_ID p \<noteq> i) (db_peers db)" "db_rules (sql_DeletePeer i db) = db_rules db"
    using assms(2) by (auto simp: sql_DeletePeer_def filter_id_conv)
  have "db_ok (sql_DeletePeer i db)" using db_ok_DeletePeer assms(1) by (simp add: db_fits_def)
  from db_fits_keep_rules [OF assms(1) this] show f: "db_fits (sql_DeletePeer i db)" by (simp add: sql_DeletePeer_def)
  have key: "(\<exists>p \<in> set (filter (\<lambda>p. rp_ID p \<noteq> i) (db_peers db)). rp_ID p = pru_PeerID r \<and> Q p) \<longleftrightarrow> (\<exists>p \<in> set (db_peers db). rp_ID p = pru_PeerID r \<and> Q p)"
    if "r \<in> set (db_rules db)" for r Q using assms(2) that unfolding set_filter by (metis (mono_tags, lifting) mem_Collect_eq)
  show "db_view node (sql_DeletePeer i db) = db_view node db"
    by (intro ext option_eqI) (unfold db_view_iff [OF f] db_view_iff [OF assms(1)] rows, rule bex_cong [OF refl], rule key)
qed

text \<open>Transport and firewall are parts of one router; neither disturbs the other.\<close>

locale managed_peers = own_rules F me inv view + peer_transport T tinv routed willing
  for F :: "'r fw_port" and me and inv and view and T :: "('t, 'r) transport_port" and tinv and routed and willing +
  assumes fw_frame: "tinv (t, r) \<Longrightarrow> fp_RemoveRule F idx r = Some (b, r') \<Longrightarrow> tinv (t, r') \<and> routed r' = routed r"
    and kick_frame: "inv r \<Longrightarrow> tp_KickPeer T ip (t, r) = Some (b, t', r') \<Longrightarrow> inv r' \<and> view r' = view r"
begin

lemma removeRows_frame:
  "removeRows F me rows r = Some r' \<Longrightarrow> tinv (t, r) \<Longrightarrow> tinv (t, r') \<and> routed r' = routed r"
proof (induction rows arbitrary: r)
  case (Cons row rows)
  from Cons.prems(1) obtain b r1 where s: "fp_RemoveRule F (ownIndex me (of_int (pru_ID row))) r = Some (b, r1)" "removeRows F me rows r1 = Some r'"
    by (auto simp: bind_eq_Some_conv)
  from fw_frame [OF Cons.prems(2) s(1)] Cons.IH [OF s(2)] show ?case by auto
qed simp

lemma RemoveAll_frame:
  assumes "RemoveAllPeerRules F io i fm = Some (res, fm')" and "fm_nodeID fm = me" and "tinv (t, fm_firewall fm)"
  shows "tinv (t, fm_firewall fm') \<and> routed (fm_firewall fm') = routed (fm_firewall fm)"
  using assms removeRows_frame by (fastforce simp: RemoveAllPeerRules_def Let_def split: if_splits option.splits)

lemma DeletePeer_law:
  assumes good: "fm_good inv me (pm_fm pm)" and wi: "opens_within (view (pm_router pm)) (db_view me (pm_db pm))"
    and ti: "tinv (t, pm_router pm)" and si: "single name t pm"
  shows "\<exists>res t' pm'. DeletePeer T F io i pm = Some (res, pm') \<and> single name t' pm' \<and> tinv (t', pm_router pm') \<and> fm_good inv me (pm_fm pm') \<and>
    opens_within (view (pm_router pm')) (db_view me (pm_db pm')) \<and>
    (res = Inr () \<longrightarrow> (\<exists>row \<in> set (db_peers (pm_db pm)). rp_ID row = sint i \<and>
       db_peers (pm_db pm') = filter (\<lambda>p. rp_ID p \<noteq> sint i) (db_peers (pm_db pm)) \<and>
       (\<forall>r \<in> set (db_rules (pm_db pm')). pru_PeerID r \<noteq> sint i) \<and>
       (agree (view (pm_router pm)) (db_view me (pm_db pm)) \<longrightarrow> agree (view (pm_router pm')) (db_view me (pm_db pm'))) \<and>
       (\<forall>k. known k t' = (known k t \<and> \<not> (rp_Type row = name \<and> k = of_int (rp_VirtualIp row)))) \<and>
       (\<forall>k. routed (pm_router pm') k = (routed (pm_router pm) k \<and> \<not> (rp_Type row = name \<and> k = of_int (rp_VirtualIp row) \<and> known k t)))))"
proof -
  from RemoveAllPeerRules_law [OF good wi, of io i] obtain res1 fm1 where
    rm: "RemoveAllPeerRules F io i (pm_fm pm) = Some (res1, fm1)" "fm_good inv me fm1" "opens_within (view (fm_firewall fm1)) (db_view me (fm_db fm1))"
    "agree (view (pm_router pm)) (db_view me (pm_db pm)) \<and> res1 = Inr () \<longrightarrow> agree (view (fm_firewall fm1)) (db_view me (fm_db fm1))"
    "res1 = Inr () \<longrightarrow> (\<forall>r \<in> set (db_rules (fm_db fm1)). pru_PeerID r \<noteq> sint i)" "db_peers (fm_db fm1) = db_peers (pm_db pm)" by blast
  have fr: "tinv (t, fm_firewall fm1)" "routed (fm_firewall fm1) = routed (pm_router pm)"
    using RemoveAll_frame [OF rm(1) _ ti] good by (simp_all add: fm_good_def)
  define pm1 where "pm1 = pm\<lparr>pm_fm := fm1\<rparr>"
  have s1: "single name t pm1" using si by (simp add: single_def pm1_def)
  have g1: "fm_good inv me (pm_fm pm1)" "db_fits (fm_db fm1)" "db_ok (fm_db fm1)" using rm(2) by (simp_all add: pm1_def fm_good_def db_fits_def)
  show ?thesis
  proof (cases "res1 = Inr () \<and> io 2 \<and> io 3 \<and> (\<exists>row. sql_GetPeerByID (sint i) (fm_db fm1) = Inr row)")
    case False
    then have "\<exists>e. DeletePeer T F io i pm = Some (Inl e, pm1)"
      using rm(1) by (cases res1; cases "sql_GetPeerByID (sint i) (fm_db fm1)") (auto simp: DeletePeer_def pm1_def Let_def)
    then obtain e where "DeletePeer T F io i pm = Some (Inl e, pm1)" by blast
    then show ?thesis using s1 fr(1) g1(1) rm(3) by (intro exI [of _ "Inl e"] exI [of _ t] exI [of _ pm1]) (simp add: pm1_def)
  next
    case True
    then obtain row where row: "sql_GetPeerByID (sint i) (fm_db fm1) = Inr row" by blast
    with GetPeerByID_iff [OF g1(3)] have mem: "row \<in> set (db_peers (pm_db pm))" "rp_ID row = sint i" by (auto simp: rm(6))
    define pm2 where "pm2 = set_db (sql_DeletePeer (sint i) (fm_db fm1)) pm1"
    have no: "\<forall>r \<in> set (db_rules (fm_db fm1)). pru_PeerID r \<noteq> sint i" using rm(5) True by blast
    note dv = db_view_DeletePeer [OF g1(2) no]
    have pm2: "single name t pm2" "pm_router pm2 = fm_firewall fm1" "fm_good inv me (pm_fm pm2)" "db_view me (pm_db pm2) = db_view me (fm_db fm1)"
      "db_peers (pm_db pm2) = filter (\<lambda>p. rp_ID p \<noteq> sint i) (db_peers (pm_db pm))" "db_rules (pm_db pm2) = db_rules (fm_db fm1)"
      using s1 g1 dv rm(2,6) by (simp_all add: pm2_def pm1_def fm_good_def)
    show ?thesis
    proof (cases "rp_Type row = name")
      case other: False
      then have "DeletePeer T F io i pm = Some (Inr (), pm2)"
        using rm(1) True row single_Get [OF pm2(1)] by (auto simp: DeletePeer_def pm1_def pm2_def)
      then show ?thesis using other pm2 fr rm(3,4) True no mem
        by (intro exI [of _ "Inr ()"] exI [of _ t] exI [of _ pm2]) auto
    next
      case same: True
      from kick_law [OF fr(1), of "of_int (rp_VirtualIp row)"] obtain t' r' where
        k: "tp_KickPeer T (of_int (rp_VirtualIp row)) (t, fm_firewall fm1) = Some (known (of_int (rp_VirtualIp row)) t, t', r')" "tinv (t', r')"
        "\<forall>k. known k t' = (k \<noteq> of_int (rp_VirtualIp row) \<and> known k t)"
        "\<forall>k. routed r' k = (\<not> (k = of_int (rp_VirtualIp row) \<and> known (of_int (rp_VirtualIp row)) t) \<and> routed (fm_firewall fm1) k)" by auto
      have f: "inv r'" "view r' = view (fm_firewall fm1)" using kick_frame [OF _ k(1)] rm(2) by (simp_all add: fm_good_def)
      let ?pm = "set_transport name (t', r') pm2"
      have "DeletePeer T F io i pm = Some (Inr (), ?pm)"
        using rm(1) True row single_Get [OF pm2(1)] k(1) pm2(2) same by (auto simp: DeletePeer_def pm1_def pm2_def)
      moreover have "fm_good inv me (pm_fm ?pm)" using pm2(3) f(1) by (simp add: fm_good_def)
      moreover have "db_peers (pm_db ?pm) = filter (\<lambda>p. rp_ID p \<noteq> sint i) (db_peers (pm_db pm))" "db_rules (pm_db ?pm) = db_rules (fm_db fm1)"
        "db_view me (pm_db ?pm) = db_view me (fm_db fm1)" using pm2 by simp_all
      ultimately show ?thesis using same single_set [OF pm2(1), of "(t', r')"] k(2-4) f fr(2) rm(3,4) True no mem
        by (intro exI [of _ "Inr ()"] exI [of _ t'] exI [of _ ?pm]) auto
    qed
  qed
qed

end

section \<open>The AmneziaWG transport is such a transport\<close>

definition awg_port ::
  "'d awg_device \<Rightarrow> (u64 \<Rightarrow> nat \<Rightarrow> 'l) \<Rightarrow> (bytes \<Rightarrow> bytes option) \<Rightarrow> (netIP \<Rightarrow> string) \<Rightarrow> (bytes \<Rightarrow> bytes) \<Rightarrow> string \<Rightarrow>
   ('d AWGTransport, ('l, 'n) Router) transport_port" where
  "awg_port D nl x25519 v6text deflate uuid =
     \<lparr>tp_CreatePeer = (\<lambda>now p s. map_option (\<lambda>(err, s'). (err = None, s')) (CreatePeer D nl now p s)),
      tp_KickPeer = KickPeer D, tp_ExistsPeer = ExistsPeer, tp_GeneratePeerKeys = GeneratePeerKeys x25519,
      tp_GenerateClientConnectionString = GenerateClientConnectionString v6text deflate uuid,
      tp_takeDelta = (\<lambda>t. map_option (\<lambda>(x, c). (x, t\<lparr>aw_deltaChan := c\<rparr>)) (chan_recv (aw_deltaChan t)))\<rparr>"

lemma awg_port_sel [simp]:
  "tp_CreatePeer (awg_port D nl x v6 z u) now p s = map_option (\<lambda>(err, s'). (err = None, s')) (CreatePeer D nl now p s)"
  "tp_KickPeer (awg_port D nl x v6 z u) = KickPeer D" "tp_ExistsPeer (awg_port D nl x v6 z u) = ExistsPeer"
  "tp_GeneratePeerKeys (awg_port D nl x v6 z u) = GeneratePeerKeys x"
  by (simp_all add: awg_port_def)

definition is_routed :: "('l, 'n) Router \<Rightarrow> u32 \<Rightarrow> bool" where
  "is_routed r ip \<longleftrightarrow> route_to r ip \<noteq> None"

text \<open>The device takes the peer in any state.\<close>

definition device_takes :: "'d awg_device \<Rightarrow> model_Peer \<Rightarrow> bool" where
  "device_takes D p \<longleftrightarrow> (\<forall>d. fst (dv_IpcSet D (addCmd p) d))"

lemma kernel_takes_device:
  assumes "awg_ok s" and "device_takes D p" shows "kernel_takes D p s"
  using KickPeer_spec [OF assms(1), of D "me_VirtualIP p"] assms(2) by (auto simp: kernel_takes_def device_takes_def)

interpretation awg_transport: peer_transport "awg_port D nl x v6 z u" awg_ok "is_routed :: ('l, 'n) Router \<Rightarrow> u32 \<Rightarrow> bool" "device_takes D"
  for D :: "'d awg_device" and nl :: "u64 \<Rightarrow> nat \<Rightarrow> 'l" and x v6 z u
proof
  fix s :: "('l, 'n, 'd) awg_state" and now p
  assume ok: "awg_ok s"
  from CreatePeer_spec [OF ok, of D nl now p] obtain err s' where
    c: "CreatePeer D nl now p s = Some (err, s')" "created nl now p (kernel_takes D p s) s err s'" by blast
  show "\<exists>okc s'. tp_CreatePeer (awg_port D nl x v6 z u) now p s = Some (okc, s') \<and> awg_ok s' \<and>
      (\<forall>k. tp_ExistsPeer (awg_port D nl x v6 z u) k (fst s') = (if k = me_VirtualIP p then okc else tp_ExistsPeer (awg_port D nl x v6 z u) k (fst s))) \<and>
      (\<forall>k. k \<noteq> me_VirtualIP p \<longrightarrow> is_routed (snd s') k = is_routed (snd s) k) \<and>
      (device_takes D p \<and> (is_routed (snd s) (me_VirtualIP p) \<longrightarrow> tp_ExistsPeer (awg_port D nl x v6 z u) (me_VirtualIP p) (fst s)) \<longrightarrow> okc)"
    using c kernel_takes_device [OF ok, of D p]
    by (intro exI [of _ "err = None"] exI [of _ s']) (auto simp: created_def is_routed_def foreign_route_def)
next
  fix s :: "('l, 'n, 'd) awg_state" and ip
  assume "awg_ok s"
  from KickPeer_spec [OF this, of D ip] show "\<exists>s'. tp_KickPeer (awg_port D nl x v6 z u) ip s = Some (tp_ExistsPeer (awg_port D nl x v6 z u) ip (fst s), s') \<and> awg_ok s' \<and>
      (\<forall>k. tp_ExistsPeer (awg_port D nl x v6 z u) k (fst s') = (k \<noteq> ip \<and> tp_ExistsPeer (awg_port D nl x v6 z u) k (fst s))) \<and>
      (\<forall>k. is_routed (snd s') k = (\<not> (k = ip \<and> tp_ExistsPeer (awg_port D nl x v6 z u) ip (fst s)) \<and> is_routed (snd s) k))"
    by (auto simp: is_routed_def ExistsPeer_iff)
next
  fix s :: "('l, 'n, 'd) awg_state" and k
  show "awg_ok s \<Longrightarrow> tp_ExistsPeer (awg_port D nl x v6 z u) k (fst s) \<Longrightarrow> is_routed (snd s) k" by (auto simp: awg_ok_def is_routed_def)
qed

lemma RemoveRule_keeps_routing:
  "router_RemoveRule idx r = Some (b, r') \<Longrightarrow> routingTable r' = routingTable r \<and> routingsubs r' = routingsubs r"
  by (auto simp: router_RemoveRule_def notifyFirewallEvent_def Let_def split: prod.splits if_splits)

lemma KickPeer_keeps_firewall:
  "KickPeer D ip (t, r) = Some (b, t', r') \<Longrightarrow> firewall r' = firewall r \<and> firewallsubs r' = firewallsubs r"
  by (auto simp: KickPeer_def removePeerInternal_def DeleteRoutingObject_def notifyRoutingEvent_def Let_def split: option.splits prod.splits if_splits)

interpretation awg_managed: managed_peers router_port me "own_inv U me" "own_view me" "awg_port D nl x v6 z u" awg_ok "is_routed :: ('l, 'n) Router \<Rightarrow> u32 \<Rightarrow> bool" "device_takes D"
  for U me and D :: "'d awg_device" and nl :: "u64 \<Rightarrow> nat \<Rightarrow> 'l" and x v6 z u
proof
  fix t :: "'d AWGTransport" and r r' :: "('l, 'n) Router" and idx b
  assume t: "awg_ok (t, r)" "fp_RemoveRule router_port idx r = Some (b, r')"
  then have "routingTable r' = routingTable r" "routingsubs r' = routingsubs r" using RemoveRule_keeps_routing by (auto simp: router_port_def)
  moreover have "maps_ok t" using t(1) by (simp add: awg_ok_def awg_wf_def)
  ultimately show "awg_ok (t, r') \<and> is_routed r' = is_routed r"
    using awg_ok_touch [OF t(1)] by (auto simp: is_routed_def route_to_def fun_eq_iff)
next
  fix t t' :: "'d AWGTransport" and r r' :: "('l, 'n) Router" and ip b
  assume "own_inv U me r" "tp_KickPeer (awg_port D nl x v6 z u) ip (t, r) = Some (b, t', r')"
  then show "own_inv U me r' \<and> own_view me r' = own_view me r"
    using KickPeer_keeps_firewall [of D ip t r b t' r'] by (auto simp: own_inv_def own_view_def rules_inv_def rules_view_def fun_eq_iff)
qed

section \<open>Properties of the manager\<close>

text \<open>C8: deleting a peer leaves nothing of it. Whatever fails on the way, the request does not panic and the firewall opens
  no port of this node that the database does not describe. When it succeeds, the peer's row and all its rules are gone from
  the database, its rules are gone from the firewall (which says again exactly what the database says, if it did before), the
  transport does not know its address any more and the route to it is gone; every other peer is still known and routed.\<close>

theorem DeletePeer_leaves_nothing:
  fixes pm :: "('d AWGTransport, ('l, 'n) Router) PeersManager"
  assumes "own_inv U me (pm_router pm)" and "db_fits (pm_db pm)" and "fm_nodeID (pm_fm pm) = me"
    and "opens_within (own_view me (pm_router pm)) (db_view me (pm_db pm))"
    and "awg_ok (t, pm_router pm)" and "single name t pm"
  shows "\<exists>res t' pm'. DeletePeer (awg_port D nl x v6 z u) router_port io i pm = Some (res, pm') \<and> single name t' pm' \<and>
    opens_within (own_view me (pm_router pm')) (db_view me (pm_db pm')) \<and>
    (res = Inr () \<longrightarrow> (\<exists>row \<in> set (db_peers (pm_db pm)). rp_ID row = sint i \<and>
       db_peers (pm_db pm') = filter (\<lambda>p. rp_ID p \<noteq> sint i) (db_peers (pm_db pm)) \<and>
       (\<forall>r \<in> set (db_rules (pm_db pm')). pru_PeerID r \<noteq> sint i) \<and>
       (agree (own_view me (pm_router pm)) (db_view me (pm_db pm)) \<longrightarrow> agree (own_view me (pm_router pm')) (db_view me (pm_db pm'))) \<and>
       (\<forall>k. ExistsPeer k t' = (ExistsPeer k t \<and> \<not> (rp_Type row = name \<and> k = of_int (rp_VirtualIp row)))) \<and>
       (\<forall>k. is_routed (pm_router pm') k = (is_routed (pm_router pm) k \<and> \<not> (rp_Type row = name \<and> k = of_int (rp_VirtualIp row) \<and> ExistsPeer k t)))))"
proof -
  have "fm_good (own_inv U me) me (pm_fm pm)" using assms(1-3) by (simp add: fm_good_def)
  from awg_managed.DeletePeer_law [OF this assms(4-6), of D nl x v6 z u io i] show ?thesis unfolding awg_port_sel by blast
qed

definition exPeers :: "(string list AWGTransport, (nat, nat list) Router) PeersManager" where
  "exPeers = \<lparr>pm_startingIP = 0x0A000002, pm_fm = exManager False, pm_transports = sm_From [(''awg'', exTransport)], pm_statsDrain = mkchan 1000\<rparr>"

abbreviation exPort :: "(string list AWGTransport, (nat, nat list) Router) transport_port" where
  "exPort \<equiv> awg_port exDevice (\<lambda>_ _. 0) (\<lambda>_. Some (replicate 32 9)) (\<lambda>_. '''') id ''u''"

lemma exPeers_good:
  "own_inv {''a'', ''b''} ''b'' (pm_router exPeers)" "db_fits (pm_db exPeers)" "fm_nodeID (pm_fm exPeers) = ''b''"
  "awg_ok (exTransport, pm_router exPeers)" "single ''awg'' exTransport exPeers" "own_view ''b'' (pm_router exPeers) k = None"
  using exManager_good [of False] exTransport_ok by (simp_all add: exPeers_def single_def) (simp add: exManager_def)

definition exLastRow :: repos_Peer where
  "exLastRow = \<lparr>rp_ID = 1, rp_Type = ''awg'', rp_VirtualIp = 0x0A01FFFF, rp_LastSeen = 0, rp_ExpirationDate = None, rp_FromPeerTotal = 0,
     rp_ToPeerTotal = 0, rp_TrafficLimitGb = None, rp_SpeedLimitMbps = None, rp_AwgPrivateKey = '''', rp_AwgPublicKey = ''''\<rparr>"

text \<open>A database with one active client and one whose time is over at 50.\<close>

definition exRows :: database where
  "exRows = (db_empty False)\<lparr>db_peers := [exLastRow, exLastRow\<lparr>rp_ID := 2, rp_VirtualIp := 0x0A000005, rp_ExpirationDate := Some 10\<rparr>], db_peerSeq := 2\<rparr>"

definition exStored :: "(string list AWGTransport, (nat, nat list) Router) PeersManager" where
  "exStored = exPeers\<lparr>pm_fm := (pm_fm exPeers)\<lparr>fm_db := exRows\<rparr>\<rparr>"

lemma exStored_good:
  "awg_ok (exTransport, pm_router exStored)" "single ''awg'' exTransport exStored" "pm_db exStored = exRows" "pm_router exStored = pm_router exPeers"
  using exPeers_good by (simp_all add: exStored_def single_def)

lemma DeletePeer_leaves_nothing_witness:
  "\<exists>res t' pm'. DeletePeer exPort router_port (\<lambda>_. True) 1 exPeers = Some (res, pm') \<and> single ''awg'' t' pm'"
proof -
  have "opens_within (own_view ''b'' (pm_router exPeers)) (db_view ''b'' (pm_db exPeers))" by (simp add: opens_within_def exPeers_good(6))
  from DeletePeer_leaves_nothing [OF exPeers_good(1-3) this exPeers_good(4,5)] show ?thesis by blast
qed

text \<open>C9: creating a peer changes database and transport together. The request does not panic. If it succeeds, exactly one
  row is new, with an address that no other row has and that is not below the first address of the node, and the transport
  knows a peer of that address. If it fails, the database is unchanged, and unless it was the commit that failed the
  transport knows no peer it did not know before.\<close>

theorem CreatePeerAutoID_atomic:
  fixes pm :: "('d AWGTransport, ('l, 'n) Router) PeersManager"
  assumes "awg_ok (t, pm_router pm)" and "single name t pm" and "me_Type peer = name" and "db_ok (pm_db pm)"
  shows "\<exists>res peer' t' pm'. CreatePeerAutoID (awg_port D nl x v6 z u) io now rnd peer pm = Some (res, peer', pm') \<and>
    single name t' pm' \<and> awg_ok (t', pm_router pm') \<and> db_ok (pm_db pm') \<and>
    (isl res \<longrightarrow> pm_db pm' = pm_db pm) \<and>
    (isl res \<longrightarrow> io 2 \<longrightarrow> (\<forall>k. ExistsPeer k t' \<longrightarrow> ExistsPeer k t)) \<and>
    (\<not> isl res \<longrightarrow> ExistsPeer (me_VirtualIP peer') t' \<and>
       (\<exists>row. db_peers (pm_db pm') = db_peers (pm_db pm) @ [row] \<and> rp_VirtualIp row \<notin> rp_VirtualIp ` set (db_peers (pm_db pm)) \<and>
         uint (pm_startingIP pm) \<le> rp_VirtualIp row \<and> me_VirtualIP peer' = of_int (rp_VirtualIp row)))"
proof -
  have keys: "me_Type p' = me_Type peer" if "tp_GeneratePeerKeys (awg_port D nl x v6 z u) rnd peer = Some p'" for p'
    using that by (auto simp: GeneratePeerKeys_def)
  obtain res peer' t' pm' where l: "CreatePeerAutoID (awg_port D nl x v6 z u) io now rnd peer pm = Some (res, peer', pm')" "single name t' pm'"
    "awg_ok (t', pm_router pm')" "db_ok (pm_db pm')" "isl res \<longrightarrow> pm_db pm' = pm_db pm"
    "\<forall>k. ExistsPeer k t' \<longrightarrow> ExistsPeer k t \<or> k = me_VirtualIP peer' \<and> (isl res \<longrightarrow> \<not> io 2)"
    "\<not> isl res \<longrightarrow> ExistsPeer (me_VirtualIP peer') t'"
    "\<not> isl res \<longrightarrow> (\<exists>row. db_peers (pm_db pm') = db_peers (pm_db pm) @ [row] \<and> db_rules (pm_db pm') = db_rules (pm_db pm) \<and>
       rp_VirtualIp row \<notin> rp_VirtualIp ` set (db_peers (pm_db pm)) \<and> uint (pm_startingIP pm) \<le> rp_VirtualIp row \<and>
       rp_Type row = name \<and> me_VirtualIP peer' = of_int (rp_VirtualIp row) \<and> me_ID peer' = of_int (rp_ID row))"
    using awg_transport.CreatePeerAutoID_law [OF assms keys, of D nl x v6 z u rnd io now] unfolding awg_port_sel by blast
  then show ?thesis by (intro exI [of _ res] exI [of _ peer'] exI [of _ t'] exI [of _ pm']) auto
qed

lemma CreatePeerAutoID_atomic_witness:
  "\<exists>res peer' t' pm'. CreatePeerAutoID exPort (\<lambda>n. n \<noteq> 1) 50 (Some (replicate 32 1)) exClient exPeers = Some (res, peer', pm') \<and>
    single ''awg'' t' pm' \<and> awg_ok (t', pm_router pm')"
proof -
  have "me_Type exClient = ''awg''" "db_ok (pm_db exPeers)" using exPeers_good(2) by (simp_all add: exClient_def db_fits_def)
  from CreatePeerAutoID_atomic [OF exPeers_good(4,5) this, of exDevice "\<lambda>_ _. 0" "\<lambda>_. Some (replicate 32 9)" "\<lambda>_. ''''" id "''u''"
      "\<lambda>n. n \<noteq> 1" 50 "Some (replicate 32 1)"]
  show ?thesis by blast
qed

text \<open>A failed commit leaves a client behind. When only the commit of the transaction fails, the request is answered with an
  error and the database has no such peer, but the transport knows it and its address is routed: nothing takes the
  transport's part back.\<close>

theorem failed_commit_leaves_peer:
  fixes pm :: "('d AWGTransport, ('l, 'n) Router) PeersManager"
  assumes "awg_ok (t, pm_router pm)" and "single name t pm" and "me_Type peer = name" and "db_ok (pm_db pm)"
    and "GeneratePeerKeys x rnd peer \<noteq> None" and "io 0" and "io 1" and "\<not> io 2"
    and "CreatePeerAutoID (awg_port D nl x v6 z u) io now rnd peer pm = Some (res, peer', pm')" and "res \<noteq> Inl PrepareFailed"
  shows "isl res \<and> pm_db pm' = pm_db pm \<and>
    (\<exists>t'. single name t' pm' \<and> ExistsPeer (me_VirtualIP peer') t' \<and> is_routed (pm_router pm') (me_VirtualIP peer'))"
proof -
  have keys: "me_Type p' = me_Type peer" if "tp_GeneratePeerKeys (awg_port D nl x v6 z u) rnd peer = Some p'" for p'
    using that by (auto simp: GeneratePeerKeys_def)
  obtain res1 peer1 t' pm1 where l1: "CreatePeerAutoID (awg_port D nl x v6 z u) io now rnd peer pm = Some (res1, peer1, pm1)" "single name t' pm1"
    "awg_ok (t', pm_router pm1)" "isl res1 \<longrightarrow> pm_db pm1 = pm_db pm"
    "GeneratePeerKeys x rnd peer \<noteq> None \<and> io 0 \<and> io 1 \<and> res1 \<noteq> Inl PrepareFailed \<longrightarrow> ExistsPeer (me_VirtualIP peer1) t' \<and> isl res1 = (\<not> io 2)"
    using awg_transport.CreatePeerAutoID_law [OF assms(1-4) keys, of D nl x v6 z u rnd io now] unfolding awg_port_sel by blast
  with assms(5-10) have l: "isl res" "pm_db pm' = pm_db pm" "single name t' pm'" "awg_ok (t', pm_router pm')" "ExistsPeer (me_VirtualIP peer') t'"
    by auto
  with awg_transport.known_routed [OF l(4)] show ?thesis by auto
qed

lemma exTransport_takes: "\<exists>s. CreatePeer exDevice (\<lambda>_ _. 0) 50 p (exTransport, exRouter) = Some (None, s)"
proof -
  have "kernel_takes exDevice p (exTransport, exRouter)" "\<not> foreign_route (me_VirtualIP p) (exTransport, exRouter)"
    by (simp_all add: kernel_takes_def KickPeer_def exTransport_def sm_Get_def sm_New_def exDevice_def foreign_route_def
        route_to_def rt_GetByIP_def exRouter_def rt_New_def)
  with CreatePeer_spec [OF exTransport_ok, of exDevice "\<lambda>_ _. 0" 50 p] show ?thesis by (auto simp: created_def)
qed

lemma exCreate:
  "\<exists>res peer' pm'. CreatePeerAutoID exPort (\<lambda>n. n \<noteq> 2) 50 (Some (replicate 32 1)) exClient exPeers = Some (res, peer', pm') \<and> res \<noteq> Inl PrepareFailed"
proof -
  let ?p = "exClient\<lparr>me_AwgPrivateKey := hexEncode (clamp (replicate 32 1)), me_AwgPublicKey := hexEncode (replicate 32 9), me_ID := 1, me_VirtualIP := 0x0A000002\<rparr>"
  from exTransport_takes [of ?p] obtain s where "CreatePeer exDevice (\<lambda>_ _. 0) 50 ?p (exTransport, exRouter) = Some (None, s)" by blast
  then show ?thesis
    by (simp add: CreatePeerAutoID_def exPeers_def sm_From_def sm_Get_def gm_get_def exClient_def GeneratePeerKeys_def generateKeyPair_def
        exManager_def db_empty_def sql_CreatePeerAutoID_def nextVirtualIp_def Let_def)
qed

lemma failed_commit_leaves_peer_witness:
  "\<exists>res peer' pm'. CreatePeerAutoID exPort (\<lambda>n. n \<noteq> 2) 50 (Some (replicate 32 1)) exClient exPeers = Some (res, peer', pm') \<and>
    isl res \<and> is_routed (pm_router pm') (me_VirtualIP peer')"
proof -
  obtain res peer' pm' where c: "CreatePeerAutoID exPort (\<lambda>n. n \<noteq> 2) 50 (Some (replicate 32 1)) exClient exPeers = Some (res, peer', pm')"
    "res \<noteq> Inl PrepareFailed" using exCreate by blast
  have "isl res \<and> pm_db pm' = pm_db exPeers \<and> (\<exists>t'. single ''awg'' t' pm' \<and> ExistsPeer (me_VirtualIP peer') t' \<and> is_routed (pm_router pm') (me_VirtualIP peer'))"
    by (rule failed_commit_leaves_peer [OF exPeers_good(4,5) _ _ _ _ _ _ c])
      (use exPeers_good(2) in \<open>simp_all add: exClient_def db_fits_def GeneratePeerKeys_def generateKeyPair_def\<close>)
  with c show ?thesis by blast
qed

text \<open>C11: a restart brings back exactly the active clients. Starting the manager on a transport without peers creates a peer
  for every row of the transport's type that has not expired, and for nothing else, provided the device takes the peers and
  nobody else uses their addresses. The periodic synchronisation, started the same way, keeps the peers that are known and
  adds those that are missing.\<close>

theorem active_clients_restored:
  fixes pm :: "('d AWGTransport, ('l, 'n) Router) PeersManager"
  assumes "awg_ok (t, pm_router pm)" and "single name t pm"
    and "\<forall>row \<in> set (db_peers (pm_db pm)). active name now row \<longrightarrow> device_takes D (peerFromRow row) \<and>
      (is_routed (pm_router pm) (row_ip row) \<longrightarrow> ExistsPeer (row_ip row) t)"
  shows "(\<exists>t' pm'. pm_Run (awg_port D nl x v6 z u) (\<lambda>_. True) now pm = Some (Inr (), pm') \<and> single name t' pm' \<and> awg_ok (t', pm_router pm') \<and>
      (\<forall>k. ExistsPeer k t' \<longleftrightarrow> ExistsPeer k t \<or> (\<exists>row \<in> set (db_peers (pm_db pm)). active name now row \<and> k = row_ip row))) \<and>
    (\<exists>t' pm'. syncPeers (awg_port D nl x v6 z u) (\<lambda>_. True) now pm = Some (Inr (), pm') \<and> single name t' pm' \<and> awg_ok (t', pm_router pm') \<and>
      (\<forall>k. ExistsPeer k t' \<longleftrightarrow> ExistsPeer k t \<or> (\<exists>row \<in> set (db_peers (pm_db pm)). active name now row \<and> k = row_ip row)))"
proof -
  have "\<exists>t' pm'. prepareAll (awg_port D nl x v6 z u) skip now (sql_ListPeers (pm_db pm)) pm = Some pm' \<and> single name t' pm' \<and> awg_ok (t', pm_router pm') \<and>
      (\<forall>k. ExistsPeer k t' \<longleftrightarrow> ExistsPeer k t \<or> (\<exists>row \<in> set (db_peers (pm_db pm)). active name now row \<and> k = row_ip row))" for skip
    using awg_transport.prepareAll_law [OF assms(1,2), where rows = "sql_ListPeers (pm_db pm)" and now = now and skip = skip and D = D and nl = nl and x = x and z = z and u = u]
      assms(3) unfolding sql_ListPeers_def set_sort awg_port_sel by blast
  from this [of False] this [of True] show ?thesis unfolding pm_Run_def syncPeers_def by auto
qed

lemma active_clients_restored_witness:
  "\<exists>t' pm'. pm_Run exPort (\<lambda>_. True) 50 exStored = Some (Inr (), pm') \<and> single ''awg'' t' pm' \<and>
     ExistsPeer 0x0A01FFFF t' \<and> \<not> ExistsPeer 0x0A000005 t' \<and> \<not> ExistsPeer 0x0A01FFFF exTransport"
proof -
  have none: "\<not> ExistsPeer k exTransport" for k by (simp add: ExistsPeer_iff exTransport_def)
  have r: "\<not> is_routed (pm_router exStored) k" for k
    by (simp add: exStored_good(4)) (simp add: exPeers_def exManager_def exRouter_def is_routed_def route_to_def rt_GetByIP_def rt_New_def)
  have "\<forall>row \<in> set (db_peers (pm_db exStored)). active ''awg'' 50 row \<longrightarrow> device_takes exDevice (peerFromRow row) \<and>
      (is_routed (pm_router exStored) (row_ip row) \<longrightarrow> ExistsPeer (row_ip row) exTransport)"
    using r by (simp add: device_takes_def exDevice_def)
  from active_clients_restored [OF exStored_good(1,2) this, of "\<lambda>_ _. 0" "\<lambda>_. Some (replicate 32 9)" "\<lambda>_. ''''" id "''u''"] obtain t' pm' where
    "pm_Run exPort (\<lambda>_. True) 50 exStored = Some (Inr (), pm')" "single ''awg'' t' pm'"
    "\<And>k. ExistsPeer k t' \<longleftrightarrow> k = 0x0A01FFFF"
    by (auto simp: none exStored_good(3) exRows_def exLastRow_def active_def peerFromRow_def IsExpired_def)
  with none show ?thesis by (intro exI [of _ t'] exI [of _ pm']) simp
qed

text \<open>A subscription cannot be prolonged. The statement names a column the table does not have, so every request to move an
  expiration date fails and changes nothing.\<close>

theorem prolong_always_fails:
  "\<exists>e. pm_ProlongPeer io peerId newExpiration pm = (Inl (Sql e), pm)"
  by (simp add: pm_ProlongPeer_def sql_ProlongPeer_def set_db_def)

lemma nextVirtualIp_last:
  assumes "L \<in> rp_VirtualIp ` set ps" and "\<forall>x \<in> rp_VirtualIp ` set ps. x \<le> L" and "m \<le> L"
  shows "nextVirtualIp m ps = L + 1"
proof -
  have f: "fold max vs v = Max (insert v (set vs))" for v :: int and vs
    by (simp add: Max.set_eq_fold [symmetric])
  have s: "set (filter (\<lambda>v. m \<le> v) (map rp_VirtualIp ps)) = {x \<in> rp_VirtualIp ` set ps. m \<le> x}" by auto
  then obtain v vs where v: "filter (\<lambda>v. m \<le> v) (map rp_VirtualIp ps) = v # vs"
    using assms(1,3) by (cases "filter (\<lambda>v. m \<le> v) (map rp_VirtualIp ps)") auto
  have e: "insert v (set vs) = {x \<in> rp_VirtualIp ` set ps. m \<le> x}" using s v by simp
  have "Max (insert v (set vs)) = L"
    unfolding e by (rule Max_eqI) (use assms in auto)
  with v f show ?thesis by (simp add: nextVirtualIp_def)
qed

text \<open>Addresses can run out of the node's network. Addresses are given out above the largest one in use, gaps are not reused
  and the end of the network is not checked: once the last address of the /16 network is in use, the next client gets the
  first address of the neighbouring network, which belongs to another node.\<close>

theorem address_leaves_network:
  assumes "sql_CreatePeerAutoID now arg db = (Inr row, db')" and "Mask net = NOT (mask 16)" and "Base net AND NOT (mask 16) = Base net"
    and "cp_MinVirtualIp arg \<le> uint (Base net OR mask 16)"
    and "uint (Base net OR mask 16) \<in> rp_VirtualIp ` set (db_peers db)" and "\<forall>x \<in> rp_VirtualIp ` set (db_peers db). x \<le> uint (Base net OR mask 16)"
  shows "\<not> Contains net (of_int (rp_VirtualIp row)) \<and> of_int (rp_VirtualIp row) = Base net + 0x10000"
proof -
  have row: "rp_VirtualIp row = uint (Base net OR mask 16) + 1"
    using assms(1) nextVirtualIp_last [OF assms(5,6,4)] by (auto simp: sql_CreatePeerAutoID_def Let_def split: if_splits)
  define h where "h = drop_bit 16 (Base net)"
  have "w AND NOT (mask 16) = push_bit 16 (drop_bit 16 w)" for w :: u32 by (auto simp: bit_eq_iff bit_simps)
  then have b: "Base net = push_bit 16 h" unfolding h_def using assms(3) by metis
  have "Base net OR mask 16 = Base net + mask 16" unfolding b
    by (rule disjunctive_add [symmetric]) (auto simp: bit_simps)
  then have ip: "of_int (rp_VirtualIp row) = Base net + 0x10000" by (simp add: row mask_eq_exp_minus_1)
  have "Base net + 0x10000 = push_bit 16 (h + 1)" by (simp add: b push_bit_add)
  moreover have "push_bit 16 (h + 1) AND NOT (mask 16) = push_bit 16 (h + 1)" by (auto simp: bit_eq_iff bit_simps)
  moreover have "Base net + 0x10000 \<noteq> Base net" by simp
  ultimately show ?thesis using ip by (metis Contains_def assms(2))
qed

lemma address_leaves_network_witness:
  "\<exists>row db'. sql_CreatePeerAutoID 0 exNewPeer ((db_empty False)\<lparr>db_peers := [exLastRow], db_peerSeq := 1\<rparr>) = (Inr row, db') \<and>
    \<not> Contains \<lparr>Base = 0x0A010000, Mask = NOT (mask 16)\<rparr> (of_int (rp_VirtualIp row))"
proof -
  let ?db = "(db_empty False)\<lparr>db_peers := [exLastRow], db_peerSeq := 1\<rparr>" and ?net = "\<lparr>Base = 0x0A010000, Mask = NOT (mask 16)\<rparr> :: NativeIPNet"
  obtain row db' where c: "sql_CreatePeerAutoID 0 exNewPeer ?db = (Inr row, db')" using CreatePeerAutoID_succeeds [of 0 exNewPeer ?db] by blast
  have m: "(mask 16 :: u32) = 0xFFFF" by (simp add: mask_eq_exp_minus_1)
  have "\<not> Contains ?net (of_int (rp_VirtualIp row)) \<and> of_int (rp_VirtualIp row) = Base ?net + 0x10000"
    by (rule address_leaves_network [OF c]) (simp_all add: m exNewPeer_def exLastRow_def)
  with c show ?thesis by blast
qed

section \<open>Statistics\<close>

text \<open>Rounds of the goroutine that writes reports to the database, the connection working.\<close>

fun statsRounds :: "nat \<Rightarrow> ('t, 'r) PeersManager \<Rightarrow> ('t, 'r) PeersManager option" where
  "statsRounds 0 pm = Some pm"
| "statsRounds (Suc n) pm = Option.bind (statsStep (\<lambda>_. True) pm) (statsRounds n)"

definition reported :: "(TransportPeerStats \<Rightarrow> u64) \<Rightarrow> int \<Rightarrow> TransportPeerStats list \<Rightarrow> int" where
  "reported f v ds = sum_list (map (\<lambda>d. sint (f d)) (filter (\<lambda>d. uint (ts_VirtualIP d) = v) ds))"

definition totals :: "TransportPeerStats list \<Rightarrow> repos_Peer \<Rightarrow> int \<times> int \<times> int \<times> int" where
  "totals ds p = (rp_ID p, rp_VirtualIp p, rp_FromPeerTotal p + reported ts_DeltaFromPeer (rp_VirtualIp p) ds,
     rp_ToPeerTotal p + reported ts_DeltaToPeer (rp_VirtualIp p) ds)"

text \<open>Traffic reports reach the database, and the writer catches up. However many reports are queued, after that many
  rounds the queue is empty, and every row has grown by exactly the traffic reported for its address, each report counted
  once; no row appears or disappears.\<close>

theorem statistics_reach_database:
  "\<exists>pm'. statsRounds (length (ch_buf (pm_statsDrain pm))) pm = Some pm' \<and> ch_buf (pm_statsDrain pm') = [] \<and>
    map (totals []) (db_peers (pm_db pm')) = map (totals (ch_buf (pm_statsDrain pm))) (db_peers (pm_db pm))"
proof (induction "ch_buf (pm_statsDrain pm)" arbitrary: pm)
  case Nil
  then show ?case by (metis list.size(3) statsRounds.simps(1))
next
  case (Cons d ds)
  define pm1 where "pm1 = pm\<lparr>pm_statsDrain := (pm_statsDrain pm)\<lparr>ch_buf := ds\<rparr>\<rparr>"
  define pm2 where "pm2 = set_db (sql_UpdatePeerStats (sint (ts_DeltaFromPeer d)) (sint (ts_DeltaToPeer d)) (ts_LastSeen d) (uint (ts_VirtualIP d)) (pm_db pm1)) pm1"
  have step: "statsStep (\<lambda>_. True) pm = Some pm2"
    using Cons.hyps(2) [symmetric] by (simp add: statsStep_def chan_recv_def pm2_def pm1_def Let_def)
  have buf: "ch_buf (pm_statsDrain pm2) = ds" by (simp add: pm2_def pm1_def set_db_def)
  have "map (totals ds) (db_peers (pm_db pm2)) = map (totals (d # ds)) (db_peers (pm_db pm))"
    by (auto simp: pm2_def pm1_def sql_UpdatePeerStats_def totals_def reported_def)
  with Cons.hyps(1) [of pm2] buf step show ?case by (auto simp: Cons.hyps(2) [symmetric])
qed

end
