(* ===== verification/Discovery.thy ===== *)
theory Discovery
  imports Session
begin

text \<open>
  \<^verbatim>\<open>pkg/mesh/discovery\<close>: gossip about peers and the dialling of known ones. The syncer shares the repository and
  the registry with the session engine, so its state is the engine plus the set of addresses being dialled.
  A goroutine that is started (\<^verbatim>\<open>go ds.connect\<close>) is an entry in the list of dials an operation returns; the
  beginning and the end of a dial are separate steps.
\<close>

section \<open>State and messages\<close>

record ('l, 'n, 'c) DiscoverySyncer =
  ds_engine :: "('l, 'n, 'c) SessionEngine"
  ds_bootstrapAddrs :: "string list"
  ds_localID :: string
  ds_dialing :: "string list"

definition NewDiscoverySyncer :: "('l, 'n, 'c) SessionEngine \<Rightarrow> string list \<Rightarrow> string \<Rightarrow> ('l, 'n, 'c) DiscoverySyncer" where
  "NewDiscoverySyncer engine bootstrap localID =
     \<lparr>ds_engine = engine, ds_bootstrapAddrs = bootstrap, ds_localID = localID, ds_dialing = []\<rparr>"

definition peerRefreshInterval :: duration where
  "peerRefreshInterval = 30 * second"

definition peerTTL :: duration where
  "peerTTL = 30 * minute"

datatype disc_type = DISC_SYNC | DISC_EVENT PeerEventType | DISC_UNKNOWN

record DiscoveryEvent =
  de_Type :: disc_type
  de_Update :: "ProtoPeerInfo option"
  de_Dump :: "ProtoPeerInfo list"

section \<open>Refreshing\<close>

text \<open>One live session: its record is brought up to date, under the address it already has.\<close>

definition refreshSession :: "gotime \<Rightarrow> string \<Rightarrow> inMemoryState \<Rightarrow> inMemoryState option" where
  "refreshSession now peer repo =
     (case ms_Get peer repo of
        Some p \<Rightarrow>
          if now - pi_LastSeen p < peerRefreshInterval then Some repo
          else map_option snd (InsertMerge \<lparr>pi_ID = peer, pi_Address = pi_Address p, pi_LastSeen = now\<rparr> repo)
      | None \<Rightarrow> map_option snd (InsertMerge \<lparr>pi_ID = peer, pi_Address = '''', pi_LastSeen = now\<rparr> repo))"

fun refreshSessions :: "gotime \<Rightarrow> string list \<Rightarrow> inMemoryState \<Rightarrow> inMemoryState option" where
  "refreshSessions now [] repo = Some repo"
| "refreshSessions now (p # ps) repo = Option.bind (refreshSession now p repo) (refreshSessions now ps)"

text \<open>One listed peer: kept, removed as stale, or dialled.\<close>

definition scanPeer ::
  "gotime \<Rightarrow> string \<Rightarrow> sessionRegistry \<Rightarrow> string list \<Rightarrow> PeerInfo \<Rightarrow> inMemoryState \<Rightarrow> (inMemoryState \<times> string list) option" where
  "scanPeer now localID reg connected p repo =
     (if pi_ID p = localID then Some (repo, [])
      else if reg_Get (pi_ID p) reg \<noteq> None then Some (repo, [])
      else if peerTTL < now - pi_LastSeen p then map_option (\<lambda>r. (r, [])) (ms_Remove (pi_ID p) repo)
      else if pi_Address p \<in> set connected then Some (repo, [])
      else Some (repo, [pi_Address p]))"

fun scanPeers ::
  "gotime \<Rightarrow> string \<Rightarrow> sessionRegistry \<Rightarrow> string list \<Rightarrow> PeerInfo list \<Rightarrow> inMemoryState \<Rightarrow> (inMemoryState \<times> string list) option" where
  "scanPeers now localID reg connected [] repo = Some (repo, [])"
| "scanPeers now localID reg connected (p # ps) repo =
     (case scanPeer now localID reg connected p repo of
        None \<Rightarrow> None
      | Some (repo1, d1) \<Rightarrow>
          map_option (\<lambda>(repo2, d2). (repo2, d1 @ d2)) (scanPeers now localID reg connected ps repo1))"

definition activeSessions :: "sessionRegistry \<Rightarrow> Session list" where
  "activeSessions reg = List.map_filter (gm_get (rg_heap reg)) (ListActive reg)"

definition refreshPeers ::
  "gotime \<Rightarrow> ('l, 'n, 'c) DiscoverySyncer \<Rightarrow> (('l, 'n, 'c) DiscoverySyncer \<times> string list) option" where
  "refreshPeers now ds =
     (let e = ds_engine ds; reg = en_registry e; active = activeSessions reg;
          connected = map ss_RemoteAddr active
      in case refreshSessions now (map ss_PeerID active) (en_repo e) of
           None \<Rightarrow> None
         | Some repo1 \<Rightarrow>
             map_option (\<lambda>(repo2, dials). (ds\<lparr>ds_engine := e\<lparr>en_repo := repo2\<rparr>\<rparr>, dials))
               (scanPeers now (ds_localID ds) reg connected (ms_List repo1) repo1))"

section \<open>Dialling\<close>

text \<open>\<^verbatim>\<open>strings.Contains\<close>.\<close>

fun str_contains :: "string \<Rightarrow> string \<Rightarrow> bool" where
  "str_contains [] sub = (sub = [])"
| "str_contains (c # cs) sub = (take (length sub) (c # cs) = sub \<or> str_contains cs sub)"

definition connectToBootstrap :: "string option \<Rightarrow> ('l, 'n, 'c) DiscoverySyncer \<Rightarrow> string list" where
  "connectToBootstrap tAddr ds =
     filter (\<lambda>addr. \<not> (case tAddr of None \<Rightarrow> False | Some a \<Rightarrow> str_contains a addr)) (ds_bootstrapAddrs ds)"

text \<open>The reaction to one event of the repository: the address to dial, if any.\<close>

definition onPeerEvent :: "PeerEvent \<Rightarrow> ('l, 'n, 'c) DiscoverySyncer \<Rightarrow> string option" where
  "onPeerEvent ev ds =
     (let u = pe_Update ev
      in if pe_Type ev \<noteq> PEER_JOINED then None
         else if reg_Get (pp_Id u) (en_registry (ds_engine ds)) \<noteq> None then None
         else if ds_localID ds < pp_Id u then None
         else if pp_Id u = ds_localID ds then None
         else Some (pp_Addr u))"

definition startDial :: "string \<Rightarrow> ('l, 'n, 'c) DiscoverySyncer \<Rightarrow> bool \<times> ('l, 'n, 'c) DiscoverySyncer" where
  "startDial addr ds =
     (if addr \<in> set (ds_dialing ds) then (False, ds) else (True, ds\<lparr>ds_dialing := addr # ds_dialing ds\<rparr>))"

definition finishDial :: "string \<Rightarrow> ('l, 'n, 'c) DiscoverySyncer \<Rightarrow> ('l, 'n, 'c) DiscoverySyncer" where
  "finishDial addr ds = ds\<lparr>ds_dialing := removeAll addr (ds_dialing ds)\<rparr>"

text \<open>\<^verbatim>\<open>connect\<close> up to the call of \<^verbatim>\<open>Dial\<close>, and from its return (None: the dial failed) to the end.\<close>

definition connect_begin :: "string \<Rightarrow> ('l, 'n, 'c) DiscoverySyncer \<Rightarrow> bool \<times> ('l, 'n, 'c) DiscoverySyncer" where
  "connect_begin addr ds = (if addr = '''' then (False, ds) else startDial addr ds)"

definition connect_end ::
  "bool \<Rightarrow> (nat \<Rightarrow> gotime) \<Rightarrow> nat \<Rightarrow> PeerConnection option \<Rightarrow> string \<Rightarrow> ('l, 'n, 'c) DiscoverySyncer \<Rightarrow>
   ('l, 'n, 'c) DiscoverySyncer option" where
  "connect_end grpcOk clk i conn addr ds =
     (case conn of
        None \<Rightarrow> Some (finishDial addr ds)
      | Some pc \<Rightarrow>
          map_option (\<lambda>(_, e). finishDial addr (ds\<lparr>ds_engine := e\<rparr>))
            (HandleConnection grpcOk clk i (Some pc) (ds_engine ds)))"

section \<open>Gossip\<close>

text \<open>\<^verbatim>\<open>time.Unix(0, ns)\<close> reads the number as signed.\<close>

definition protoToPeerInfo :: "ProtoPeerInfo \<Rightarrow> PeerInfo" where
  "protoToPeerInfo p = \<lparr>pi_ID = pp_Id p, pi_Address = pp_Addr p, pi_LastSeen = sint (pp_LastSeen p)\<rparr>"

fun mergeAll :: "ProtoPeerInfo list \<Rightarrow> inMemoryState \<Rightarrow> inMemoryState option" where
  "mergeAll [] repo = Some repo"
| "mergeAll (p # ps) repo = Option.bind (map_option snd (InsertMerge (protoToPeerInfo p) repo)) (mergeAll ps)"

text \<open>One message of the stream of a neighbour.\<close>

definition applyDiscoveryEvent :: "sessionRegistry \<Rightarrow> DiscoveryEvent \<Rightarrow> inMemoryState \<Rightarrow> inMemoryState option" where
  "applyDiscoveryEvent reg ev repo =
     (case de_Type ev of
        DISC_SYNC \<Rightarrow> mergeAll (de_Dump ev) repo
      | DISC_EVENT PEER_LEFT \<Rightarrow>
          (case de_Update ev of
             None \<Rightarrow> Some repo
           | Some u \<Rightarrow> if reg_Get (pp_Id u) reg \<noteq> None then Some repo else ms_Remove (pp_Id u) repo)
      | DISC_EVENT _ \<Rightarrow>
          (case de_Update ev of
             None \<Rightarrow> Some repo
           | Some u \<Rightarrow> map_option snd (InsertMerge (protoToPeerInfo u) repo))
      | DISC_UNKNOWN \<Rightarrow> Some repo)"

definition buildSyncEvent :: "inMemoryState \<Rightarrow> DiscoveryEvent" where
  "buildSyncEvent repo = \<lparr>de_Type = DISC_SYNC, de_Update = None, de_Dump = map peerInfoToProto (ms_List repo)\<rparr>"

text \<open>\<^verbatim>\<open>SubscribePeers\<close>: first the subscription, then the dump; afterwards one message per tick or event.\<close>

definition SubscribePeers :: "inMemoryState \<Rightarrow> DiscoveryEvent \<times> nat \<times> inMemoryState" where
  "SubscribePeers repo = (let (ch, repo1) = ms_Subscribe repo in (buildSyncEvent repo1, ch, repo1))"

datatype disc_wake = DiscCtx | DiscTick | DiscEvent PeerEvent | DiscClosed

fun servePeers :: "disc_wake \<Rightarrow> inMemoryState \<Rightarrow> DiscoveryEvent option" where
  "servePeers DiscCtx repo = None"
| "servePeers DiscTick repo = Some (buildSyncEvent repo)"
| "servePeers (DiscEvent ev) repo = Some \<lparr>de_Type = DISC_EVENT (pe_Type ev), de_Update = Some (pe_Update ev), de_Dump = []\<rparr>"
| "servePeers DiscClosed repo = None"


section \<open>Refreshing keeps live peers\<close>

definition fresh :: "gotime \<Rightarrow> inMemoryState \<Rightarrow> string \<Rightarrow> bool" where
  "fresh now repo i \<longleftrightarrow> (\<exists>p. gm_get (ms_peers repo) i = Some p \<and> now - pi_LastSeen p < peerRefreshInterval)"

lemma ms_Get_eq [simp]: "ms_Get i s = gm_get (ms_peers s) i"
  by (cases "gm_get (ms_peers s) i") (simp_all add: ms_Get_def)

lemma InsertMerge_locked:
  assumes "InsertMerge u s = Some (b, s')" and "pi_ID u \<noteq> ''''"
  shows "\<exists>evs. mergeLocked u s = Some (b, ms_peers s', evs)"
  using assms by (auto simp: InsertMerge_def split: option.splits)

lemma peerRefreshInterval_pos: "0 < peerRefreshInterval"
  by (simp add: peerRefreshInterval_def second_def)

text \<open>Refreshing a live peer under its own address displaces no fresh record.\<close>

lemma merge_fresh:
  assumes "topo_ok (ms_peers s)" and "i \<noteq> ''''"
    and "case gm_get (ms_peers s) i of None \<Rightarrow> a = '''' | Some p \<Rightarrow> a = pi_Address p \<and> peerRefreshInterval \<le> now - pi_LastSeen p"
    and "InsertMerge \<lparr>pi_ID = i, pi_Address = a, pi_LastSeen = now\<rparr> s = Some (b, s')"
  shows "fresh now s' i" and "fresh now s j \<Longrightarrow> fresh now s' j"
proof -
  let ?u = "\<lparr>pi_ID = i, pi_Address = a, pi_LastSeen = now\<rparr>"
  let ?e = "merged ?u (ms_peers s)"
  from InsertMerge_locked [OF assms(4)] assms(2) obtain evs where m: "mergeLocked ?u s = Some (b, ms_peers s', evs)" by auto
  have u: "pi_ID ?u \<noteq> ''''" using assms(2) by simp
  have ad: "pi_Address ?e = a" using assms(3) by (auto simp: merged_def mergePeer_snd split: option.splits)
  have ls: "now \<le> pi_LastSeen ?e" using merged_LastSeen(1) [of ?u] by simp
  have same: "\<exists>p. gm_get (ms_peers s) i = Some p \<and> pi_LastSeen q = pi_LastSeen p \<and> peerRefreshInterval \<le> now - pi_LastSeen q"
    if "gm_get (ms_peers s) k = Some q" "k \<noteq> i" "pi_Address q = a" "a \<noteq> ''''" for k q
    using that assms(3) topo_okD(4) [OF assms(1) that(1)] by (auto split: option.splits)
  have "fresh now s' i \<and> (fresh now s j \<longrightarrow> fresh now s' j)"
    using assms(1) u m
  proof (cases rule: mergeLocked_cases)
    case (same e)
    with ls peerRefreshInterval_pos show ?thesis by (auto simp: fresh_def)
  next
    case lost
    then obtain k q where "gm_get (ms_peers s) k = Some q" "k \<noteq> i" "pi_Address q = a" "a \<noteq> ''''" "pi_LastSeen ?e < pi_LastSeen q"
      by (auto simp: beaten_def ad merged_ID [OF assms(1)])
    with same [of k q] ls peerRefreshInterval_pos show ?thesis by auto
  next
    case (kept dropped)
    have f: "fresh now s' i" using kept(4) ls peerRefreshInterval_pos by (auto simp: fresh_def)
    have "fresh now s' j" if "fresh now s j" "j \<noteq> i"
      using that same [of j] kept(4) [of j] by (fastforce simp: fresh_def stale_def ad)
    with f show ?thesis by blast
  qed
  then show "fresh now s' i" "fresh now s j \<Longrightarrow> fresh now s' j" by blast+
qed

lemma refreshSession_fresh:
  assumes "topo_inv repo" and "i \<noteq> ''''"
  shows "\<exists>repo'. refreshSession now i repo = Some repo' \<and> topo_inv repo' \<and> fresh now repo' i \<and>
    (\<forall>j. fresh now repo j \<longrightarrow> fresh now repo' j)"
proof -
  have ok: "topo_ok (ms_peers repo)" using assms(1) by (simp add: topo_inv_def)
  show ?thesis
  proof (cases "fresh now repo i")
    case True
    with assms(1) show ?thesis by (intro exI [of _ repo]) (auto simp: refreshSession_def fresh_def)
  next
    case False
    let ?a = "case gm_get (ms_peers repo) i of None \<Rightarrow> '''' | Some p \<Rightarrow> pi_Address p"
    let ?u = "\<lparr>pi_ID = i, pi_Address = ?a, pi_LastSeen = now\<rparr>"
    from InsertMerge_total [OF assms(1), of ?u] obtain b repo' where r: "InsertMerge ?u repo = Some (b, repo')" "topo_inv repo'" by blast
    have c: "case gm_get (ms_peers repo) i of None \<Rightarrow> ?a = '''' | Some p \<Rightarrow> ?a = pi_Address p \<and> peerRefreshInterval \<le> now - pi_LastSeen p"
      using False by (auto simp: fresh_def split: option.split)
    have "refreshSession now i repo = Some repo'"
      using r(1) False by (auto simp: refreshSession_def fresh_def split: option.splits)
    with merge_fresh [OF ok assms(2) c r(1)] r(2) show ?thesis by blast
  qed
qed

lemma refreshSessions_fresh:
  assumes "topo_inv repo" and "'''' \<notin> set ps"
  shows "\<exists>repo'. refreshSessions now ps repo = Some repo' \<and> topo_inv repo' \<and> (\<forall>i \<in> set ps. fresh now repo' i) \<and>
    (\<forall>j. fresh now repo j \<longrightarrow> fresh now repo' j)"
  using assms
proof (induction ps arbitrary: repo)
  case Nil
  then show ?case by simp
next
  case (Cons p ps)
  from refreshSession_fresh [OF Cons.prems(1), of p now] Cons.prems(2) obtain r1 where
    r1: "refreshSession now p repo = Some r1" "topo_inv r1" "fresh now r1 p" "\<forall>j. fresh now repo j \<longrightarrow> fresh now r1 j" by auto
  from Cons.IH [OF r1(2)] Cons.prems(2) r1 show ?case by fastforce
qed

section \<open>Scanning\<close>

lemma ms_Remove_get:
  assumes "ms_Remove i s = Some s'" and "i \<noteq> ''''"
  shows "gm_get (ms_peers s') j = (if j = i then None else gm_get (ms_peers s) j)"
  using assms by (auto simp: ms_Remove_def split: option.splits)

definition expired :: "gotime \<Rightarrow> string \<Rightarrow> sessionRegistry \<Rightarrow> PeerInfo \<Rightarrow> bool" where
  "expired now me reg p \<longleftrightarrow> pi_ID p \<noteq> me \<and> reg_Get (pi_ID p) reg = None \<and> peerTTL < now - pi_LastSeen p"

text \<open>The scan removes exactly the expired peers of the list, and dials exactly the others that are not connected.\<close>

lemma scanPeers_spec:
  assumes "topo_inv repo" and "\<forall>p \<in> set ps. pi_ID p \<noteq> ''''"
  shows "\<exists>repo' dials. scanPeers now me reg conn ps repo = Some (repo', dials) \<and> topo_inv repo' \<and>
    (\<forall>i. gm_get (ms_peers repo') i = (if \<exists>p \<in> set ps. pi_ID p = i \<and> expired now me reg p then None else gm_get (ms_peers repo) i)) \<and>
    set dials = pi_Address ` {p \<in> set ps. pi_ID p \<noteq> me \<and> reg_Get (pi_ID p) reg = None \<and> \<not> expired now me reg p \<and>
      pi_Address p \<notin> set conn}"
  using assms
proof (induction ps arbitrary: repo)
  case Nil
  then show ?case by simp
next
  case (Cons p ps)
  have "\<exists>r1 d1. scanPeer now me reg conn p repo = Some (r1, d1) \<and> topo_inv r1 \<and>
      (\<forall>i. gm_get (ms_peers r1) i = (if pi_ID p = i \<and> expired now me reg p then None else gm_get (ms_peers repo) i)) \<and>
      set d1 = (if pi_ID p \<noteq> me \<and> reg_Get (pi_ID p) reg = None \<and> \<not> expired now me reg p \<and> pi_Address p \<notin> set conn
        then {pi_Address p} else {})"
  proof (cases "expired now me reg p")
    case True
    from ms_Remove_total [OF Cons.prems(1), of "pi_ID p"] obtain r where "ms_Remove (pi_ID p) repo = Some r" "topo_inv r" by blast
    with True ms_Remove_get [of "pi_ID p" repo r] Cons.prems(2) show ?thesis by (auto simp: scanPeer_def expired_def)
  next
    case False
    with Cons.prems(1) show ?thesis by (auto simp: scanPeer_def expired_def)
  qed
  then obtain r1 d1 where r1: "scanPeer now me reg conn p repo = Some (r1, d1)" "topo_inv r1"
    "\<And>i. gm_get (ms_peers r1) i = (if pi_ID p = i \<and> expired now me reg p then None else gm_get (ms_peers repo) i)"
    "set d1 = (if pi_ID p \<noteq> me \<and> reg_Get (pi_ID p) reg = None \<and> \<not> expired now me reg p \<and> pi_Address p \<notin> set conn
        then {pi_Address p} else {})" by blast
  from Cons.IH [OF r1(2)] Cons.prems(2) obtain r2 d2 where
    r2: "scanPeers now me reg conn ps r1 = Some (r2, d2)" "topo_inv r2"
    "\<And>i. gm_get (ms_peers r2) i = (if \<exists>p \<in> set ps. pi_ID p = i \<and> expired now me reg p then None else gm_get (ms_peers r1) i)"
    "set d2 = pi_Address ` {p \<in> set ps. pi_ID p \<noteq> me \<and> reg_Get (pi_ID p) reg = None \<and> \<not> expired now me reg p \<and>
      pi_Address p \<notin> set conn}" by auto
  show ?case
    by (intro exI [of _ r2] exI [of _ "d1 @ d2"]) (auto simp: r1(1,3,4) r2)
qed


lemma activeSessions_iff:
  assumes "reg_ok reg"
  shows "s \<in> set (activeSessions reg) \<longleftrightarrow> (\<exists>i. reg_Get (ss_PeerID s) reg = Some i \<and> gm_get (rg_heap reg) i = Some s)"
proof -
  have "i \<in> set (ListActive reg) \<longleftrightarrow> (\<exists>p. gm_get (rg_sessions reg) p = Some i)" for i
    using reg_okD(1) [OF assms] by (simp add: ListActive_def gm_vals_iff)
  then have "s \<in> set (activeSessions reg) \<longleftrightarrow> (\<exists>i p. gm_get (rg_sessions reg) p = Some i \<and> gm_get (rg_heap reg) i = Some s)"
    by (auto simp: activeSessions_def map_filter_def image_iff)
  with reg_okD(3) [OF assms] show ?thesis unfolding reg_Get_def by (metis option.inject)
qed

lemma activeSessions_ids:
  assumes "reg_ok reg"
  shows "i \<in> ss_PeerID ` set (activeSessions reg) \<longleftrightarrow> reg_Get i reg \<noteq> None"
  using activeSessions_iff [OF assms] reg_okD(3) [OF assms] unfolding reg_Get_def by (force simp: image_iff)

section \<open>Dials in flight\<close>

text \<open>The syncer together with the dials that are in flight.\<close>

inductive dial_step ::
  "('l, 'n, 'c) DiscoverySyncer \<times> string list \<Rightarrow> ('l, 'n, 'c) DiscoverySyncer \<times> string list \<Rightarrow> bool" where
  begin_dial: "connect_begin addr ds = (True, ds') \<Longrightarrow> dial_step (ds, fl) (ds', addr # fl)"
| refused: "connect_begin addr ds = (False, ds') \<Longrightarrow> dial_step (ds, fl) (ds', fl)"
| end_dial: "addr \<in> set fl \<Longrightarrow> connect_end grpcOk clk i conn addr ds = Some ds' \<Longrightarrow> dial_step (ds, fl) (ds', remove1 addr fl)"
| refresh: "refreshPeers now ds = Some (ds', dials) \<Longrightarrow> dial_step (ds, fl) (ds', fl)"
| engine: "dial_step (ds, fl) (ds\<lparr>ds_engine := e\<rparr>, fl)"

inductive_cases dial_stepE: "dial_step (ds, fl) (ds', fl')"

definition dial_inv :: "('l, 'n, 'c) DiscoverySyncer \<times> string list \<Rightarrow> bool" where
  "dial_inv st \<longleftrightarrow> distinct (snd st) \<and> set (snd st) = set (ds_dialing (fst st)) \<and> '''' \<notin> set (snd st)"

lemma refreshPeers_dialing: "refreshPeers now ds = Some (ds', dials) \<Longrightarrow> ds_dialing ds' = ds_dialing ds"
  by (auto simp: refreshPeers_def Let_def split: option.splits)

lemma dial_inv_step:
  assumes "dial_inv st" and "dial_step st st'"
  shows "dial_inv st'"
  using assms(2,1)
proof (cases rule: dial_step.cases)
  case (begin_dial addr ds ds' fl)
  then have "addr \<noteq> ''''" "addr \<notin> set (ds_dialing ds)" "ds_dialing ds' = addr # ds_dialing ds"
    by (auto simp: connect_begin_def startDial_def split: if_splits)
  with begin_dial assms(1) show ?thesis by (auto simp: dial_inv_def)
next
  case (refused addr ds ds' fl)
  then have "ds' = ds" by (auto simp: connect_begin_def startDial_def split: if_splits)
  with refused assms(1) show ?thesis by (auto simp: dial_inv_def)
next
  case (end_dial addr fl grpcOk clk i conn ds ds')
  then have "ds_dialing ds' = removeAll addr (ds_dialing ds)"
    by (auto simp: connect_end_def finishDial_def split: option.splits)
  with end_dial assms(1) show ?thesis by (auto simp: dial_inv_def)
next
  case (refresh now ds ds' dials fl)
  with assms(1) show ?thesis by (auto simp: dial_inv_def refreshPeers_dialing)
next
  case (engine ds fl e)
  with assms(1) show ?thesis by (auto simp: dial_inv_def)
qed

interpretation dial: invariant_system "\<lambda>st. \<exists>e b me. st = (NewDiscoverySyncer e b me, [])" dial_step dial_inv
proof (unfold_locales, goal_cases)
  case (1 st)
  then show ?case by (auto simp: dial_inv_def NewDiscoverySyncer_def)
next
  case (2 st st')
  then show ?case by (rule dial_inv_step)
qed

section \<open>Properties of the discovery\<close>

text \<open>C28: refreshing never loses a live neighbour and forgets what is stale. With the registry and the peer map in
  their invariants, \<^verbatim>\<open>refreshPeers\<close> returns; afterwards every peer with a live session is known with a last contact of
  less than 30 seconds ago, whatever address conflicts its refresh resolved; every other known peer but the node
  itself was seen within the last 30 minutes; and the addresses to dial are exactly those of the known peers that have
  no session, other than those at the far end of a live one.\<close>

theorem refreshPeers_keeps_live:
  fixes ds :: "('l, 'n, 'c) DiscoverySyncer"
  defines "reg \<equiv> en_registry (ds_engine ds)"
  assumes "topo_inv (en_repo (ds_engine ds))" and "reg_ok reg"
  shows "\<exists>ds' dials. refreshPeers now ds = Some (ds', dials) \<and> topo_inv (en_repo (ds_engine ds')) \<and>
    (\<forall>i. reg_Get i reg \<noteq> None \<longrightarrow>
      (\<exists>p. ms_Get i (en_repo (ds_engine ds')) = Some p \<and> now - pi_LastSeen p < peerRefreshInterval)) \<and>
    (\<forall>i p. ms_Get i (en_repo (ds_engine ds')) = Some p \<longrightarrow> i \<noteq> ds_localID ds \<longrightarrow> reg_Get i reg = None \<longrightarrow>
      now - pi_LastSeen p \<le> peerTTL) \<and>
    (\<forall>a. a \<in> set dials \<longleftrightarrow> a \<notin> ss_RemoteAddr ` set (activeSessions reg) \<and>
      (\<exists>i p. ms_Get i (en_repo (ds_engine ds')) = Some p \<and> pi_Address p = a \<and> i \<noteq> ds_localID ds \<and> reg_Get i reg = None))"
proof -
  let ?e = "ds_engine ds" and ?act = "map ss_PeerID (activeSessions reg)"
  have act: "i \<in> set ?act \<longleftrightarrow> reg_Get i reg \<noteq> None" for i using activeSessions_ids [OF assms(3)] by simp
  have "'''' \<notin> set ?act" using act [of "''''"] reg_okD(3) [OF assms(3)] by (auto simp: reg_Get_def)
  from refreshSessions_fresh [OF assms(2) this, of now] obtain r1 where
    r1: "refreshSessions now ?act (en_repo ?e) = Some r1" "topo_inv r1" "\<forall>i \<in> set ?act. fresh now r1 i" by blast
  have ok1: "topo_ok (ms_peers r1)" using r1(2) by (simp add: topo_inv_def)
  have lst: "p \<in> set (ms_List r1) \<longleftrightarrow> gm_get (ms_peers r1) (pi_ID p) = Some p" for p
    using topo_okD(2) [OF ok1] by (auto simp: ms_List_def gm_vals_iff [OF topo_okD(1) [OF ok1]])
  have "\<forall>p \<in> set (ms_List r1). pi_ID p \<noteq> ''''" using lst topo_okD(3) [OF ok1] by blast
  from scanPeers_spec [OF r1(2) this, of now "ds_localID ds" reg "map ss_RemoteAddr (activeSessions reg)"] obtain r2 dials where
    r2: "scanPeers now (ds_localID ds) reg (map ss_RemoteAddr (activeSessions reg)) (ms_List r1) r1 = Some (r2, dials)"
      "topo_inv r2"
      "\<And>i. gm_get (ms_peers r2) i = (if \<exists>p \<in> set (ms_List r1). pi_ID p = i \<and> expired now (ds_localID ds) reg p
          then None else gm_get (ms_peers r1) i)"
      "set dials = pi_Address ` {p \<in> set (ms_List r1). pi_ID p \<noteq> ds_localID ds \<and> reg_Get (pi_ID p) reg = None \<and>
          \<not> expired now (ds_localID ds) reg p \<and> pi_Address p \<notin> set (map ss_RemoteAddr (activeSessions reg))}"
    by blast
  have get2: "gm_get (ms_peers r2) i = Some p \<longleftrightarrow> gm_get (ms_peers r1) i = Some p \<and> \<not> expired now (ds_localID ds) reg p" for i p
  proof -
    have "(\<exists>q \<in> set (ms_List r1). pi_ID q = i \<and> expired now (ds_localID ds) reg q) \<longleftrightarrow>
        (\<exists>q. gm_get (ms_peers r1) i = Some q \<and> expired now (ds_localID ds) reg q)"
      unfolding Bex_def lst using topo_okD(2) [OF ok1] by blast
    with r2(3) [of i] show ?thesis by auto
  qed
  have res: "refreshPeers now ds = Some (ds\<lparr>ds_engine := ?e\<lparr>en_repo := r2\<rparr>\<rparr>, dials)"
    using r1(1) r2(1) by (simp add: refreshPeers_def Let_def reg_def [symmetric])
  let ?ds = "ds\<lparr>ds_engine := ?e\<lparr>en_repo := r2\<rparr>\<rparr>"
  have live: "\<exists>p. gm_get (ms_peers r2) i = Some p \<and> now - pi_LastSeen p < peerRefreshInterval" if "reg_Get i reg \<noteq> None" for i
  proof -
    from that act have "i \<in> set ?act" by blast
    with r1(3) have "fresh now r1 i" by blast
    then obtain p where p: "gm_get (ms_peers r1) i = Some p" "now - pi_LastSeen p < peerRefreshInterval"
      unfolding fresh_def by blast
    with that topo_okD(2) [OF ok1 p(1)] have "\<not> expired now (ds_localID ds) reg p" by (simp add: expired_def)
    with p get2 show ?thesis by blast
  qed
  have gone: "now - pi_LastSeen p \<le> peerTTL" if "gm_get (ms_peers r2) i = Some p" "i \<noteq> ds_localID ds" "reg_Get i reg = None" for i p
    using that get2 [of i p] topo_okD(2) [OF ok1, of i p] by (auto simp: expired_def)
  have "a \<in> set dials \<longleftrightarrow> a \<notin> ss_RemoteAddr ` set (activeSessions reg) \<and>
      (\<exists>i p. gm_get (ms_peers r2) i = Some p \<and> pi_Address p = a \<and> i \<noteq> ds_localID ds \<and> reg_Get i reg = None)" for a
  proof -
    have eq: "(\<exists>i p. gm_get (ms_peers r2) i = Some p \<and> pi_Address p = a \<and> i \<noteq> ds_localID ds \<and> reg_Get i reg = None) \<longleftrightarrow>
        (\<exists>p. gm_get (ms_peers r1) (pi_ID p) = Some p \<and> \<not> expired now (ds_localID ds) reg p \<and> pi_Address p = a \<and>
          pi_ID p \<noteq> ds_localID ds \<and> reg_Get (pi_ID p) reg = None)"
      (is "?L \<longleftrightarrow> ?R")
    proof
      assume ?L
      then obtain i p where p: "gm_get (ms_peers r1) i = Some p" "\<not> expired now (ds_localID ds) reg p" "pi_Address p = a"
        "i \<noteq> ds_localID ds" "reg_Get i reg = None" unfolding get2 by blast
      with topo_okD(2) [OF ok1 p(1)] show ?R by auto
    next
      assume ?R
      then show ?L unfolding get2 by blast
    qed
    define C where "C = ss_RemoteAddr ` set (activeSessions reg)"
    have d: "set dials = pi_Address ` {p. gm_get (ms_peers r1) (pi_ID p) = Some p \<and> pi_ID p \<noteq> ds_localID ds \<and>
        reg_Get (pi_ID p) reg = None \<and> \<not> expired now (ds_localID ds) reg p \<and> pi_Address p \<notin> C}"
      using r2(4) by (simp add: lst C_def)
    show ?thesis unfolding eq unfolding d C_def [symmetric] by blast
  qed
  with res r2(2) live gone show ?thesis by (intro exI [of _ ?ds] exI [of _ dials]) simp
qed


definition exDisc :: "(nat, nat list, nat) DiscoverySyncer" where
  "exDisc = NewDiscoverySyncer (exEngine\<lparr>en_registry := NewRegistry ''me'', en_repo := newInMemoryState\<rparr>) [] ''me''"

lemma refreshPeers_keeps_live_witness:
  "\<exists>ds' dials. refreshPeers 5 exDisc = Some (ds', dials) \<and> topo_inv (en_repo (ds_engine ds'))"
proof -
  have i: "topo_inv (en_repo (ds_engine exDisc))" "reg_ok (en_registry (ds_engine exDisc))"
    by (simp_all add: exDisc_def NewDiscoverySyncer_def topo_inv_New reg_ok_New)
  from refreshPeers_keeps_live [OF i, of 5] show ?thesis by blast
qed

text \<open>Dials are coalesced. In every state reached from a new syncer by any interleaving of dials beginning and
  ending, refreshes and changes of the engine, no address is dialled twice at the same time, the empty address is
  never dialled, and an address can be dialled again exactly when no dial to it is in flight: none stays locked.\<close>

theorem dials_coalesced:
  assumes "dial_step\<^sup>*\<^sup>* (NewDiscoverySyncer e b me, []) (ds, inflight)"
  shows "distinct inflight \<and> '''' \<notin> set inflight \<and>
    (addr \<noteq> '''' \<longrightarrow> (fst (connect_begin addr ds) \<longleftrightarrow> addr \<notin> set inflight))"
proof -
  have "dial_inv (ds, inflight)" using dial.inv_reachable [OF _ assms] by blast
  then show ?thesis by (auto simp: dial_inv_def connect_begin_def startDial_def)
qed

lemma dials_coalesced_witness:
  "fst (connect_begin ''10.1.1.2:443'' exDisc)"
  using dials_coalesced [of "exEngine\<lparr>en_registry := NewRegistry ''me'', en_repo := newInMemoryState\<rparr>" "[]" "''me''" exDisc "[]"
      "''10.1.1.2:443''"]
  unfolding exDisc_def by simp

lemma mergeAll_total: "topo_inv repo \<Longrightarrow> \<exists>r. mergeAll ps repo = Some r \<and> topo_inv r"
proof (induction ps arbitrary: repo)
  case (Cons p ps)
  from InsertMerge_total [OF Cons.prems, of "protoToPeerInfo p"] obtain b s where "InsertMerge (protoToPeerInfo p) repo = Some (b, s)"
    "topo_inv s" by blast
  with Cons.IH [of s] show ?case by simp
qed simp

lemma applyDiscoveryEvent_total:
  assumes "topo_inv repo" shows "\<exists>repo'. applyDiscoveryEvent reg ev repo = Some repo' \<and> topo_inv repo'"
proof -
  have one: "\<exists>r. map_option snd (InsertMerge v repo) = Some r \<and> topo_inv r" for v
    using InsertMerge_total [OF assms, of v] by fastforce
  show ?thesis using mergeAll_total [OF assms] one ms_Remove_total [OF assms] assms
    by (auto simp: applyDiscoveryEvent_def split: disc_type.splits PeerEventType.splits option.splits)
qed

text \<open>Gossip cannot make the node forget a neighbour it talks to by announcing its departure, nor crash it. A LEFT
  message about a peer with a live session changes nothing; about any other peer it removes exactly that record; and
  any message whatever is applied without a panic and keeps the invariant of the peer map.\<close>

theorem left_event_spares_live:
  assumes "topo_inv repo"
  shows "(\<exists>repo'. applyDiscoveryEvent reg ev repo = Some repo' \<and> topo_inv repo') \<and>
    (de_Type ev = DISC_EVENT PEER_LEFT \<longrightarrow> de_Update ev = Some u \<longrightarrow> reg_Get (pp_Id u) reg \<noteq> None \<longrightarrow>
      applyDiscoveryEvent reg ev repo = Some repo) \<and>
    (de_Type ev = DISC_EVENT PEER_LEFT \<longrightarrow> de_Update ev = Some u \<longrightarrow> reg_Get (pp_Id u) reg = None \<longrightarrow> pp_Id u \<noteq> '''' \<longrightarrow>
      map_option (\<lambda>r. ms_Get i r) (applyDiscoveryEvent reg ev repo) = Some (if i = pp_Id u then None else ms_Get i repo))"
proof -
  have "\<exists>repo'. applyDiscoveryEvent reg ev repo = Some repo' \<and> topo_inv repo'" by (rule applyDiscoveryEvent_total [OF assms])
  moreover have "map_option (\<lambda>r. ms_Get i r) (ms_Remove (pp_Id u) repo) = Some (if i = pp_Id u then None else ms_Get i repo)"
    if "pp_Id u \<noteq> ''''"
  proof -
    obtain r where r: "ms_Remove (pp_Id u) repo = Some r" using ms_Remove_total [OF assms] by blast
    from ms_Remove_get [OF r that, of i] r show ?thesis by simp
  qed
  ultimately show ?thesis by (auto simp: applyDiscoveryEvent_def)
qed

lemma left_event_spares_live_witness:
  "applyDiscoveryEvent (NewRegistry ''me'') \<lparr>de_Type = DISC_SYNC, de_Update = None,
     de_Dump = [peerInfoToProto exPeer]\<rparr> newInMemoryState \<noteq> None"
  using left_event_spares_live [OF topo_inv_New, of "NewRegistry ''me''" "\<lparr>de_Type = DISC_SYNC, de_Update = None,
     de_Dump = [peerInfoToProto exPeer]\<rparr>"] by auto

text \<open>A record from the future is never forgotten and is dialled forever. The last contact of a gossiped record is
  not compared with the clock, so a peer without a session whose record says a future instant survives every
  refresh before that instant, and each of these dials its address again unless a live session occupies it.\<close>

theorem future_record_is_immortal:
  fixes ds :: "('l, 'n, 'c) DiscoverySyncer"
  assumes "topo_inv (en_repo (ds_engine ds))" and "activeSessions (en_registry (ds_engine ds)) = []"
    and "ms_Get i (en_repo (ds_engine ds)) = Some p" and "now \<le> pi_LastSeen p"
    and "i \<noteq> ds_localID ds" and "reg_Get i (en_registry (ds_engine ds)) = None"
  shows "\<exists>ds' dials. refreshPeers now ds = Some (ds', dials) \<and> ms_Get i (en_repo (ds_engine ds')) = Some p \<and>
    pi_Address p \<in> set dials"
proof -
  let ?r = "en_repo (ds_engine ds)" and ?reg = "en_registry (ds_engine ds)"
  have ok: "topo_ok (ms_peers ?r)" using assms(1) by (simp add: topo_inv_def)
  have g: "gm_get (ms_peers ?r) i = Some p" using assms(3) by simp
  have id: "pi_ID p = i" by (rule topo_okD(2) [OF ok g])
  have lst: "q \<in> set (ms_List ?r) \<longleftrightarrow> gm_get (ms_peers ?r) (pi_ID q) = Some q" for q
    using topo_okD(2) [OF ok] by (auto simp: ms_List_def gm_vals_iff [OF topo_okD(1) [OF ok]])
  have ne: "\<forall>q \<in> set (ms_List ?r). pi_ID q \<noteq> ''''" using lst topo_okD(3) [OF ok] by blast
  have live: "\<not> expired now (ds_localID ds) ?reg p" using assms(4) by (simp add: expired_def peerTTL_def minute_def second_def)
  from scanPeers_spec [OF assms(1) ne, of now "ds_localID ds" ?reg "[]"] obtain r2 dials where
    r2: "scanPeers now (ds_localID ds) ?reg [] (ms_List ?r) ?r = Some (r2, dials)"
      "\<And>i. gm_get (ms_peers r2) i = (if \<exists>p \<in> set (ms_List ?r). pi_ID p = i \<and> expired now (ds_localID ds) ?reg p
          then None else gm_get (ms_peers ?r) i)"
      "set dials = pi_Address ` {p \<in> set (ms_List ?r). pi_ID p \<noteq> ds_localID ds \<and> reg_Get (pi_ID p) ?reg = None \<and>
          \<not> expired now (ds_localID ds) ?reg p \<and> pi_Address p \<notin> set []}"
    by blast
  have keep: "gm_get (ms_peers r2) i = Some p"
    using r2(2) [of i] lst live g by auto
  have mem: "p \<in> set (ms_List ?r)" using lst g id by simp
  have "pi_Address p \<in> set dials" unfolding r2(3) using mem assms(5,6) live id by (intro imageI) simp
  moreover have "refreshPeers now ds = Some (ds\<lparr>ds_engine := (ds_engine ds)\<lparr>en_repo := r2\<rparr>\<rparr>, dials)"
    using r2(1) by (simp add: refreshPeers_def Let_def assms(2))
  ultimately show ?thesis using keep by simp
qed

lemma future_record_is_immortal_witness:
  "\<exists>ds' dials. refreshPeers 0 (exDisc\<lparr>ds_engine := (ds_engine exDisc)\<lparr>en_repo := newInMemoryState\<lparr>ms_peers := [(''a'', exPeer)]\<rparr>\<rparr>\<rparr>) =
     Some (ds', dials) \<and> pi_Address exPeer \<in> set dials"
proof -
  let ?ds = "exDisc\<lparr>ds_engine := (ds_engine exDisc)\<lparr>en_repo := newInMemoryState\<lparr>ms_peers := [(''a'', exPeer)]\<rparr>\<rparr>\<rparr>"
  have "topo_inv (en_repo (ds_engine ?ds))"
    by (auto simp: topo_inv_def newInMemoryState_def bus_ok_New topo_ok_def exPeer_def gm_wf_def gm_get_def split: if_splits)
  from future_record_is_immortal [OF this, of "''a''" exPeer 0] show ?thesis
    by (auto simp: exDisc_def NewDiscoverySyncer_def exPeer_def gm_get_def newInMemoryState_def activeSessions_def ListActive_def
      NewRegistry_def reg_Get_def map_filter_def)
qed

end
