(* ===== verification/MeshNode.thy ===== *)
theory MeshNode
  imports PeersSync Discovery Codec
begin

text \<open>
  \<^verbatim>\<open>pkg/mesh/node.go\<close> and \<^verbatim>\<open>api.go\<close>: the node that owns the mesh components. The repository, the registry, the
  stream listener and the router are reached through the session engine, which the discovery syncer holds. The
  channel to the mesh senders is part of the network side of the router, next to the state of the local
  transport. Certificates, the hash and the QUIC transport are arguments. Serving gRPC is not modelled.
\<close>

section \<open>State\<close>

type_synonym 'w mesh_net = "RemoteMessage chan \<times> 'w"

record ('l, 'w, 'c) MeshNode =
  mn_localID :: string
  mn_syncer :: "('l, 'w mesh_net, 'c) DiscoverySyncer"
  mn_closed :: bool \<comment> \<open>\<^verbatim>\<open>closeOnce\<close> has run\<close>
  mn_cancelled :: bool
  mn_grpcStopped :: bool
  mn_transportClosed :: bool

abbreviation mn_engine :: "('l, 'w, 'c) MeshNode \<Rightarrow> ('l, 'w mesh_net, 'c) SessionEngine" where
  "mn_engine n \<equiv> ds_engine (mn_syncer n)"

abbreviation mn_registry :: "('l, 'w, 'c) MeshNode \<Rightarrow> sessionRegistry" where
  "mn_registry n \<equiv> en_registry (mn_engine n)"

abbreviation mn_router :: "('l, 'w, 'c) MeshNode \<Rightarrow> ('l, 'w mesh_net) Router" where
  "mn_router n \<equiv> en_router (mn_engine n)"

definition set_engine :: "('l, 'w mesh_net, 'c) SessionEngine \<Rightarrow> ('l, 'w, 'c) MeshNode \<Rightarrow> ('l, 'w, 'c) MeshNode" where
  "set_engine e n = n\<lparr>mn_syncer := (mn_syncer n)\<lparr>ds_engine := e\<rparr>\<rparr>"

section \<open>Identity\<close>

text \<open>A certificate is its chain and the parsed leaf, if it was kept; a parsed certificate is its raw public key.\<close>

record Certificate =
  ct_chain :: "bytes list"
  ct_Leaf :: "bytes option"

datatype id_error = NoCertificate | ParseFailed

definition extractLocalPeerID ::
  "(bytes \<Rightarrow> bytes option) \<Rightarrow> (bytes \<Rightarrow> bytes) \<Rightarrow> Certificate \<Rightarrow> id_error + string" where
  "extractLocalPeerID parse sha256 cert =
     (case ct_chain cert of
        [] \<Rightarrow> Inl NoCertificate
      | der # _ \<Rightarrow>
          (case (case ct_Leaf cert of Some spki \<Rightarrow> Some spki | None \<Rightarrow> parse der) of
             None \<Rightarrow> Inl ParseFailed
           | Some spki \<Rightarrow> Inr (hexEncode (sha256 spki))))"

section \<open>Building\<close>

datatype node_error = NoTransport | NoIdentity id_error | TransportFailed

record MeshConfig =
  mc_ListenAddr :: string
  mc_PeersStore :: string
  mc_BootstrapAddrs :: "string list"

text \<open>\<open>hasTransport\<close>: the given transport is not nil. The queue to the senders is the one of the router's network side.\<close>

definition NewWithTransport ::
  "(bytes \<Rightarrow> bytes option) \<Rightarrow> (bytes \<Rightarrow> bytes) \<Rightarrow> bool \<Rightarrow> filesystem \<Rightarrow> MeshConfig \<Rightarrow> Certificate \<Rightarrow>
   ('l, 'w mesh_net) Router \<Rightarrow> bool \<Rightarrow> node_error + ('l, 'w, 'c) MeshNode" where
  "NewWithTransport parse sha256 readOk fs cfg cert router hasTransport =
     (if \<not> hasTransport then Inl NoTransport
      else case extractLocalPeerID parse sha256 cert of
             Inl e \<Rightarrow> Inl (NoIdentity e)
           | Inr localID \<Rightarrow>
               let repo = NewPeerRepository readOk (mc_PeersStore cfg) fs;
                   engine = \<lparr>en_registry = NewRegistry localID, en_pusher = NewBiStreamLis, en_repo = repo,
                             en_router = router\<lparr>netside := (mkchan 1000, snd (netside router))\<rparr>\<rparr>
               in Inr \<lparr>mn_localID = localID, mn_syncer = NewDiscoverySyncer engine (mc_BootstrapAddrs cfg) localID,
                       mn_closed = False, mn_cancelled = False, mn_grpcStopped = False, mn_transportClosed = False\<rparr>)"

text \<open>\<^verbatim>\<open>New\<close>: \<open>listenOk\<close> is the outcome of opening the QUIC listener; the second component says whether it was closed again.\<close>

definition mesh_New ::
  "(bytes \<Rightarrow> bytes option) \<Rightarrow> (bytes \<Rightarrow> bytes) \<Rightarrow> bool \<Rightarrow> filesystem \<Rightarrow> MeshConfig \<Rightarrow> Certificate \<Rightarrow>
   ('l, 'w mesh_net) Router \<Rightarrow> bool \<Rightarrow> (node_error + ('l, 'w, 'c) MeshNode) \<times> bool" where
  "mesh_New parse sha256 readOk fs cfg cert router listenOk =
     (if \<not> listenOk then (Inl TransportFailed, False)
      else case NewWithTransport parse sha256 readOk fs cfg cert router True of
             Inl e \<Rightarrow> (Inl e, True)
           | Inr n \<Rightarrow> (Inr n, False))"

definition CountPeers :: "('l, 'w, 'c) MeshNode \<Rightarrow> nat" where
  "CountPeers n = ms_Count (en_repo (mn_engine n))"

definition CountConnections :: "('l, 'w, 'c) MeshNode \<Rightarrow> nat" where
  "CountConnections n = length (ListActive (mn_registry n))"

definition NodeID :: "('l, 'w, 'c) MeshNode \<Rightarrow> string" where
  "NodeID n = mn_localID n"

record ConnectivityState =
  cs_Id :: string
  cs_Addr :: string
  cs_TotalSent :: u64
  cs_TotalRecv :: u64

text \<open>The counters belong to the connections of the transport.\<close>

definition GetConnectivity :: "(Session \<Rightarrow> u64) \<Rightarrow> (Session \<Rightarrow> u64) \<Rightarrow> ('l, 'w, 'c) MeshNode \<Rightarrow> ConnectivityState list" where
  "GetConnectivity sent recv n =
     map (\<lambda>s. \<lparr>cs_Id = ss_PeerID s, cs_Addr = ss_RemoteAddr s, cs_TotalSent = sent s, cs_TotalRecv = recv s\<rparr>)
       (activeSessions (mn_registry n))"

section \<open>The loops of Run\<close>

text \<open>One accepted connection: whether it was closed at once as our own, and the new state.\<close>

definition acceptConn ::
  "bool \<Rightarrow> (nat \<Rightarrow> gotime) \<Rightarrow> nat \<Rightarrow> PeerConnection \<Rightarrow> ('l, 'w, 'c) MeshNode \<Rightarrow> (bool \<times> ('l, 'w, 'c) MeshNode) option" where
  "acceptConn grpcOk clk i conn n =
     (if pc_ID conn = mn_localID n then Some (True, n)
      else map_option (\<lambda>(_, e). (False, set_engine e n)) (HandleConnection grpcOk clk i (Some conn) (mn_engine n)))"

text \<open>One round of a sender: what it hands to which session; None while the queue is empty.\<close>

definition meshSender :: "('l, 'w, 'c) MeshNode \<Rightarrow> ((nat \<times> bytes) option \<times> ('l, 'w, 'c) MeshNode) option" where
  "meshSender n =
     (let r = mn_router n
      in case chan_recv (fst (netside r)) of
           None \<Rightarrow> None
         | Some (msg, q) \<Rightarrow>
             let n' = set_engine ((mn_engine n)\<lparr>en_router := r\<lparr>netside := (q, snd (netside r))\<rparr>\<rparr>) n
             in Some (map_option (\<lambda>i. (i, slice_read (rm_Data msg) (packetsPool r)))
                        (reg_Get (rm_TargetNodeID msg) (mn_registry n)), n'))"

text \<open>Rounds of a sender one after the other.\<close>

fun senderRounds :: "nat \<Rightarrow> ('l, 'w, 'c) MeshNode \<Rightarrow> ((nat \<times> bytes) option list \<times> ('l, 'w, 'c) MeshNode) option" where
  "senderRounds 0 n = Some ([], n)"
| "senderRounds (Suc k) n =
     (case meshSender n of
        None \<Rightarrow> None
      | Some (out, n1) \<Rightarrow> map_option (\<lambda>(outs, n2). (out # outs, n2)) (senderRounds k n1))"

text \<open>
  \<^verbatim>\<open>SendDatagram\<close> of the routing objects of this node: objects of other nodes are remote clients and queue the slice,
  the node's own are sent by the local transport. \<open>pickDone\<close> is the choice of the select when the context of the client is
  done as well. A send that finds the queue full waits: \<open>wait\<close> gives the queue in which there is room again, None when the
  context ended first. The queue is never closed.
\<close>

definition node_send ::
  "bool \<Rightarrow> (RemoteMessage chan \<Rightarrow> RemoteMessage chan option) \<Rightarrow> string \<Rightarrow> 'w send_fn \<Rightarrow> 'w mesh_net send_fn" where
  "node_send pickDone wait me local_send ob data st =
     (let c = \<lparr>rc_done = ro_done ob, rc_nodeID = ro_NodeID ob, rc_virtualIP = ro_VirtualIP ob\<rparr> in
      if ro_NodeID ob = me then (let (ok, w) = local_send ob data (snd st) in (ok, fst st, w))
      else case rc_SendDatagram pickDone data c (fst st) of
             SendOk q \<Rightarrow> (True, q, snd st)
           | SendBlocks \<Rightarrow>
               (case wait (fst st) of
                  None \<Rightarrow> (False, st)
                | Some q \<Rightarrow>
                    (case rc_SendDatagram pickDone data c q of
                       SendOk q' \<Rightarrow> (True, q', snd st)
                     | _ \<Rightarrow> (False, q, snd st)))
           | _ \<Rightarrow> (False, st))"

definition mesh_shutdown :: "('l, 'w, 'c) MeshNode \<Rightarrow> ('l, 'w, 'c) MeshNode option" where
  "mesh_shutdown n =
     (if mn_closed n then Some n
      else
        let e = mn_engine n
        in map_option (\<lambda>reg. (set_engine (e\<lparr>en_pusher := bl_Close (en_pusher e), en_registry := reg\<rparr>) n)
              \<lparr>mn_closed := True, mn_cancelled := True, mn_grpcStopped := True, mn_transportClosed := True\<rparr>)
            (reg_Close (en_registry e)))"

definition mesh_Close :: "('l, 'w, 'c) MeshNode \<Rightarrow> ('l, 'w, 'c) MeshNode option" where
  "mesh_Close = mesh_shutdown"


section \<open>From the TUN to a neighbour\<close>

definition mn_setRouter :: "('l, 'w mesh_net) Router \<Rightarrow> ('l, 'w, 'c) MeshNode \<Rightarrow> ('l, 'w, 'c) MeshNode" where
  "mn_setRouter r n = set_engine ((mn_engine n)\<lparr>en_router := r\<rparr>) n"

lemma mn_setRouter_sel [simp]:
  "mn_router (mn_setRouter r n) = r" "mn_registry (mn_setRouter r n) = mn_registry n"
  by (simp_all add: mn_setRouter_def set_engine_def)

text \<open>The queue in which a message lands: the one there is if it has room, otherwise the one the send waited for.\<close>

definition lands :: "(RemoteMessage chan \<Rightarrow> RemoteMessage chan option) \<Rightarrow> RemoteMessage chan \<Rightarrow> RemoteMessage chan \<Rightarrow> bool" where
  "lands wait q q' \<longleftrightarrow> \<not> ch_closed q \<and> \<not> ch_closed q' \<and> length (ch_buf q') < ch_cap q' \<and>
     (if length (ch_buf q) < ch_cap q then q' = q else wait q = Some q')"

text \<open>The hypotheses the two properties below share: a packet for a client of another node whose context is not done, and a
  queue in which its message lands.\<close>

definition remote_packet ::
  "(RemoteMessage chan \<Rightarrow> RemoteMessage chan option) \<Rightarrow> string \<Rightarrow> nat \<Rightarrow> DatagramMessage \<Rightarrow> RouteObj \<Rightarrow> RemoteMessage chan \<Rightarrow> ('l, 'w mesh_net) Router \<Rightarrow> bool" where
  "remote_packet wait me pkt m ob q r \<longleftrightarrow> pool_ok (packetsPool r) \<and> gm_get (dp_objs (packetsPool r)) pkt = Some m \<and> dm_pooled m \<and>
     rt_GetByIP (hi_DstIP (dm_HoleInfo m)) (routingTable r) = Some (PlainRoute ob) \<and> ro_NodeID ob \<noteq> me \<and> \<not> ro_done ob \<and>
     lands wait (fst (netside r)) q"

text \<open>What the TUN handler does with it: it queues the slice and frees the packet.\<close>

lemma remote_packetD:
  assumes "remote_packet wait me pkt m ob q r" and "handleTunPacketInternal (node_send pick wait me ls) pickDone pkt r = (h, r')"
  shows "h = Handled" and "packetsPool r' = Free pkt (packetsPool r)"
    and "ch_buf (fst (netside r')) = ch_buf q @ [\<lparr>rm_TargetNodeID = ro_NodeID ob, rm_TargetVirtualIP = ro_VirtualIP ob, rm_Data = (pkt, dm_len m)\<rparr>]"
proof -
  let ?msg = "\<lparr>rm_TargetNodeID = ro_NodeID ob, rm_TargetVirtualIP = ro_VirtualIP ob, rm_Data = (pkt, dm_len m)\<rparr>"
  have "node_send pick wait me ls ob (pkt, dm_len m) (netside r) = (True, q\<lparr>ch_buf := ch_buf q @ [?msg]\<rparr>, snd (netside r))"
    using assms(1) by (auto simp: remote_packet_def lands_def node_send_def rc_SendDatagram_def try_send_def Let_def split: if_splits)
  then show "h = Handled" "packetsPool r' = Free pkt (packetsPool r)" "ch_buf (fst (netside r')) = ch_buf q @ [?msg]"
    using assms by (auto simp: remote_packet_def handleTunPacketInternal_def forward_def msg_hole_def sendPlain_def freePacket_def slice_of_def)
qed

text \<open>The senders take the queue in its order.\<close>

lemma senderRounds_reach:
  assumes "ch_buf (fst (netside (mn_router n))) = ms @ msg # rest"
  shows "\<exists>outs n'. senderRounds (Suc (length ms)) n = Some (outs @ [map_option (\<lambda>i. (i, slice_read (rm_Data msg) (packetsPool (mn_router n))))
    (reg_Get (rm_TargetNodeID msg) (mn_registry n))], n') \<and> length outs = length ms"
  using assms
proof (induction ms arbitrary: n)
  case Nil
  then show ?case by (simp add: meshSender_def chan_recv_def Let_def)
next
  case (Cons x ms)
  then obtain out n1 where n1: "meshSender n = Some (out, n1)" "ch_buf (fst (netside (mn_router n1))) = ms @ msg # rest"
    "packetsPool (mn_router n1) = packetsPool (mn_router n)" "mn_registry n1 = mn_registry n"
    by (simp add: meshSender_def chan_recv_def Let_def set_engine_def)
  from Cons.IH [OF n1(2)] obtain outs n' where
    "senderRounds (Suc (length ms)) n1 = Some (outs @ [map_option (\<lambda>i. (i, slice_read (rm_Data msg) (packetsPool (mn_router n))))
      (reg_Get (rm_TargetNodeID msg) (mn_registry n))], n')" "length outs = length ms" by (auto simp only: n1(3,4))
  with n1(1) show ?case by (intro exI [of _ "out # outs"] exI [of _ n']) (simp del: senderRounds.simps(2) add: senderRounds.simps(2) [of "Suc (length ms)"])
qed

section \<open>Properties of the node\<close>

text \<open>C34: a packet for a client of another node reaches that node. When the context of the client is not done and there is room in
  the queue, or room comes while the send waits, the TUN handler queues the packet behind what is there. If the senders then
  take the queue down to it, one round after the other, before the buffer is used again, the session of the client's node gets the packet's own bytes,
  after the messages that were queued before.\<close>

theorem tun_to_mesh_delivery:
  assumes "remote_packet wait (mn_localID n) pkt m ob q (mn_router n)"
    and "reg_Get (ro_NodeID ob) (mn_registry n) = Some i"
    and "handleTunPacketInternal (node_send pick wait (mn_localID n) ls) pickDone pkt (mn_router n) = (h, r')"
  shows "h = Handled \<and> (\<exists>outs n'. senderRounds (Suc (length (ch_buf q))) (mn_setRouter r' n) = Some (outs @ [Some (i, dm_Data m)], n') \<and>
    length outs = length (ch_buf q))"
proof -
  note p = remote_packetD [OF assms(1,3)]
  have "slice_read (pkt, dm_len m) (packetsPool r') = slice_read (pkt, dm_len m) (packetsPool (mn_router n))"
    by (simp only: p(2) Free_keeps_mem)
  also have "\<dots> = dm_Data m" using assms(1) by (simp add: remote_packet_def slice_read_def dm_Data_def)
  finally show ?thesis
    using senderRounds_reach [of "mn_setRouter r' n", unfolded mn_setRouter_sel, OF p(3)] p(1) assms(2) by simp
qed

text \<open>The queue to the neighbours sends bytes of other packets. The remote client queues the packet's slice without a
  copy and the handler frees the packet at once, so when the next packet to arrive gets the same buffer before the
  sender runs, the sender hands the first client's node the bytes of the second packet, cut to the first one's length.\<close>

theorem queued_packet_overwritten:
  assumes "remote_packet wait (mn_localID n) pkt m ob q (mn_router n)"
    and "reg_Get (ro_NodeID ob) (mn_registry n) = Some i"
    and "handleTunPacketInternal (node_send pick wait (mn_localID n) ls) pickDone pkt (mn_router n) = (h, r1)"
    and "router_NewMessageCopyFrom (Some pkt) d r1 = Some (Inr j, r2)" and "dm_len m \<le> length d"
  shows "\<exists>outs n'. senderRounds (Suc (length (ch_buf q))) (mn_setRouter r2 n) = Some (outs @ [Some (i, take (dm_len m) d)], n')"
proof -
  note p = remote_packetD [OF assms(1,3)]
  have ok: "pool_ok (packetsPool r1)" using assms(1) p(2) pool_ok_Free by (simp add: remote_packet_def)
  have free: "pkt \<in> set (dp_free (packetsPool r1))"
    using assms(1) Free_in_free(1) [of "packetsPool (mn_router n)" pkt m] by (simp add: p(2) remote_packet_def)
  from assms(4) obtain q1 where q: "NewMessageCopyFrom (Some pkt) d (packetsPool r1) = Some (Inr j, q1)"
    "r2 = r1\<lparr>packetsPool := q1\<rparr>" by (auto simp: router_NewMessageCopyFrom_def)
  from slice_read_after_reuse [OF ok q(1) assms(5)] NewMessageCopyFrom_choice(1) [OF ok free q(1)]
  have "slice_read (pkt, dm_len m) q1 = take (dm_len m) d" by simp
  moreover have buf: "ch_buf (fst (netside r2)) = ch_buf q @ [\<lparr>rm_TargetNodeID = ro_NodeID ob, rm_TargetVirtualIP = ro_VirtualIP ob, rm_Data = (pkt, dm_len m)\<rparr>]"
    using p(3) q(2) by simp
  ultimately show ?thesis
    using senderRounds_reach [of "mn_setRouter r2 n", unfolded mn_setRouter_sel, OF buf] assms(2) q(2) by auto
qed

definition exMeshPacket :: DatagramMessage where
  "exMeshPacket = (newMessage 40)\<lparr>dm_pooled := True, dm_len := 1\<rparr>"

definition exMeshNode :: "(nat, nat list, nat) MeshNode" where
  "exMeshNode = \<lparr>mn_localID = ''me'',
     mn_syncer = NewDiscoverySyncer \<lparr>en_registry = (NewRegistry ''me'')\<lparr>rg_sessions := [(''you'', 3)]\<rparr>, en_pusher = NewBiStreamLis,
       en_repo = newInMemoryState,
       en_router = \<lparr>packetsPool = (NewDGMessagePool 40)\<lparr>dp_objs := [(0, exMeshPacket)], dp_next := 1\<rparr>,
         routingTable = \<lparr>byVirtualIp = [(0, PlainRoute \<lparr>ro_NodeID = ''you'', ro_VirtualIP = 0, ro_done = False\<rparr>)]\<rparr>,
         firewall = fw_New, toIface = mkchan 1000, gatewayAddr = 0x0A000001, network = \<lparr>Base = 0x0A000000, Mask = 0xFFFFFF00\<rparr>,
         globalNetwork = \<lparr>Base = 0x0A000000, Mask = 0xFF000000\<rparr>, shardedWorkers = [mkchan 1000],
         routingsubs = bus_New, firewallsubs = bus_New, totalFromPeers = 0, totalFromIface = 0, totalFromMesh = 0,
         netside = (mkchan 1000, [])\<rparr>\<rparr> [] ''me'',
     mn_closed = False, mn_cancelled = False, mn_grpcStopped = False, mn_transportClosed = False\<rparr>"


text \<open>The same node with one message waiting, for a node without a session.\<close>

definition exQueue :: "RemoteMessage chan" where
  "exQueue = (mkchan 1000)\<lparr>ch_buf := [\<lparr>rm_TargetNodeID = ''gone'', rm_TargetVirtualIP = 7, rm_Data = (0, 0)\<rparr>]\<rparr>"

definition exQueued :: "(nat, nat list, nat) MeshNode" where
  "exQueued = mn_setRouter ((mn_router exMeshNode)\<lparr>netside := (exQueue, [])\<rparr>) exMeshNode"

lemma exQueued_remote:
  "remote_packet (\<lambda>_. None) ''me'' 0 exMeshPacket \<lparr>ro_NodeID = ''you'', ro_VirtualIP = 0, ro_done = False\<rparr> exQueue (mn_router exQueued)"
  "reg_Get ''you'' (mn_registry exQueued) = Some 3" "mn_localID exQueued = ''me''"
  by (auto simp: remote_packet_def lands_def exQueued_def exQueue_def exMeshNode_def NewDiscoverySyncer_def exMeshPacket_def newMessage_def NewDGMessagePool_def
      pool_ok_def gm_wf_def gm_get_def rt_GetByIP_def reg_Get_def NewRegistry_def mkchan_def split: if_splits) (simp add: mn_setRouter_def set_engine_def)

abbreviation exSend :: "nat list mesh_net send_fn" where
  "exSend \<equiv> node_send False (\<lambda>_. None) ''me'' (\<lambda>_ _ w. (True, w))"

definition exSent :: "(nat, nat list mesh_net) Router" where
  "exSent = snd (handleTunPacketInternal exSend False 0 (mn_router exQueued))"

lemma exSent_eq: "handleTunPacketInternal exSend False 0 (mn_router exQueued) = (fst (handleTunPacketInternal exSend False 0 (mn_router exQueued)), exSent)"
  by (simp add: exSent_def)

lemma tun_to_mesh_delivery_witness:
  "\<exists>out n'. senderRounds 2 (mn_setRouter exSent exQueued) = Some ([out, Some (3, [0])], n')"
proof -
  have d: "dm_Data exMeshPacket = [0]" "length (ch_buf exQueue) = 1" by (simp_all add: exMeshPacket_def newMessage_def dm_Data_def exQueue_def)
  from tun_to_mesh_delivery [of "\<lambda>_. None" exQueued, unfolded exQueued_remote(3), OF exQueued_remote(1) _ exSent_eq, of 3] exQueued_remote(2)
  obtain outs n' where "senderRounds 2 (mn_setRouter exSent exQueued) = Some (outs @ [Some (3, [0])], n')" "length outs = 1"
    by (auto simp: d numeral_2_eq_2 simp del: senderRounds.simps)
  then show ?thesis by (cases outs) auto
qed

lemma queued_packet_overwritten_witness:
  "\<exists>r2 outs n'. router_NewMessageCopyFrom (Some 0) exIcmp exSent = Some (Inr 0, r2) \<and>
     senderRounds 2 (mn_setRouter r2 exQueued) = Some (outs @ [Some (3, [0x45])], n')"
proof -
  have p: "packetsPool exSent = Free 0 (packetsPool (mn_router exQueued))"
    by (rule remote_packetD(2) [OF exQueued_remote(1) exSent_eq])
  have "\<exists>r2. router_NewMessageCopyFrom (Some 0) exIcmp exSent = Some (Inr 0, r2)"
    unfolding router_NewMessageCopyFrom_def p NewMessageCopyFrom_def
    by (simp add: exQueued_def exMeshNode_def NewDiscoverySyncer_def Free_def gm_get_def gm_set_def exMeshPacket_def newMessage_def NewDGMessagePool_def
      exIcmp_parse pool_get_def, simp add: exIcmp_def)
  then obtain r2 where r2: "router_NewMessageCopyFrom (Some 0) exIcmp exSent = Some (Inr 0, r2)" by blast
  have d: "dm_len exMeshPacket = 1" "take (Suc 0) exIcmp = [0x45]" "Suc 0 \<le> length exIcmp" "length (ch_buf exQueue) = 1" by (simp_all add: exMeshPacket_def exIcmp_def exQueue_def)
  from queued_packet_overwritten [of "\<lambda>_. None" exQueued, unfolded exQueued_remote(3), OF exQueued_remote(1) _ exSent_eq r2, of 3] exQueued_remote(2) r2 show ?thesis
    by (auto simp: d numeral_2_eq_2 simp del: senderRounds.simps)
qed

text \<open>Shutting down ends every session, once. From any well-formed state \<^verbatim>\<open>shutdown\<close> returns; afterwards the context
  is cancelled, the stream listener, gRPC server and transport are closed, the registry admits no one, no session is
  active and every session ever admitted is dead; a second call changes nothing.\<close>

theorem shutdown_ends_sessions:
  assumes "reg_ok (mn_registry n)" and "\<not> mn_closed n"
  shows "\<exists>n'. mesh_shutdown n = Some n' \<and> mesh_shutdown n' = Some n' \<and> mn_cancelled n' \<and> mn_grpcStopped n' \<and> mn_transportClosed n' \<and>
    bl_done (en_pusher (mn_engine n')) \<and> CountConnections n' = 0 \<and>
    (\<forall>i s. gm_get (rg_heap (mn_registry n')) i = Some s \<longrightarrow> ss_AddedAt s \<noteq> None \<longrightarrow> ss_dead s) \<and>
    (\<forall>clk i s. gm_get (rg_heap (mn_registry n')) i = Some s \<longrightarrow> (\<exists>e. reg_Add clk i (mn_registry n') = Some (Some e, mn_registry n')))"
proof -
  from reg_Close_spec [OF assms(1)] obtain r where r: "reg_Close (mn_registry n) = Some r" "reg_ok r" "rg_closed r" by blast
  let ?e = "mn_engine n"
  define n' where "n' = (set_engine (?e\<lparr>en_pusher := bl_Close (en_pusher ?e), en_registry := r\<rparr>) n)
    \<lparr>mn_closed := True, mn_cancelled := True, mn_grpcStopped := True, mn_transportClosed := True\<rparr>"
  have s: "mesh_shutdown n = Some n'" using r(1) assms(2) by (simp add: mesh_shutdown_def Let_def n'_def)
  have reg: "mn_registry n' = r" by (simp add: n'_def set_engine_def)
  have closed: "mesh_shutdown n' = Some n'" "mn_cancelled n'" "mn_grpcStopped n'" "mn_transportClosed n'"
    "bl_done (en_pusher (mn_engine n'))" by (simp_all add: n'_def mesh_shutdown_def set_engine_def bl_Close_def)
  have none: "rg_sessions r = []" using reg_okD(5) [OF r(2,3)] by simp
  then have "\<forall>i s. gm_get (rg_heap r) i = Some s \<longrightarrow> ss_AddedAt s \<noteq> None \<longrightarrow> ss_dead s" using reg_okD(4) [OF r(2)] by fastforce
  moreover have "\<forall>clk i s. gm_get (rg_heap r) i = Some s \<longrightarrow> (\<exists>e. reg_Add clk i r = Some (Some e, r))"
    using r(3) by (auto simp: reg_Add_def)
  moreover have "CountConnections n' = 0" using none by (simp add: CountConnections_def ListActive_def reg gm_vals_def)
  ultimately show ?thesis using s closed by (intro exI [of _ n']) (simp only: reg simp_thms)
qed

lemma shutdown_ends_sessions_witness:
  "\<exists>n'. mesh_shutdown (set_engine (mn_engine exMeshNode\<lparr>en_registry := NewRegistry ''me''\<rparr>) exMeshNode) = Some n' \<and> mn_cancelled n'"
  using shutdown_ends_sessions [of "set_engine (mn_engine exMeshNode\<lparr>en_registry := NewRegistry ''me''\<rparr>) exMeshNode"]
  by (auto simp: set_engine_def reg_ok_New exMeshNode_def)

end
