(* ===== verification/Api.thy ===== *)
theory Api
  imports PeersManager MeshNode
begin

text \<open>
  \<^verbatim>\<open>pkg/api/controllers\<close>: the control plane. Every gRPC call passes the interceptor and every HTTP request the middleware,
  both of which accept only a bearer token that verifies under the configured secret and has an expiration; behind them
  the handlers translate messages and call the managers. The managers share the firewall manager of the peers
  manager, so the state of the handlers is a \<open>PeersManager\<close>. Token verification (\<^verbatim>\<open>golang-jwt\<close>) and the
  conversion of protobuf timestamps are arguments; the gRPC and HTTP servers are third-party. The outer option is a panic.
\<close>

section \<open>Authentication\<close>

text \<open>\<^verbatim>\<open>strings.Split\<close> at a one-character separator, and \<^verbatim>\<open>strings.EqualFold\<close> with a text of ASCII letters other than k
  and s (those two have equivalents outside ASCII).\<close>

fun splitAt :: "char \<Rightarrow> string \<Rightarrow> string list" where
  "splitAt sep [] = [[]]"
| "splitAt sep (c # s) =
     (if c = sep then [] # splitAt sep s
      else case splitAt sep s of [] \<Rightarrow> [[c]] | w # ws \<Rightarrow> (c # w) # ws)"

definition toLower :: "char \<Rightarrow> char" where
  "toLower c = (let k = of_char c :: nat in if 65 \<le> k \<and> k \<le> 90 then char_of (k + 32) else c)"

definition EqualFold :: "string \<Rightarrow> string \<Rightarrow> bool" where
  "EqualFold s t = (map toLower s = map toLower t)"

text \<open>The verifier: accepted methods, key and token give the names of the claims and whether the token is valid, or an error.\<close>

type_synonym jwt_parser = "string list \<Rightarrow> string \<Rightarrow> string \<Rightarrow> (string list \<times> bool) option"

definition jwtMethods :: "string list" where
  "jwtMethods = [''HS256'', ''HS384'', ''HS512'']"

datatype grpc_code = Unauthenticated | InvalidArgument | Internal | NotFound | Unknown

text \<open>The incoming metadata is absent or has the values of the key \<^verbatim>\<open>authorization\<close>.\<close>

definition UnaryAuthInterceptor ::
  "jwt_parser \<Rightarrow> string \<Rightarrow> string list option \<Rightarrow> ('s \<Rightarrow> ((grpc_code + 'a) \<times> 's) option) \<Rightarrow> 's \<Rightarrow> ((grpc_code + 'a) \<times> 's) option" where
  "UnaryAuthInterceptor jwt secret md handler s =
     (case md of
        None \<Rightarrow> Some (Inl Unauthenticated, s)
      | Some [] \<Rightarrow> Some (Inl Unauthenticated, s)
      | Some (authHeader # _) \<Rightarrow>
          let parts = splitAt (CHR '' '') authHeader in
          if length parts \<noteq> 2 \<or> \<not> EqualFold (parts ! 0) ''Bearer'' then Some (Inl Unauthenticated, s)
          else case jwt jwtMethods secret (parts ! 1) of
                 None \<Rightarrow> Some (Inl Unauthenticated, s)
               | Some (claims, valid) \<Rightarrow>
                   if \<not> valid then Some (Inl Unauthenticated, s)
                   else if ''exp'' \<notin> set claims then Some (Inl Unauthenticated, s)
                   else handler s)"

record http_response =
  hr_status :: nat
  hr_contentType :: string
  hr_body :: string

text \<open>\<^verbatim>\<open>%q\<close> of a text of printable ASCII characters without quotes and backslashes.\<close>

definition goQuote :: "string \<Rightarrow> string" where
  "goQuote s = char_of (34 :: nat) # s @ [char_of (34 :: nat)]"

definition respondWithError :: "nat \<Rightarrow> string \<Rightarrow> http_response" where
  "respondWithError code message =
     \<lparr>hr_status = code, hr_contentType = ''application/json'', hr_body = ''{'' @ goQuote ''error'' @ '':'' @ goQuote message @ ''}''\<rparr>"

text \<open>\<^verbatim>\<open>Header.Get\<close> gives the empty text when the header is missing.\<close>

definition HTTPAuthMiddleware ::
  "jwt_parser \<Rightarrow> string \<Rightarrow> ('s \<Rightarrow> http_response \<times> 's) \<Rightarrow> string \<Rightarrow> 's \<Rightarrow> http_response \<times> 's" where
  "HTTPAuthMiddleware jwt secret next authHeader s =
     (if authHeader = '''' then (respondWithError 401 ''missing authorization header'', s)
      else
        let parts = splitAt (CHR '' '') authHeader in
        if length parts \<noteq> 2 \<or> \<not> EqualFold (parts ! 0) ''Bearer''
        then (respondWithError 401 (''authorization header format must be '' @ char_of (39 :: nat) # ''Bearer <token>'' @ [char_of (39 :: nat)]), s)
        else case jwt jwtMethods secret (parts ! 1) of
               None \<Rightarrow> (respondWithError 401 ''invalid or expired token'', s)
             | Some (claims, valid) \<Rightarrow>
                 if \<not> valid then (respondWithError 401 ''invalid or expired token'', s)
                 else if ''exp'' \<notin> set claims then (respondWithError 401 ''token must have an expiration'', s)
                 else next s)"

section \<open>Firewall service\<close>

record pb_PortRule =
  pp_PeerId :: u64
  pp_TargetAddress :: "u32 option"
  pp_Protocol :: string
  pp_PortRangeStart :: u32
  pp_PortRangeEnd :: "u32 option"

definition set_fm :: "'r Firewallmanager \<Rightarrow> ('t, 'r) PeersManager \<Rightarrow> ('t, 'r) PeersManager" where
  "set_fm fm pm = pm\<lparr>pm_fm := fm\<rparr>"

definition domainRule :: "pb_PortRule \<Rightarrow> model_PortRule" where
  "domainRule req =
     \<lparr>mp_ID = 0, mp_TargetAddress = pp_TargetAddress req, mp_Protocol = pp_Protocol req,
      mp_PortRangeStart = ucast (pp_PortRangeStart req), mp_PortRangeEnd = map_option ucast (pp_PortRangeEnd req)\<rparr>"

definition api_AddRule ::
  "'r fw_port \<Rightarrow> (nat \<Rightarrow> bool) \<Rightarrow> pb_PortRule \<Rightarrow> ('t, 'r) PeersManager \<Rightarrow> ((grpc_code + u64) \<times> ('t, 'r) PeersManager) option" where
  "api_AddRule F io req pm =
     (case fm_AddRule F io (pp_PeerId req) (domainRule req) (pm_fm pm) of
        None \<Rightarrow> None
      | Some (Inl _, fm) \<Rightarrow> Some (Inl Internal, set_fm fm pm)
      | Some (Inr rule, fm) \<Rightarrow> Some (Inr (mp_ID rule), set_fm fm pm))"

definition api_ListPeerRules :: "(nat \<Rightarrow> bool) \<Rightarrow> u64 \<Rightarrow> ('t, 'r) PeersManager \<Rightarrow> grpc_code + pb_PortRule list" where
  "api_ListPeerRules io peerId pm =
     (case ListPeerRules io peerId (pm_fm pm) of
        Inl _ \<Rightarrow> Inl Unknown
      | Inr r \<Rightarrow> Inr (map (\<lambda>v. \<lparr>pp_PeerId = peerId, pp_TargetAddress = mp_TargetAddress v, pp_Protocol = mp_Protocol v,
                             pp_PortRangeStart = ucast (mp_PortRangeStart v), pp_PortRangeEnd = map_option ucast (mp_PortRangeEnd v)\<rparr>) r))"

definition api_RemoveRule ::
  "'r fw_port \<Rightarrow> (nat \<Rightarrow> bool) \<Rightarrow> u64 \<Rightarrow> ('t, 'r) PeersManager \<Rightarrow> ((grpc_code + unit) \<times> ('t, 'r) PeersManager) option" where
  "api_RemoveRule F io ruleId pm =
     (if ruleId = 0 then Some (Inl InvalidArgument, pm)
      else case fm_RemoveRule F io ruleId (pm_fm pm) of
             None \<Rightarrow> None
           | Some (Inl _, fm) \<Rightarrow> Some (Inl Internal, set_fm fm pm)
           | Some (Inr _, fm) \<Rightarrow> Some (Inr (), set_fm fm pm))"

definition api_RemoveAllPeerRules ::
  "'r fw_port \<Rightarrow> (nat \<Rightarrow> bool) \<Rightarrow> u64 \<Rightarrow> ('t, 'r) PeersManager \<Rightarrow> ((grpc_code + unit) \<times> ('t, 'r) PeersManager) option" where
  "api_RemoveAllPeerRules F io peerId pm =
     (if peerId = 0 then Some (Inl InvalidArgument, pm)
      else case RemoveAllPeerRules F io peerId (pm_fm pm) of
             None \<Rightarrow> None
           | Some (Inl _, fm) \<Rightarrow> Some (Inl Internal, set_fm fm pm)
           | Some (Inr _, fm) \<Rightarrow> Some (Inr (), set_fm fm pm))"

section \<open>Peer service\<close>

text \<open>\<open>tsNew\<close> is \<^verbatim>\<open>timestamppb.New\<close>, \<open>asTime\<close> the method \<^verbatim>\<open>AsTime\<close>, which also accepts nil.\<close>

record 'ts CreatePeerAutoIDRequest =
  cr_Type :: string
  cr_ExpirationDate :: "'ts option"
  cr_TrafficLimitGb :: "rat option"
  cr_SpeedLimitMbps :: "rat option"

record CreatePeerResponse =
  cpr_Id :: u64
  cpr_VirtualIp :: u32
  cpr_AwgPrivateKey :: string
  cpr_AwgPublicKey :: string

record 'ts pb_Peer =
  pb_ID :: u64
  pb_Type :: string
  pb_VirtualIp :: u32
  pb_LastSeen :: 'ts
  pb_ExpirationDate :: "'ts option"
  pb_FromPeerTotal :: u64
  pb_ToPeerTotal :: u64
  pb_AwgPrivateKey :: string
  pb_AwgPublicKey :: string
  pb_TrafficLimitGb :: "rat option"
  pb_SpeedLimitMbps :: "rat option"

text \<open>The zero value of \<^verbatim>\<open>time.Time\<close>, the first instant of the year 1.\<close>

definition zeroTime :: gotime where
  "zeroTime = - 62135596800 * second"

definition domainPeer :: "('ts option \<Rightarrow> gotime) \<Rightarrow> 'ts CreatePeerAutoIDRequest \<Rightarrow> model_Peer" where
  "domainPeer asTime req =
     \<lparr>me_ID = 0, me_Type = cr_Type req, me_VirtualIP = 0, me_LastSeen = zeroTime,
      me_ExpirationDate = (case cr_ExpirationDate req of None \<Rightarrow> None | Some ts \<Rightarrow> Some (asTime (Some ts))),
      me_FromPeerTotal = 0, me_ToPeerTotal = 0, me_TrafficLimitGb = cr_TrafficLimitGb req, me_SpeedLimitMbps = cr_SpeedLimitMbps req,
      me_AwgPrivateKey = '''', me_AwgPublicKey = ''''\<rparr>"

definition api_CreatePeerAutoID ::
  "('ts option \<Rightarrow> gotime) \<Rightarrow> ('t, 'r) transport_port \<Rightarrow> (nat \<Rightarrow> bool) \<Rightarrow> gotime \<Rightarrow> bytes option \<Rightarrow> 'ts CreatePeerAutoIDRequest \<Rightarrow>
   ('t, 'r) PeersManager \<Rightarrow> ((grpc_code + CreatePeerResponse) \<times> ('t, 'r) PeersManager) option" where
  "api_CreatePeerAutoID asTime T io now rnd req pm =
     (case CreatePeerAutoID T io now rnd (domainPeer asTime req) pm of
        None \<Rightarrow> None
      | Some (Inl _, _, pm') \<Rightarrow> Some (Inl Internal, pm')
      | Some (Inr _, peer, pm') \<Rightarrow>
          Some (Inr \<lparr>cpr_Id = me_ID peer, cpr_VirtualIp = me_VirtualIP peer, cpr_AwgPrivateKey = me_AwgPrivateKey peer,
                     cpr_AwgPublicKey = me_AwgPublicKey peer\<rparr>, pm'))"

definition convertToPbPeer :: "(gotime \<Rightarrow> 'ts) \<Rightarrow> model_Peer \<Rightarrow> 'ts pb_Peer" where
  "convertToPbPeer tsNew p =
     \<lparr>pb_ID = me_ID p, pb_Type = me_Type p, pb_VirtualIp = me_VirtualIP p, pb_LastSeen = tsNew (me_LastSeen p),
      pb_ExpirationDate = map_option tsNew (me_ExpirationDate p), pb_FromPeerTotal = me_FromPeerTotal p, pb_ToPeerTotal = me_ToPeerTotal p,
      pb_AwgPrivateKey = me_AwgPrivateKey p, pb_AwgPublicKey = me_AwgPublicKey p, pb_TrafficLimitGb = me_TrafficLimitGb p,
      pb_SpeedLimitMbps = me_SpeedLimitMbps p\<rparr>"

definition api_GetPeer :: "(gotime \<Rightarrow> 'ts) \<Rightarrow> (nat \<Rightarrow> bool) \<Rightarrow> u64 \<Rightarrow> ('t, 'r) PeersManager \<Rightarrow> grpc_code + 'ts pb_Peer" where
  "api_GetPeer tsNew io i pm =
     (if i = 0 then Inl InvalidArgument
      else case pm_GetPeerByID io i pm of Inl _ \<Rightarrow> Inl NotFound | Inr peer \<Rightarrow> Inr (convertToPbPeer tsNew peer))"

definition api_ListPeers :: "(gotime \<Rightarrow> 'ts) \<Rightarrow> (nat \<Rightarrow> bool) \<Rightarrow> ('t, 'r) PeersManager \<Rightarrow> grpc_code + 'ts pb_Peer list" where
  "api_ListPeers tsNew io pm =
     (case pm_ListPeers io pm of Inl _ \<Rightarrow> Inl Internal | Inr peers \<Rightarrow> Inr (map (convertToPbPeer tsNew) peers))"

definition api_DeletePeer ::
  "('t, 'r) transport_port \<Rightarrow> 'r fw_port \<Rightarrow> (nat \<Rightarrow> bool) \<Rightarrow> u64 \<Rightarrow> ('t, 'r) PeersManager \<Rightarrow> ((grpc_code + unit) \<times> ('t, 'r) PeersManager) option" where
  "api_DeletePeer T F io i pm =
     (if i = 0 then Some (Inl InvalidArgument, pm)
      else case DeletePeer T F io i pm of
             None \<Rightarrow> None
           | Some (Inl _, pm') \<Rightarrow> Some (Inl Internal, pm')
           | Some (Inr _, pm') \<Rightarrow> Some (Inr (), pm'))"

definition api_ProlongPeer ::
  "('ts option \<Rightarrow> gotime) \<Rightarrow> (nat \<Rightarrow> bool) \<Rightarrow> u64 \<Rightarrow> 'ts option \<Rightarrow> ('t, 'r) PeersManager \<Rightarrow> (grpc_code + unit) \<times> ('t, 'r) PeersManager" where
  "api_ProlongPeer asTime io i newDate pm =
     (case pm_ProlongPeer io i (asTime newDate) pm of
        (Inl _, pm') \<Rightarrow> (Inl Unknown, pm')
      | (Inr _, pm') \<Rightarrow> (Inr (), pm'))"

definition api_GenerateClientKey ::
  "('t, 'r) transport_port \<Rightarrow> (nat \<Rightarrow> bool) \<Rightarrow> u64 \<Rightarrow> string \<Rightarrow> string \<Rightarrow> ('t, 'r) PeersManager \<Rightarrow> grpc_code + string" where
  "api_GenerateClientKey T io peerId addr name pm =
     (case GenerateClientKey T io peerId addr name pm of Inl _ \<Rightarrow> Inl Unknown | Inr key \<Rightarrow> Inr key)"

section \<open>Node, router and mesh services\<close>

text \<open>\<open>typ\<close> is the method \<^verbatim>\<open>Type\<close> of a transport.\<close>

record 't NodeHandler =
  nh_nodeID :: string
  nh_countryCode :: string
  nh_transports :: "(string, 't) safemapImpl"

definition Ping :: "'t NodeHandler \<Rightarrow> string \<times> string" where
  "Ping nh = (nh_nodeID nh, nh_countryCode nh)"

definition ListTransportTypes :: "('t \<Rightarrow> string) \<Rightarrow> 't NodeHandler \<Rightarrow> string list" where
  "ListTransportTypes typ nh = sm_Foreach (\<lambda>_ t types. types @ [typ t]) (nh_transports nh) []"

record pb_RouterStats =
  pb_TotalFromIface :: u64
  pb_TotalFromMesh :: u64
  pb_TotalFromPeers :: u64

definition api_GetStats :: "('l, 'n) Router \<Rightarrow> pb_RouterStats" where
  "api_GetStats r =
     (let stats = GetStats r
      in \<lparr>pb_TotalFromIface = st_TotalFromIface stats, pb_TotalFromMesh = st_TotalFromMesh stats, pb_TotalFromPeers = st_TotalFromPeers stats\<rparr>)"

record ConnectedNodeInfo =
  ni_Id :: string
  ni_Address :: string
  ni_TotalRecv :: u64
  ni_TotalSent :: u64

definition ListConnectedNodes :: "ConnectivityState list \<Rightarrow> ConnectedNodeInfo list" where
  "ListConnectedNodes stats =
     map (\<lambda>v. \<lparr>ni_Id = cs_Id v, ni_Address = cs_Addr v, ni_TotalRecv = cs_TotalRecv v, ni_TotalSent = cs_TotalSent v\<rparr>) stats"

section \<open>The HTTP handlers\<close>

definition methodNotAllowed :: http_response where
  "methodNotAllowed = \<lparr>hr_status = 405, hr_contentType = ''text/plain; charset=utf-8'', hr_body = ''Method not allowed'' @ [char_of (10 :: nat)]\<rparr>"

text \<open>\<^verbatim>\<open>json.Encoder\<close> ends its output with a newline. Fields of a struct that share one tag annihilate each other.\<close>

definition jsonStruct :: "(string \<times> string) list \<Rightarrow> string" where
  "jsonStruct fs = jsonObject (filter (\<lambda>f. count_list (map fst fs) (fst f) = 1) fs)"

definition encodeConnectivity :: "ConnectivityState \<Rightarrow> string" where
  "encodeConnectivity c = jsonStruct [(''id'', jsonString (cs_Id c)), (''addr'', jsonString (cs_Addr c)),
     (''total_sent'', show_word (cs_TotalSent c)), (''total_recv'', show_word (cs_TotalRecv c))]"

definition encodeStats :: "RouterStats \<Rightarrow> string" where
  "encodeStats st = jsonStruct [(''from_iface'', show_word (st_TotalFromIface st)), (''from_iface'', show_word (st_TotalFromMesh st)),
     (''from_iface'', show_word (st_TotalFromPeers st))]"

text \<open>A nil slice is encoded as null: \<^verbatim>\<open>GetConnectivity\<close> makes its slice, so an empty one is a pair of brackets.\<close>

definition handleConnectivity :: "string \<Rightarrow> ConnectivityState list \<Rightarrow> http_response" where
  "handleConnectivity verb connectivity =
     (if verb \<noteq> ''GET'' then methodNotAllowed
      else \<lparr>hr_status = 200, hr_contentType = ''application/json'',
            hr_body = jsonArray (map encodeConnectivity connectivity) @ [char_of (10 :: nat)]\<rparr>)"

definition handleStats :: "string \<Rightarrow> ('l, 'n) Router \<Rightarrow> http_response" where
  "handleStats verb r =
     (if verb \<noteq> ''GET'' then methodNotAllowed
      else \<lparr>hr_status = 200, hr_contentType = ''application/json'', hr_body = encodeStats (GetStats r) @ [char_of (10 :: nat)]\<rparr>)"

section \<open>Who gets in\<close>

lemma splitAt_Cons:
  assumes "c \<noteq> sep" obtains w ws where "splitAt sep s = w # ws" "splitAt sep (c # s) = (c # w) # ws"
proof -
  have "splitAt sep s \<noteq> []" by (cases s) (simp_all split: list.split)
  then obtain w ws where "splitAt sep s = w # ws" by (cases "splitAt sep s") simp_all
  with assms that show thesis by simp
qed

lemma splitAt_nonempty [simp]: "splitAt sep s \<noteq> []"
  by (cases s) (simp_all split: list.split)

declare splitAt.simps(2) [simp del]

lemma splitAt_sep [simp]: "splitAt sep (sep # s) = [] # splitAt sep s"
  by (simp add: splitAt.simps)

lemma splitAt_one: "splitAt sep s = [a] \<longleftrightarrow> s = a \<and> sep \<notin> set a"
proof (induction s arbitrary: a)
  case (Cons c s)
  show ?case
  proof (cases "c = sep")
    case False
    then obtain w ws where "splitAt sep s = w # ws" "splitAt sep (c # s) = (c # w) # ws" by (rule splitAt_Cons)
    with False Cons.IH [of "tl a"] show ?thesis by (cases a) auto
  qed auto
qed auto

lemma splitAt_two: "splitAt sep s = [a, b] \<longleftrightarrow> s = a @ sep # b \<and> sep \<notin> set a \<and> sep \<notin> set b"
proof (induction s arbitrary: a)
  case (Cons c s)
  show ?case
  proof (cases "c = sep")
    case True
    then show ?thesis by (cases a) (auto simp: splitAt_one)
  next
    case False
    then obtain w ws where "splitAt sep s = w # ws" "splitAt sep (c # s) = (c # w) # ws" by (rule splitAt_Cons)
    with False Cons.IH [of "tl a"] show ?thesis by (cases a) auto
  qed
qed auto

text \<open>A header that is let in: a scheme that reads bearer in any case, one blank, a token that verifies under the secret with
  one of the three methods and has an expiration.\<close>

definition isBearer :: "string \<Rightarrow> bool" where
  "isBearer scheme \<longleftrightarrow> map toLower scheme = ''bearer''"

definition admits :: "jwt_parser \<Rightarrow> string \<Rightarrow> string \<Rightarrow> bool" where
  "admits jwt secret h \<longleftrightarrow>
     (\<exists>scheme tok claims. h = scheme @ CHR '' '' # tok \<and> CHR '' '' \<notin> set scheme \<and> CHR '' '' \<notin> set tok \<and> isBearer scheme \<and>
        jwt jwtMethods secret tok = Some (claims, True) \<and> ''exp'' \<in> set claims)"

lemma EqualFold_Bearer: "EqualFold a ''Bearer'' \<longleftrightarrow> isBearer a"
  by (simp add: EqualFold_def isBearer_def toLower_def char_of_def bit_0)

lemma admits_iff:
  "admits jwt secret h \<longleftrightarrow>
     (let parts = splitAt (CHR '' '') h in length parts = 2 \<and> isBearer (parts ! 0) \<and>
        (\<exists>claims. jwt jwtMethods secret (parts ! 1) = Some (claims, True) \<and> ''exp'' \<in> set claims))"
proof -
  have "(\<exists>scheme tok. ps = [scheme, tok] \<and> P scheme tok) \<longleftrightarrow> length ps = 2 \<and> P (ps ! 0) (ps ! 1)" for ps :: "string list" and P
    by (auto simp: numeral_2_eq_2 length_Suc_conv)
  from this [of "splitAt (CHR '' '') h" "\<lambda>scheme tok. isBearer scheme \<and> (\<exists>claims. jwt jwtMethods secret tok = Some (claims, True) \<and> ''exp'' \<in> set claims)"]
  show ?thesis unfolding splitAt_two admits_def Let_def by (simp only: ex_simps conj_assoc)
qed

text \<open>C16: the control plane is closed without a token. A gRPC call reaches its handler exactly when the first authorization value is
  a bearer token that verifies under the node's secret (with one of the three HMAC methods) and carries an expiration; any other call
  is answered Unauthenticated and changes nothing. The HTTP middleware decides by the same condition and answers 401.\<close>

theorem auth_gate:
  "UnaryAuthInterceptor jwt secret md handler s =
     (if \<exists>h hs. md = Some (h # hs) \<and> admits jwt secret h then handler s else Some (Inl Unauthenticated, s)) \<and>
   (\<exists>msg. HTTPAuthMiddleware jwt secret next h s = (if admits jwt secret h then next s else (respondWithError 401 msg, s)))"
proof
  show "UnaryAuthInterceptor jwt secret md handler s =
     (if \<exists>h hs. md = Some (h # hs) \<and> admits jwt secret h then handler s else Some (Inl Unauthenticated, s))"
    by (auto simp: UnaryAuthInterceptor_def admits_iff EqualFold_Bearer Let_def split: option.splits list.splits)
  show "\<exists>msg. HTTPAuthMiddleware jwt secret next h s = (if admits jwt secret h then next s else (respondWithError 401 msg, s))"
    by (auto simp: HTTPAuthMiddleware_def admits_iff EqualFold_Bearer Let_def split: option.splits)
qed

section \<open>What the services promise\<close>

text \<open>A request as the rule that is stored for it: port numbers are cut to sixteen bits.\<close>

definition storedRule :: "pb_PortRule \<Rightarrow> pb_PortRule" where
  "storedRule req = req\<lparr>pp_PortRangeStart := take_bit 16 (pp_PortRangeStart req), pp_PortRangeEnd := map_option (take_bit 16) (pp_PortRangeEnd req)\<rparr>"

lemma ucast_u16_u32: "ucast (ucast (x :: u32) :: u16) = (take_bit 16 x :: u32)"
  by (simp add: unsigned_ucast_eq)

lemma api_AddRule_row:
  assumes "api_AddRule F io req pm = Some (Inr i, pm')"
  obtains row where "i = of_int (pru_ID row)" "pru_PeerID row = sint (pp_PeerId req)" "pru_TargetIp row = pp_TargetAddress req"
    "pru_Protocol row = pp_Protocol req" "pru_PortRangeStart row = uint (ucast (pp_PortRangeStart req) :: u16)"
    "pru_PortRangeEnd row = map_option ucast (pp_PortRangeEnd req)" "row \<in> set (db_rules (pm_db pm'))"
proof -
  obtain rule fm where a: "fm_AddRule F io (pp_PeerId req) (domainRule req) (pm_fm pm) = Some (Inr rule, fm)" "i = mp_ID rule" "pm' = set_fm fm pm"
    using assms by (auto simp: api_AddRule_def split: option.splits sum.splits)
  let ?row = "\<lparr>pru_ID = db_ruleSeq (pm_db pm) + 1, pru_PeerID = sint (pp_PeerId req), pru_TargetIp = pp_TargetAddress req, pru_Protocol = pp_Protocol req,
    pru_PortRangeStart = uint (ucast (pp_PortRangeStart req) :: u16), pru_PortRangeEnd = map_option ucast (pp_PortRangeEnd req)\<rparr>"
  from a(1) have "mp_ID rule = of_int (pru_ID ?row)" "db_rules (fm_db fm) = db_rules (pm_db pm) @ [?row]"
    by (auto simp: fm_AddRule_def sql_InsertPeerRule_def domainRule_def Let_def split: if_splits sum.splits prod.splits)
  with a(2,3) show thesis by (intro that [of ?row]) (simp_all add: set_fm_def)
qed

text \<open>A rule the firewall manager accepts is in force, at the address its peer has in the database.\<close>

lemma fm_AddRule_in_force:
  assumes "fm_good (own_inv U me) me fm" and "db_ruleSeq (fm_db fm) + 1 < 2 ^ 48" and "opens_within (own_view me (fm_firewall fm)) (db_view me (fm_db fm))"
    and "fm_AddRule router_port io peerID rule fm = Some (Inr m, fm')"
  shows "\<exists>p \<in> set (db_peers (fm_db fm)). rp_ID p = sint peerID \<and> own_view me (fm_firewall fm') (mp_ID m) =
    Some \<lparr>pr_index = ownIndex me (mp_ID m), pr_Address = of_int (rp_VirtualIp p), pr_TargetAddress = mp_TargetAddress rule,
      pr_Protocol = mp_Protocol rule, pr_PortRangeStart = mp_PortRangeStart rule, pr_PortRangeEnd = mp_PortRangeEnd rule\<rparr>"
proof -
  from assms(1) have g: "own_inv U me (fm_firewall fm)" "db_fits (fm_db fm)" "fm_nodeID fm = me" by (simp_all add: fm_good_def)
  let ?arg = "\<lparr>ir_PeerID = sint peerID, ir_TargetIp = mp_TargetAddress rule, ir_Protocol = mp_Protocol rule,
      ir_PortRangeStart = uint (mp_PortRangeStart rule), ir_PortRangeEnd = mp_PortRangeEnd rule\<rparr>"
  let ?rule = "\<lambda>p. \<lparr>pr_index = \<lparr>pri_NodeID = '''', pri_RuleID = 0\<rparr>, pr_Address = of_int (rp_VirtualIp p), pr_TargetAddress = mp_TargetAddress rule,
      pr_Protocol = mp_Protocol rule, pr_PortRangeStart = mp_PortRangeStart rule, pr_PortRangeEnd = mp_PortRangeEnd rule\<rparr>"
  from assms(4) g(3) obtain i db p ok r' where a: "sql_InsertPeerRule ?arg (fm_db fm) = (Inr i, db)" "sql_GetPeerByID (sint peerID) db = Inr p"
    "fp_AddRule router_port (ownIndex me (of_int i)) (?rule p) (fm_firewall fm) = Some (ok, r')" "mp_ID m = of_int i" "fm_firewall fm' = r'"
    by (auto simp: fm_AddRule_def Let_def split: if_splits sum.splits prod.splits)
  note d = db_view_Insert(1-4) [OF g(2) assms(2) a(1)] and none = db_view_Insert(5) [OF g(2) assms(2) a(1), of me]
  have n: "of_int i < (2 ^ 48 :: u64)" by (rule rule_number(2) [OF d(2,3)])
  have "own_view me (fm_firewall fm) (of_int i) = None" using assms(3) n none by (fastforce simp: opens_within_def)
  with router_own.add_law [OF g(1) n, of "?rule p"] a(3) n have "own_view me r' (of_int i) = Some ((?rule p)\<lparr>pr_index := ownIndex me (of_int i)\<rparr>)" by auto
  moreover have "p \<in> set (db_peers (fm_db fm))" "rp_ID p = sint peerID"
    using a(2) GetPeerByID_iff [of db "sint peerID" p] d(1,4) by (simp_all add: db_fits_def)
  ultimately show ?thesis using a(4,5) by (intro bexI [of _ p]) simp_all
qed

text \<open>C18: a rule that was added is stored, in force and listed, with its ports cut to sixteen bits (a request for port 65616 succeeds and
  opens port 80). When the firewall opens nothing the database does not have and the new rule number is below 2^48, a
  successful \<^verbatim>\<open>AddRule\<close> with identifier i leaves a row of the peer with the rule's target, protocol and cut range; the
  firewall has that rule under i for the address of the peer; and the rules listed for the peer contain it.\<close>

theorem added_rule_is_stored_and_in_force:
  assumes "fm_good (own_inv U me) me (pm_fm pm)" and "db_ruleSeq (pm_db pm) + 1 < 2 ^ 48"
    and "opens_within (own_view me (pm_router pm)) (db_view me (pm_db pm))"
    and "api_AddRule router_port io req pm = Some (Inr i, pm')" and "io' 0"
  shows "(\<exists>row \<in> set (db_rules (pm_db pm')). i = of_int (pru_ID row) \<and> pru_PeerID row = sint (pp_PeerId req) \<and> pru_TargetIp row = pp_TargetAddress req \<and>
      pru_Protocol row = pp_Protocol req \<and> pru_PortRangeStart row = uint (ucast (pp_PortRangeStart req) :: u16) \<and>
      pru_PortRangeEnd row = map_option ucast (pp_PortRangeEnd req)) \<and>
    (\<exists>p \<in> set (db_peers (pm_db pm)). rp_ID p = sint (pp_PeerId req) \<and> own_view me (pm_router pm') i =
      Some \<lparr>pr_index = ownIndex me i, pr_Address = of_int (rp_VirtualIp p), pr_TargetAddress = pp_TargetAddress req,
        pr_Protocol = pp_Protocol req, pr_PortRangeStart = ucast (pp_PortRangeStart req), pr_PortRangeEnd = map_option ucast (pp_PortRangeEnd req)\<rparr>) \<and>
    (\<exists>rules. api_ListPeerRules io' (pp_PeerId req) pm' = Inr rules \<and> storedRule req \<in> set rules)"
proof (rule api_AddRule_row [OF assms(4)])
  fix row
  assume row: "i = of_int (pru_ID row)" "pru_PeerID row = sint (pp_PeerId req)" "pru_TargetIp row = pp_TargetAddress req" "pru_Protocol row = pp_Protocol req"
    "pru_PortRangeStart row = uint (ucast (pp_PortRangeStart req) :: u16)" "pru_PortRangeEnd row = map_option ucast (pp_PortRangeEnd req)"
    "row \<in> set (db_rules (pm_db pm'))"
  have "storedRule req = \<lparr>pp_PeerId = pp_PeerId req, pp_TargetAddress = pru_TargetIp row, pp_Protocol = pru_Protocol row,
      pp_PortRangeStart = ucast (of_int (pru_PortRangeStart row) :: u16), pp_PortRangeEnd = map_option ucast (pru_PortRangeEnd row)\<rparr>"
    by (simp add: storedRule_def row(3-6) ucast_u16_u32 option.map_comp comp_def)
  moreover have "row \<in> set (sql_LoadRulesByPeerID (sint (pp_PeerId req)) (pm_db pm'))"
    using row(2,7) by (simp add: sql_LoadRulesByPeerID_def)
  ultimately have listed: "\<exists>rules. api_ListPeerRules io' (pp_PeerId req) pm' = Inr rules \<and> storedRule req \<in> set rules"
    using assms(5) by (simp add: api_ListPeerRules_def ListPeerRules_def)
  from assms(4) obtain m fm where m: "fm_AddRule router_port io (pp_PeerId req) (domainRule req) (pm_fm pm) = Some (Inr m, fm)" "i = mp_ID m" "pm' = set_fm fm pm"
    by (auto simp: api_AddRule_def split: option.splits sum.splits)
  from fm_AddRule_in_force [OF assms(1-3) m(1)] m(2,3) have "\<exists>p \<in> set (db_peers (pm_db pm)). rp_ID p = sint (pp_PeerId req) \<and> own_view me (pm_router pm') i =
      Some \<lparr>pr_index = ownIndex me i, pr_Address = of_int (rp_VirtualIp p), pr_TargetAddress = pp_TargetAddress req,
        pr_Protocol = pp_Protocol req, pr_PortRangeStart = ucast (pp_PortRangeStart req), pr_PortRangeEnd = map_option ucast (pp_PortRangeEnd req)\<rparr>"
    by (simp add: domainRule_def set_fm_def)
  with row listed show ?thesis by blast
qed

text \<open>The router statistics never arrive over HTTP. Whatever the counters are, the answer to a GET is the empty object.\<close>

theorem http_stats_are_empty:
  "handleStats ''GET'' r = \<lparr>hr_status = 200, hr_contentType = ''application/json'', hr_body = ''{}'' @ [char_of (10 :: nat)]\<rparr>"
  by (simp add: handleStats_def encodeStats_def jsonStruct_def jsonObject_def)

text \<open>A manager with one client.\<close>

definition exOne :: "(string list AWGTransport, (nat, nat list) Router) PeersManager" where
  "exOne = set_db (snd (sql_CreatePeerAutoID 0 \<lparr>cp_Type = ''awg'', cp_MinVirtualIp = 0x0A000002, cp_ExpirationDate = None, cp_TrafficLimitGb = None,
     cp_SpeedLimitMbps = None, cp_AwgPrivateKey = '''', cp_AwgPublicKey = ''''\<rparr> (pm_db exPeers))) exPeers"

definition exRule :: pb_PortRule where
  "exRule = \<lparr>pp_PeerId = 1, pp_TargetAddress = None, pp_Protocol = ''tcp'', pp_PortRangeStart = 65616, pp_PortRangeEnd = None\<rparr>"

lemma exOne_db: "pm_db exOne = (db_empty False)\<lparr>db_peers := [\<lparr>rp_ID = 1, rp_Type = ''awg'', rp_VirtualIp = 0x0A000002, rp_LastSeen = 0, rp_ExpirationDate = None,
    rp_FromPeerTotal = 0, rp_ToPeerTotal = 0, rp_TrafficLimitGb = None, rp_SpeedLimitMbps = None, rp_AwgPrivateKey = '''', rp_AwgPublicKey = ''''\<rparr>], db_peerSeq := 1\<rparr>"
  by (simp add: exOne_def exPeers_def exManager_def db_empty_def sql_CreatePeerAutoID_def nextVirtualIp_def Let_def)

lemma exAdd: "\<exists>pm'. api_AddRule router_port (\<lambda>_. True) exRule exOne = Some (Inr 1, pm')"
proof -
  have r: "pm_router exOne = pm_router exPeers" "fm_nodeID (pm_fm exOne) = ''b''" using exPeers_good(3) by (simp_all add: exOne_def)
  obtain ok r' where "fp_AddRule router_port (ownIndex ''b'' 1)
      \<lparr>pr_index = \<lparr>pri_NodeID = '''', pri_RuleID = 0\<rparr>, pr_Address = 0x0A000002, pr_TargetAddress = None, pr_Protocol = ''tcp'',
       pr_PortRangeStart = 65616, pr_PortRangeEnd = None\<rparr> (pm_router exPeers) = Some (ok, r')"
    using router_own.add_law [OF exPeers_good(1), of 1] by fastforce
  then show ?thesis
    by (simp add: api_AddRule_def fm_AddRule_def exOne_db r exRule_def db_empty_def sql_InsertPeerRule_def domainRule_def sql_GetPeerByID_def)
qed

theorem added_rule_is_stored_and_in_force_witness:
  "\<exists>pm' rules rule. api_AddRule router_port (\<lambda>_. True) exRule exOne = Some (Inr 1, pm') \<and> api_ListPeerRules (\<lambda>_. True) 1 pm' = Inr rules \<and>
     exRule\<lparr>pp_PortRangeStart := 80\<rparr> \<in> set rules \<and> own_view ''b'' (pm_router pm') 1 = Some rule \<and> pr_Address rule = 0x0A000002 \<and> pr_PortRangeStart rule = 80"
proof -
  obtain pm' where a: "api_AddRule router_port (\<lambda>_. True) exRule exOne = Some (Inr 1, pm')" using exAdd by blast
  have e: "storedRule exRule = exRule\<lparr>pp_PortRangeStart := 80\<rparr>" "pp_PeerId exRule = 1" "pp_PortRangeStart exRule = 65616" by (simp_all add: storedRule_def exRule_def)
  have "db_ok (pm_db exOne)" by (simp add: exOne_db db_ok_def peers_ok_def rules_ok_def refs_ok_def db_empty_def)
  then have g: "fm_good (own_inv {''a'', ''b''} ''b'') ''b'' (pm_fm exOne)" "db_ruleSeq (pm_db exOne) + 1 < 2 ^ 48"
    "opens_within (own_view ''b'' (pm_router exOne)) (db_view ''b'' (pm_db exOne))"
    using exPeers_good(1,3,6) by (simp_all add: fm_good_def db_fits_def opens_within_def) (simp_all add: exOne_db db_empty_def, simp_all add: exOne_def)
  from added_rule_is_stored_and_in_force [OF g a, of "\<lambda>_. True"] obtain p rules where
    "p \<in> set (db_peers (pm_db exOne))" "own_view ''b'' (pm_router pm') 1 = Some \<lparr>pr_index = ownIndex ''b'' 1, pr_Address = of_int (rp_VirtualIp p),
        pr_TargetAddress = pp_TargetAddress exRule, pr_Protocol = pp_Protocol exRule, pr_PortRangeStart = ucast (pp_PortRangeStart exRule),
        pr_PortRangeEnd = map_option ucast (pp_PortRangeEnd exRule)\<rparr>"
    "api_ListPeerRules (\<lambda>_. True) 1 pm' = Inr rules" "exRule\<lparr>pp_PortRangeStart := 80\<rparr> \<in> set rules" unfolding e(1,2) by blast
  moreover from this(1) have "rp_VirtualIp p = 0x0A000002" by (simp add: exOne_db)
  ultimately show ?thesis using a e(3) by simp
qed

lemma row_id_kept:
  assumes "0 < i" and "i < 2 ^ 63" shows "sint (of_int i :: u64) = i \<and> (of_int i :: u64) \<noteq> 0"
proof -
  have "sint (of_int i :: u64) = i" using assms by (simp add: signed_of_int signed_take_bit_int_eq_self)
  with assms(1) show ?thesis by auto
qed

lemma inserted_row:
  assumes "sql_CreatePeerAutoID now arg db = (Inr row, db')" shows "row \<in> set (db_peers db')"
  using CreatePeerAutoID_succeeds [of now arg db] assms by auto

lemma created_row:
  assumes "CreatePeerAutoID T io now rnd peer pm = Some (Inr r, peer', pm')"
  obtains peer1 row where "tp_GeneratePeerKeys T rnd peer = Some peer1"
    "sql_CreatePeerAutoID now \<lparr>cp_Type = me_Type peer1, cp_MinVirtualIp = uint (pm_startingIP pm), cp_ExpirationDate = me_ExpirationDate peer1,
       cp_TrafficLimitGb = me_TrafficLimitGb peer1, cp_SpeedLimitMbps = me_SpeedLimitMbps peer1, cp_AwgPrivateKey = me_AwgPrivateKey peer1,
       cp_AwgPublicKey = me_AwgPublicKey peer1\<rparr> (pm_db pm) = (Inr row, pm_db pm')"
    "peer' = peer1\<lparr>me_ID := of_int (rp_ID row), me_VirtualIP := of_int (rp_VirtualIp row)\<rparr>"
  using assms by (auto simp: CreatePeerAutoID_def Let_def split: option.splits if_splits sum.splits prod.splits bool.splits)

text \<open>C17: a client that was created can be read back. After a successful \<^verbatim>\<open>CreatePeerAutoID\<close> the method \<^verbatim>\<open>GetPeer\<close> of the returned identifier
  gives a client with the requested type, limits and expiration, the address and the keys of the answer, no traffic, and the
  moment of its creation as the last time it was seen.\<close>

theorem created_peer_is_readable:
  assumes "api_CreatePeerAutoID asTime (awg_port D nl x v6 z u) io now rnd req pm = Some (Inr resp, pm')"
    and "db_ok (pm_db pm)" and "db_peerSeq (pm_db pm) < 2 ^ 63 - 1" and "io' 0"
  shows "api_GetPeer tsNew io' (cpr_Id resp) pm' = Inr
    \<lparr>pb_ID = cpr_Id resp, pb_Type = cr_Type req, pb_VirtualIp = cpr_VirtualIp resp, pb_LastSeen = tsNew now,
     pb_ExpirationDate = map_option (\<lambda>ts. tsNew (asTime (Some ts))) (cr_ExpirationDate req), pb_FromPeerTotal = 0, pb_ToPeerTotal = 0,
     pb_AwgPrivateKey = cpr_AwgPrivateKey resp, pb_AwgPublicKey = cpr_AwgPublicKey resp, pb_TrafficLimitGb = cr_TrafficLimitGb req,
     pb_SpeedLimitMbps = cr_SpeedLimitMbps req\<rparr>"
proof -
  obtain r peer where c: "CreatePeerAutoID (awg_port D nl x v6 z u) io now rnd (domainPeer asTime req) pm = Some (Inr r, peer, pm')"
    "resp = \<lparr>cpr_Id = me_ID peer, cpr_VirtualIp = me_VirtualIP peer, cpr_AwgPrivateKey = me_AwgPrivateKey peer, cpr_AwgPublicKey = me_AwgPublicKey peer\<rparr>"
    using assms(1) by (auto simp: api_CreatePeerAutoID_def split: option.splits sum.splits)
  from c(1) obtain peer1 row where k: "GeneratePeerKeys x rnd (domainPeer asTime req) = Some peer1" and
    ins: "sql_CreatePeerAutoID now \<lparr>cp_Type = me_Type peer1, cp_MinVirtualIp = uint (pm_startingIP pm), cp_ExpirationDate = me_ExpirationDate peer1,
       cp_TrafficLimitGb = me_TrafficLimitGb peer1, cp_SpeedLimitMbps = me_SpeedLimitMbps peer1, cp_AwgPrivateKey = me_AwgPrivateKey peer1,
       cp_AwgPublicKey = me_AwgPublicKey peer1\<rparr> (pm_db pm) = (Inr row, pm_db pm')" and
    peer: "peer = peer1\<lparr>me_ID := of_int (rp_ID row), me_VirtualIP := of_int (rp_VirtualIp row)\<rparr>"
    by (rule created_row) (simp only: awg_port_sel)
  have mem: "row \<in> set (db_peers (pm_db pm'))"  by (rule inserted_row [OF ins])
  from ins have row: "rp_ID row = db_peerSeq (pm_db pm) + 1" "rp_Type row = me_Type peer1" "rp_LastSeen row = now"
    "rp_ExpirationDate row = me_ExpirationDate peer1" "rp_FromPeerTotal row = 0" "rp_ToPeerTotal row = 0" "rp_TrafficLimitGb row = me_TrafficLimitGb peer1"
    "rp_SpeedLimitMbps row = me_SpeedLimitMbps peer1" "rp_AwgPrivateKey row = me_AwgPrivateKey peer1" "rp_AwgPublicKey row = me_AwgPublicKey peer1"
    by (auto simp: sql_CreatePeerAutoID_def Let_def split: if_splits)
  have p1: "me_Type peer1 = cr_Type req" "me_ExpirationDate peer1 = map_option (\<lambda>ts. asTime (Some ts)) (cr_ExpirationDate req)"
    "me_TrafficLimitGb peer1 = cr_TrafficLimitGb req" "me_SpeedLimitMbps peer1 = cr_SpeedLimitMbps req"
    using k by (auto simp: GeneratePeerKeys_def domainPeer_def split: option.splits)
  have seq: "0 \<le> db_peerSeq (pm_db pm)" using assms(2) by (auto simp: db_ok_def peers_ok_def)
  have id: "sint (of_int (rp_ID row) :: u64) = rp_ID row" "(of_int (rp_ID row) :: u64) \<noteq> 0"
    using row_id_kept [of "rp_ID row"] row(1) seq assms(3) by simp_all
  have "sql_GetPeerByID (rp_ID row) (pm_db pm') = Inr row" using db_ok_CreatePeer [OF assms(2) ins] mem GetPeerByID_iff by blast
  with id assms(4) show ?thesis
    by (simp add: api_GetPeer_def pm_GetPeerByID_def c(2) peer convertToPbPeer_def peerFromRow_def row(2-10) p1 option.map_comp comp_def)
qed

definition exRequest :: "nat CreatePeerAutoIDRequest" where
  "exRequest = \<lparr>cr_Type = ''awg'', cr_ExpirationDate = Some 100, cr_TrafficLimitGb = Some 1, cr_SpeedLimitMbps = None\<rparr>"

abbreviation exAsTime :: "nat option \<Rightarrow> gotime" where
  "exAsTime ts \<equiv> (case ts of None \<Rightarrow> 0 | Some n \<Rightarrow> int n)"

lemma exRequest_created:
  "\<exists>resp pm'. api_CreatePeerAutoID exAsTime exPort (\<lambda>_. True) 50 (Some (replicate 32 1)) exRequest exPeers = Some (Inr resp, pm')"
proof -
  let ?p = "(domainPeer exAsTime exRequest)\<lparr>me_AwgPrivateKey := hexEncode (clamp (replicate 32 1)), me_AwgPublicKey := hexEncode (replicate 32 9),
    me_ID := 1, me_VirtualIP := 0x0A000002\<rparr>"
  from exTransport_takes [of ?p] obtain s where "CreatePeer exDevice (\<lambda>_ _. 0) 50 ?p (exTransport, exRouter) = Some (None, s)" by blast
  then show ?thesis
    by (simp add: api_CreatePeerAutoID_def CreatePeerAutoID_def exPeers_def sm_From_def sm_Get_def gm_get_def exRequest_def domainPeer_def GeneratePeerKeys_def
        generateKeyPair_def exManager_def db_empty_def sql_CreatePeerAutoID_def nextVirtualIp_def Let_def)
qed

theorem created_peer_is_readable_witness:
  "\<exists>resp pm' peer. api_CreatePeerAutoID exAsTime exPort (\<lambda>_. True) 50 (Some (replicate 32 1)) exRequest exPeers = Some (Inr resp, pm') \<and>
     api_GetPeer id (\<lambda>_. True) (cpr_Id resp) pm' = Inr peer \<and> pb_Type peer = ''awg'' \<and> pb_ExpirationDate peer = Some 100 \<and> pb_LastSeen peer = 50"
proof -
  obtain resp pm' where c: "api_CreatePeerAutoID exAsTime exPort (\<lambda>_. True) 50 (Some (replicate 32 1)) exRequest exPeers = Some (Inr resp, pm')"
    using exRequest_created by blast
  have "db_ok (pm_db exPeers)" "db_peerSeq (pm_db exPeers) < 2 ^ 63 - 1"
    using exPeers_good(2) by (simp_all add: db_fits_def exPeers_def exManager_def db_empty_def)
  from created_peer_is_readable [OF c this, of "\<lambda>_. True" id] c show ?thesis by (simp add: exRequest_def)
qed

end
