(* ===== verification/TunIface.thy ===== *)
theory TunIface
  imports Router
begin

text \<open>
  \<^verbatim>\<open>pkg/iface/iface.go\<close>: the TUN interface of the node. Set-up and tear-down act on the host through
  \<^verbatim>\<open>netlink\<close>, \<^verbatim>\<open>go-iptables\<close> and \<^verbatim>\<open>wireguard/tun\<close>; the host is a type variable and the calls the code makes are the
  fields of a record, each with its outcome. The two packet loops are step relations: the reader with its
  goroutines, locks and flat buffer, and the writer with its batch. The \<^verbatim>\<open>flatBuffer\<close> is a function from
  positions to bytes; its slices are lists.
\<close>

section \<open>The host\<close>

text \<open>Of a kernel route the code reads the destination (nil for the default route) and the link.\<close>

record kroute =
  kr_Dst :: "IPNet option"
  kr_LinkIndex :: int

record 'k host_port =
  hp_RouteList :: "'k \<Rightarrow> kroute list option"
  hp_LinkByIndex :: "int \<Rightarrow> 'k \<Rightarrow> string option"
  hp_LinkByName :: "string \<Rightarrow> 'k \<Rightarrow> nat option"
  hp_CreateTUN :: "string \<Rightarrow> int \<Rightarrow> 'k \<Rightarrow> bool \<times> 'k"
  hp_TunClose :: "'k \<Rightarrow> 'k"
  hp_AddrAdd :: "nat \<Rightarrow> IPNet \<Rightarrow> 'k \<Rightarrow> bool \<times> 'k"
  hp_LinkSetMTU :: "nat \<Rightarrow> int \<Rightarrow> 'k \<Rightarrow> bool \<times> 'k"
  hp_LinkSetUp :: "nat \<Rightarrow> 'k \<Rightarrow> bool \<times> 'k"
  hp_LinkDel :: "nat \<Rightarrow> 'k \<Rightarrow> bool \<times> 'k"
  hp_iptables :: "'k \<Rightarrow> bool"
  hp_Append :: "string \<Rightarrow> string \<Rightarrow> string list \<Rightarrow> 'k \<Rightarrow> bool \<times> 'k"
  hp_Delete :: "string \<Rightarrow> string \<Rightarrow> string list \<Rightarrow> 'k \<Rightarrow> bool \<times> 'k"

datatype iface_error = RoutesFailed | LinkFailed | NoDefaultRoute | CreateFailed | CIDRFailed | NoIface | AddrFailed
  | MTUFailed | UpFailed | IptablesFailed | MSSFailed | NATFailed | ForwardOutFailed | ForwardInFailed
  | NilNetwork \<comment> \<open>a nil dereference\<close>

definition IsUnspecified :: "netIP \<Rightarrow> bool" where
  "IsUnspecified ip = (To4 ip = [0, 0, 0, 0] \<or> ip = replicate 16 0)"

fun scanGateway :: "'k host_port \<Rightarrow> 'k \<Rightarrow> kroute list \<Rightarrow> iface_error + string" where
  "scanGateway H k [] = Inl NoDefaultRoute"
| "scanGateway H k (route # routes) =
     (if (case kr_Dst route of None \<Rightarrow> True | Some d \<Rightarrow> IsUnspecified (net_IP d)) then
        (if kr_LinkIndex route \<le> 0 then scanGateway H k routes
         else case hp_LinkByIndex H (kr_LinkIndex route) k of None \<Rightarrow> Inl LinkFailed | Some name \<Rightarrow> Inr name)
      else scanGateway H k routes)"

definition getDefaultGatewayInterface :: "'k host_port \<Rightarrow> 'k \<Rightarrow> iface_error + string" where
  "getDefaultGatewayInterface H k = (case hp_RouteList H k of None \<Rightarrow> Inl RoutesFailed | Some routes \<Rightarrow> scanGateway H k routes)"

fun scanDefault :: "'k host_port \<Rightarrow> 'k \<Rightarrow> kroute list \<Rightarrow> iface_error + string" where
  "scanDefault H k [] = Inl NoDefaultRoute"
| "scanDefault H k (r # routes) =
     (if (case kr_Dst r of None \<Rightarrow> True | Some d \<Rightarrow> net_IP d \<noteq> [] \<and> IsUnspecified (net_IP d)) \<and> 0 < kr_LinkIndex r
      then case hp_LinkByIndex H (kr_LinkIndex r) k of None \<Rightarrow> Inl LinkFailed | Some name \<Rightarrow> Inr name
      else scanDefault H k routes)"

definition getDefaultInterface :: "'k host_port \<Rightarrow> 'k \<Rightarrow> iface_error + string" where
  "getDefaultInterface H k = (case hp_RouteList H k of None \<Rightarrow> Inl RoutesFailed | Some routes \<Rightarrow> scanDefault H k routes)"

section \<open>Set-up and tear-down\<close>

record TUNConfig =
  tn_IfaceInName :: string
  tn_IfaceOutName :: string
  tn_MTU :: int

record TUNIface =
  eg_cfg :: TUNConfig
  eg_ifce :: bool \<comment> \<open>the device was created\<close>
  eg_ipNet :: "IPNet option"
  eg_ipt :: bool \<comment> \<open>\<^verbatim>\<open>eg.ipt != nil\<close>\<close>
  eg_closed :: bool \<comment> \<open>\<^verbatim>\<open>closeOnce\<close> has run\<close>

text \<open>The rule specifications as they are passed to \<^verbatim>\<open>iptables\<close>.\<close>

definition mssRule :: "string list" where
  "mssRule = [''-p'', ''tcp'', ''--tcp-flags'', ''SYN,RST'', ''SYN'', ''-j'', ''TCPMSS'', ''--clamp-mss-to-pmtu'']"

definition natRule :: "string \<Rightarrow> string \<Rightarrow> string list" where
  "natRule tunNet out = [''-s'', tunNet, ''-o'', out, ''-j'', ''MASQUERADE'']"

definition forwardOut :: "string \<Rightarrow> string \<Rightarrow> string list" where
  "forwardOut inn out = [''-i'', inn, ''-o'', out, ''-j'', ''ACCEPT'']"

definition forwardIn :: "string \<Rightarrow> string \<Rightarrow> string list" where
  "forwardIn inn out = [''-i'', out, ''-o'', inn, ''-m'', ''conntrack'', ''--ctstate'', ''RELATED,ESTABLISHED'', ''-j'', ''ACCEPT'']"

definition closeForward :: "string \<Rightarrow> string list list" where
  "closeForward inn = [[''-i'', inn, ''-j'', ''ACCEPT''], [''-o'', inn, ''-j'', ''ACCEPT'']]"

text \<open>\<^verbatim>\<open>IPNet.String\<close>: the address, a slash, and the length of the mask when it is a prefix mask (those of
  \<^verbatim>\<open>ParseCIDR\<close> always are). The text of an IPv6 address is an argument.\<close>

definition maskLength :: "bytes \<Rightarrow> nat" where
  "maskLength m = sum_list (map (\<lambda>b. length (filter (bit b) [0..<8])) m)"

definition IPNetString :: "(netIP \<Rightarrow> string) \<Rightarrow> IPNet \<Rightarrow> string" where
  "IPNetString v6text n =
     (if To4 (net_IP n) \<noteq> [] then dotted (To4 (net_IP n)) else v6text (net_IP n)) @ CHR ''/'' # show_nat (maskLength (net_Mask n))"

definition setupNAT :: "(netIP \<Rightarrow> string) \<Rightarrow> 'k host_port \<Rightarrow> TUNIface \<Rightarrow> 'k \<Rightarrow> iface_error option \<times> TUNIface \<times> 'k" where
  "setupNAT v6text H eg k =
     (case (if tn_IfaceOutName (eg_cfg eg) = '''' then getDefaultInterface H k else Inr (tn_IfaceOutName (eg_cfg eg))) of
        Inl e \<Rightarrow> (Some e, eg, k)
      | Inr out \<Rightarrow>
          let eg = eg\<lparr>eg_cfg := (eg_cfg eg)\<lparr>tn_IfaceOutName := out\<rparr>\<rparr>;
              inn = tn_IfaceInName (eg_cfg eg)
          in case eg_ipNet eg of
               None \<Rightarrow> (Some NilNetwork, eg, k)
             | Some ipNet \<Rightarrow>
                 let tunNet = IPNetString v6text \<lparr>net_IP = ipMask (net_IP ipNet) (net_Mask ipNet), net_Mask = net_Mask ipNet\<rparr>;
                     (ok, k) = hp_Append H ''mangle'' ''FORWARD'' mssRule k
                 in if \<not> ok then (Some MSSFailed, eg, k)
                    else let (ok, k) = hp_Append H ''nat'' ''POSTROUTING'' (natRule tunNet out) k
                         in if \<not> ok then (Some NATFailed, eg, k)
                            else let (ok, k) = hp_Append H ''filter'' ''FORWARD'' (forwardOut inn out) k
                                 in if \<not> ok then (Some ForwardOutFailed, eg, k)
                                    else let (ok, k) = hp_Append H ''filter'' ''FORWARD'' (forwardIn inn out) k
                                         in if \<not> ok then (Some ForwardInFailed, eg, k) else (None, eg, k))"

datatype close_error = NATLeft | ForwardLeft "string list" | IfaceLeft | IfaceGone

definition deleteForward :: "'k host_port \<Rightarrow> string list \<Rightarrow> close_error list \<times> 'k \<Rightarrow> close_error list \<times> 'k" where
  "deleteForward H rule st =
     (let (ok, k) = hp_Delete H ''filter'' ''FORWARD'' rule (snd st) in (if ok then fst st else fst st @ [ForwardLeft rule], k))"

definition removeRules :: "(netIP \<Rightarrow> string) \<Rightarrow> 'k host_port \<Rightarrow> TUNIface \<Rightarrow> 'k \<Rightarrow> close_error list \<times> 'k" where
  "removeRules v6text H eg k =
     (case eg_ipNet eg of
        Some ipNet \<Rightarrow>
          if eg_ipt eg \<and> tn_IfaceOutName (eg_cfg eg) \<noteq> '''' then
            let (ok, k) = hp_Delete H ''nat'' ''POSTROUTING'' (natRule (IPNetString v6text ipNet) (tn_IfaceOutName (eg_cfg eg))) k
            in fold (deleteForward H) (closeForward (tn_IfaceInName (eg_cfg eg))) (if ok then [] else [NATLeft], k)
          else ([], k)
      | None \<Rightarrow> ([], k))"

definition iface_close :: "(netIP \<Rightarrow> string) \<Rightarrow> 'k host_port \<Rightarrow> TUNIface \<Rightarrow> 'k \<Rightarrow> close_error list \<times> 'k" where
  "iface_close v6text H eg k =
     (let k = (if eg_ifce eg then hp_TunClose H k else k);
          (errs, k) = removeRules v6text H eg k
      in if \<not> eg_ifce eg then (errs, k)
         else case hp_LinkByName H (tn_IfaceInName (eg_cfg eg)) k of
                None \<Rightarrow> (errs @ [IfaceGone], k)
              | Some link \<Rightarrow> let (ok, k) = hp_LinkDel H link k in (if ok then errs else errs @ [IfaceLeft], k))"

text \<open>The errors of \<^verbatim>\<open>Close\<close> (none: nil), the object, the host.\<close>

definition iface_Close :: "(netIP \<Rightarrow> string) \<Rightarrow> 'k host_port \<Rightarrow> TUNIface \<Rightarrow> 'k \<Rightarrow> close_error list \<times> TUNIface \<times> 'k" where
  "iface_Close v6text H eg k =
     (if eg_closed eg then ([], eg, k)
      else let (errs, k) = iface_close v6text H eg k in (errs, eg\<lparr>eg_closed := True\<rparr>, k))"

definition abandon :: "(netIP \<Rightarrow> string) \<Rightarrow> 'k host_port \<Rightarrow> iface_error \<Rightarrow> TUNIface \<Rightarrow> 'k \<Rightarrow> (iface_error + TUNIface) \<times> 'k" where
  "abandon v6text H e eg k = (let (_, _, k) = iface_Close v6text H eg k in (Inl e, k))"

definition NewTUN :: "(netIP \<Rightarrow> string) \<Rightarrow> 'k host_port \<Rightarrow> TUNConfig \<Rightarrow> string \<Rightarrow> 'k \<Rightarrow> (iface_error + TUNIface) \<times> 'k" where
  "NewTUN v6text H cfg ipCIDR k =
     (let eg = \<lparr>eg_cfg = cfg, eg_ifce = False, eg_ipNet = None, eg_ipt = False, eg_closed = False\<rparr> in
      case (if tn_IfaceOutName cfg = '''' then getDefaultGatewayInterface H k else Inr (tn_IfaceOutName cfg)) of
        Inl e \<Rightarrow> (Inl e, k)
      | Inr _ \<Rightarrow>
          let (ok, k) = hp_CreateTUN H (tn_IfaceInName cfg) (tn_MTU cfg) k in
          if \<not> ok then (Inl CreateFailed, k)
          else
            let eg = eg\<lparr>eg_ifce := True\<rparr> in
            case ParseCIDR ipCIDR of
              None \<Rightarrow> abandon v6text H CIDRFailed eg k
            | Some (ip, ipNet) \<Rightarrow>
                let ipn = \<lparr>net_IP = ip, net_Mask = net_Mask ipNet\<rparr>; eg = eg\<lparr>eg_ipNet := Some ipn\<rparr> in
                case hp_LinkByName H (tn_IfaceInName cfg) k of
                  None \<Rightarrow> abandon v6text H NoIface eg k
                | Some link \<Rightarrow>
                    let (ok, k) = hp_AddrAdd H link ipn k in
                    if \<not> ok then abandon v6text H AddrFailed eg k
                    else
                      let (ok, k) = (if 0 < tn_MTU cfg then hp_LinkSetMTU H link (tn_MTU cfg) k else (True, k)) in
                      if \<not> ok then abandon v6text H MTUFailed eg k
                      else
                        let (ok, k) = hp_LinkSetUp H link k in
                        if \<not> ok then abandon v6text H UpFailed eg k
                        else if \<not> hp_iptables H k then abandon v6text H IptablesFailed eg k
                        else
                          case setupNAT v6text H (eg\<lparr>eg_ipt := True\<rparr>) k of
                            (Some e, eg, k) \<Rightarrow> abandon v6text H e eg k
                          | (None, eg, k) \<Rightarrow> (Inr eg, k))"

section \<open>The reader\<close>

definition tun_iface_offset :: nat where
  "tun_iface_offset = 10"

definition ringSize :: nat where
  "ringSize = 3"

definition maxPacketLen :: nat where
  "maxPacketLen = 65535 + tun_iface_offset"

text \<open>Writing to and slicing the flat buffer.\<close>

type_synonym flat = "nat \<Rightarrow> u8"

definition poke :: "nat \<Rightarrow> bytes \<Rightarrow> flat \<Rightarrow> flat" where
  "poke a d buf = (\<lambda>j. if a \<le> j \<and> j < a + length d then d ! (j - a) else buf j)"

definition peek :: "nat \<Rightarrow> nat \<Rightarrow> flat \<Rightarrow> bytes" where
  "peek a b buf = map buf [a..<b]"

text \<open>
  The state of \<^verbatim>\<open>readLoop\<close> with the goroutines it has started. \<open>tr_read\<close> and \<open>tr_handed\<close> are ghosts: the packets the
  device has returned and the slices that were given to \<^verbatim>\<open>NewMessageCopyFrom\<close>. Between that call and
  \<^verbatim>\<open>HandleTunPacket\<close> a goroutine holds the message.
\<close>

datatype reader_pc = AtTop | Holding | Exited

record read_job =
  rj_idx :: nat
  rj_count :: nat
  rj_next :: nat
  rj_msg :: "nat option"

record ('l, 'n) tun_reader =
  tr_batch :: nat
  tr_locks :: "bool list"
  tr_sizes :: "nat list list"
  tr_buf :: flat
  tr_index :: nat \<comment> \<open>\<^verbatim>\<open>bufferIndex\<close>, which no statement changes\<close>
  tr_pc :: reader_pc
  tr_jobs :: "read_job list"
  tr_router :: "('l, 'n) Router"
  tr_read :: "bytes list"
  tr_handed :: "bytes list"

definition reader_start :: "nat \<Rightarrow> ('l, 'n) Router \<Rightarrow> ('l, 'n) tun_reader" where
  "reader_start batch r =
     \<lparr>tr_batch = batch, tr_locks = replicate ringSize False, tr_sizes = replicate ringSize (replicate batch 0),
      tr_buf = (\<lambda>_. 0), tr_index = 0, tr_pc = AtTop, tr_jobs = [], tr_router = r, tr_read = [], tr_handed = []\<rparr>"

definition slotStart :: "nat \<Rightarrow> nat \<Rightarrow> nat \<Rightarrow> nat" where
  "slotStart batch r i = r * batch * maxPacketLen + i * maxPacketLen"

definition takeLock :: "('l, 'n) tun_reader \<Rightarrow> ('l, 'n) tun_reader" where
  "takeLock rd = rd\<lparr>tr_locks := (tr_locks rd)[tr_index rd := True], tr_pc := Holding\<rparr>"

text \<open>The read failed or returned nothing.\<close>

definition releaseRead :: "('l, 'n) tun_reader \<Rightarrow> ('l, 'n) tun_reader" where
  "releaseRead rd = rd\<lparr>tr_locks := (tr_locks rd)[tr_index rd := False], tr_pc := AtTop\<rparr>"

text \<open>A successful \<^verbatim>\<open>Read\<close>: the device puts its packets into the projections of the current buffer, at the offset, and
  their lengths into the sizes; the goroutine is started.\<close>

fun pokeAll :: "nat \<Rightarrow> bytes list \<Rightarrow> flat \<Rightarrow> flat" where
  "pokeAll a [] buf = buf"
| "pokeAll a (p # ps) buf = pokeAll (a + maxPacketLen) ps (poke a p buf)"

definition startJob :: "bytes list \<Rightarrow> ('l, 'n) tun_reader \<Rightarrow> ('l, 'n) tun_reader" where
  "startJob ps rd =
     rd\<lparr>tr_buf := pokeAll (slotStart (tr_batch rd) (tr_index rd) 0 + tun_iface_offset) ps (tr_buf rd),
        tr_sizes := (tr_sizes rd)[tr_index rd := map length ps @ drop (length ps) (tr_sizes rd ! tr_index rd)],
        tr_jobs := tr_jobs rd @ [\<lparr>rj_idx = tr_index rd, rj_count = length ps, rj_next = 0, rj_msg = None\<rparr>],
        tr_pc := AtTop, tr_read := tr_read rd @ ps\<rparr>"

datatype 's slot_result = SlotOk 's | SlotWaits | SlotPanic

definition copySlot ::
  "nat option \<Rightarrow> read_job \<Rightarrow> ('l, 'n) tun_reader \<Rightarrow> (read_job \<times> ('l, 'n) tun_reader) slot_result" where
  "copySlot choice j rd =
     (case Option.bind (go_at (tr_sizes rd) (rj_idx j)) (\<lambda>sizes. go_at sizes (rj_next j)) of
        None \<Rightarrow> SlotPanic
      | Some sz \<Rightarrow>
          if sz \<le> 0 then SlotOk (j\<lparr>rj_next := Suc (rj_next j)\<rparr>, rd)
          else
            let flatStart = slotStart (tr_batch rd) (rj_idx j) (rj_next j) + tun_iface_offset;
                flatEnd = flatStart + sz
            in if ringSize * tr_batch rd * maxPacketLen < flatEnd then SlotPanic
               else
                 let d = peek flatStart flatEnd (tr_buf rd); rd1 = rd\<lparr>tr_handed := tr_handed rd @ [d]\<rparr> in
                 case router_NewMessageCopyFrom choice d (tr_router rd1) of
                   None \<Rightarrow> SlotPanic
                 | Some (Inl _, r) \<Rightarrow> SlotOk (j\<lparr>rj_next := Suc (rj_next j)\<rparr>, rd1\<lparr>tr_router := r\<rparr>)
                 | Some (Inr msg, r) \<Rightarrow> SlotOk (j\<lparr>rj_msg := Some msg\<rparr>, rd1\<lparr>tr_router := r\<rparr>))"

definition handSlot :: "read_job \<Rightarrow> ('l, 'n) tun_reader \<Rightarrow> (read_job \<times> ('l, 'n) tun_reader) slot_result" where
  "handSlot j rd =
     (case rj_msg j of
        None \<Rightarrow> SlotWaits
      | Some msg \<Rightarrow>
          (case HandleTunPacket msg (tr_router rd) of
             None \<Rightarrow> SlotWaits
           | Some r \<Rightarrow> SlotOk (j\<lparr>rj_msg := None, rj_next := Suc (rj_next j)\<rparr>, rd\<lparr>tr_router := r\<rparr>)))"

definition endJob :: "read_job \<Rightarrow> ('l, 'n) tun_reader \<Rightarrow> ('l, 'n) tun_reader" where
  "endJob j rd = rd\<lparr>tr_locks := (tr_locks rd)[rj_idx j := False]\<rparr>"

text \<open>
  Reader, goroutines and the rest of the node interleave. The device keeps to the contract of \<^verbatim>\<open>tun.Device.Read\<close>:
  at most as many packets as buffers, each no longer than its buffer. The rest of the node may do anything to the
  router that keeps its packet pool well-formed.
\<close>

inductive read_step :: "('l, 'n) tun_reader \<Rightarrow> ('l, 'n) tun_reader \<Rightarrow> bool" where
  rs_stop: "tr_pc rd = AtTop \<Longrightarrow> read_step rd (rd\<lparr>tr_pc := Exited\<rparr>)"
| rs_lock: "tr_pc rd = AtTop \<Longrightarrow> \<not> tr_locks rd ! tr_index rd \<Longrightarrow> read_step rd (takeLock rd)"
| rs_none: "tr_pc rd = Holding \<Longrightarrow> read_step rd (releaseRead rd)"
| rs_read: "tr_pc rd = Holding \<Longrightarrow> ps \<noteq> [] \<Longrightarrow> length ps \<le> tr_batch rd \<Longrightarrow> \<forall>p \<in> set ps. length p \<le> maxPacketLen - tun_iface_offset \<Longrightarrow>
    read_step rd (startJob ps rd)"
| rs_copy: "n < length (tr_jobs rd) \<Longrightarrow> rj_msg (tr_jobs rd ! n) = None \<Longrightarrow> rj_next (tr_jobs rd ! n) < rj_count (tr_jobs rd ! n) \<Longrightarrow>
    copySlot choice (tr_jobs rd ! n) rd = SlotOk (j', rd') \<Longrightarrow> read_step rd (rd'\<lparr>tr_jobs := (tr_jobs rd)[n := j']\<rparr>)"
| rs_hand: "n < length (tr_jobs rd) \<Longrightarrow> handSlot (tr_jobs rd ! n) rd = SlotOk (j', rd') \<Longrightarrow>
    read_step rd (rd'\<lparr>tr_jobs := (tr_jobs rd)[n := j']\<rparr>)"
| rs_done: "n < length (tr_jobs rd) \<Longrightarrow> rj_msg (tr_jobs rd ! n) = None \<Longrightarrow> rj_next (tr_jobs rd ! n) = rj_count (tr_jobs rd ! n) \<Longrightarrow>
    read_step rd ((endJob (tr_jobs rd ! n) rd)\<lparr>tr_jobs := take n (tr_jobs rd) @ drop (Suc n) (tr_jobs rd)\<rparr>)"
| rs_router: "pool_ok (packetsPool r) \<Longrightarrow> read_step rd (rd\<lparr>tr_router := r\<rparr>)"

section \<open>The writer\<close>

text \<open>
  \<^verbatim>\<open>writeLoop\<close> takes packets from the channel of the router into its batch. \<open>tw_calls\<close> records the buffers of each
  \<^verbatim>\<open>Write\<close>. Ghosts: \<open>tw_sent\<close>, the packets the router has put into the channel; \<open>tw_taken\<close>, the messages the loop has received;
  \<open>tw_freed\<close>, those it has given back to the pool, in \<open>freeMsg\<close> and nowhere else. A run-time panic is None.
\<close>

datatype writer_pc = AtSelect | Filling | Returned

record ('l, 'n) tun_writer =
  tw_batch :: nat
  tw_MTU :: int
  tw_buf :: flat
  tw_msgs :: "nat option list"
  tw_idx :: nat
  tw_pc :: writer_pc
  tw_router :: "('l, 'n) Router"
  tw_calls :: "bytes list list"
  tw_sent :: "bytes list"
  tw_taken :: "nat list"
  tw_freed :: "nat list"

definition writer_start :: "nat \<Rightarrow> int \<Rightarrow> ('l, 'n) Router \<Rightarrow> ('l, 'n) tun_writer" where
  "writer_start batch mtu r =
     \<lparr>tw_batch = batch, tw_MTU = mtu, tw_buf = (\<lambda>_. 0), tw_msgs = replicate batch None, tw_idx = 0, tw_pc = AtSelect,
      tw_router = r, tw_calls = [], tw_sent = [], tw_taken = [], tw_freed = []\<rparr>"

definition msgData :: "nat \<Rightarrow> dgMessagePoolImpl \<Rightarrow> bytes" where
  "msgData m p = slice_read (slice_of m p) p"

text \<open>The packet that was received is freed when it is empty or longer than the MTU, and put into the batch otherwise.\<close>

definition wrongSize :: "int \<Rightarrow> bytes \<Rightarrow> bool" where
  "wrongSize mtu d = (length d = 0 \<or> int (length d) > mtu)"

definition freeMsg :: "nat \<Rightarrow> ('l, 'n) tun_writer \<Rightarrow> ('l, 'n) tun_writer" where
  "freeMsg m w = w\<lparr>tw_router := freePacket m (tw_router w), tw_freed := tw_freed w @ [m]\<rparr>"

definition takeMsg :: "nat \<Rightarrow> ('l, 'n) tun_writer \<Rightarrow> ('l, 'n) tun_writer option" where
  "takeMsg m w =
     (let d = msgData m (packetsPool (tw_router w)) in
      if wrongSize (tw_MTU w) d then Some (freeMsg m w)
      else if \<not> tw_idx w < length (tw_msgs w) then None
      else Some (w\<lparr>tw_buf := poke (tw_idx w * maxPacketLen + tun_iface_offset) d (tw_buf w),
                   tw_msgs := (tw_msgs w)[tw_idx w := Some m], tw_idx := Suc (tw_idx w)\<rparr>))"

definition recvMsg :: "('l, 'n) tun_writer \<Rightarrow> (nat \<times> ('l, 'n) tun_writer) option" where
  "recvMsg w = map_option (\<lambda>(m, c). (m, w\<lparr>tw_router := (tw_router w)\<lparr>toIface := c\<rparr>, tw_taken := tw_taken w @ [m]\<rparr>)) (chan_recv (toIface (tw_router w)))"

definition sendBatch :: "('l, 'n) tun_writer \<Rightarrow> ('l, 'n) tun_writer option" where
  "sendBatch w =
     (if 0 < tw_idx w then
        map_option (\<lambda>ms.
          (fold freeMsg ms (w\<lparr>tw_calls := tw_calls w @ [map (\<lambda>i. peek (i * maxPacketLen) (i * maxPacketLen + tun_iface_offset +
                length (msgData (ms ! i) (packetsPool (tw_router w)))) (tw_buf w)) [0..<tw_idx w]]\<rparr>))
           \<lparr>tw_msgs := replicate (tw_idx w) None @ drop (tw_idx w) (tw_msgs w), tw_idx := 0\<rparr>)
          (those (take (tw_idx w) (tw_msgs w)))
      else Some w)"

text \<open>The deferred function: what is still in the batch is freed.\<close>

definition freeBatch :: "('l, 'n) tun_writer \<Rightarrow> ('l, 'n) tun_writer" where
  "freeBatch w = fold freeMsg (List.map_filter id (take (tw_idx w) (tw_msgs w))) w"

definition pendingMsgs :: "('l, 'n) tun_writer \<Rightarrow> nat list" where
  "pendingMsgs w = List.map_filter id (take (tw_idx w) (tw_msgs w)) @ ch_buf (toIface (tw_router w))"

text \<open>
  What the rest of the node may do meanwhile: put packets of its own into the channel, and change the pool as long as
  it stays well-formed and the packets on their way to the interface are neither freed nor changed.
\<close>

definition router_sends :: "nat list \<Rightarrow> ('l, 'n) Router \<Rightarrow> ('l, 'n) tun_writer \<Rightarrow> bool" where
  "router_sends ms r w \<longleftrightarrow>
     pool_ok (packetsPool r) \<and> pool_linear (packetsPool r) \<and> dp_maxSize (packetsPool r) = 65535 \<and>
     ch_buf (toIface r) = ch_buf (toIface (tw_router w)) @ ms \<and>
     distinct (pendingMsgs w @ ms) \<and> set (pendingMsgs w @ ms) \<inter> set (dp_free (packetsPool r)) = {} \<and>
     (\<forall>m \<in> set (pendingMsgs w). msgData m (packetsPool r) = msgData m (packetsPool (tw_router w)))"

inductive write_step :: "('l, 'n) tun_writer \<Rightarrow> ('l, 'n) tun_writer \<Rightarrow> bool" where
  ws_stop: "tw_pc w = AtSelect \<Longrightarrow> write_step w ((freeBatch w)\<lparr>tw_pc := Returned\<rparr>)"
| ws_first: "tw_pc w = AtSelect \<Longrightarrow> recvMsg w = Some (m, w1) \<Longrightarrow> takeMsg m w1 = Some w2 \<Longrightarrow>
    write_step w (w2\<lparr>tw_pc := (if tw_idx w2 = tw_idx w1 then AtSelect else Filling)\<rparr>)"
| ws_more: "tw_pc w = Filling \<Longrightarrow> tw_idx w < tw_batch w \<Longrightarrow> recvMsg w = Some (m, w1) \<Longrightarrow> takeMsg m w1 = Some w2 \<Longrightarrow> write_step w w2"
| ws_send: "tw_pc w = Filling \<Longrightarrow> tw_idx w = tw_batch w \<or> recvMsg w = None \<Longrightarrow> sendBatch w = Some w1 \<Longrightarrow>
    write_step w (w1\<lparr>tw_pc := AtSelect\<rparr>)"
| ws_router: "router_sends ms r w \<Longrightarrow>
    write_step w (w\<lparr>tw_router := r, tw_sent := tw_sent w @ map (\<lambda>m. msgData m (packetsPool r)) ms\<rparr>)"

section \<open>What set-up leaves on the host\<close>

text \<open>The two searches for the outbound interface are written differently and agree.\<close>

lemma scanDefault_eq: "scanDefault H k routes = scanGateway H k routes"
  by (induction routes) (auto simp: IsUnspecified_def To4_def split: option.splits)

lemma default_interface_agree: "getDefaultInterface H k = getDefaultGatewayInterface H k"
  by (simp add: getDefaultInterface_def getDefaultGatewayInterface_def scanDefault_eq split: option.splits)

text \<open>
  What \<^verbatim>\<open>iptables\<close> documents: \<^verbatim>\<open>-A\<close> puts a rule at the end of a chain, \<^verbatim>\<open>-D\<close> takes the first matching rule out and
  fails when there is none, a failed command changes nothing. \<open>meaning\<close> is the rule a specification stands for
  (addresses are masked), \<open>chain\<close> reads a chain of a table. The link operations do not touch the chains.
\<close>

definition iptables_laws :: "'k host_port \<Rightarrow> (string list \<Rightarrow> 'r) \<Rightarrow> (string \<times> string \<Rightarrow> 'k \<Rightarrow> 'r list) \<Rightarrow> bool" where
  "iptables_laws H meaning chain \<longleftrightarrow>
     (\<forall>t c r k k' ok. hp_Append H t c r k = (ok, k') \<longrightarrow>
        (\<forall>x. chain x k' = (if ok \<and> x = (t, c) then chain x k @ [meaning r] else chain x k))) \<and>
     (\<forall>t c r k k' ok. hp_Delete H t c r k = (ok, k') \<longrightarrow>
        (ok \<longrightarrow> meaning r \<in> set (chain (t, c) k)) \<and>
        (\<forall>x. chain x k' = (if ok \<and> x = (t, c) then remove1 (meaning r) (chain x k) else chain x k))) \<and>
     (\<forall>x k. chain x (hp_TunClose H k) = chain x k) \<and>
     (\<forall>x n m k. chain x (snd (hp_CreateTUN H n m k)) = chain x k) \<and>
     (\<forall>x l a k. chain x (snd (hp_AddrAdd H l a k)) = chain x k) \<and>
     (\<forall>x l m k. chain x (snd (hp_LinkSetMTU H l m k)) = chain x k) \<and>
     (\<forall>x l k. chain x (snd (hp_LinkSetUp H l k)) = chain x k) \<and>
     (\<forall>x l k. chain x (snd (hp_LinkDel H l k)) = chain x k)"

lemma iptables_lawsD:
  assumes "iptables_laws H meaning chain"
  shows "hp_Append H t c r k = (ok, k') \<Longrightarrow> chain x k' = (if ok \<and> x = (t, c) then chain x k @ [meaning r] else chain x k)"
    and "hp_Delete H t c r k = (ok, k') \<Longrightarrow> chain x k' = (if ok \<and> x = (t, c) then remove1 (meaning r) (chain x k) else chain x k)"
    and "hp_Delete H t c r k = (ok, k') \<Longrightarrow> meaning r \<notin> set (chain (t, c) k) \<Longrightarrow> \<not> ok"
    and "chain x (hp_TunClose H k) = chain x k"
    and "hp_CreateTUN H n m k = (ok, k') \<Longrightarrow> chain x k' = chain x k"
    and "hp_AddrAdd H l a k = (ok, k') \<Longrightarrow> chain x k' = chain x k"
    and "hp_LinkSetMTU H l m k = (ok, k') \<Longrightarrow> chain x k' = chain x k"
    and "hp_LinkSetUp H l k = (ok, k') \<Longrightarrow> chain x k' = chain x k"
    and "hp_LinkDel H l k = (ok, k') \<Longrightarrow> chain x k' = chain x k"
  using assms unfolding iptables_laws_def by (metis snd_conv)+

definition networkOf :: "IPNet \<Rightarrow> IPNet" where
  "networkOf n = \<lparr>net_IP = ipMask (net_IP n) (net_Mask n), net_Mask = net_Mask n\<rparr>"

text \<open>The rules the node owns, by chain.\<close>

definition nodeRules :: "(netIP \<Rightarrow> string) \<Rightarrow> IPNet \<Rightarrow> string \<Rightarrow> string \<Rightarrow> string \<times> string \<Rightarrow> string list list" where
  "nodeRules v6text ipNet inn out x =
     (if x = (''mangle'', ''FORWARD'') then [mssRule]
      else if x = (''nat'', ''POSTROUTING'') then [natRule (IPNetString v6text (networkOf ipNet)) out]
      else if x = (''filter'', ''FORWARD'') then [forwardOut inn out, forwardIn inn out] else [])"

lemma setupNAT_steps:
  assumes "setupNAT v6text H eg k = (None, eg', k')"
  obtains ipNet k1 k2 k3 where "eg_ipNet eg = Some ipNet"
    "eg_ipNet eg' = Some ipNet" "eg_ifce eg' = eg_ifce eg" "eg_ipt eg' = eg_ipt eg" "eg_closed eg' = eg_closed eg"
    "tn_IfaceInName (eg_cfg eg') = tn_IfaceInName (eg_cfg eg)"
    "hp_Append H ''mangle'' ''FORWARD'' mssRule k = (True, k1)"
    "hp_Append H ''nat'' ''POSTROUTING'' (natRule (IPNetString v6text (networkOf ipNet)) (tn_IfaceOutName (eg_cfg eg'))) k1 = (True, k2)"
    "hp_Append H ''filter'' ''FORWARD'' (forwardOut (tn_IfaceInName (eg_cfg eg)) (tn_IfaceOutName (eg_cfg eg'))) k2 = (True, k3)"
    "hp_Append H ''filter'' ''FORWARD'' (forwardIn (tn_IfaceInName (eg_cfg eg)) (tn_IfaceOutName (eg_cfg eg'))) k3 = (True, k')"
  using assms
  by (auto simp: setupNAT_def Let_def networkOf_def split: sum.splits option.splits prod.splits if_splits)

lemma setupNAT_chains:
  assumes laws: "iptables_laws H meaning chain" and ok: "setupNAT v6text H eg k = (None, eg', k')" and "eg_ipNet eg = Some ipNet"
  shows "chain x k' = chain x k @ map meaning (nodeRules v6text ipNet (tn_IfaceInName (eg_cfg eg)) (tn_IfaceOutName (eg_cfg eg')) x)"
  by (rule setupNAT_steps [OF ok]) (use assms(3) in \<open>simp add: nodeRules_def iptables_lawsD(1) [OF laws]\<close>)

text \<open>A successful \<^verbatim>\<open>NewTUN\<close> leaves an open object whose rules are at the end of their chains.\<close>

lemma NewTUN_steps:
  assumes "NewTUN v6text H cfg ipCIDR k = (Inr eg, k')"
  obtains ip ipNet link k1 k2 k3 k4 where "ParseCIDR ipCIDR = Some (ip, ipNet)" "hp_CreateTUN H (tn_IfaceInName cfg) (tn_MTU cfg) k = (True, k1)"
    "hp_AddrAdd H link \<lparr>net_IP = ip, net_Mask = net_Mask ipNet\<rparr> k1 = (True, k2)"
    "k3 = (if 0 < tn_MTU cfg then snd (hp_LinkSetMTU H link (tn_MTU cfg) k2) else k2)"
    "hp_LinkSetUp H link k3 = (True, k4)"
    "setupNAT v6text H \<lparr>eg_cfg = cfg, eg_ifce = True, eg_ipNet = Some \<lparr>net_IP = ip, net_Mask = net_Mask ipNet\<rparr>, eg_ipt = True, eg_closed = False\<rparr> k4 = (None, eg, k')"
  using assms
  by (auto simp: NewTUN_def Let_def abandon_def split: sum.splits option.splits prod.splits if_splits)

lemma NewTUN_ok:
  assumes laws: "iptables_laws H meaning chain" and new: "NewTUN v6text H cfg ipCIDR k = (Inr eg, k')"
  obtains ip ipNet where "ParseCIDR ipCIDR = Some (ip, ipNet)" "eg_ipNet eg = Some \<lparr>net_IP = ip, net_Mask = net_Mask ipNet\<rparr>"
    "eg_ifce eg" "eg_ipt eg" "\<not> eg_closed eg" "tn_IfaceInName (eg_cfg eg) = tn_IfaceInName cfg"
    "\<And>x. chain x k' = chain x k @ map meaning (nodeRules v6text \<lparr>net_IP = ip, net_Mask = net_Mask ipNet\<rparr>
        (tn_IfaceInName cfg) (tn_IfaceOutName (eg_cfg eg)) x)"
proof (rule NewTUN_steps [OF new])
  fix ip ipNet link k1 k2 k3 k4
  assume s: "ParseCIDR ipCIDR = Some (ip, ipNet)" "hp_CreateTUN H (tn_IfaceInName cfg) (tn_MTU cfg) k = (True, k1)"
    "hp_AddrAdd H link \<lparr>net_IP = ip, net_Mask = net_Mask ipNet\<rparr> k1 = (True, k2)"
    "k3 = (if 0 < tn_MTU cfg then snd (hp_LinkSetMTU H link (tn_MTU cfg) k2) else k2)"
    "hp_LinkSetUp H link k3 = (True, k4)"
    and nat: "setupNAT v6text H \<lparr>eg_cfg = cfg, eg_ifce = True, eg_ipNet = Some \<lparr>net_IP = ip, net_Mask = net_Mask ipNet\<rparr>, eg_ipt = True, eg_closed = False\<rparr> k4 = (None, eg, k')"
  have "chain x k3 = chain x k2" for x
    using iptables_lawsD(7) [OF laws] s(4) by (metis prod.collapse)
  then have k4: "chain x k4 = chain x k" for x
    using s(2,3,5) by (simp add: iptables_lawsD [OF laws])
  show thesis
    by (rule setupNAT_steps [OF nat]) (use k4 setupNAT_chains [OF laws nat] that [OF s(1)] in auto)
qed

lemma deleteForward_absent:
  assumes "iptables_laws H meaning chain" and "meaning r \<notin> set (chain (''filter'', ''FORWARD'') (snd st))"
  shows "fst (deleteForward H r st) = fst st @ [ForwardLeft r]" and "chain x (snd (deleteForward H r st)) = chain x (snd st)"
  using iptables_lawsD(2,3) [OF assms(1)] assms(2) by (auto simp: deleteForward_def split: prod.split) metis+

lemma removeRules_chains:
  assumes laws: "iptables_laws H meaning chain" and out: "tn_IfaceOutName (eg_cfg eg) \<noteq> ''''" and "eg_ipt eg" and net: "eg_ipNet eg = Some ipNet"
    and "meaning ` set (closeForward (tn_IfaceInName (eg_cfg eg))) \<inter> set (chain (''filter'', ''FORWARD'') k) = {}"
    and rem: "removeRules v6text H eg k = (errs, k')"
  shows "errs = (if NATLeft \<in> set errs then [NATLeft] else []) @ map ForwardLeft (closeForward (tn_IfaceInName (eg_cfg eg)))"
    and "chain x k' = (if NATLeft \<notin> set errs \<and> x = (''nat'', ''POSTROUTING'')
       then remove1 (meaning (natRule (IPNetString v6text ipNet) (tn_IfaceOutName (eg_cfg eg)))) (chain x k) else chain x k)"
proof -
  obtain ok k1 where del: "hp_Delete H ''nat'' ''POSTROUTING'' (natRule (IPNetString v6text ipNet) (tn_IfaceOutName (eg_cfg eg))) k = (ok, k1)"
    by fastforce
  note del1 = iptables_lawsD(2) [OF laws del]
  define i where "i = tn_IfaceInName (eg_cfg eg)"
  define st where "st = (if ok then [] else [NATLeft], k1)"
  from assms have res: "(errs, k') = deleteForward H [''-o'', i, ''-j'', ''ACCEPT''] (deleteForward H [''-i'', i, ''-j'', ''ACCEPT''] st)"
    by (simp add: removeRules_def del closeForward_def i_def st_def)
  have a: "meaning [''-i'', i, ''-j'', ''ACCEPT''] \<notin> set (chain (''filter'', ''FORWARD'') (snd st))"
    and b: "meaning [''-o'', i, ''-j'', ''ACCEPT''] \<notin> set (chain (''filter'', ''FORWARD'') (snd st))"
    using assms(5) by (auto simp: closeForward_def del1 st_def i_def)
  note da = deleteForward_absent [OF laws a]
  note db = deleteForward_absent [OF laws, of _ "deleteForward H [''-i'', i, ''-j'', ''ACCEPT''] st", unfolded da(2), OF b]
  from res have "errs = fst (deleteForward H [''-o'', i, ''-j'', ''ACCEPT''] (deleteForward H [''-i'', i, ''-j'', ''ACCEPT''] st))"
    by (metis fst_conv)
  then have errs: "errs = fst st @ map ForwardLeft (closeForward i)"
    by (simp only: db(1) da(1) append.assoc append_Cons append_Nil closeForward_def list.map)
  then show "errs = (if NATLeft \<in> set errs then [NATLeft] else []) @ map ForwardLeft (closeForward (tn_IfaceInName (eg_cfg eg)))"
    by (auto simp: st_def i_def closeForward_def)
  from errs have "ok \<longleftrightarrow> NATLeft \<notin> set errs" by (auto simp: st_def closeForward_def)
  moreover from res db(2) da(2) have "chain x k' = chain x k1" by (metis snd_conv st_def)
  ultimately show "chain x k' = (if NATLeft \<notin> set errs \<and> x = (''nat'', ''POSTROUTING'')
       then remove1 (meaning (natRule (IPNetString v6text ipNet) (tn_IfaceOutName (eg_cfg eg)))) (chain x k) else chain x k)"
    by (simp add: del1)
qed

text \<open>\<^verbatim>\<open>Close\<close> does not undo \<^verbatim>\<open>NewTUN\<close>. It deletes two FORWARD rules that set-up never added, so it reports two errors
  (unless the administrator has such rules, which it then deletes), and leaves the MSS rule and both FORWARD rules
  that set-up did add in their chains, after everything that was there before; only the NAT rule is taken out.
  Every restart of the node adds them once more.\<close>

theorem iptables_rules_left_behind:
  assumes laws: "iptables_laws H meaning chain"
    and new: "NewTUN v6text H cfg ipCIDR k = (Inr eg, k1)" and out: "tn_IfaceOutName (eg_cfg eg) \<noteq> ''''"
    and admin: "meaning ` set (closeForward (tn_IfaceInName cfg)) \<inter> set (chain (''filter'', ''FORWARD'') k1) = {}"
    and close: "iface_Close v6text H eg k1 = (errs, eg', k2)"
  shows "chain (''mangle'', ''FORWARD'') k2 = chain (''mangle'', ''FORWARD'') k @ [meaning mssRule] \<and>
    chain (''filter'', ''FORWARD'') k2 = chain (''filter'', ''FORWARD'') k @
      [meaning (forwardOut (tn_IfaceInName cfg) (tn_IfaceOutName (eg_cfg eg))), meaning (forwardIn (tn_IfaceInName cfg) (tn_IfaceOutName (eg_cfg eg)))] \<and>
    ForwardLeft ` set (closeForward (tn_IfaceInName cfg)) \<subseteq> set errs"
proof (rule NewTUN_ok [OF laws new])
  fix ip ipNet
  let ?n = "\<lparr>net_IP = ip, net_Mask = net_Mask ipNet\<rparr>"
  assume eg: "eg_ipNet eg = Some ?n" "eg_ifce eg" "eg_ipt eg" "\<not> eg_closed eg" "tn_IfaceInName (eg_cfg eg) = tn_IfaceInName cfg"
    and k1: "\<And>x. chain x k1 = chain x k @ map meaning (nodeRules v6text ?n (tn_IfaceInName cfg) (tn_IfaceOutName (eg_cfg eg)) x)"
  obtain errs1 k3 where rem: "removeRules v6text H eg (hp_TunClose H k1) = (errs1, k3)" by fastforce
  have "meaning ` set (closeForward (tn_IfaceInName (eg_cfg eg))) \<inter> set (chain (''filter'', ''FORWARD'') (hp_TunClose H k1)) = {}"
    using admin by (simp add: eg(5) iptables_lawsD(4) [OF laws])
  note rules = removeRules_chains [OF laws out eg(3) eg(1) this rem]
  from close rem eg have "set errs1 \<subseteq> set errs" and "chain x k2 = chain x k3" for x
    by (auto simp: iface_Close_def iface_close_def Let_def iptables_lawsD(9) [OF laws] split: prod.splits option.splits if_splits)
  moreover have "ForwardLeft ` set (closeForward (tn_IfaceInName cfg)) \<subseteq> set errs1"
    using rules(1) eg(5) by (metis Un_upper2 list.set_map set_append)
  ultimately show ?thesis
    using rules(2) by (auto simp: iptables_lawsD(4) [OF laws] k1 nodeRules_def)
qed

text \<open>A host whose chains are one list of rules tagged with their chain, addresses masked as \<^verbatim>\<open>iptables\<close> does.\<close>

type_synonym ex_host = "((string \<times> string) \<times> string list) list"

definition exMeaning :: "string list \<Rightarrow> string list" where
  "exMeaning r = (if r = natRule ''10.8.0.1/16'' ''eth0'' then natRule ''10.8.0.0/16'' ''eth0'' else r)"

definition exChain :: "string \<times> string \<Rightarrow> ex_host \<Rightarrow> string list list" where
  "exChain x k = map snd (filter (\<lambda>e. fst e = x) k)"

definition exHost :: "ex_host host_port" where
  "exHost = \<lparr>hp_RouteList = (\<lambda>k. Some [\<lparr>kr_Dst = None, kr_LinkIndex = 2\<rparr>]), hp_LinkByIndex = (\<lambda>i k. Some ''eth0''),
     hp_LinkByName = (\<lambda>n k. Some 7), hp_CreateTUN = (\<lambda>n m k. (True, k)), hp_TunClose = (\<lambda>k. k), hp_AddrAdd = (\<lambda>l a k. (True, k)),
     hp_LinkSetMTU = (\<lambda>l m k. (True, k)), hp_LinkSetUp = (\<lambda>l k. (True, k)), hp_LinkDel = (\<lambda>l k. (True, k)), hp_iptables = (\<lambda>k. True),
     hp_Append = (\<lambda>t c r k. (True, k @ [((t, c), exMeaning r)])),
     hp_Delete = (\<lambda>t c r k. if ((t, c), exMeaning r) \<in> set k then (True, remove1 ((t, c), exMeaning r) k) else (False, k))\<rparr>"

lemma exChain_remove1: "exChain x (remove1 (y, r) k) = (if x = y then remove1 r (exChain x k) else exChain x k)"
  by (induction k) (auto simp: exChain_def)

lemma exHost_laws: "iptables_laws exHost exMeaning exChain"
  by (auto simp: iptables_laws_def exHost_def exChain_remove1 split: if_splits) (auto simp: exChain_def image_iff)

definition exTUNConfig :: TUNConfig where
  "exTUNConfig = \<lparr>tn_IfaceInName = ''lib0'', tn_IfaceOutName = '''', tn_MTU = 1420\<rparr>"

definition exTUN :: "(iface_error + TUNIface) \<times> ex_host" where
  "exTUN = NewTUN (\<lambda>_. '''') exHost exTUNConfig (Uint32ToIPString 0x0A080001 @ CHR ''/'' # show_nat 16) []"

lemma exTUN_net:
  "ParseCIDR (Uint32ToIPString 0x0A080001 @ CHR ''/'' # show_nat 16) = Some (IPv4 10 8 0 1, \<lparr>net_IP = [10, 8, 0, 0], net_Mask = [255, 255, 0, 0]\<rparr>)"
proof -
  have "CIDRMask 16 4 = [255, 255, 0, 0]" "put32 0x0A080001 = [10, 8, 0, 1]" by code_simp+
  then show ?thesis by (simp add: ParseCIDR_text IPv4_def)
qed

lemma exTUN_text:
  "IPNetString (\<lambda>_. '''') \<lparr>net_IP = ipMask (IPv4 10 8 0 1) [255, 255, 0, 0], net_Mask = [255, 255, 0, 0]\<rparr> = ''10.8.0.0/16''"
  by code_simp

lemmas exRules = exMeaning_def mssRule_def natRule_def forwardOut_def forwardIn_def

lemma exTUN_eq: "exTUN = (Inr \<lparr>eg_cfg = exTUNConfig\<lparr>tn_IfaceOutName := ''eth0''\<rparr>, eg_ifce = True,
      eg_ipNet = Some \<lparr>net_IP = IPv4 10 8 0 1, net_Mask = [255, 255, 0, 0]\<rparr>, eg_ipt = True, eg_closed = False\<rparr>,
    [((''mangle'', ''FORWARD''), mssRule), ((''nat'', ''POSTROUTING''), natRule ''10.8.0.0/16'' ''eth0''),
     ((''filter'', ''FORWARD''), forwardOut ''lib0'' ''eth0''), ((''filter'', ''FORWARD''), forwardIn ''lib0'' ''eth0'')])"
proof -
  have "setupNAT (\<lambda>_. '''') exHost \<lparr>eg_cfg = exTUNConfig, eg_ifce = True,
      eg_ipNet = Some \<lparr>net_IP = IPv4 10 8 0 1, net_Mask = [255, 255, 0, 0]\<rparr>, eg_ipt = True, eg_closed = False\<rparr> [] =
    (None, \<lparr>eg_cfg = exTUNConfig\<lparr>tn_IfaceOutName := ''eth0''\<rparr>, eg_ifce = True,
      eg_ipNet = Some \<lparr>net_IP = IPv4 10 8 0 1, net_Mask = [255, 255, 0, 0]\<rparr>, eg_ipt = True, eg_closed = False\<rparr>,
    [((''mangle'', ''FORWARD''), mssRule), ((''nat'', ''POSTROUTING''), natRule ''10.8.0.0/16'' ''eth0''),
     ((''filter'', ''FORWARD''), forwardOut ''lib0'' ''eth0''), ((''filter'', ''FORWARD''), forwardIn ''lib0'' ''eth0'')])"
    by (simp add: setupNAT_def Let_def getDefaultInterface_def exTUNConfig_def exTUN_text exHost_def exRules)
  then show ?thesis
    by (simp add: exTUN_def NewTUN_def Let_def exTUN_net getDefaultGatewayInterface_def exHost_def)
qed

theorem iptables_rules_left_behind_witness:
  "\<exists>eg k1. exTUN = (Inr eg, k1) \<and> (\<exists>errs eg' k2. iface_Close (\<lambda>_. '''') exHost eg k1 = (errs, eg', k2) \<and>
     exChain (''mangle'', ''FORWARD'') k2 = [mssRule] \<and>
     exChain (''filter'', ''FORWARD'') k2 = [forwardOut ''lib0'' ''eth0'', forwardIn ''lib0'' ''eth0''] \<and>
     ForwardLeft ` set (closeForward ''lib0'') \<subseteq> set errs)"
proof -
  obtain eg k1 where new: "exTUN = (Inr eg, k1)" and out: "tn_IfaceOutName (eg_cfg eg) = ''eth0''"
    and admin: "exMeaning ` set (closeForward ''lib0'') \<inter> set (exChain (''filter'', ''FORWARD'') k1) = {}"
    by (rule that [OF exTUN_eq]) (simp_all add: exChain_def closeForward_def exRules)
  obtain errs eg' k2 where close: "iface_Close (\<lambda>_. '''') exHost eg k1 = (errs, eg', k2)" using prod_cases3 by blast
  have "tn_IfaceInName exTUNConfig = ''lib0''" by (simp add: exTUNConfig_def)
  moreover have "exMeaning mssRule = mssRule" "exMeaning (forwardOut ''lib0'' ''eth0'') = forwardOut ''lib0'' ''eth0''"
    "exMeaning (forwardIn ''lib0'' ''eth0'') = forwardIn ''lib0'' ''eth0''" "exChain x [] = []" for x
    by (simp_all add: exMeaning_def mssRule_def natRule_def forwardOut_def forwardIn_def exChain_def)
  ultimately have "exChain (''mangle'', ''FORWARD'') k2 = [mssRule] \<and>
     exChain (''filter'', ''FORWARD'') k2 = [forwardOut ''lib0'' ''eth0'', forwardIn ''lib0'' ''eth0''] \<and>
     ForwardLeft ` set (closeForward ''lib0'') \<subseteq> set errs"
    using iptables_rules_left_behind [OF exHost_laws new [unfolded exTUN_def] _ _ close] out admin by simp
  with new close show ?thesis by blast
qed

section \<open>The reader delivers what the device returned\<close>

lemma peek_poke:
  "b - a = length d \<Longrightarrow> a \<le> b \<Longrightarrow> peek a b (poke a d buf) = d"
  by (auto simp: peek_def poke_def intro!: nth_equalityI)

lemma peek_poke_other: "b \<le> c \<or> c + length d \<le> a \<Longrightarrow> peek a b (poke c d buf) = peek a b buf"
  by (auto simp: peek_def poke_def)

lemma peek_pokeAll_before: "b \<le> a \<Longrightarrow> peek x b (pokeAll a ps buf) = peek x b buf"
  by (induction ps arbitrary: a buf) (simp_all add: peek_poke_other)

text \<open>Packets that fit their slots do not overlap.\<close>

lemma peek_pokeAll:
  assumes "\<forall>p \<in> set ps. length p \<le> maxPacketLen" and "i < length ps"
  shows "peek (a + i * maxPacketLen) (a + i * maxPacketLen + length (ps ! i)) (pokeAll a ps buf) = ps ! i"
  using assms
proof (induction ps arbitrary: a i buf)
  case (Cons p ps)
  show ?case
  proof (cases i)
    case 0
    with Cons.prems show ?thesis by (simp add: peek_pokeAll_before peek_poke)
  next
    case (Suc k)
    with Cons.IH [of k "a + maxPacketLen"] Cons.prems show ?thesis by (simp add: algebra_simps)
  qed
qed simp

lemma pool_ok_NewMessageCopyFrom:
  assumes "pool_ok p"
  shows "\<exists>x q. NewMessageCopyFrom choice d p = Some (x, q) \<and> pool_ok q"
  by (rule NewMessageCopyFrom_cases [OF assms, of d choice])
    (use assms pool_get_mem [OF assms] parse_header_fits pool_ok_get_set [OF assms] in \<open>auto\<close>)

lemma HandlePacket_pool: "HandlePacket from pkt r = Some r' \<Longrightarrow> packetsPool r' = packetsPool r"
  by (auto simp: HandlePacket_def split: option.splits if_splits send_result.splits)

text \<open>A goroutine works on the packets of one read; it has handed on those before its position.\<close>

definition job_ok :: "('l, 'n) tun_reader \<Rightarrow> bytes list \<Rightarrow> read_job \<Rightarrow> bool" where
  "job_ok rd ps j \<longleftrightarrow>
     rj_idx j = 0 \<and> rj_count j = length ps \<and> length ps \<le> tr_batch rd \<and> rj_next j \<le> length ps \<and>
     (rj_msg j \<noteq> None \<longrightarrow> rj_next j < length ps) \<and>
     (\<forall>i < length ps. length (ps ! i) \<le> maxPacketLen - tun_iface_offset \<and> tr_sizes rd ! 0 ! i = length (ps ! i) \<and>
        peek (i * maxPacketLen + tun_iface_offset) (i * maxPacketLen + tun_iface_offset + length (ps ! i)) (tr_buf rd) = ps ! i)"

definition handedUpto :: "read_job \<Rightarrow> nat" where
  "handedUpto j = rj_next j + (if rj_msg j = None then 0 else 1)"

abbreviation packets :: "bytes list \<Rightarrow> bytes list" where
  "packets \<equiv> filter (\<lambda>p. p \<noteq> [])"

definition read_inv :: "('l, 'n) tun_reader \<Rightarrow> bool" where
  "read_inv rd \<longleftrightarrow>
     tr_index rd = 0 \<and> length (tr_locks rd) = ringSize \<and> length (tr_sizes rd) = ringSize \<and>
     length (tr_sizes rd ! 0) = tr_batch rd \<and> pool_ok (packetsPool (tr_router rd)) \<and>
     (tr_jobs rd = [] \<and> (tr_locks rd ! 0 \<longleftrightarrow> tr_pc rd = Holding) \<and> tr_handed rd = packets (tr_read rd) \<or>
      (\<exists>j old ps. tr_jobs rd = [j] \<and> tr_locks rd ! 0 \<and> tr_pc rd \<noteq> Holding \<and> tr_read rd = old @ ps \<and> job_ok rd ps j \<and>
         tr_handed rd = packets old @ packets (take (handedUpto j) ps)))"

lemma job_ok_upd [simp]:
  "job_ok (rd\<lparr>tr_pc := pc\<rparr>) ps j = job_ok rd ps j" "job_ok (rd\<lparr>tr_router := r\<rparr>) ps j = job_ok rd ps j"
  "job_ok (rd\<lparr>tr_handed := hs\<rparr>) ps j = job_ok rd ps j" "job_ok (rd\<lparr>tr_jobs := js\<rparr>) ps j = job_ok rd ps j"
  by (simp_all add: job_ok_def)

lemma read_inv_job:
  assumes "read_inv rd" and "n < length (tr_jobs rd)"
  obtains j old ps where "tr_jobs rd = [j]" "n = 0" "tr_locks rd ! 0" "tr_pc rd \<noteq> Holding" "tr_read rd = old @ ps"
    "job_ok rd ps j" "tr_handed rd = packets old @ packets (take (handedUpto j) ps)"
  using assms by (auto simp: read_inv_def)

lemma read_inv_working:
  assumes "read_inv rd" and "pool_ok (packetsPool r)" and "tr_locks rd ! 0" "tr_pc rd \<noteq> Holding" "tr_read rd = old @ ps" "job_ok rd ps j"
    and "hs = packets old @ packets (take (handedUpto j) ps)"
  shows "read_inv (rd\<lparr>tr_handed := hs, tr_router := r, tr_jobs := [j]\<rparr>)"
proof -
  have "\<exists>old' ps'. old @ ps = old' @ ps' \<and> job_ok rd ps' j \<and> hs = packets old' @ packets (take (handedUpto j) ps')"
    using assms by blast
  then show ?thesis using assms(1-5) by (auto simp: read_inv_def)
qed

text \<open>The slice a goroutine takes is the packet at its position.\<close>

lemma copySlot_job:
  assumes job: "job_ok rd ps j" and "rj_next j < rj_count j" and "rj_msg j = None" and "length (tr_sizes rd) = ringSize"
    and "length (tr_sizes rd ! 0) = tr_batch rd" and ok: "pool_ok (packetsPool (tr_router rd))"
  obtains j' r where "copySlot choice j rd = SlotOk (j', rd\<lparr>tr_handed := tr_handed rd @ packets [ps ! rj_next j], tr_router := r\<rparr>)"
    "job_ok rd ps j'" "handedUpto j' = Suc (rj_next j)" "pool_ok (packetsPool r)"
proof -
  from assms have n: "rj_next j < length ps" "rj_next j < tr_batch rd" by (auto simp: job_ok_def)
  have sz: "Option.bind (go_at (tr_sizes rd) (rj_idx j)) (\<lambda>sizes. go_at sizes (rj_next j)) = Some (length (ps ! rj_next j))"
    using assms n by (simp add: job_ok_def go_at_def ringSize_def)
  have next_ok: "job_ok rd ps (j\<lparr>rj_next := Suc (rj_next j)\<rparr>)" "job_ok rd ps (j\<lparr>rj_msg := Some m\<rparr>)" for m
    using job n assms(3) by (auto simp: job_ok_def)
  show thesis
  proof (cases "ps ! rj_next j = []")
    case True
    then have "copySlot choice j rd = SlotOk (j\<lparr>rj_next := Suc (rj_next j)\<rparr>, rd)" by (simp add: copySlot_def sz)
    with True ok assms(3) show thesis
      by (intro that [of "j\<lparr>rj_next := Suc (rj_next j)\<rparr>" "tr_router rd"]) (simp_all add: next_ok handedUpto_def)
  next
    case False
    define a where "a = rj_next j * maxPacketLen + tun_iface_offset"
    have "rj_next j * maxPacketLen + maxPacketLen \<le> tr_batch rd * maxPacketLen"
      using n(2) by (metis Suc_leI add.commute mult_Suc mult_le_mono1)
    moreover have "length (ps ! rj_next j) + tun_iface_offset \<le> maxPacketLen"
      using job n(1) by (auto simp: job_ok_def maxPacketLen_def)
    ultimately have fit: "a + length (ps ! rj_next j) \<le> ringSize * tr_batch rd * maxPacketLen"
      by (simp add: a_def ringSize_def)
    have start: "slotStart (tr_batch rd) (rj_idx j) (rj_next j) + tun_iface_offset = a"
      using job by (simp add: slotStart_def job_ok_def a_def)
    have d: "peek a (a + length (ps ! rj_next j)) (tr_buf rd) = ps ! rj_next j"
      using job n(1) by (simp add: job_ok_def a_def)
    obtain x q where new: "NewMessageCopyFrom choice (ps ! rj_next j) (packetsPool (tr_router rd)) = Some (x, q)" "pool_ok q"
      using pool_ok_NewMessageCopyFrom [OF ok] by blast
    show thesis
    proof (cases x)
      case (Inl e)
      with False new fit d start assms(3) show thesis
        by (intro that [of "j\<lparr>rj_next := Suc (rj_next j)\<rparr>" "(tr_router rd)\<lparr>packetsPool := q\<rparr>"])
          (simp_all add: copySlot_def sz Let_def router_NewMessageCopyFrom_def next_ok handedUpto_def)
    next
      case (Inr m)
      with False new fit d start show thesis
        by (intro that [of "j\<lparr>rj_msg := Some m\<rparr>" "(tr_router rd)\<lparr>packetsPool := q\<rparr>"])
          (simp_all add: copySlot_def sz Let_def router_NewMessageCopyFrom_def next_ok handedUpto_def)
    qed
  qed
qed

lemma startJob_inv:
  assumes inv: "read_inv rd" and "tr_pc rd = Holding" and "length ps \<le> tr_batch rd"
    and fit: "\<forall>p \<in> set ps. length p \<le> maxPacketLen - tun_iface_offset"
  shows "read_inv (startJob ps rd)"
proof -
  from inv assms(2) have st: "tr_jobs rd = []" "tr_locks rd ! 0" "tr_index rd = 0" "tr_handed rd = packets (tr_read rd)"
    "length (tr_sizes rd ! 0) = tr_batch rd" "length (tr_sizes rd) = ringSize"
    by (auto simp: read_inv_def)
  from fit have "\<forall>p \<in> set ps. length p \<le> maxPacketLen" by auto
  note peek = peek_pokeAll [OF this]
  have "job_ok (startJob ps rd) ps \<lparr>rj_idx = 0, rj_count = length ps, rj_next = 0, rj_msg = None\<rparr>"
    using assms(3) fit st peek [where a = tun_iface_offset]
    by (auto simp: job_ok_def startJob_def slotStart_def ringSize_def nth_append add.commute)
  then show ?thesis
    using inv assms(3) st by (auto simp: read_inv_def startJob_def ringSize_def handedUpto_def)
qed

lemma read_inv_step:
  assumes inv: "read_inv rd" and "read_step rd rd'" shows "read_inv rd'"
  using assms(2)
proof cases
  case rs_stop
  with inv show ?thesis by (auto simp: read_inv_def)
next
  case rs_lock
  with inv show ?thesis by (auto simp: read_inv_def takeLock_def ringSize_def)
next
  case rs_none
  with inv show ?thesis by (auto simp: read_inv_def releaseRead_def ringSize_def)
next
  case (rs_read ps)
  with inv show ?thesis by (simp add: startJob_inv)
next
  case (rs_copy n choice j' rd1)
  obtain j old ps where j: "tr_jobs rd = [j]" "n = 0" "tr_locks rd ! 0" "tr_pc rd \<noteq> Holding" "tr_read rd = old @ ps"
    "job_ok rd ps j" "tr_handed rd = packets old @ packets (take (handedUpto j) ps)"
    by (rule read_inv_job [OF inv rs_copy(2)])
  have s: "length (tr_sizes rd) = ringSize" "length (tr_sizes rd ! 0) = tr_batch rd" "pool_ok (packetsPool (tr_router rd))"
    using inv by (auto simp: read_inv_def)
  from j(1,2) rs_copy(3,4) have at: "rj_msg j = None" "rj_next j < rj_count j" by simp_all
  obtain j2 r where c: "copySlot choice j rd = SlotOk (j2, rd\<lparr>tr_handed := tr_handed rd @ packets [ps ! rj_next j], tr_router := r\<rparr>)"
    "job_ok rd ps j2" "handedUpto j2 = Suc (rj_next j)" "pool_ok (packetsPool r)"
    by (rule copySlot_job [OF j(6) at(2,1) s])
  have "rj_next j < length ps" using j(6) at(2) by (simp add: job_ok_def)
  then have "packets (take (handedUpto j2) ps) = packets (take (handedUpto j) ps) @ packets [ps ! rj_next j]"
    using at(1) handedUpto_def [of j] by (simp add: c(3) take_Suc_conv_app_nth)
  with c rs_copy(1,5) j read_inv_working [OF inv c(4) j(3-5) c(2)] show ?thesis by simp
next
  case (rs_hand n j' rd1)
  obtain j old ps where j: "tr_jobs rd = [j]" "n = 0" "tr_locks rd ! 0" "tr_pc rd \<noteq> Holding" "tr_read rd = old @ ps"
    "job_ok rd ps j" "tr_handed rd = packets old @ packets (take (handedUpto j) ps)"
    by (rule read_inv_job [OF inv rs_hand(2)])
  obtain msg r where h: "rj_msg j = Some msg" "HandleTunPacket msg (tr_router rd) = Some r"
    "j' = j\<lparr>rj_msg := None, rj_next := Suc (rj_next j)\<rparr>" "rd1 = rd\<lparr>tr_router := r\<rparr>"
    using rs_hand(3) j(1,2) by (auto simp: handSlot_def split: option.splits)
  have "handedUpto j' = handedUpto j" "job_ok rd ps j'"
    using h j(6) by (auto simp: handedUpto_def job_ok_def)
  moreover have "packetsPool r = packetsPool (tr_router rd)"
    using HandlePacket_pool h(2) by (auto simp: HandleTunPacket_def)
  moreover have "pool_ok (packetsPool (tr_router rd))" using inv by (simp add: read_inv_def)
  ultimately have "read_inv (rd\<lparr>tr_handed := tr_handed rd, tr_router := r, tr_jobs := [j']\<rparr>)"
    by (intro read_inv_working [OF inv _ j(3-5)]) (simp_all add: j(7))
  then show ?thesis using rs_hand(1) j(1,2) h(4) by simp
next
  case (rs_done n)
  obtain j old ps where j: "tr_jobs rd = [j]" "n = 0" "tr_locks rd ! 0" "tr_pc rd \<noteq> Holding" "tr_read rd = old @ ps"
    "job_ok rd ps j" "tr_handed rd = packets old @ packets (take (handedUpto j) ps)"
    by (rule read_inv_job [OF inv rs_done(2)])
  have "handedUpto j = length ps" "rj_idx j = 0"
    using rs_done(3,4) j by (auto simp: handedUpto_def job_ok_def)
  then show ?thesis using rs_done(1) j inv by (auto simp: read_inv_def endJob_def ringSize_def)
next
  case (rs_router r)
  with inv show ?thesis by (auto simp: read_inv_def)
qed

definition reader_init :: "('l, 'n) tun_reader \<Rightarrow> bool" where
  "reader_init rd \<longleftrightarrow> (\<exists>batch r. rd = reader_start batch r \<and> pool_ok (packetsPool r))"

interpretation reader_system: invariant_system reader_init read_step read_inv
proof
  show "read_inv rd" if "reader_init rd" for rd :: "('a, 'b) tun_reader"
    using that by (auto simp: reader_init_def reader_start_def read_inv_def ringSize_def)
qed (rule read_inv_step)

text \<open>C29: in every interleaving of the reader, its goroutines and the rest of the node, the slices given to the router are
  the packets the device returned (empty ones apart), in their order, byte for byte: a buffer is never read into while a
  goroutine is still working on it. When no goroutine is running every packet has been handed over. There is at most
  one goroutine at a time, and it never slices outside the buffer.\<close>

theorem reader_delivers:
  assumes "reader_init rd0" and "read_step\<^sup>*\<^sup>* rd0 rd"
  shows "length (tr_jobs rd) \<le> 1 \<and> (\<exists>rest. packets (tr_read rd) = tr_handed rd @ rest) \<and>
    (tr_jobs rd = [] \<longrightarrow> tr_handed rd = packets (tr_read rd)) \<and>
    (\<forall>j \<in> set (tr_jobs rd). rj_msg j = None \<and> rj_next j < rj_count j \<longrightarrow> copySlot choice j rd \<noteq> SlotPanic)"
proof -
  have inv: "read_inv rd" by (rule reader_system.inv_reachable [OF assms])
  show ?thesis
  proof (cases "tr_jobs rd")
    case Nil
    with inv show ?thesis by (auto simp: read_inv_def)
  next
    case (Cons j0 js)
    then obtain j old ps where j: "tr_jobs rd = [j]" "tr_read rd = old @ ps" "job_ok rd ps j"
      "tr_handed rd = packets old @ packets (take (handedUpto j) ps)"
      using inv by (auto elim: read_inv_job [of rd 0])
    have "packets (tr_read rd) = tr_handed rd @ packets (drop (handedUpto j) ps)"
      by (simp add: j(2,4) flip: filter_append)
    moreover have "copySlot choice j rd \<noteq> SlotPanic" if "rj_msg j = None" "rj_next j < rj_count j"
    proof -
      have "length (tr_sizes rd) = ringSize" "length (tr_sizes rd ! 0) = tr_batch rd" "pool_ok (packetsPool (tr_router rd))"
        using inv by (auto simp: read_inv_def)
      from copySlot_job [OF j(3) that(2,1) this, of choice] show ?thesis by fastforce
    qed
    ultimately show ?thesis using j(1) by auto
  qed
qed

text \<open>One read of a packet that is too short to be forwarded.\<close>

definition exReader :: "(nat, nat list) tun_reader" where
  "exReader = reader_start 1 exRouter"

lemma exReader_init: "reader_init exReader"
  unfolding reader_init_def exReader_def
proof (intro exI conjI)
  show "pool_ok (packetsPool exRouter)" by (simp add: exRouter_def pool_ok_New)
qed (rule refl)

theorem reader_delivers_witness:
  "\<exists>rd. read_step\<^sup>*\<^sup>* exReader rd \<and> tr_jobs rd = [] \<and> tr_read rd = [[1, 2, 3]] \<and> tr_handed rd = [[1, 2, 3]]"
proof -
  let ?j = "\<lparr>rj_idx = 0, rj_count = 1, rj_next = 0, rj_msg = None\<rparr>"
  define rd1 where "rd1 = takeLock exReader"
  define rd2 where "rd2 = startJob [[1, 2, 3]] rd1"
  define rd3 where "rd3 = rd2\<lparr>tr_handed := [peek 10 13 (tr_buf rd2)], tr_jobs := [?j\<lparr>rj_next := 1\<rparr>]\<rparr>"
  define rd4 where "rd4 = (endJob (tr_jobs rd3 ! 0) rd3)\<lparr>tr_jobs := []\<rparr>"
  have s1: "read_step exReader rd1"
    unfolding rd1_def by (rule rs_lock) (simp_all add: exReader_def reader_start_def ringSize_def)
  have s2: "read_step rd1 rd2"
    unfolding rd2_def by (rule rs_read) (simp_all add: rd1_def takeLock_def exReader_def reader_start_def maxPacketLen_def)
  have j: "tr_jobs rd2 = [?j]" "tr_sizes rd2 ! 0 = [3]" "length (tr_sizes rd2) = 3" "tr_router rd2 = exRouter" "tr_batch rd2 = 1" "tr_handed rd2 = []"
    by (simp_all add: rd2_def startJob_def rd1_def takeLock_def exReader_def reader_start_def ringSize_def)
  then have "copySlot None ?j rd2 = SlotOk (?j\<lparr>rj_next := 1\<rparr>, rd2\<lparr>tr_handed := [peek 10 13 (tr_buf rd2)]\<rparr>)"
    by (simp add: copySlot_def go_at_def slotStart_def tun_iface_offset_def maxPacketLen_def ringSize_def Let_def
        router_NewMessageCopyFrom_def NewMessageCopyFrom_def parse_header_def peek_def)
  then have s3: "read_step rd2 rd3"
    using rs_copy [of 0 rd2 None "?j\<lparr>rj_next := 1\<rparr>" "rd2\<lparr>tr_handed := [peek 10 13 (tr_buf rd2)]\<rparr>"] j(1) by (simp add: rd3_def)
  have s4: "read_step rd3 rd4"
    using rs_done [of 0 rd3] by (simp add: rd4_def rd3_def)
  have reach: "read_step\<^sup>*\<^sup>* exReader rd4" using s1 s2 s3 s4 by (meson converse_rtranclp_into_rtranclp rtranclp.rtrancl_refl)
  moreover have "tr_jobs rd4 = []" "tr_read rd4 = [[1, 2, 3]]"
    by (simp_all add: rd4_def rd3_def endJob_def rd2_def startJob_def rd1_def takeLock_def exReader_def reader_start_def)
  moreover from this have "tr_handed rd4 = [[1, 2, 3]]" using reader_delivers [OF exReader_init reach] by simp
  ultimately show ?thesis by blast
qed

section \<open>The writer delivers what the router sent\<close>

lemma Free_sel [simp]: "dp_maxSize (Free m p) = dp_maxSize p"
  by (auto simp: Free_def split: option.splits)

lemma Free_frees: "set (dp_free (Free m p)) \<subseteq> insert m (set (dp_free p))"
  by (auto simp: Free_def split: option.splits)

lemma msgData_Free [simp]: "m \<noteq> m' \<Longrightarrow> msgData m (Free m' p) = msgData m p"
  by (auto simp: msgData_def slice_read_def slice_of_def Free_def split: option.splits)

lemma msgData_length: "pool_ok p \<Longrightarrow> length (msgData m p) \<le> dp_maxSize p"
  by (auto simp: msgData_def slice_read_def slice_of_def pool_ok_def split: option.splits)

lemma fold_freePacket_chan [simp]: "toIface (fold freePacket ms r) = toIface r"
  by (induction ms arbitrary: r) (simp_all add: freePacket_def)

text \<open>Freeing packets that are not yet free.\<close>

lemma fold_freePacket:
  assumes "pool_ok (packetsPool r)" "pool_linear (packetsPool r)" "distinct ms" "set ms \<inter> set (dp_free (packetsPool r)) = {}"
  shows "pool_ok (packetsPool (fold freePacket ms r))" "pool_linear (packetsPool (fold freePacket ms r))"
    "dp_maxSize (packetsPool (fold freePacket ms r)) = dp_maxSize (packetsPool r)"
    "set (dp_free (packetsPool (fold freePacket ms r))) \<subseteq> set ms \<union> set (dp_free (packetsPool r))"
    "\<And>m. m \<notin> set ms \<Longrightarrow> msgData m (packetsPool (fold freePacket ms r)) = msgData m (packetsPool r)"
proof -
  have "pool_ok (packetsPool (fold freePacket ms r)) \<and> pool_linear (packetsPool (fold freePacket ms r)) \<and>
    dp_maxSize (packetsPool (fold freePacket ms r)) = dp_maxSize (packetsPool r) \<and>
    set (dp_free (packetsPool (fold freePacket ms r))) \<subseteq> set ms \<union> set (dp_free (packetsPool r)) \<and>
    (\<forall>m. m \<notin> set ms \<longrightarrow> msgData m (packetsPool (fold freePacket ms r)) = msgData m (packetsPool r))"
    using assms
  proof (induction ms arbitrary: r)
    case (Cons m ms)
    have r1: "packetsPool (freePacket m r) = Free m (packetsPool r)" by (simp add: freePacket_def)
    have "set ms \<inter> set (dp_free (Free m (packetsPool r))) = {}"
      using Free_frees [of m "packetsPool r"] Cons.prems by auto
    with Cons.prems Cons.IH [of "freePacket m r"] Free_frees [of m "packetsPool r"] show ?case
      by (auto simp: r1 pool_ok_Free pool_linear_Free)
  qed simp
  then show "pool_ok (packetsPool (fold freePacket ms r))" "pool_linear (packetsPool (fold freePacket ms r))"
    "dp_maxSize (packetsPool (fold freePacket ms r)) = dp_maxSize (packetsPool r)"
    "set (dp_free (packetsPool (fold freePacket ms r))) \<subseteq> set ms \<union> set (dp_free (packetsPool r))"
    "\<And>m. m \<notin> set ms \<Longrightarrow> msgData m (packetsPool (fold freePacket ms r)) = msgData m (packetsPool r)"
    by simp_all
qed

lemma fold_freeMsg [simp]: "fold freeMsg ms w = w\<lparr>tw_router := fold freePacket ms (tw_router w), tw_freed := tw_freed w @ ms\<rparr>"
  by (induction ms arbitrary: w) (simp_all add: freeMsg_def)

definition written :: "('l, 'n) tun_writer \<Rightarrow> bytes list" where
  "written w = map (drop tun_iface_offset) (concat (tw_calls w))"

abbreviation rightSize :: "int \<Rightarrow> bytes list \<Rightarrow> bytes list" where
  "rightSize mtu \<equiv> filter (\<lambda>d. \<not> wrongSize mtu d)"

abbreviation tw_pool :: "('l, 'n) tun_writer \<Rightarrow> dgMessagePoolImpl" where
  "tw_pool w \<equiv> packetsPool (tw_router w)"

abbreviation tw_chan :: "('l, 'n) tun_writer \<Rightarrow> nat list" where
  "tw_chan w \<equiv> ch_buf (toIface (tw_router w))"

text \<open>\<open>ms\<close> are the packets of the batch: each in its slot of the buffer, none of them or of the channel freed; what
  has been written, is in the batch or waits in the channel is what was sent; and a message was received as often as it is
  in the batch or was freed.\<close>

definition batch_ok :: "nat list \<Rightarrow> ('l, 'n) tun_writer \<Rightarrow> bool" where
  "batch_ok ms w \<longleftrightarrow>
     take (tw_idx w) (tw_msgs w) = map Some ms \<and> distinct (ms @ tw_chan w) \<and> set (ms @ tw_chan w) \<inter> set (dp_free (tw_pool w)) = {} \<and>
     (\<forall>i < length ms. \<not> wrongSize (tw_MTU w) (msgData (ms ! i) (tw_pool w)) \<and>
        peek (i * maxPacketLen + tun_iface_offset) (i * maxPacketLen + tun_iface_offset + length (msgData (ms ! i) (tw_pool w))) (tw_buf w) =
          msgData (ms ! i) (tw_pool w)) \<and>
     rightSize (tw_MTU w) (tw_sent w) =
       written w @ map (\<lambda>m. msgData m (tw_pool w)) ms @ rightSize (tw_MTU w) (map (\<lambda>m. msgData m (tw_pool w)) (tw_chan w)) \<and>
     (\<forall>x. count_list (tw_taken w) x = count_list ms x + count_list (tw_freed w) x)"

definition write_inv :: "('l, 'n) tun_writer \<Rightarrow> bool" where
  "write_inv w \<longleftrightarrow>
     length (tw_msgs w) = tw_batch w \<and> 0 < tw_batch w \<and> tw_idx w \<le> tw_batch w \<and> (tw_pc w = Filling \<longleftrightarrow> 0 < tw_idx w) \<and>
     pool_ok (tw_pool w) \<and> pool_linear (tw_pool w) \<and> dp_maxSize (tw_pool w) = 65535 \<and> (\<exists>ms. batch_ok ms w)"

lemma chan_recv_buf: "chan_recv c = Some (m, c') \<Longrightarrow> ch_buf c = m # ch_buf c'" "chan_recv c = None \<longleftrightarrow> ch_buf c = []"
  by (auto simp: chan_recv_def split: list.splits)

lemma recvMsg_sel:
  assumes "recvMsg w = Some (m, w1)"
  shows "tw_chan w = m # tw_chan w1" "tw_pool w1 = tw_pool w"
    and "tw_idx w1 = tw_idx w" "tw_msgs w1 = tw_msgs w" "tw_buf w1 = tw_buf w" "tw_MTU w1 = tw_MTU w"
    "tw_sent w1 = tw_sent w" "tw_calls w1 = tw_calls w" "tw_batch w1 = tw_batch w" "tw_pc w1 = tw_pc w"
    "tw_taken w1 = tw_taken w @ [m]" "tw_freed w1 = tw_freed w"
  using assms by (auto simp: recvMsg_def dest: chan_recv_buf(1))

text \<open>A packet moves from the channel into the batch, or is freed because of its size.\<close>

lemma takeMsg_ok:
  assumes batch: "batch_ok ms w" and recv: "recvMsg w = Some (m, w1)" and take: "takeMsg m w1 = Some w2"
    and room: "tw_idx w < length (tw_msgs w)" and ok: "pool_ok (tw_pool w)" "dp_maxSize (tw_pool w) = 65535"
  shows "batch_ok (if tw_idx w2 = tw_idx w then ms else ms @ [m]) w2"
proof -
  note r = recvMsg_sel [OF recv]
  have idx: "length ms = tw_idx w" using batch room by (simp add: batch_ok_def) (metis length_map length_take min.absorb4)
  note sel = r(3-8,11,12)
  have dist: "m \<notin> set ms" "m \<notin> set (tw_chan w1)" using batch by (auto simp: batch_ok_def r(1))
  show ?thesis
  proof (cases "wrongSize (tw_MTU w) (msgData m (tw_pool w))")
    case True
    then have w2: "w2 = freeMsg m w1"
      using take by (simp add: takeMsg_def r(2) sel Let_def)
    have "msgData x (Free m (tw_pool w)) = msgData x (tw_pool w)" if "x \<in> set ms \<union> set (tw_chan w1)" for x
      using that dist by (intro msgData_Free) auto
    then show ?thesis
      using batch True dist Free_frees [of m "tw_pool w"]
      by (auto simp: batch_ok_def w2 sel r(1,2) freeMsg_def freePacket_def written_def cong: map_cong)
  next
    case False
    let ?d = "msgData m (tw_pool w)" let ?a = "tw_idx w * maxPacketLen + tun_iface_offset"
    have w2: "w2 = w1\<lparr>tw_buf := poke ?a ?d (tw_buf w), tw_msgs := (tw_msgs w)[tw_idx w := Some m], tw_idx := Suc (tw_idx w)\<rparr>"
      using take False room by (simp add: takeMsg_def r(2) sel Let_def)
    have before: "peek (i * maxPacketLen + tun_iface_offset) (i * maxPacketLen + tun_iface_offset + length (msgData x (tw_pool w))) (poke ?a ?d (tw_buf w)) =
        peek (i * maxPacketLen + tun_iface_offset) (i * maxPacketLen + tun_iface_offset + length (msgData x (tw_pool w))) (tw_buf w)"
      if "i < tw_idx w" for i x
    proof (rule peek_poke_other)
      have "Suc i * maxPacketLen \<le> tw_idx w * maxPacketLen" using that by (intro mult_le_mono1) simp
      then show "i * maxPacketLen + tun_iface_offset + length (msgData x (tw_pool w)) \<le> ?a \<or> ?a + length ?d \<le> i * maxPacketLen + tun_iface_offset"
        using msgData_length [OF ok(1), of x] ok(2) by (simp add: maxPacketLen_def)
    qed
    have "tw_idx w2 \<noteq> tw_idx w" by (simp add: w2)
    then show ?thesis
      using batch False dist room idx before
      by (auto simp: batch_ok_def w2 sel r(1,2) written_def take_Suc_conv_app_nth nth_append less_Suc_eq peek_poke)
  qed
qed

lemma sendBatch_ok:
  assumes batch: "batch_ok ms w" and "0 < tw_idx w" and "tw_idx w \<le> length (tw_msgs w)"
    and ok: "pool_ok (tw_pool w)" "pool_linear (tw_pool w)" "dp_maxSize (tw_pool w) = 65535"
  obtains w1 where "sendBatch w = Some w1" "batch_ok [] w1" "tw_idx w1 = 0" "length (tw_msgs w1) = length (tw_msgs w)" "tw_batch w1 = tw_batch w"
    "pool_ok (tw_pool w1)" "pool_linear (tw_pool w1)" "dp_maxSize (tw_pool w1) = 65535"
proof -
  have ms: "take (tw_idx w) (tw_msgs w) = map Some ms" "length ms = tw_idx w" "distinct ms" "set ms \<inter> set (dp_free (tw_pool w)) = {}"
    "set ms \<inter> set (tw_chan w) = {}" "distinct (tw_chan w)" "set (tw_chan w) \<inter> set (dp_free (tw_pool w)) = {}"
    using batch assms(3) by (auto simp: batch_ok_def) (metis length_map length_take min.absorb2)
  note f = fold_freePacket [OF ok(1,2) ms(3,4)]
  define bufs where "bufs = map (\<lambda>i. peek (i * maxPacketLen) (i * maxPacketLen + tun_iface_offset +
      length (msgData (ms ! i) (tw_pool w))) (tw_buf w)) [0..<tw_idx w]"
  define w1 where "w1 = w\<lparr>tw_calls := tw_calls w @ [bufs], tw_router := fold freePacket ms (tw_router w), tw_freed := tw_freed w @ ms,
    tw_msgs := replicate (tw_idx w) None @ drop (tw_idx w) (tw_msgs w), tw_idx := 0\<rparr>"
  have "map (drop tun_iface_offset) bufs = map (\<lambda>m. msgData m (tw_pool w)) ms"
  proof (rule nth_equalityI)
    fix i assume i: "i < length (map (drop tun_iface_offset) bufs)"
    have "drop tun_iface_offset (peek (i * maxPacketLen) (i * maxPacketLen + tun_iface_offset + n) b) =
        peek (i * maxPacketLen + tun_iface_offset) (i * maxPacketLen + tun_iface_offset + n) b" for n b
      by (simp add: peek_def drop_map)
    then show "map (drop tun_iface_offset) bufs ! i = map (\<lambda>m. msgData m (tw_pool w)) ms ! i"
      using i batch ms(2) by (simp add: bufs_def batch_ok_def)
  qed (simp add: bufs_def ms(2))
  then have wr: "written w1 = written w @ map (\<lambda>m. msgData m (tw_pool w)) ms" by (simp add: written_def w1_def)
  have data: "map (\<lambda>m. msgData m (tw_pool w1)) (tw_chan w1) = map (\<lambda>m. msgData m (tw_pool w)) (tw_chan w)"
    using ms(5) f(5) by (auto simp: w1_def intro!: map_cong)
  have "batch_ok [] w1"
    unfolding batch_ok_def data wr using batch ms f(4) by (auto simp: batch_ok_def w1_def)
  moreover have "sendBatch w = Some w1"
    using assms(2) by (simp add: sendBatch_def ms(1) w1_def bufs_def)
  ultimately show thesis
    using that f(1-3) ok(3) assms(3) by (simp add: w1_def)
qed

lemma takeMsg_frame:
  assumes "takeMsg m w = Some w'" and "pool_ok (tw_pool w)" "pool_linear (tw_pool w)" "m \<notin> set (dp_free (tw_pool w))"
  shows "length (tw_msgs w') = length (tw_msgs w)" "tw_batch w' = tw_batch w" "tw_pc w' = tw_pc w" "tw_idx w' = tw_idx w \<or> tw_idx w' = Suc (tw_idx w)"
    "pool_ok (tw_pool w')" "pool_linear (tw_pool w')" "dp_maxSize (tw_pool w') = dp_maxSize (tw_pool w)"
  using assms by (auto simp: takeMsg_def Let_def freeMsg_def freePacket_def pool_ok_Free pool_linear_Free split: if_splits)

lemma write_inv_take:
  assumes inv: "write_inv w" and room: "tw_idx w < tw_batch w" and recv: "recvMsg w = Some (m, w1)" and take: "takeMsg m w1 = Some w2"
    and pc: "pc = Filling \<longleftrightarrow> 0 < tw_idx w2"
  shows "write_inv (w2\<lparr>tw_pc := pc\<rparr>)"
proof -
  note r = recvMsg_sel [OF recv]
  obtain ms where ms: "batch_ok ms w" using inv by (auto simp: write_inv_def)
  note sel = r(3,4,9)
  have w: "pool_ok (tw_pool w1)" "pool_linear (tw_pool w1)" "m \<notin> set (dp_free (tw_pool w1))"
    using inv ms by (auto simp: write_inv_def batch_ok_def r(1,2))
  note f = takeMsg_frame [OF take w]
  have "batch_ok (if tw_idx w2 = tw_idx w then ms else ms @ [m]) w2"
    by (rule takeMsg_ok [OF ms recv take]) (use inv room in \<open>auto simp: write_inv_def\<close>)
  then have "\<exists>ms. batch_ok ms (w2\<lparr>tw_pc := pc\<rparr>)" by (auto simp: batch_ok_def written_def)
  then show ?thesis using inv room f pc by (auto simp: write_inv_def sel r(2))
qed

lemma write_inv_step:
  assumes inv: "write_inv w" and "write_step w w'" shows "write_inv w'"
  using assms(2)
proof cases
  case ws_stop
  with inv have "tw_idx w = 0" by (simp add: write_inv_def)
  then have "freeBatch w = w" by (simp add: freeBatch_def List.map_filter_def)
  with ws_stop inv show ?thesis by (auto simp: write_inv_def batch_ok_def written_def)
next
  case (ws_first m w1 w2)
  have "tw_idx w = 0" "0 < tw_batch w" "tw_idx w1 = tw_idx w"
    using inv ws_first(2) recvMsg_sel [OF ws_first(3)] by (auto simp: write_inv_def)
  with write_inv_take [OF inv _ ws_first(3,4)] show ?thesis unfolding ws_first(1) by simp
next
  case (ws_more m w1)
  have "tw_pc w' = Filling" "0 < tw_idx w'"
    using ws_more inv recvMsg_sel [OF ws_more(3)] by (auto simp: takeMsg_def freeMsg_def Let_def write_inv_def split: if_splits)
  then have "write_inv (w'\<lparr>tw_pc := tw_pc w'\<rparr>)" by (intro write_inv_take [OF inv ws_more(2,3,4)]) simp
  then show ?thesis by simp
next
  case (ws_send w1)
  obtain ms where ms: "batch_ok ms w" using inv by (auto simp: write_inv_def)
  have "0 < tw_idx w" using inv ws_send(2) by (simp add: write_inv_def)
  then obtain w2 where s: "sendBatch w = Some w2" "batch_ok [] w2" "tw_idx w2 = 0" "length (tw_msgs w2) = length (tw_msgs w)" "tw_batch w2 = tw_batch w"
    "pool_ok (tw_pool w2)" "pool_linear (tw_pool w2)" "dp_maxSize (tw_pool w2) = 65535"
    by (rule sendBatch_ok [OF ms]) (use inv in \<open>auto simp: write_inv_def\<close>)
  then have "batch_ok [] (w1\<lparr>tw_pc := AtSelect\<rparr>)" using ws_send(4) by (simp add: batch_ok_def written_def)
  then show ?thesis using s ws_send(1,4) inv by (auto simp: write_inv_def)
next
  case (ws_router ms' r)
  obtain ms where ms: "batch_ok ms w" using inv by (auto simp: write_inv_def)
  have pend: "pendingMsgs w = ms @ tw_chan w" using ms by (simp add: pendingMsgs_def batch_ok_def List.map_filter_def comp_def)
  have same: "msgData m (packetsPool r) = msgData m (tw_pool w)" if "m \<in> set ms \<union> set (tw_chan w)" for m
    using that ws_router(2) pend by (auto simp: router_sends_def)
  have "batch_ok ms w'"
    using ms ws_router same pend by (auto simp: batch_ok_def router_sends_def written_def cong: map_cong)
  then show ?thesis using inv ws_router by (auto simp: write_inv_def router_sends_def)
qed

definition writer_init :: "('l, 'n) tun_writer \<Rightarrow> bool" where
  "writer_init w \<longleftrightarrow> (\<exists>batch mtu r. w = writer_start batch mtu r \<and> 0 < batch \<and> ch_buf (toIface r) = [] \<and>
     pool_ok (packetsPool r) \<and> pool_linear (packetsPool r) \<and> dp_maxSize (packetsPool r) = 65535)"

interpretation writer_system: invariant_system writer_init write_step write_inv
proof
  show "write_inv w" if "writer_init w" for w :: "('a, 'b) tun_writer"
    using that by (auto simp: writer_init_def writer_start_def write_inv_def batch_ok_def written_def intro!: exI [of _ "[]"])
qed (rule write_inv_step)

text \<open>C30: the writer delivers what the router sent. In every interleaving with the rest of the node, provided its other
  holders of packets free each packet once and leave packets on their way to the interface alone (a send that fails behind a
  shaped route frees twice, shaped.go:68): the packets written to the interface are the packets the router sent there, less
  those that are empty or longer than the MTU, in their order and byte for byte; once the batch and the channel are empty
  all of them are written. Every message the loop received is in its batch or was freed by it, as often as it was received,
  and all are freed once the loop has returned; none is free while it is in the batch or the channel, and the loop never
  indexes outside its batch.\<close>

theorem writer_delivers:
  assumes "writer_init w0" and "write_step\<^sup>*\<^sup>* w0 w"
  shows "(\<exists>rest. rightSize (tw_MTU w) (tw_sent w) = written w @ rest) \<and>
    (tw_idx w = 0 \<and> tw_chan w = [] \<longrightarrow> written w = rightSize (tw_MTU w) (tw_sent w)) \<and>
    (\<forall>x. count_list (tw_taken w) x = count_list (List.map_filter id (take (tw_idx w) (tw_msgs w))) x + count_list (tw_freed w) x) \<and>
    (tw_pc w = Returned \<longrightarrow> (\<forall>x. count_list (tw_taken w) x = count_list (tw_freed w) x)) \<and>
    pool_linear (tw_pool w) \<and> distinct (pendingMsgs w) \<and> set (pendingMsgs w) \<inter> set (dp_free (tw_pool w)) = {} \<and>
    (tw_pc w = AtSelect \<or> tw_pc w = Filling \<and> tw_idx w < tw_batch w \<longrightarrow> takeMsg m w \<noteq> None) \<and> sendBatch w \<noteq> None"
proof -
  have inv: "write_inv w" by (rule writer_system.inv_reachable [OF assms])
  then obtain ms where ms: "batch_ok ms w" by (auto simp: write_inv_def)
  then have pend: "pendingMsgs w = ms @ tw_chan w" by (simp add: pendingMsgs_def batch_ok_def List.map_filter_def comp_def)
  have "tw_idx w = 0 \<Longrightarrow> ms = []" using ms by (simp add: batch_ok_def)
  moreover have "List.map_filter id (take (tw_idx w) (tw_msgs w)) = ms" using ms by (simp add: batch_ok_def List.map_filter_def comp_def)
  moreover have "tw_pc w = Returned \<Longrightarrow> tw_idx w = 0" using inv by (auto simp: write_inv_def)
  moreover have "sendBatch w \<noteq> None" using ms by (simp add: sendBatch_def batch_ok_def)
  moreover have "tw_pc w = AtSelect \<or> tw_pc w = Filling \<and> tw_idx w < tw_batch w \<Longrightarrow> takeMsg m w \<noteq> None"
    using inv by (auto simp: takeMsg_def Let_def write_inv_def)
  ultimately show ?thesis using ms inv by (auto simp: batch_ok_def write_inv_def pend)
qed

text \<open>One packet, written alone.\<close>

definition exPool :: dgMessagePoolImpl where
  "exPool = \<lparr>dp_maxSize = 65535, dp_objs = [(0, \<lparr>dm_mem = [1, 2, 3] @ replicate 65532 0, dm_len = 3, dm_IPVersion = 4,
     dm_HoleInfo = dm_HoleInfo (newMessage 0), dm_pooled = True\<rparr>)], dp_free = [], dp_next = 1\<rparr>"

definition exFull :: "(nat, nat list) Router" where
  "exFull = exRouter\<lparr>packetsPool := exPool, toIface := (mkchan 1000)\<lparr>ch_buf := [0]\<rparr>\<rparr>"

lemma exPool_data: "msgData 0 exPool = [1, 2, 3]"
  by (simp add: exPool_def msgData_def slice_read_def slice_of_def gm_get_def)

lemma exFull_sends: "router_sends [0] exFull (writer_start 2 1400 exRouter)"
  by (auto simp: router_sends_def exFull_def exPool_def exRouter_def pool_ok_def pool_linear_def gm_wf_def gm_get_def
      pendingMsgs_def writer_start_def List.map_filter_def split: if_splits)

theorem writer_delivers_witness:
  "\<exists>w. write_step\<^sup>*\<^sup>* (writer_start 2 1400 exRouter) w \<and> tw_sent w = [[1, 2, 3]] \<and> written w = [[1, 2, 3]]"
proof -
  let ?w0 = "writer_start 2 1400 exRouter"
  define w1 where "w1 = ?w0\<lparr>tw_router := exFull, tw_sent := [[1, 2, 3]]\<rparr>"
  have s1: "write_step ?w0 w1"
    using ws_router [OF exFull_sends] by (simp add: w1_def writer_start_def exFull_def exPool_data)
  obtain w2 where s2: "write_step w1 w2" "tw_pc w2 = Filling" "tw_idx w2 = 1" "tw_chan w2 = []" "tw_sent w2 = [[1, 2, 3]]" "tw_MTU w2 = 1400"
    using ws_first [of w1 0 "w1\<lparr>tw_router := exFull\<lparr>toIface := mkchan 1000\<rparr>, tw_taken := [0]\<rparr>"]
    by (auto simp: w1_def writer_start_def exFull_def recvMsg_def chan_recv_def mkchan_def takeMsg_def exPool_data wrongSize_def Let_def)
  have init: "writer_init ?w0"
    unfolding writer_init_def
    by (intro exI [of _ 2] exI [of _ 1400] exI [of _ exRouter]) (simp add: exRouter_def pool_ok_New, simp add: NewDGMessagePool_def)
  have r2: "write_step\<^sup>*\<^sup>* ?w0 w2" using s1 s2(1) by (meson converse_rtranclp_into_rtranclp rtranclp.rtrancl_refl)
  obtain w3 where w3: "sendBatch w2 = Some w3" using writer_delivers [OF init r2] by fastforce
  have s3: "write_step w2 (w3\<lparr>tw_pc := AtSelect\<rparr>)"
    by (rule ws_send) (use s2 w3 in \<open>simp_all add: recvMsg_def chan_recv_def\<close>)
  have reach: "write_step\<^sup>*\<^sup>* ?w0 (w3\<lparr>tw_pc := AtSelect\<rparr>)" using r2 s3 by simp
  have "tw_idx w3 = 0" "tw_sent w3 = [[1, 2, 3]]" "tw_MTU w3 = 1400" "toIface (tw_router w3) = toIface (tw_router w2)"
    using w3 s2 by (auto simp: sendBatch_def)
  then show ?thesis
    using writer_delivers [OF init reach] s2(4) reach by (intro exI [of _ "w3\<lparr>tw_pc := AtSelect\<rparr>"]) (simp add: wrongSize_def)
qed

end
