(* ===== verification/Cert.thy ===== *)
theory Cert
  imports MeshNode
begin

text \<open>
  \<^verbatim>\<open>internal/utils/cert\<close> and the program \<^verbatim>\<open>cmd/certgen\<close> that uses it: the root authority, the certificates of the nodes and
  their PEM files. ASN.1 and the signatures of \<^verbatim>\<open>crypto/x509\<close> and the PEM text are arguments (the record \<open>x509_lib\<close>); what
  their documentation promises is the predicate \<open>x509_laws\<close>. Random numbers and the clock are arguments as well, and every
  write has an outcome.
\<close>

section \<open>Certificates\<close>

datatype ext_usage = ServerAuth | ClientAuth

text \<open>The fields of \<^verbatim>\<open>x509.Certificate\<close> that the code sets or reads. The public key is the raw \<^verbatim>\<open>SubjectPublicKeyInfo\<close>.\<close>

record x509_cert =
  xc_Raw :: bytes
  xc_SerialNumber :: int
  xc_NotBefore :: gotime
  xc_NotAfter :: gotime
  xc_KeyUsage :: int
  xc_ExtKeyUsage :: "ext_usage list"
  xc_BasicConstraintsValid :: bool
  xc_IsCA :: bool
  xc_CommonName :: string
  xc_DNSNames :: "string list"
  xc_IPAddresses :: "netIP list"
  xc_PublicKey :: bytes

datatype pkcs8_key = Ed25519Key bytes | OtherKey

text \<open>\<^verbatim>\<open>CreateCertificate\<close> takes template, parent, public and private key.\<close>

record x509_lib =
  xl_CreateCertificate :: "x509_cert \<Rightarrow> x509_cert \<Rightarrow> bytes \<Rightarrow> bytes \<Rightarrow> bytes option"
  xl_ParseCertificate :: "bytes \<Rightarrow> x509_cert option"
  xl_MarshalPKCS8 :: "bytes \<Rightarrow> bytes option"
  xl_ParsePKCS8 :: "bytes \<Rightarrow> pkcs8_key option"
  xl_PEMEncode :: "string \<Rightarrow> bytes \<Rightarrow> bytes"
  xl_PEMDecode :: "bytes \<Rightarrow> (string \<times> bytes) option"

datatype cert_error = NoRandom | SignFailed | BadCertificate | ReadFailed | WriteFailed | NoPEM | WrongBlock | BadKey | NotEd25519

text \<open>The usage bits of \<^verbatim>\<open>crypto/x509\<close>: digital signature, certificate and list signing. The public half of an ed25519 key is
  its second half.\<close>

definition KeyUsageDigitalSignature :: int where "KeyUsageDigitalSignature = 1"
definition KeyUsageCertSign :: int where "KeyUsageCertSign = 32"
definition KeyUsageCRLSign :: int where "KeyUsageCRLSign = 64"

definition PublicOf :: "bytes \<Rightarrow> bytes" where
  "PublicOf privKey = drop 32 privKey"

unbundle bit_operations_syntax

definition hour :: duration where
  "hour = 3600 * second"

definition parseDER :: "x509_lib \<Rightarrow> bytes option \<Rightarrow> cert_error + x509_cert" where
  "parseDER L der =
     (case der of None \<Rightarrow> Inl SignFailed
      | Some d \<Rightarrow> (case xl_ParseCertificate L d of None \<Rightarrow> Inl BadCertificate | Some c \<Rightarrow> Inr c))"

definition rootTemplate :: "int \<Rightarrow> gotime \<Rightarrow> x509_cert" where
  "rootTemplate serial now =
     \<lparr>xc_Raw = [], xc_SerialNumber = serial, xc_NotBefore = now - hour, xc_NotAfter = now + 3650 * 24 * hour,
      xc_KeyUsage = KeyUsageDigitalSignature OR KeyUsageCertSign OR KeyUsageCRLSign, xc_ExtKeyUsage = [], xc_BasicConstraintsValid = True,
      xc_IsCA = True, xc_CommonName = ''Liberator Root'', xc_DNSNames = [], xc_IPAddresses = [], xc_PublicKey = []\<rparr>"

definition GenerateRootCA :: "x509_lib \<Rightarrow> int option \<Rightarrow> gotime \<Rightarrow> bytes \<Rightarrow> cert_error + x509_cert" where
  "GenerateRootCA L rnd now privKey =
     (case rnd of None \<Rightarrow> Inl NoRandom
      | Some serial \<Rightarrow>
          let template = rootTemplate serial now
          in parseDER L (xl_CreateCertificate L template template (PublicOf privKey) privKey))"

definition nodeTemplate :: "int \<Rightarrow> gotime \<Rightarrow> string \<Rightarrow> netIP \<Rightarrow> x509_cert" where
  "nodeTemplate serial now nodeName nodeIP =
     \<lparr>xc_Raw = [], xc_SerialNumber = serial, xc_NotBefore = now - hour, xc_NotAfter = now + 365 * 24 * hour,
      xc_KeyUsage = KeyUsageDigitalSignature, xc_ExtKeyUsage = [ServerAuth, ClientAuth], xc_BasicConstraintsValid = True,
      xc_IsCA = False, xc_CommonName = nodeName, xc_DNSNames = [nodeName], xc_IPAddresses = [nodeIP], xc_PublicKey = []\<rparr>"

definition IssueNodeCertificate ::
  "x509_lib \<Rightarrow> int option \<Rightarrow> gotime \<Rightarrow> bytes \<Rightarrow> string \<Rightarrow> x509_cert \<Rightarrow> bytes \<Rightarrow> netIP \<Rightarrow> cert_error + x509_cert" where
  "IssueNodeCertificate L rnd now nodePrivKey nodeName caCert caPrivKey nodeIP =
     (case rnd of None \<Rightarrow> Inl NoRandom
      | Some serial \<Rightarrow>
          parseDER L (xl_CreateCertificate L (nodeTemplate serial now nodeName nodeIP) caCert (PublicOf nodePrivKey) caPrivKey))"

text \<open>The leaf is not kept: it is parsed again when it is needed.\<close>

definition X509ToTLSCertificate :: "x509_cert \<Rightarrow> Certificate" where
  "X509ToTLSCertificate c = \<lparr>ct_chain = [xc_Raw c], ct_Leaf = None\<rparr>"

section \<open>Files\<close>

type_synonym files = "(string, bytes) gomap"

text \<open>\<^verbatim>\<open>os.WriteFile\<close> truncates the file when it opens it, so a failing write leaves a beginning of the data.\<close>

datatype write_outcome = Written | NotOpened | Partial nat

definition WriteFile :: "write_outcome \<Rightarrow> string \<Rightarrow> bytes \<Rightarrow> files \<Rightarrow> cert_error option \<times> files" where
  "WriteFile w filename data fs =
     (case w of Written \<Rightarrow> (None, gm_set filename data fs)
      | NotOpened \<Rightarrow> (Some WriteFailed, fs)
      | Partial n \<Rightarrow> (Some WriteFailed, gm_set filename (take n data) fs))"

definition WriteCertificateToFile :: "x509_lib \<Rightarrow> write_outcome \<Rightarrow> string \<Rightarrow> x509_cert \<Rightarrow> files \<Rightarrow> cert_error option \<times> files" where
  "WriteCertificateToFile L w filename cert fs = WriteFile w filename (xl_PEMEncode L ''CERTIFICATE'' (xc_Raw cert)) fs"

definition WritePrivateKeyToFile :: "x509_lib \<Rightarrow> write_outcome \<Rightarrow> string \<Rightarrow> bytes \<Rightarrow> files \<Rightarrow> cert_error option \<times> files" where
  "WritePrivateKeyToFile L w filename privKey fs =
     (case xl_MarshalPKCS8 L privKey of
        None \<Rightarrow> (Some BadKey, fs)
      | Some privBytes \<Rightarrow> WriteFile w filename (xl_PEMEncode L ''PRIVATE KEY'' privBytes) fs)"

definition ReadCertificateFromFile :: "x509_lib \<Rightarrow> string \<Rightarrow> files \<Rightarrow> cert_error + x509_cert" where
  "ReadCertificateFromFile L filename fs =
     (case gm_get fs filename of
        None \<Rightarrow> Inl ReadFailed
      | Some data \<Rightarrow>
          (case xl_PEMDecode L data of
             None \<Rightarrow> Inl NoPEM
           | Some (typ, bs) \<Rightarrow>
               if typ \<noteq> ''CERTIFICATE'' then Inl WrongBlock
               else case xl_ParseCertificate L bs of None \<Rightarrow> Inl BadCertificate | Some c \<Rightarrow> Inr c))"

definition ReadPrivateKeyFromFile :: "x509_lib \<Rightarrow> string \<Rightarrow> files \<Rightarrow> cert_error + bytes" where
  "ReadPrivateKeyFromFile L filename fs =
     (case gm_get fs filename of
        None \<Rightarrow> Inl ReadFailed
      | Some data \<Rightarrow>
          (case xl_PEMDecode L data of
             None \<Rightarrow> Inl NoPEM
           | Some (typ, bs) \<Rightarrow>
               if typ \<noteq> ''PRIVATE KEY'' then Inl WrongBlock
               else case xl_ParsePKCS8 L bs of None \<Rightarrow> Inl BadKey
                    | Some OtherKey \<Rightarrow> Inl NotEd25519
                    | Some (Ed25519Key k) \<Rightarrow> Inr k))"

section \<open>The generator\<close>

text \<open>The sources of the program: the keys, the serial numbers, the clock and the outcomes of the writes, the root first and node
  number i at position i + 1. Every error is a panic (None).\<close>

record gen_sources =
  gs_key :: "nat \<Rightarrow> bytes option"
  gs_serial :: "nat \<Rightarrow> int option"
  gs_now :: "nat \<Rightarrow> gotime"
  gs_keyWrite :: "nat \<Rightarrow> write_outcome"
  gs_certWrite :: "nat \<Rightarrow> write_outcome"

text \<open>\<^verbatim>\<open>path.Join\<close> of the directory \<^verbatim>\<open>./certs\<close> and a name without dots and slashes removes the leading dot.\<close>

definition certFile :: "string \<Rightarrow> string" where
  "certFile name = ''certs/'' @ name"

definition nodeName :: "nat \<Rightarrow> string" where
  "nodeName i = ''node_'' @ show_nat i"

text \<open>Key first, then certificate.\<close>

definition writePair :: "x509_lib \<Rightarrow> gen_sources \<Rightarrow> nat \<Rightarrow> string \<Rightarrow> bytes \<Rightarrow> x509_cert \<Rightarrow> files \<Rightarrow> files option" where
  "writePair L gs n name priv cert fs =
     (case WritePrivateKeyToFile L (gs_keyWrite gs n) (certFile (name @ ''.key'')) priv fs of
        (Some _, _) \<Rightarrow> None
      | (None, fs1) \<Rightarrow>
          (case WriteCertificateToFile L (gs_certWrite gs n) (certFile (name @ ''.crt'')) cert fs1 of
             (Some _, _) \<Rightarrow> None
           | (None, fs2) \<Rightarrow> Some fs2))"

definition issueNode :: "x509_lib \<Rightarrow> gen_sources \<Rightarrow> bytes \<Rightarrow> x509_cert \<Rightarrow> nat \<Rightarrow> files \<Rightarrow> files option" where
  "issueNode L gs rootPrivate rootCert i fs =
     (let childIP = IPv4 10 (of_nat (i + 1)) 0 0; name = nodeName i in
      case gs_key gs (i + 1) of
        None \<Rightarrow> None
      | Some igPriv \<Rightarrow>
          (case IssueNodeCertificate L (gs_serial gs (i + 1)) (gs_now gs (i + 1)) igPriv name rootCert rootPrivate childIP of
             Inl _ \<Rightarrow> None
           | Inr targetCert \<Rightarrow> writePair L gs (i + 1) name igPriv targetCert fs))"

fun issueNodes :: "x509_lib \<Rightarrow> gen_sources \<Rightarrow> bytes \<Rightarrow> x509_cert \<Rightarrow> nat list \<Rightarrow> files \<Rightarrow> files option" where
  "issueNodes L gs rootPrivate rootCert [] fs = Some fs"
| "issueNodes L gs rootPrivate rootCert (i # is) fs =
     (case issueNode L gs rootPrivate rootCert i fs of None \<Rightarrow> None | Some fs1 \<Rightarrow> issueNodes L gs rootPrivate rootCert is fs1)"

definition certgen_main :: "x509_lib \<Rightarrow> gen_sources \<Rightarrow> files \<Rightarrow> files option" where
  "certgen_main L gs fs =
     (case gs_key gs 0 of
        None \<Rightarrow> None
      | Some rootPrivate \<Rightarrow>
          (case GenerateRootCA L (gs_serial gs 0) (gs_now gs 0) rootPrivate of
             Inl _ \<Rightarrow> None
           | Inr rootCert \<Rightarrow>
               (case writePair L gs 0 ''root'' rootPrivate rootCert fs of
                  None \<Rightarrow> None
                | Some fs1 \<Rightarrow> issueNodes L gs rootPrivate rootCert [0..<10] fs1)))"

section \<open>What the files hold\<close>

text \<open>An address is encoded in its shortest form.\<close>

definition shortIP :: "netIP \<Rightarrow> netIP" where
  "shortIP ip = (if To4 ip = [] then ip else To4 ip)"

text \<open>What is documented of the library: a certificate that was made can be parsed, and has the raw form, the addresses, the
  usages and the authority flag it was made with; a PEM block and a PKCS8 key are read back as they were written.\<close>

definition x509_laws :: "x509_lib \<Rightarrow> bool" where
  "x509_laws L \<longleftrightarrow>
     (\<forall>t p pub priv der. xl_CreateCertificate L t p pub priv = Some der \<longrightarrow>
        (\<exists>c. xl_ParseCertificate L der = Some c \<and> xc_Raw c = der \<and> xc_IPAddresses c = map shortIP (xc_IPAddresses t) \<and>
           xc_ExtKeyUsage c = xc_ExtKeyUsage t \<and> xc_IsCA c = xc_IsCA t)) \<and>
     (\<forall>typ \<in> {''CERTIFICATE'', ''PRIVATE KEY''}. \<forall>bs. xl_PEMDecode L (xl_PEMEncode L typ bs) = Some (typ, bs)) \<and>
     (\<forall>k bs. xl_MarshalPKCS8 L k = Some bs \<longrightarrow> xl_ParsePKCS8 L bs = Some (Ed25519Key k))"

lemma made_certificate:
  assumes "x509_laws L" and "parseDER L (xl_CreateCertificate L t p pub priv) = Inr c"
  shows "xl_ParseCertificate L (xc_Raw c) = Some c" "xc_IPAddresses c = map shortIP (xc_IPAddresses t)"
    "xc_ExtKeyUsage c = xc_ExtKeyUsage t" "xc_IsCA c = xc_IsCA t"
  using assms by (fastforce simp: x509_laws_def parseDER_def split: option.splits)+

lemma read_written:
  assumes "x509_laws L"
  shows "gm_get fs f = Some (xl_PEMEncode L ''CERTIFICATE'' (xc_Raw c)) \<Longrightarrow> xl_ParseCertificate L (xc_Raw c) = Some c \<Longrightarrow>
      ReadCertificateFromFile L f fs = Inr c"
    and "gm_get fs f = Some (xl_PEMEncode L ''PRIVATE KEY'' bs) \<Longrightarrow> xl_MarshalPKCS8 L k = Some bs \<Longrightarrow> ReadPrivateKeyFromFile L f fs = Inr k"
  using assms by (simp_all add: x509_laws_def ReadCertificateFromFile_def ReadPrivateKeyFromFile_def)

lemma suffix_differs [simp]: "a @ ''.crt'' \<noteq> b @ ''.key''" "b @ ''.key'' \<noteq> a @ ''.crt''"
proof -
  show "a @ ''.crt'' \<noteq> b @ ''.key''" by (rule notI, drule arg_cong [where f = last]) simp
  then show "b @ ''.key'' \<noteq> a @ ''.crt''" by metis
qed

lemma writePair_reads:
  assumes "x509_laws L" and "xl_ParseCertificate L (xc_Raw cert) = Some cert" and "writePair L gs n name priv cert fs = Some fs'"
  shows "ReadCertificateFromFile L (certFile (name @ ''.crt'')) fs' = Inr cert"
    "ReadPrivateKeyFromFile L (certFile (name @ ''.key'')) fs' = Inr priv"
    "f \<noteq> certFile (name @ ''.crt'') \<Longrightarrow> f \<noteq> certFile (name @ ''.key'') \<Longrightarrow> gm_get fs' f = gm_get fs f"
proof -
  obtain bs where "xl_MarshalPKCS8 L priv = Some bs"
    "fs' = gm_set (certFile (name @ ''.crt'')) (xl_PEMEncode L ''CERTIFICATE'' (xc_Raw cert))
      (gm_set (certFile (name @ ''.key'')) (xl_PEMEncode L ''PRIVATE KEY'' bs) fs)"
    using assms(3) by (auto simp: writePair_def WritePrivateKeyToFile_def WriteCertificateToFile_def WriteFile_def
        split: option.splits prod.splits write_outcome.splits)
  then show "ReadCertificateFromFile L (certFile (name @ ''.crt'')) fs' = Inr cert"
    "ReadPrivateKeyFromFile L (certFile (name @ ''.key'')) fs' = Inr priv"
    "f \<noteq> certFile (name @ ''.crt'') \<Longrightarrow> f \<noteq> certFile (name @ ''.key'') \<Longrightarrow> gm_get fs' f = gm_get fs f"
    using read_written [OF assms(1)] assms(2) by (simp_all add: certFile_def)
qed

lemma Read_cong:
  assumes "gm_get fs' f = gm_get fs f"
  shows "ReadCertificateFromFile L f fs' = ReadCertificateFromFile L f fs" "ReadPrivateKeyFromFile L f fs' = ReadPrivateKeyFromFile L f fs"
  using assms by (simp_all add: ReadCertificateFromFile_def ReadPrivateKeyFromFile_def)

text \<open>The files of node number i, and of the root.\<close>

definition pair_ok :: "x509_lib \<Rightarrow> string \<Rightarrow> bytes \<Rightarrow> (x509_cert \<Rightarrow> bool) \<Rightarrow> files \<Rightarrow> bool" where
  "pair_ok L name priv P fs \<longleftrightarrow> ReadPrivateKeyFromFile L (certFile (name @ ''.key'')) fs = Inr priv \<and>
     (\<exists>c. ReadCertificateFromFile L (certFile (name @ ''.crt'')) fs = Inr c \<and> P c)"

definition node_cert :: "nat \<Rightarrow> x509_cert \<Rightarrow> bool" where
  "node_cert i c \<longleftrightarrow> xc_IPAddresses c = [[10, of_nat (i + 1), 0, 0]] \<and> xc_ExtKeyUsage c = [ServerAuth, ClientAuth] \<and> \<not> xc_IsCA c"

lemma issueNode_reads:
  assumes "x509_laws L" and "issueNode L gs rp rc i fs = Some fs'"
  shows "\<exists>k. gs_key gs (i + 1) = Some k \<and> pair_ok L (nodeName i) k (node_cert i) fs'"
    "f \<noteq> certFile (nodeName i @ ''.crt'') \<Longrightarrow> f \<noteq> certFile (nodeName i @ ''.key'') \<Longrightarrow> gm_get fs' f = gm_get fs f"
proof -
  obtain k c where k: "gs_key gs (i + 1) = Some k" and
    c: "IssueNodeCertificate L (gs_serial gs (i + 1)) (gs_now gs (i + 1)) k (nodeName i) rc rp (IPv4 10 (of_nat (i + 1)) 0 0) = Inr c" and
    w: "writePair L gs (i + 1) (nodeName i) k c fs = Some fs'"
    using assms(2) by (auto simp: issueNode_def Let_def split: option.splits sum.splits)
  obtain serial where "parseDER L (xl_CreateCertificate L (nodeTemplate serial (gs_now gs (i + 1)) (nodeName i) (IPv4 10 (of_nat (i + 1)) 0 0)) rc
      (PublicOf k) rp) = Inr c" using c by (auto simp: IssueNodeCertificate_def split: option.splits)
  note m = made_certificate [OF assms(1) this]
  have "shortIP (IPv4 10 (of_nat (i + 1)) 0 0) = [10, of_nat (i + 1), 0, 0]"
    by (simp add: shortIP_def IPv4_def To4_def v4InV6Prefix_def)
  with m(2-4) have "node_cert i c" by (simp add: node_cert_def nodeTemplate_def)
  with writePair_reads(1,2) [OF assms(1) m(1) w] k show "\<exists>k. gs_key gs (i + 1) = Some k \<and> pair_ok L (nodeName i) k (node_cert i) fs'"
    by (auto simp: pair_ok_def)
  show "f \<noteq> certFile (nodeName i @ ''.crt'') \<Longrightarrow> f \<noteq> certFile (nodeName i @ ''.key'') \<Longrightarrow> gm_get fs' f = gm_get fs f"
    using writePair_reads(3) [OF assms(1) m(1) w] by blast
qed

lemma pair_ok_cong:
  assumes "\<And>f. f \<in> {certFile (name @ ''.crt''), certFile (name @ ''.key'')} \<Longrightarrow> gm_get fs' f = gm_get fs f"
  shows "pair_ok L name k P fs' = pair_ok L name k P fs"
  using assms by (simp add: pair_ok_def Read_cong [of fs' _ fs])

lemma names_distinct:
  "certFile a = certFile b \<longleftrightarrow> a = b" "nodeName i = nodeName j \<longleftrightarrow> i = j" "''root'' @ s \<noteq> nodeName i @ s'"
  by (simp_all add: certFile_def nodeName_def)

lemma issueNodes_keeps:
  assumes "x509_laws L" and "issueNodes L gs rp rc is fs = Some fs'" and "name \<notin> nodeName ` set is"
  shows "pair_ok L name k P fs' = pair_ok L name k P fs"
  using assms(2,3)
proof (induction "is" arbitrary: fs)
  case (Cons j js)
  then obtain fs1 where f: "issueNode L gs rp rc j fs = Some fs1" "issueNodes L gs rp rc js fs1 = Some fs'"
    by (auto split: option.splits)
  have "pair_ok L name k P fs1 = pair_ok L name k P fs"
    by (intro pair_ok_cong issueNode_reads(2) [OF assms(1) f(1)]) (use Cons.prems(2) in \<open>auto simp: names_distinct\<close>)
  with Cons.IH [OF f(2)] Cons.prems(2) show ?case by auto
qed simp

lemma issueNodes_reads:
  assumes "x509_laws L" and "issueNodes L gs rp rc is fs = Some fs'" and "distinct is" and "i \<in> set is"
  shows "\<exists>k. gs_key gs (i + 1) = Some k \<and> pair_ok L (nodeName i) k (node_cert i) fs'"
  using assms(2-4)
proof (induction "is" arbitrary: fs)
  case (Cons j js)
  then obtain fs1 where f: "issueNode L gs rp rc j fs = Some fs1" "issueNodes L gs rp rc js fs1 = Some fs'"
    by (auto split: option.splits)
  show ?case
  proof (cases "i = j")
    case True
    then have "nodeName i \<notin> nodeName ` set js" using Cons.prems(2) by (auto simp: names_distinct)
    with issueNodes_keeps [OF assms(1) f(2)] issueNode_reads(1) [OF assms(1) f(1)] True show ?thesis by auto
  qed (use Cons f in auto)
qed simp

lemma certgen_files:
  assumes "x509_laws L" and "certgen_main L gs fs = Some fs'"
  shows "\<exists>k. gs_key gs 0 = Some k \<and> pair_ok L ''root'' k xc_IsCA fs'"
    and "i < 10 \<Longrightarrow> \<exists>k. gs_key gs (i + 1) = Some k \<and> pair_ok L (nodeName i) k (node_cert i) fs'"
proof -
  obtain k c fs1 where k: "gs_key gs 0 = Some k" and c: "GenerateRootCA L (gs_serial gs 0) (gs_now gs 0) k = Inr c" and
    w: "writePair L gs 0 ''root'' k c fs = Some fs1" and r: "issueNodes L gs k c [0..<10] fs1 = Some fs'"
    using assms(2) by (auto simp: certgen_main_def split: option.splits sum.splits simp del: upt_Suc upt_rec_numeral)
  obtain serial where "parseDER L (xl_CreateCertificate L (rootTemplate serial (gs_now gs 0)) (rootTemplate serial (gs_now gs 0)) (PublicOf k) k) = Inr c"
    using c by (auto simp: GenerateRootCA_def Let_def split: option.splits)
  note m = made_certificate [OF assms(1) this]
  have "pair_ok L ''root'' k xc_IsCA fs1"
    using writePair_reads(1,2) [OF assms(1) m(1) w] m(4) by (auto simp: pair_ok_def rootTemplate_def)
  moreover have "''root'' \<notin> nodeName ` set [0..<10]" using names_distinct(3) [of "[]" _ "[]"] by auto
  ultimately show "\<exists>k. gs_key gs 0 = Some k \<and> pair_ok L ''root'' k xc_IsCA fs'"
    using issueNodes_keeps [OF assms(1) r] k by auto
  show "i < 10 \<Longrightarrow> \<exists>k. gs_key gs (i + 1) = Some k \<and> pair_ok L (nodeName i) k (node_cert i) fs'"
    using issueNodes_reads [OF assms(1) r] by auto
qed

section \<open>An instance\<close>

text \<open>A library with one-byte tags in place of ASN.1 and PEM; it only makes the two kinds of certificate of this module.\<close>

definition exCert :: "bytes \<Rightarrow> bool \<Rightarrow> netIP list \<Rightarrow> x509_cert" where
  "exCert der ca ips = \<lparr>xc_Raw = der, xc_SerialNumber = 0, xc_NotBefore = 0, xc_NotAfter = 0, xc_KeyUsage = 1,
     xc_ExtKeyUsage = (if ca then [] else [ServerAuth, ClientAuth]), xc_BasicConstraintsValid = True, xc_IsCA = ca, xc_CommonName = '''',
     xc_DNSNames = [], xc_IPAddresses = ips, xc_PublicKey = der\<rparr>"

definition exLib :: x509_lib where
  "exLib =
     \<lparr>xl_CreateCertificate = (\<lambda>t p pub priv.
        if xc_IsCA t \<and> xc_IPAddresses t = [] \<and> xc_ExtKeyUsage t = [] then Some (0 # pub)
        else if \<not> xc_IsCA t \<and> xc_ExtKeyUsage t = [ServerAuth, ClientAuth] \<and> length (xc_IPAddresses t) = 1 \<and> length (To4 (hd (xc_IPAddresses t))) = 4
        then Some (1 # To4 (hd (xc_IPAddresses t)) @ pub) else None),
      xl_ParseCertificate = (\<lambda>der. case der of [] \<Rightarrow> None | b # bs \<Rightarrow> Some (exCert der (b = 0) (if b = 0 then [] else [take 4 bs]))),
      xl_MarshalPKCS8 = Some, xl_ParsePKCS8 = (\<lambda>bs. Some (Ed25519Key bs)),
      xl_PEMEncode = (\<lambda>typ bs. (if typ = ''CERTIFICATE'' then 0 else 1) # bs),
      xl_PEMDecode = (\<lambda>data. case data of [] \<Rightarrow> None | b # bs \<Rightarrow> Some (if b = 0 then ''CERTIFICATE'' else ''PRIVATE KEY'', bs))\<rparr>"

lemma exLib_laws: "x509_laws exLib"
proof -
  have "\<exists>ip. xs = [ip]" if "length xs = Suc 0" for xs :: "netIP list" using that by (auto simp: length_Suc_conv)
  then show ?thesis by (fastforce simp: x509_laws_def exLib_def exCert_def shortIP_def split: if_splits)
qed

definition exSources :: gen_sources where
  "exSources = \<lparr>gs_key = (\<lambda>n. Some (replicate 32 0 @ replicate 32 (of_nat n))), gs_serial = (\<lambda>n. Some (int n)), gs_now = (\<lambda>_. 0),
     gs_keyWrite = (\<lambda>_. Written), gs_certWrite = (\<lambda>_. Written)\<rparr>"

lemma exSources_write: "writePair exLib exSources n name priv cert fs \<noteq> None"
  by (simp add: writePair_def WritePrivateKeyToFile_def WriteCertificateToFile_def WriteFile_def exLib_def exSources_def)

lemma exSources_issue: "issueNode exLib exSources rp rc i fs \<noteq> None"
proof -
  have "\<exists>c. IssueNodeCertificate exLib (gs_serial exSources (i + 1)) now k name rc rp (IPv4 10 b 0 0) = Inr c" for now k name b
    by (simp add: IssueNodeCertificate_def exSources_def exLib_def nodeTemplate_def IPv4_def To4_def v4InV6Prefix_def parseDER_def)
  then obtain c where "IssueNodeCertificate exLib (gs_serial exSources (i + 1)) (gs_now exSources (i + 1))
      (replicate 32 0 @ replicate 32 (of_nat (i + 1))) (nodeName i) rc rp (IPv4 10 (of_nat (i + 1)) 0 0) = Inr c" by blast
  moreover have "gs_key exSources (i + 1) = Some (replicate 32 0 @ replicate 32 (of_nat (i + 1)))" by (simp only: exSources_def gen_sources.select_convs)
  ultimately show ?thesis using exSources_write by (simp only: issueNode_def Let_def option.case sum.case not_False_eq_True)
qed

lemma exSources_nodes: "issueNodes exLib exSources rp rc is fs \<noteq> None"
  by (induction "is" arbitrary: fs) (use exSources_issue in \<open>auto split: option.split\<close>)

lemma exSources_main: "\<exists>fs'. certgen_main exLib exSources [] = Some fs'"
proof -
  obtain k where k: "gs_key exSources 0 = Some k" by (simp add: exSources_def)
  obtain c where c: "GenerateRootCA exLib (gs_serial exSources 0) (gs_now exSources 0) k = Inr c"
    by (simp add: GenerateRootCA_def exSources_def exLib_def rootTemplate_def parseDER_def Let_def)
  obtain fs1 where f: "writePair exLib exSources 0 ''root'' k c [] = Some fs1" using exSources_write by blast
  obtain fs2 where "issueNodes exLib exSources k c [0..<10] fs1 = Some fs2" using exSources_nodes by blast
  then show ?thesis by (simp only: certgen_main_def k c f option.case sum.case) blast
qed

end
