(* ===== verification/QuicTransport.thy ===== *)
theory QuicTransport
  imports Cert
begin

text \<open>
  \<^verbatim>\<open>pkg/mesh/transport\<close>: the mutually authenticated QUIC connections under the mesh, and the unused listener of
  \<^verbatim>\<open>internal/utils/quictransport\<close>. A connection of \<^verbatim>\<open>quic-go\<close> is an argument, the record \<open>quic_port\<close> of the
  operations the code calls; \<^verbatim>\<open>x509.Certificate.Verify\<close> is an argument that has the roots; of \<^verbatim>\<open>crypto/tls\<close> the model
  has which verifications a handshake runs.
\<close>

section \<open>Configuration\<close>

datatype client_auth = NoClientCert | RequireAndVerifyClientCert

record tls_config =
  tl_NextProtos :: "string list"
  tl_InsecureSkipVerify :: bool
  tl_ClientAuth :: client_auth
  tl_VerifyConnection :: "x509_cert list \<Rightarrow> bool"

record quic_config =
  qf_MaxIncomingUniStreams :: nat
  qf_MaxIncomingStreams :: nat
  qf_MaxIdleTimeout :: duration
  qf_KeepAlivePeriod :: duration
  qf_EnableDatagrams :: bool

type_synonym chain_verifier = "x509_cert \<Rightarrow> ext_usage list \<Rightarrow> gotime \<Rightarrow> bool"

definition verifyPeer :: "chain_verifier \<Rightarrow> gotime \<Rightarrow> x509_cert list \<Rightarrow> bool" where
  "verifyPeer verify now certs = (case certs of [] \<Rightarrow> False | leaf # _ \<Rightarrow> verify leaf [ServerAuth, ClientAuth] now)"

definition clientTLS :: "chain_verifier \<Rightarrow> gotime \<Rightarrow> tls_config" where
  "clientTLS verify now = \<lparr>tl_NextProtos = [''mesh-quic''], tl_InsecureSkipVerify = True, tl_ClientAuth = NoClientCert,
     tl_VerifyConnection = verifyPeer verify now\<rparr>"

definition serverTLS :: "chain_verifier \<Rightarrow> gotime \<Rightarrow> tls_config" where
  "serverTLS verify now = \<lparr>tl_NextProtos = [''mesh-quic''], tl_InsecureSkipVerify = False, tl_ClientAuth = RequireAndVerifyClientCert,
     tl_VerifyConnection = verifyPeer verify now\<rparr>"

definition meshQuicConfig :: quic_config where
  "meshQuicConfig = \<lparr>qf_MaxIncomingUniStreams = 50, qf_MaxIncomingStreams = 200, qf_MaxIdleTimeout = 30 * second,
     qf_KeepAlivePeriod = 10 * second, qf_EnableDatagrams = True\<rparr>"

text \<open>The checks of a handshake of \<^verbatim>\<open>crypto/tls\<close> on the certificates of the other side: a client checks host name and chain
  (\<open>hostOk\<close>) unless it is told to skip that, a server that requires a certificate verifies it for client authentication, and
  both run \<^verbatim>\<open>VerifyConnection\<close> last.\<close>

definition clientAccepts :: "(x509_cert list \<Rightarrow> bool) \<Rightarrow> tls_config \<Rightarrow> x509_cert list \<Rightarrow> bool" where
  "clientAccepts hostOk c certs \<longleftrightarrow> (tl_InsecureSkipVerify c \<or> hostOk certs) \<and> tl_VerifyConnection c certs"

definition serverAccepts :: "chain_verifier \<Rightarrow> gotime \<Rightarrow> tls_config \<Rightarrow> x509_cert list \<Rightarrow> bool" where
  "serverAccepts verify now c certs \<longleftrightarrow>
     (tl_ClientAuth c = RequireAndVerifyClientCert \<longrightarrow> certs \<noteq> [] \<and> verify (hd certs) [ClientAuth] now) \<and> tl_VerifyConnection c certs"

section \<open>The transport\<close>

datatype quic_error = ResolveFailed | ListenUDPFailed | QuicListenFailed | DialFailed | AcceptFailed | Unauthenticated

text \<open>The UDP socket and the listener of the transport, open or closed; \<open>verify\<close> has the pool of roots.\<close>

record quicTransport =
  qt_verify :: chain_verifier
  qt_quicConfig :: quic_config
  qt_localAddr :: string
  qt_listening :: bool
  qt_socketOpen :: bool

record udp_outcomes =
  uo_Resolve :: bool
  uo_ListenUDP :: "string option"
  uo_QuicListen :: bool

text \<open>The second component: a socket is left open.\<close>

definition NewQuicTransport :: "chain_verifier \<Rightarrow> udp_outcomes \<Rightarrow> (quic_error + quicTransport) \<times> bool" where
  "NewQuicTransport verify u =
     (if \<not> uo_Resolve u then (Inl ResolveFailed, False)
      else case uo_ListenUDP u of
             None \<Rightarrow> (Inl ListenUDPFailed, False)
           | Some addr \<Rightarrow>
               if \<not> uo_QuicListen u then (Inl QuicListenFailed, False)
               else (Inr \<lparr>qt_verify = verify, qt_quicConfig = meshQuicConfig, qt_localAddr = addr, qt_listening = True, qt_socketOpen = True\<rparr>, True))"

definition quic_Close :: "quicTransport \<Rightarrow> quicTransport" where
  "quic_Close t = t\<lparr>qt_listening := False\<rparr>"

section \<open>Connections\<close>

record ('q, 'st) quic_port =
  qp_PeerCertificates :: "'q \<Rightarrow> x509_cert list"
  qp_SendDatagram :: "bytes \<Rightarrow> 'q \<Rightarrow> bool \<times> 'q"
  qp_ReceiveDatagram :: "'q \<Rightarrow> bytes option \<times> 'q"
  qp_CloseWithError :: "string \<Rightarrow> 'q \<Rightarrow> 'q"
  qp_OpenStreamSync :: "'q \<Rightarrow> 'st option \<times> 'q"
  qp_AcceptStream :: "'q \<Rightarrow> 'st option \<times> 'q"
  qp_LocalAddr :: "'q \<Rightarrow> string"
  qp_RemoteAddr :: "'q \<Rightarrow> string"

record 'q quicPeerConnection =
  pc_id :: string
  pc_conn :: 'q
  pc_isInitiator :: bool
  pc_totalSent :: u64
  pc_totalRecv :: u64

definition wrapConnection ::
  "(bytes \<Rightarrow> bytes) \<Rightarrow> ('q, 'st) quic_port \<Rightarrow> 'q \<Rightarrow> bool \<Rightarrow> (quic_error + 'q quicPeerConnection) \<times> 'q" where
  "wrapConnection sha256 P qConn isInitiator =
     (case qp_PeerCertificates P qConn of
        [] \<Rightarrow> (Inl Unauthenticated, qp_CloseWithError P ''missing cert'' qConn)
      | leaf # _ \<Rightarrow>
          (Inr \<lparr>pc_id = hexEncode (sha256 (xc_PublicKey leaf)), pc_conn = qConn, pc_isInitiator = isInitiator,
                pc_totalSent = 0, pc_totalRecv = 0\<rparr>, qConn))"

text \<open>\<open>dialed\<close> and \<open>accepted\<close> are the connections that \<^verbatim>\<open>quic-go\<close> gives, None an error.\<close>

definition quic_Dial ::
  "(bytes \<Rightarrow> bytes) \<Rightarrow> ('q, 'st) quic_port \<Rightarrow> bool \<Rightarrow> 'q option \<Rightarrow> quic_error + 'q quicPeerConnection" where
  "quic_Dial sha256 P resolveOk dialed =
     (if \<not> resolveOk then Inl ResolveFailed
      else case dialed of None \<Rightarrow> Inl DialFailed | Some qConn \<Rightarrow> fst (wrapConnection sha256 P qConn True))"

definition quic_Accept :: "(bytes \<Rightarrow> bytes) \<Rightarrow> ('q, 'st) quic_port \<Rightarrow> 'q option \<Rightarrow> quic_error + 'q quicPeerConnection" where
  "quic_Accept sha256 P accepted =
     (case accepted of None \<Rightarrow> Inl AcceptFailed | Some qConn \<Rightarrow> fst (wrapConnection sha256 P qConn False))"

definition pc_SendDatagram :: "('q, 'st) quic_port \<Rightarrow> bytes \<Rightarrow> 'q quicPeerConnection \<Rightarrow> bool \<times> 'q quicPeerConnection" where
  "pc_SendDatagram P d pc =
     (let pc1 = pc\<lparr>pc_totalSent := pc_totalSent pc + of_nat (length d)\<rparr>; (ok, q) = qp_SendDatagram P d (pc_conn pc1)
      in (ok, pc1\<lparr>pc_conn := q\<rparr>))"

definition pc_RecvDatagram :: "('q, 'st) quic_port \<Rightarrow> 'q quicPeerConnection \<Rightarrow> bytes option \<times> 'q quicPeerConnection" where
  "pc_RecvDatagram P pc =
     (case qp_ReceiveDatagram P (pc_conn pc) of
        (None, q) \<Rightarrow> (None, pc\<lparr>pc_conn := q\<rparr>)
      | (Some d, q) \<Rightarrow> (Some d, pc\<lparr>pc_conn := q, pc_totalRecv := pc_totalRecv pc + of_nat (length d)\<rparr>))"

definition pc_Close :: "('q, 'st) quic_port \<Rightarrow> 'q quicPeerConnection \<Rightarrow> 'q quicPeerConnection" where
  "pc_Close P pc = pc\<lparr>pc_conn := qp_CloseWithError P ''session closed'' (pc_conn pc)\<rparr>"

text \<open>The stream adapter is a stream with two addresses; its methods are those of the stream.\<close>

record 'st biStreamConnAdapter =
  bs_stream :: 'st
  bs_localAddr :: string
  bs_remoteAddr :: string

definition NewBiStreamConn :: "'st \<Rightarrow> string \<Rightarrow> string \<Rightarrow> 'st biStreamConnAdapter" where
  "NewBiStreamConn stream localAddr remoteAddr = \<lparr>bs_stream = stream, bs_localAddr = localAddr, bs_remoteAddr = remoteAddr\<rparr>"

definition wrapStream ::
  "('q, 'st) quic_port \<Rightarrow> 'q quicPeerConnection \<Rightarrow> 'st option \<times> 'q \<Rightarrow> 'st biStreamConnAdapter option \<times> 'q quicPeerConnection" where
  "wrapStream P pc r =
     (map_option (\<lambda>stream. NewBiStreamConn stream (qp_LocalAddr P (snd r)) (qp_RemoteAddr P (snd r))) (fst r), pc\<lparr>pc_conn := snd r\<rparr>)"

definition pc_OpenStream :: "('q, 'st) quic_port \<Rightarrow> 'q quicPeerConnection \<Rightarrow> 'st biStreamConnAdapter option \<times> 'q quicPeerConnection" where
  "pc_OpenStream P pc = wrapStream P pc (qp_OpenStreamSync P (pc_conn pc))"

definition pc_AcceptStream :: "('q, 'st) quic_port \<Rightarrow> 'q quicPeerConnection \<Rightarrow> 'st biStreamConnAdapter option \<times> 'q quicPeerConnection" where
  "pc_AcceptStream P pc = wrapStream P pc (qp_AcceptStream P (pc_conn pc))"

section \<open>The unused listener\<close>

text \<open>\<^verbatim>\<open>quictransport.BiStreamLis\<close>: unlike the listener of the sessions, its \<^verbatim>\<open>Close\<close> closes the channel and not the context.\<close>

record 'c old_lis =
  ol_done :: bool
  ol_streamChan :: "'c chan"

definition old_New :: "'c old_lis" where
  "old_New = \<lparr>ol_done = False, ol_streamChan = mkchan 1\<rparr>"

definition old_Close :: "'c old_lis \<Rightarrow> 'c old_lis" where
  "old_Close l = l\<lparr>ol_streamChan := (ol_streamChan l)\<lparr>ch_closed := True\<rparr>\<rparr>"

datatype 'c old_accept = OldConn 'c | OldNil | OldErr | OldBlocks

text \<open>A receive from a closed channel gives nil.\<close>

definition old_Accept :: "bool \<Rightarrow> 'c old_lis \<Rightarrow> 'c old_accept \<times> 'c old_lis" where
  "old_Accept pickDone l =
     (if ol_done l \<and> (pickDone \<or> chan_recv (ol_streamChan l) = None \<and> \<not> ch_closed (ol_streamChan l)) then (OldErr, l)
      else case chan_recv (ol_streamChan l) of
             Some (c, ch) \<Rightarrow> (OldConn c, l\<lparr>ol_streamChan := ch\<rparr>)
           | None \<Rightarrow> if ch_closed (ol_streamChan l) then (OldNil, l) else (OldBlocks, l))"

text \<open>The send blocks on a full channel (the second component is then unchanged) and panics on a closed one.\<close>

definition old_PushConnection :: "'c \<Rightarrow> 'c old_lis \<Rightarrow> (bool \<times> 'c old_lis) option" where
  "old_PushConnection c l =
     (let ch = ol_streamChan l in
      if ch_closed ch then None
      else if length (ch_buf ch) < ch_cap ch then Some (True, l\<lparr>ol_streamChan := ch\<lparr>ch_buf := ch_buf ch @ [c]\<rparr>\<rparr>)
      else Some (False, l))"

section \<open>Who is at the other end\<close>

text \<open>The documented meaning of \<^verbatim>\<open>KeyUsages\<close> in \<^verbatim>\<open>x509.VerifyOptions\<close>: a chain is accepted if it allows any of the listed usages.\<close>

definition any_usage :: "chain_verifier \<Rightarrow> bool" where
  "any_usage verify \<longleftrightarrow> (\<forall>c us now. verify c us now \<longleftrightarrow> (\<exists>u \<in> set us. verify c [u] now))"


definition exConn :: "(x509_cert list, unit) quic_port" where
  "exConn = \<lparr>qp_PeerCertificates = id, qp_SendDatagram = (\<lambda>d q. (False, q)), qp_ReceiveDatagram = (\<lambda>q. (None, q)), qp_CloseWithError = (\<lambda>_ q. q),
     qp_OpenStreamSync = (\<lambda>q. (None, q)), qp_AcceptStream = (\<lambda>q. (None, q)), qp_LocalAddr = (\<lambda>_. ''''), qp_RemoteAddr = (\<lambda>_. '''')\<rparr>"


section \<open>Counters\<close>

datatype pc_op = DoSend bytes | DoRecv

text \<open>What a run of operations was given to send and what it received.\<close>

fun pc_run :: "('q, 'st) quic_port \<Rightarrow> pc_op list \<Rightarrow> 'q quicPeerConnection \<Rightarrow> bytes list \<times> 'q quicPeerConnection" where
  "pc_run P [] pc = ([], pc)"
| "pc_run P (DoSend d # ops) pc = pc_run P ops (snd (pc_SendDatagram P d pc))"
| "pc_run P (DoRecv # ops) pc =
     (let (r, pc1) = pc_RecvDatagram P pc; (rs, pc2) = pc_run P ops pc1 in (case r of None \<Rightarrow> rs | Some d \<Rightarrow> d # rs, pc2))"

fun offered :: "pc_op list \<Rightarrow> nat" where
  "offered [] = 0"
| "offered (DoSend d # ops) = length d + offered ops"
| "offered (DoRecv # ops) = offered ops"

text \<open>The counters of a connection, modulo two to the 64: bytes received, and bytes offered for sending, the ones of failed sends
  included.\<close>

lemma traffic_counters:
  assumes "pc_run P ops pc = (rs, pc')"
  shows "pc_totalSent pc' = pc_totalSent pc + of_nat (offered ops) \<and> pc_totalRecv pc' = pc_totalRecv pc + of_nat (length (concat rs)) \<and> pc_id pc' = pc_id pc"
  using assms
proof (induction P ops pc arbitrary: rs rule: pc_run.induct)
  case (2 P d ops pc)
  from 2(1) [of rs] 2(2) show ?case by (simp add: pc_SendDatagram_def Let_def split: prod.splits)
next
  case (3 P ops pc)
  obtain r pc1 rs1 where r: "pc_RecvDatagram P pc = (r, pc1)" "pc_run P ops pc1 = (rs1, pc')" "rs = (case r of None \<Rightarrow> rs1 | Some d \<Rightarrow> d # rs1)"
    using 3(2) by (auto split: prod.splits)
  from 3(1) [OF r(1) [symmetric] refl r(2)] r(1,3) show ?case by (auto simp: pc_RecvDatagram_def split: prod.splits option.splits)
qed simp

text \<open>A closed transport still has its socket.\<close>

lemma closed_transport_socket:
  "NewQuicTransport verify u = (Inr t, leaked) \<Longrightarrow> qt_socketOpen (quic_Close t) \<and> leaked"
  by (auto simp: NewQuicTransport_def quic_Close_def split: if_splits option.splits)

text \<open>After \<^verbatim>\<open>Close\<close> an empty listener accepts nil without an error, and a push panics.\<close>

lemma old_lis_closed:
  "ch_buf (ol_streamChan l) = [] \<Longrightarrow> \<not> ol_done l \<Longrightarrow> old_Accept b (old_Close l) = (OldNil, old_Close l) \<and> old_PushConnection c (old_Close l) = None"
  by (simp add: old_Accept_def old_Close_def old_PushConnection_def chan_recv_def Let_def)

end
