(* ===== verification/MeshRun.thy ===== *)
theory MeshRun
  imports MeshNode
begin

text \<open>
  \<^verbatim>\<open>Run\<close> of \<^verbatim>\<open>pkg/mesh/node.go\<close> as a transition system: the goroutines that \<^verbatim>\<open>Run\<close>, \<^verbatim>\<open>DiscoverySyncer.Start\<close> and
  \<^verbatim>\<open>PeersSyncSyncer.Start\<close> launch, each iteration of a loop one step, in any interleaving. The state is the node together with
  what the goroutines hold: the dials, the subscribed channels, the streams to neighbours. What comes from outside (accepted and
  dialled connections, messages, datagrams, the clock, the outcome of \<^verbatim>\<open>grpc.NewClient\<close>) is chosen freely by the steps.
\<close>

section \<open>State\<close>

datatype stream_kind = DiscoveryStream | ClientsStream | RulesStream

record ('l, 'w, 'c) mesh_run =
  mr_node :: "('l, 'w, 'c) MeshNode"
  mr_connecting :: "string list"           \<comment> \<open>started \<^verbatim>\<open>go ds.connect\<close> that have not run yet\<close>
  mr_inflight :: "string list"             \<comment> \<open>inside \<^verbatim>\<open>transport.Dial\<close>\<close>
  mr_peerCh :: "nat option"                \<comment> \<open>\<^verbatim>\<open>listenForNewPeers\<close>\<close>
  mr_discCh :: "nat option"                \<comment> \<open>\<^verbatim>\<open>listenForNewSessions\<close>\<close>
  mr_syncCh :: "nat option"                \<comment> \<open>\<^verbatim>\<open>PeersSyncSyncer.Start\<close>\<close>
  mr_streams :: "(stream_kind \<times> nat) list" \<comment> \<open>running \<^verbatim>\<open>RunWhileConnected\<close>, with their session\<close>
  mr_lost :: bool                          \<comment> \<open>a session was offered to a full channel\<close>

abbreviation mr_registry :: "('l, 'w, 'c) mesh_run \<Rightarrow> sessionRegistry" where
  "mr_registry s \<equiv> mn_registry (mr_node s)"

abbreviation mr_repo :: "('l, 'w, 'c) mesh_run \<Rightarrow> inMemoryState" where
  "mr_repo s \<equiv> en_repo (mn_engine (mr_node s))"

definition set_registry :: "sessionRegistry \<Rightarrow> ('l, 'w, 'c) mesh_run \<Rightarrow> ('l, 'w, 'c) mesh_run" where
  "set_registry r s = s\<lparr>mr_node := set_engine ((mn_engine (mr_node s))\<lparr>en_registry := r\<rparr>) (mr_node s)\<rparr>"

definition set_repo :: "inMemoryState \<Rightarrow> ('l, 'w, 'c) mesh_run \<Rightarrow> ('l, 'w, 'c) mesh_run" where
  "set_repo r s = s\<lparr>mr_node := set_engine ((mn_engine (mr_node s))\<lparr>en_repo := r\<rparr>) (mr_node s)\<rparr>"

definition set_syncer :: "('l, 'w mesh_net, 'c) DiscoverySyncer \<Rightarrow> ('l, 'w, 'c) mesh_run \<Rightarrow> ('l, 'w, 'c) mesh_run" where
  "set_syncer ds s = s\<lparr>mr_node := (mr_node s)\<lparr>mn_syncer := ds\<rparr>\<rparr>"

text \<open>\<^verbatim>\<open>Run\<close> at its start, with the address of the transport; the bootstrap dials are already launched.\<close>

definition mesh_start :: "string option \<Rightarrow> ('l, 'w, 'c) MeshNode \<Rightarrow> ('l, 'w, 'c) mesh_run" where
  "mesh_start tAddr n =
     \<lparr>mr_node = n, mr_connecting = connectToBootstrap tAddr (mn_syncer n), mr_inflight = [], mr_peerCh = None, mr_discCh = None,
      mr_syncCh = None, mr_streams = [], mr_lost = False\<rparr>"

definition chan_buf :: "nat \<Rightarrow> 'e bus \<Rightarrow> 'e list" where
  "chan_buf ch b = (case gm_get (bus_chans b) ch of None \<Rightarrow> [] | Some c \<Rightarrow> ch_buf c)"

definition has_room :: "'e bus \<Rightarrow> nat option \<Rightarrow> bool" where
  "has_room b w = (case w of None \<Rightarrow> True | Some ch \<Rightarrow>
     (case gm_get (bus_chans b) ch of None \<Rightarrow> False | Some c \<Rightarrow> length (ch_buf c) < ch_cap c))"

text \<open>Every admission is offered to the two listeners; \<open>mr_lost\<close> records that one of them had no room.\<close>

definition offered :: "('l, 'w, 'c) mesh_run \<Rightarrow> bool" where
  "offered s \<longleftrightarrow> has_room (rg_subs (mr_registry s)) (mr_discCh s) \<and> has_room (rg_subs (mr_registry s)) (mr_syncCh s)"

text \<open>What the two listeners start for a new session, each under \<^verbatim>\<open>RunWhileConnected\<close>.\<close>

definition startDiscoveryStream :: "nat \<Rightarrow> (stream_kind \<times> nat) list \<Rightarrow> (stream_kind \<times> nat) list" where
  "startDiscoveryStream i streams = (DiscoveryStream, i) # streams"

definition startSyncStreams :: "nat \<Rightarrow> (stream_kind \<times> nat) list \<Rightarrow> (stream_kind \<times> nat) list" where
  "startSyncStreams i streams = (ClientsStream, i) # (RulesStream, i) # streams"

lemmas start_streams [simp] = startDiscoveryStream_def startSyncStreams_def

section \<open>Steps\<close>

inductive mesh_step :: "('l, 'w, 'c) mesh_run \<Rightarrow> ('l, 'w, 'c) mesh_run \<Rightarrow> bool" where
  accept: "gm_get (rg_heap (mr_registry s)) i = None \<Longrightarrow> acceptConn grpcOk clk i conn (mr_node s) = Some (own, n) \<Longrightarrow>
    mesh_step s (s\<lparr>mr_node := n, mr_lost := mr_lost s \<or> \<not> offered s\<rparr>)"
| dial: "addr \<in> set (mr_connecting s) \<Longrightarrow> connect_begin addr (mn_syncer (mr_node s)) = (ok, ds) \<Longrightarrow>
    mesh_step s (set_syncer ds s\<lparr>mr_connecting := remove1 addr (mr_connecting s),
      mr_inflight := (if ok then addr # mr_inflight s else mr_inflight s)\<rparr>)"
| dialled: "addr \<in> set (mr_inflight s) \<Longrightarrow> gm_get (rg_heap (mr_registry s)) i = None \<Longrightarrow>
    connect_end grpcOk clk i conn addr (mn_syncer (mr_node s)) = Some ds \<Longrightarrow>
    mesh_step s (set_syncer ds s\<lparr>mr_inflight := remove1 addr (mr_inflight s), mr_lost := mr_lost s \<or> \<not> offered s\<rparr>)"
| refresh: "refreshPeers now (mn_syncer (mr_node s)) = Some (ds, dials) \<Longrightarrow>
    mesh_step s (set_syncer ds s\<lparr>mr_connecting := mr_connecting s @ dials\<rparr>)"
| listen_peers: "mr_peerCh s = None \<Longrightarrow> ms_Subscribe (mr_repo s) = (ch, repo) \<Longrightarrow>
    mesh_step s (set_repo repo s\<lparr>mr_peerCh := Some ch\<rparr>)"
| peer_event: "mr_peerCh s = Some ch \<Longrightarrow> bus_recv ch (ms_subs (mr_repo s)) = Some (ev, b) \<Longrightarrow>
    mesh_step s (set_repo ((mr_repo s)\<lparr>ms_subs := b\<rparr>) s\<lparr>mr_connecting := mr_connecting s @
      (case onPeerEvent ev (mn_syncer (mr_node s)) of None \<Rightarrow> [] | Some addr \<Rightarrow> [addr])\<rparr>)"
| listen_disc: "mr_discCh s = None \<Longrightarrow> SubscribeNewSessions (mr_registry s) = (ch, r) \<Longrightarrow>
    mesh_step s (set_registry r s\<lparr>mr_discCh := Some ch\<rparr>)"
| disc_session: "mr_discCh s = Some ch \<Longrightarrow> bus_recv ch (rg_subs (mr_registry s)) = Some (i, b) \<Longrightarrow>
    mesh_step s (set_registry ((mr_registry s)\<lparr>rg_subs := b\<rparr>) s\<lparr>mr_streams := startDiscoveryStream i (mr_streams s)\<rparr>)"
| listen_sync: "mr_syncCh s = None \<Longrightarrow> SubscribeNewSessions (mr_registry s) = (ch, r) \<Longrightarrow>
    mesh_step s (set_registry r s\<lparr>mr_syncCh := Some ch\<rparr>)"
| sync_session: "mr_syncCh s = Some ch \<Longrightarrow> bus_recv ch (rg_subs (mr_registry s)) = Some (i, b) \<Longrightarrow>
    mesh_step s (set_registry ((mr_registry s)\<lparr>rg_subs := b\<rparr>) s\<lparr>mr_streams := startSyncStreams i (mr_streams s)\<rparr>)"
| disc_message: "(DiscoveryStream, i) \<in> set (mr_streams s) \<Longrightarrow> applyDiscoveryEvent (mr_registry s) dev (mr_repo s) = Some repo \<Longrightarrow>
    mesh_step s (set_repo repo s)"
| rules_message: "(RulesStream, i) \<in> set (mr_streams s) \<Longrightarrow> gm_get (rg_heap (mr_registry s)) i = Some ss \<Longrightarrow>
    mesh_step s (s\<lparr>mr_node := mn_setRouter (applyRuleEvent the_router (mn_localID (mr_node s)) (ss_PeerID ss) uev (mn_router (mr_node s))) (mr_node s)\<rparr>)"
| clients_message: "(ClientsStream, i) \<in> set (mr_streams s) \<Longrightarrow> gm_get (rg_heap (mr_registry s)) i = Some ss \<Longrightarrow>
    mesh_step s (s\<lparr>mr_node := mn_setRouter (applyClientEvent the_router (mn_cancelled (mr_node s)) (mn_localID (mr_node s)) (ss_PeerID ss) cev
      (mn_router (mr_node s))) (mr_node s)\<rparr>)"
| stream_over: "(k, i) \<in> set (mr_streams s) \<Longrightarrow> gm_get (rg_heap (mr_registry s)) i = Some ss \<Longrightarrow> ss_dead ss \<or> mn_cancelled (mr_node s) \<Longrightarrow>
    mesh_step s (s\<lparr>mr_streams := removeAll (k, i) (mr_streams s)\<rparr>)"
| neighbour_stream: "mesh_step s (s\<lparr>mr_node := set_engine (session_stream pickDone st (mn_engine (mr_node s))) (mr_node s)\<rparr>)"
| datagram: "session_datagram choice d (mn_engine (mr_node s)) = Some e \<Longrightarrow> mesh_step s (s\<lparr>mr_node := set_engine e (mr_node s)\<rparr>)"
| connection_dies: "mesh_step s (set_registry (closeSession i (mr_registry s)) s)"
| session_over: "mesh_step s (s\<lparr>mr_node := set_engine (session_end i (mn_engine (mr_node s))) (mr_node s)\<rparr>)"
| send: "meshSender (mr_node s) = Some (out, n) \<Longrightarrow> mesh_step s (s\<lparr>mr_node := n\<rparr>)"
| router_work: "mesh_step s (s\<lparr>mr_node := mn_setRouter r (mr_node s)\<rparr>)"
| cancelled: "mesh_step s (s\<lparr>mr_node := (mr_node s)\<lparr>mn_cancelled := True\<rparr>\<rparr>)"
| unsubscribe: "mn_cancelled (mr_node s) \<Longrightarrow> reg_cancel ch (mr_registry s) = Some r \<Longrightarrow> mesh_step s (set_registry r s)"
| leave_peers: "mn_cancelled (mr_node s) \<Longrightarrow> ms_cancel ch (mr_repo s) = Some repo \<Longrightarrow> mesh_step s (set_repo repo s)"
| shutdown: "mesh_shutdown (mr_node s) = Some n \<Longrightarrow> mesh_step s (s\<lparr>mr_node := n\<rparr>)"

section \<open>A peer map that takes records\<close>

text \<open>
  All that the running node needs of the peer map it loaded: it is not nil, and its event bus is in order. Records of the
  file may sit under a foreign identifier or share an address.
\<close>

definition topo_live :: "inMemoryState \<Rightarrow> bool" where
  "topo_live s \<longleftrightarrow> bus_ok (ms_subs s) \<and> \<not> ms_nil s"

lemma topo_live_New: "topo_live newInMemoryState"
  by (simp add: topo_live_def newInMemoryState_def bus_ok_New)

lemma ms_notify_all_live: "topo_live s \<Longrightarrow> \<exists>s'. ms_notify_all evs (s\<lparr>ms_peers := m\<rparr>) = Some s' \<and> topo_live s'"
  using notify_seq_total [of "ms_subs s" evs] by (auto simp: topo_live_def)

lemma InsertMerge_live:
  assumes "topo_live s"
  shows "\<exists>b s'. InsertMerge u s = Some (b, s') \<and> topo_live s'"
proof (cases "pi_ID u = ''''")
  case False
  have "mergeLocked u s \<noteq> None" using assms by (auto simp: topo_live_def mergeLocked_def Let_def split_beta split: option.splits)
  then obtain b m evs where "mergeLocked u s = Some (b, m, evs)" by auto
  with False ms_notify_all_live [OF assms, of evs m] show ?thesis by (auto simp: InsertMerge_def simp del: ms_notify_all.simps)
qed (use assms in \<open>auto simp: InsertMerge_def\<close>)

lemma ms_Remove_live: "topo_live s \<Longrightarrow> \<exists>s'. ms_Remove i s = Some s' \<and> topo_live s'"
  using ms_notify_all_live by (auto simp: ms_Remove_def simp del: ms_notify_all.simps split: option.splits)

lemma topo_live_bus:
  assumes "topo_live s"
  shows "ms_Subscribe s = (ch, s') \<Longrightarrow> topo_live s'" and "ms_cancel ch s = Some s' \<Longrightarrow> topo_live s'"
    and "bus_recv ch (ms_subs s) = Some (e, b) \<Longrightarrow> topo_live (s\<lparr>ms_subs := b\<rparr>)"
  using assms bus_ok_subscribe [of "ms_subs s" 200] bus_cancel_total [of "ms_subs s" ch] bus_ok_recv
  by (auto simp: topo_live_def ms_Subscribe_def ms_cancel_def split_beta)

lemma InsertMerge_live_snd: "topo_live s \<Longrightarrow> \<exists>s'. map_option snd (InsertMerge u s) = Some s' \<and> topo_live s'"
  using InsertMerge_live [of s u] by auto

lemma mergeAll_live: "topo_live s \<Longrightarrow> \<exists>s'. mergeAll ps s = Some s' \<and> topo_live s'"
proof (induction ps arbitrary: s)
  case (Cons p ps)
  from InsertMerge_live_snd [OF Cons.prems, of "protoToPeerInfo p"] obtain s1 where
    "map_option snd (InsertMerge (protoToPeerInfo p) s) = Some s1" "topo_live s1" by blast
  with Cons.IH [of s1] show ?case unfolding mergeAll.simps by (metis Option.bind.simps(2))
qed simp

lemma applyDiscoveryEvent_live: "topo_live s \<Longrightarrow> \<exists>s'. applyDiscoveryEvent reg ev s = Some s' \<and> topo_live s'"
  using mergeAll_live [of s] InsertMerge_live_snd [of s] ms_Remove_live [of s]
  by (auto simp: applyDiscoveryEvent_def split: disc_type.splits PeerEventType.splits option.splits)

lemma refreshSessions_live: "topo_live s \<Longrightarrow> \<exists>s'. refreshSessions now ps s = Some s' \<and> topo_live s'"
proof (induction ps arbitrary: s)
  case (Cons p ps)
  have "\<exists>s'. refreshSession now p s = Some s' \<and> topo_live s'"
    using InsertMerge_live_snd [OF Cons.prems] Cons.prems by (auto simp: refreshSession_def split: option.splits)
  with Cons.IH show ?case by fastforce
qed simp

lemma scanPeers_live: "topo_live s \<Longrightarrow> \<exists>s' dials. scanPeers now me reg conn ps s = Some (s', dials) \<and> topo_live s'"
proof (induction ps arbitrary: s)
  case (Cons p ps)
  have "\<exists>s' d. scanPeer now me reg conn p s = Some (s', d) \<and> topo_live s'"
    using ms_Remove_live [OF Cons.prems, of "pi_ID p"] Cons.prems by (auto simp: scanPeer_def)
  with Cons.IH show ?case by fastforce
qed simp

lemma refresh_runs:
  assumes "topo_live (en_repo (ds_engine ds))"
  shows "\<exists>repo dials. refreshPeers now ds = Some (ds\<lparr>ds_engine := (ds_engine ds)\<lparr>en_repo := repo\<rparr>\<rparr>, dials) \<and> topo_live repo"
proof -
  let ?reg = "en_registry (ds_engine ds)"
  from refreshSessions_live [OF assms] obtain r1 where
    r1: "refreshSessions now (map ss_PeerID (activeSessions ?reg)) (en_repo (ds_engine ds)) = Some r1" "topo_live r1" by blast
  from scanPeers_live [OF r1(2)] obtain r2 dials where
    "scanPeers now (ds_localID ds) ?reg (map ss_RemoteAddr (activeSessions ?reg)) (ms_List r1) r1 = Some (r2, dials)" "topo_live r2" by blast
  with r1(1) show ?thesis by (auto simp: refreshPeers_def Let_def)
qed

lemma HandleConnection_runs:
  assumes "topo_live (en_repo e)" and "reg_ok (en_registry e)" and "gm_get (rg_heap (en_registry e)) i = None"
  shows "HandleConnection grpcOk clk i (Some pc) e \<noteq> None"
proof -
  let ?u = "\<lparr>pi_ID = pc_ID pc, pi_Address = (if pc_initiator pc then pc_RemoteAddr pc else []), pi_LastSeen = clk 0\<rparr>"
  have "reg_ok ((en_registry e)\<lparr>rg_heap := gm_set i (newSession pc) (rg_heap (en_registry e))\<rparr>)"
    by (rule reg_ok_connect [OF assms(2,3)]) (simp add: newSession_def)
  from reg_Add_total [OF this, of "\<lambda>k. clk (Suc k)" i] obtain res reg where
    "reg_Add (\<lambda>k. clk (Suc k)) i ((en_registry e)\<lparr>rg_heap := gm_set i (newSession pc) (rg_heap (en_registry e))\<rparr>) = Some (res, reg)" by auto
  moreover obtain b repo where "InsertMerge ?u (en_repo e) = Some (b, repo)" using InsertMerge_live [OF assms(1)] by blast
  ultimately show ?thesis by (cases res) (auto simp: HandleConnection_def Let_def simp del: not_None_eq)
qed

section \<open>The listeners hear of every session\<close>

text \<open>
  \<open>covered r w S\<close>: the listener on the channel \<open>w\<close>, which has already seen the sessions \<open>S\<close>, knows or will hear of every
  registered session whose connection lives.
\<close>

definition covered :: "sessionRegistry \<Rightarrow> nat option \<Rightarrow> nat set \<Rightarrow> bool" where
  "covered r w S \<longleftrightarrow> (\<forall>ch p i. w = Some ch \<longrightarrow> reg_Get p r = Some i \<longrightarrow>
     i \<in> set (chan_buf ch (rg_subs r)) \<or> i \<in> S \<or> (\<exists>ss. gm_get (rg_heap r) i = Some ss \<and> ss_dead ss))"

definition subscribed :: "sessionRegistry \<Rightarrow> nat option \<Rightarrow> bool" where
  "subscribed r w \<longleftrightarrow> (\<forall>ch. w = Some ch \<longrightarrow> ch \<in> set (bus_subs (rg_subs r)))"

lemma covered_mono:
  assumes "covered r w S" and "S \<subseteq> S'" and "rg_subs r' = rg_subs r" and "\<And>p i. reg_Get p r' = Some i \<Longrightarrow> reg_Get p r = Some i"
    and "\<And>p i ss. reg_Get p r' = Some i \<Longrightarrow> gm_get (rg_heap r) i = Some ss \<Longrightarrow> ss_dead ss \<Longrightarrow> \<exists>ss'. gm_get (rg_heap r') i = Some ss' \<and> ss_dead ss'"
  shows "covered r' w S'"
  using assms unfolding covered_def by (metis subsetD)

lemma covered_buf:
  assumes "covered r w S" and "S \<subseteq> S'" and "\<And>p. reg_Get p r' = reg_Get p r" and "rg_heap r' = rg_heap r"
    and "\<And>ch. w = Some ch \<Longrightarrow> set (chan_buf ch (rg_subs r)) \<subseteq> set (chan_buf ch (rg_subs r')) \<union> S'"
  shows "covered r' w S'"
  unfolding covered_def assms(3,4)
proof (intro allI impI)
  fix ch p i assume w: "w = Some ch" and p: "reg_Get p r = Some i"
  with assms(1) have "i \<in> set (chan_buf ch (rg_subs r)) \<or> i \<in> S \<or> (\<exists>ss. gm_get (rg_heap r) i = Some ss \<and> ss_dead ss)" by (simp add: covered_def)
  with assms(2,5) w show "i \<in> set (chan_buf ch (rg_subs r')) \<or> i \<in> S' \<or> (\<exists>ss. gm_get (rg_heap r) i = Some ss \<and> ss_dead ss)" by blast
qed

lemma covered_close: "covered r w S \<Longrightarrow> covered (closeSession j r) w S"
  by (rule covered_mono [of r w S]) (auto simp: reg_Get_def closeSession_heap)

lemma covered_Remove: "covered r w S \<Longrightarrow> covered (reg_Remove i r) w S"
proof -
  assume c: "covered r w S"
  have "covered (r\<lparr>rg_sessions := gm_del p (rg_sessions r)\<rparr>) w S" for p
    by (rule covered_mono [OF c]) (auto simp: reg_Get_def split: if_splits)
  with c covered_close show ?thesis by (auto simp: reg_Remove_def split: option.splits)
qed

lemma covered_fresh:
  assumes "reg_ok r" and "gm_get (rg_heap r) i = None" and "covered r w S"
  shows "covered (r\<lparr>rg_heap := gm_set i ss (rg_heap r)\<rparr>) w S"
  using reg_okD(3) [OF assms(1)] assms(2) by (intro covered_mono [OF assms(3)]) (auto simp: reg_Get_def)

lemma notify_room:
  assumes "bus_ok b" and "ch \<in> set (bus_subs b)" and "has_room b (Some ch)" and "bus_notify e b = Some b'"
  shows "chan_buf ch b' = chan_buf ch b @ [e]"
  using bus_notify_spec [OF assms(1), of e] bus_okD(4) [OF assms(1,2)] assms(2-4)
  by (auto simp: has_room_def chan_buf_def deliver_def)

lemma covered_Add:
  assumes "reg_ok r" and "subscribed r w" and "has_room (rg_subs r) w" and "covered r w S" and "reg_Add clk i r = Some (None, r')"
    and "\<And>p. reg_Get p r \<noteq> Some i"
  shows "covered r' w S"
  using assms(5)
proof (cases rule: reg_Add_cases)
  case (admitted ss b)
  have "k \<in> set (chan_buf ch b) \<or> k \<in> S \<or> (\<exists>ss. gm_get (rg_heap r') k = Some ss \<and> ss_dead ss)"
    if w: "w = Some ch" and k: "reg_Get p r' = Some k" for ch p k
  proof -
    have buf: "chan_buf ch b = chan_buf ch (rg_subs r) @ [i]"
      using notify_room [OF reg_okD(2) [OF assms(1)] _ _ admitted(8), of ch] assms(2,3) w by (simp add: subscribed_def)
    show ?thesis
    proof (cases "p = ss_PeerID ss")
      case True
      with k admitted(10) have "k = i" by (simp add: reg_Get_def)
      with buf show ?thesis by simp
    next
      case False
      with k admitted(10) have old: "reg_Get p r = Some k" by (simp add: reg_Get_def)
      then have "k \<noteq> i" using assms(6) by blast
      then have "\<exists>ss. gm_get (rg_heap r') k = Some ss \<and> ss_dead ss" if "gm_get (rg_heap r) k = Some x" "ss_dead x" for x
        using admitted(13) [of k] that by (simp add: Let_def)
      with assms(4) old w buf show ?thesis unfolding covered_def by (metis UnCI set_append)
    qed
  qed
  with admitted(11) show ?thesis by (simp add: covered_def)
qed simp

text \<open>What a handled connection does to the engine.\<close>

lemma HandleConnection_keeps:
  assumes "topo_live (en_repo e)" and "reg_ok (en_registry e)" and "gm_get (rg_heap (en_registry e)) i = None"
    and "HandleConnection grpcOk clk i (Some pc) e = Some (st, e')"
  shows "topo_live (en_repo e')" and "reg_ok (en_registry e')"
    and "rg_localID (en_registry e') = rg_localID (en_registry e)" and "rg_closed (en_registry e') = rg_closed (en_registry e)"
    and "bus_subs (rg_subs (en_registry e')) = bus_subs (rg_subs (en_registry e))"
    and "subscribed (en_registry e) w \<Longrightarrow> has_room (rg_subs (en_registry e)) w \<Longrightarrow> covered (en_registry e) w S \<Longrightarrow> covered (en_registry e') w S"
proof -
  let ?r = "en_registry e" and ?u = "\<lparr>pi_ID = pc_ID pc, pi_Address = (if pc_initiator pc then pc_RemoteAddr pc else []), pi_LastSeen = clk 0\<rparr>"
  let ?h = "\<lambda>ss. ?r\<lparr>rg_heap := gm_set i ss (rg_heap ?r)\<rparr>"
  obtain b repo where im: "InsertMerge ?u (en_repo e) = Some (b, repo)" "topo_live repo" using InsertMerge_live [OF assms(1)] by blast
  have ok: "reg_ok (?h ss)" if "ss_AddedAt ss = None" for ss by (rule reg_ok_connect [OF assms(2,3) that])
  have new: "ss_AddedAt (newSession pc) = None" by (simp add: newSession_def)
  obtain res reg where add: "reg_Add (\<lambda>k. clk (Suc k)) i (?h (newSession pc)) = Some (res, reg)" using reg_Add_total [OF ok [OF new]] by blast
  have e': "e' = e\<lparr>en_repo := repo, en_registry := en_registry e'\<rparr>" and cases: "en_registry e' = (if \<not> grpcOk then ?h ((newSession pc)\<lparr>ss_dead := True, ss_grpcOpen := False\<rparr>)
      else if res = None then reg else closeSession i (?h (newSession pc)))"
    using assms(4) im(1) add by (auto simp: HandleConnection_def Let_def split: if_splits option.splits elim: reg_Add_cases)
  show "topo_live (en_repo e')" using im(2) e' by (metis SessionEngine.select_convs(3) SessionEngine.surjective SessionEngine.update_convs(3) SessionEngine.update_convs(1))
  show "reg_ok (en_registry e')"
    unfolding cases using ok new reg_ok_Add [OF ok [OF new] add] reg_ok_close [OF ok [OF new]] by simp
  have same: "rg_localID reg = rg_localID ?r \<and> rg_closed reg = rg_closed ?r \<and> bus_subs (rg_subs reg) = bus_subs (rg_subs ?r)"
    using add
  proof (cases rule: reg_Add_cases)
    case (admitted ss b)
    with bus_notify_spec [OF reg_okD(2) [OF assms(2)], of i] show ?thesis by auto
  qed simp
  then show "rg_localID (en_registry e') = rg_localID ?r" "rg_closed (en_registry e') = rg_closed ?r"
    "bus_subs (rg_subs (en_registry e')) = bus_subs (rg_subs ?r)" unfolding cases by simp_all
  assume w: "subscribed ?r w" "has_room (rg_subs ?r) w" "covered ?r w S"
  have c: "covered (?h ss) w S" for ss by (rule covered_fresh [OF assms(2,3) w(3)])
  have "covered reg w S" if "res = None"
  proof (rule covered_Add [OF ok [OF new] _ _ c])
    show "reg_Add (\<lambda>k. clk (Suc k)) i (?h (newSession pc)) = Some (None, reg)" using add that by simp
    show "reg_Get p (?h (newSession pc)) \<noteq> Some i" for p using reg_okD(3) [OF assms(2), of p i] assms(3) by (auto simp: reg_Get_def)
  qed (use w in \<open>simp_all add: subscribed_def\<close>)
  then show "covered (en_registry e') w S" unfolding cases using c covered_close [OF c] by simp
qed

section \<open>The invariant\<close>

definition stream_sessions :: "stream_kind set \<Rightarrow> ('l, 'w, 'c) mesh_run \<Rightarrow> nat set" where
  "stream_sessions K s = {i. \<forall>k \<in> K. (k, i) \<in> set (mr_streams s)}"

definition mesh_inv :: "('l, 'w, 'c) mesh_run \<Rightarrow> bool" where
  "mesh_inv s \<longleftrightarrow>
     topo_live (mr_repo s) \<and> reg_ok (mr_registry s) \<and> rg_localID (mr_registry s) = mn_localID (mr_node s) \<and>
     dial_inv (mn_syncer (mr_node s), mr_inflight s) \<and>
     (mn_closed (mr_node s) \<longrightarrow> rg_closed (mr_registry s) \<and> mn_transportClosed (mr_node s)) \<and> (rg_closed (mr_registry s) \<longrightarrow> mn_cancelled (mr_node s)) \<and>
     (\<not> mn_cancelled (mr_node s) \<longrightarrow>
        subscribed (mr_registry s) (mr_discCh s) \<and> subscribed (mr_registry s) (mr_syncCh s) \<and>
        (mr_discCh s = mr_syncCh s \<longrightarrow> mr_discCh s = None) \<and>
        (\<not> mr_lost s \<longrightarrow> covered (mr_registry s) (mr_discCh s) (stream_sessions {DiscoveryStream} s) \<and>
           covered (mr_registry s) (mr_syncCh s) (stream_sessions {ClientsStream, RulesStream} s)))"

lemma mesh_sel [simp]:
  "mr_registry (set_registry r s) = r" "mr_repo (set_registry r s) = mr_repo s"
  "mr_registry (set_repo p s) = mr_registry s" "mr_repo (set_repo p s) = p"
  "mn_syncer (mr_node (set_syncer ds s)) = ds"
  "mn_localID (mr_node (set_registry r s)) = mn_localID (mr_node s)" "mn_localID (mr_node (set_repo p s)) = mn_localID (mr_node s)"
  "mn_localID (mr_node (set_syncer ds s)) = mn_localID (mr_node s)"
  "mn_cancelled (mr_node (set_registry r s)) = mn_cancelled (mr_node s)" "mn_cancelled (mr_node (set_repo p s)) = mn_cancelled (mr_node s)"
  "mn_cancelled (mr_node (set_syncer ds s)) = mn_cancelled (mr_node s)"
  "mn_closed (mr_node (set_registry r s)) = mn_closed (mr_node s)" "mn_closed (mr_node (set_repo p s)) = mn_closed (mr_node s)"
  "mn_closed (mr_node (set_syncer ds s)) = mn_closed (mr_node s)"
  "mn_transportClosed (mr_node (set_registry r s)) = mn_transportClosed (mr_node s)" "mn_transportClosed (mr_node (set_repo p s)) = mn_transportClosed (mr_node s)"
  "mn_transportClosed (mr_node (set_syncer ds s)) = mn_transportClosed (mr_node s)"
  by (simp_all add: set_registry_def set_repo_def set_syncer_def set_engine_def)

lemma mesh_sel_run [simp]:
  "mr_inflight (set_registry r s) = mr_inflight s" "mr_inflight (set_repo p s) = mr_inflight s" "mr_inflight (set_syncer ds s) = mr_inflight s"
  "mr_discCh (set_registry r s) = mr_discCh s" "mr_discCh (set_repo p s) = mr_discCh s" "mr_discCh (set_syncer ds s) = mr_discCh s"
  "mr_syncCh (set_registry r s) = mr_syncCh s" "mr_syncCh (set_repo p s) = mr_syncCh s" "mr_syncCh (set_syncer ds s) = mr_syncCh s"
  "mr_lost (set_registry r s) = mr_lost s" "mr_lost (set_repo p s) = mr_lost s" "mr_lost (set_syncer ds s) = mr_lost s"
  "mr_streams (set_registry r s) = mr_streams s" "mr_streams (set_repo p s) = mr_streams s" "mr_streams (set_syncer ds s) = mr_streams s"
  by (simp_all add: set_registry_def set_repo_def set_syncer_def)

lemma dial_inv_engine [simp]: "dial_inv (ds\<lparr>ds_engine := e\<rparr>, fl) = dial_inv (ds, fl)"
  by (simp add: dial_inv_def)

lemma dial_inv_set [simp]:
  "dial_inv (mn_syncer (mr_node (set_registry r s)), fl) = dial_inv (mn_syncer (mr_node s), fl)"
  "dial_inv (mn_syncer (mr_node (set_repo p s)), fl) = dial_inv (mn_syncer (mr_node s), fl)"
  "dial_inv (mn_syncer (set_engine e n), fl) = dial_inv (mn_syncer n, fl)"
  by (simp_all add: set_registry_def set_repo_def set_engine_def)

lemma set_engine_sel [simp]:
  "mn_engine (set_engine e n) = e" "mn_localID (set_engine e n) = mn_localID n" "mn_cancelled (set_engine e n) = mn_cancelled n"
  "mn_closed (set_engine e n) = mn_closed n" "mn_transportClosed (set_engine e n) = mn_transportClosed n"
  by (simp_all add: set_engine_def)

text \<open>Steps that leave the registry, or only shrink it.\<close>

lemma stream_sessions_cong: "mr_streams t = mr_streams s \<Longrightarrow> stream_sessions K t = stream_sessions K s"
  by (simp add: stream_sessions_def)

lemma mesh_inv_same_registry:
  assumes "mesh_inv s" and "mr_registry t = mr_registry s" and "topo_live (mr_repo t)" and "mn_localID (mr_node t) = mn_localID (mr_node s)"
    and "dial_inv (mn_syncer (mr_node t), mr_inflight t)" and "mn_closed (mr_node t) = mn_closed (mr_node s)" and "mn_transportClosed (mr_node t) = mn_transportClosed (mr_node s)"
    and "mn_cancelled (mr_node s) \<longrightarrow> mn_cancelled (mr_node t)"
    and "mr_discCh t = mr_discCh s" and "mr_syncCh t = mr_syncCh s" and "mr_streams t = mr_streams s" and "mr_lost s \<longrightarrow> mr_lost t"
  shows "mesh_inv t"
  using assms stream_sessions_cong [OF assms(11)] unfolding mesh_inv_def by auto

lemma mesh_inv_registry:
  assumes "mesh_inv s" and "reg_ok r" and "rg_localID r = rg_localID (mr_registry s)" and "rg_closed r = rg_closed (mr_registry s)"
    and "bus_subs (rg_subs r) = bus_subs (rg_subs (mr_registry s))"
    and "\<And>w S. covered (mr_registry s) w S \<Longrightarrow> covered r w S"
  shows "mesh_inv (set_registry r s)"
  using assms stream_sessions_cong [of "set_registry r s" s]
  unfolding mesh_inv_def by (auto simp: subscribed_def)

lemma mesh_inv_connection:
  assumes "mesh_inv s" and "gm_get (rg_heap (mr_registry s)) i = None"
    and "HandleConnection grpcOk clk i (Some pc) (mn_engine (mr_node s)) = Some (st, mn_engine (mr_node t))"
    and "mn_localID (mr_node t) = mn_localID (mr_node s)" and "dial_inv (mn_syncer (mr_node t), mr_inflight t)"
    and "mn_closed (mr_node t) = mn_closed (mr_node s)" and "mn_transportClosed (mr_node t) = mn_transportClosed (mr_node s)" and "mn_cancelled (mr_node t) = mn_cancelled (mr_node s)"
    and "mr_discCh t = mr_discCh s" and "mr_syncCh t = mr_syncCh s" and "mr_streams t = mr_streams s" and "mr_lost t = (mr_lost s \<or> \<not> offered s)"
  shows "mesh_inv t"
proof -
  have i: "topo_live (mr_repo s)" "reg_ok (mr_registry s)" using assms(1) by (simp_all add: mesh_inv_def)
  note k = HandleConnection_keeps [OF i assms(2,3)]
  show ?thesis using assms k(1-5) k(6) [of "mr_discCh s"] k(6) [of "mr_syncCh s"] stream_sessions_cong [OF assms(11)]
    by (simp add: mesh_inv_def subscribed_def offered_def)
qed

lemma recv_buf:
  assumes "bus_recv ch b = Some (e, b')"
  shows "set (chan_buf ch b) = insert e (set (chan_buf ch b'))" and "k \<noteq> ch \<Longrightarrow> chan_buf k b' = chan_buf k b" and "bus_subs b' = bus_subs b"
  using assms by (auto simp: bus_recv_def chan_recv_def chan_buf_def split: option.splits list.splits)

lemma covered_recv:
  assumes "bus_recv ch (rg_subs r) = Some (i, b)"
  shows "covered r (Some ch) S \<Longrightarrow> insert i S \<subseteq> S' \<Longrightarrow> covered (r\<lparr>rg_subs := b\<rparr>) (Some ch) S'"
    and "covered r w S \<Longrightarrow> w \<noteq> Some ch \<Longrightarrow> S \<subseteq> S' \<Longrightarrow> covered (r\<lparr>rg_subs := b\<rparr>) w S'"
proof -
  note rb = recv_buf [OF assms]
  show "covered (r\<lparr>rg_subs := b\<rparr>) (Some ch) S'" if "covered r (Some ch) S" "insert i S \<subseteq> S'"
    using that(2) rb(1) by (intro covered_buf [OF that(1)]) (auto simp: reg_Get_def)
  show "covered (r\<lparr>rg_subs := b\<rparr>) w S'" if "covered r w S" "w \<noteq> Some ch" "S \<subseteq> S'"
    using rb(2) that(2) by (intro covered_buf [OF that(1,3)]) (auto simp: reg_Get_def)
qed

lemma reg_ok_recv:
  assumes "reg_ok r" and "bus_recv ch (rg_subs r) = Some (i, b)" shows "reg_ok (r\<lparr>rg_subs := b\<rparr>)"
  by (rule reg_ok_step [OF assms(1) reg_step.recv [OF assms(2)]])

lemma mesh_inv_new_stream:
  assumes "mesh_inv s" and "bus_recv ch (rg_subs (mr_registry s)) = Some (i, b)" and "mr_discCh s = Some ch \<or> mr_syncCh s = Some ch"
    and "ks = (if mr_discCh s = Some ch then [DiscoveryStream] else [ClientsStream, RulesStream])"
  shows "mesh_inv (set_registry ((mr_registry s)\<lparr>rg_subs := b\<rparr>) s\<lparr>mr_streams := map (\<lambda>k. (k, i)) ks @ mr_streams s\<rparr>)"
    (is "mesh_inv ?t")
proof -
  let ?r = "(mr_registry s)\<lparr>rg_subs := b\<rparr>"
  have m: "stream_sessions K s \<subseteq> stream_sessions K ?t" for K by (auto simp: stream_sessions_def)
  have ok: "reg_ok ?r" using assms(1,2) reg_ok_recv by (auto simp: mesh_inv_def)
  have "covered ?r (mr_discCh s) (stream_sessions {DiscoveryStream} ?t) \<and> covered ?r (mr_syncCh s) (stream_sessions {ClientsStream, RulesStream} ?t)"
    if old: "covered (mr_registry s) (mr_discCh s) (stream_sessions {DiscoveryStream} s)"
      "covered (mr_registry s) (mr_syncCh s) (stream_sessions {ClientsStream, RulesStream} s)" and d: "mr_discCh s = mr_syncCh s \<longrightarrow> mr_discCh s = None"
  proof (cases "mr_discCh s = Some ch")
    case True
    have "insert i (stream_sessions {DiscoveryStream} s) \<subseteq> stream_sessions {DiscoveryStream} ?t" using True assms(4) by (auto simp: stream_sessions_def)
    with covered_recv [OF assms(2)] old d True m show ?thesis by (metis option.distinct(1))
  next
    case False
    have "insert i (stream_sessions {ClientsStream, RulesStream} s) \<subseteq> stream_sessions {ClientsStream, RulesStream} ?t"
      using False assms(4) by (auto simp: stream_sessions_def)
    with covered_recv [OF assms(2)] old d False assms(3) m show ?thesis by metis
  qed
  with assms(1) ok recv_buf(3) [OF assms(2)] show ?thesis unfolding mesh_inv_def by (auto simp: subscribed_def)
qed

lemma subscribe_sessions:
  assumes "reg_ok r" and "SubscribeNewSessions r = (ch, r')"
  shows "reg_ok r'" and "rg_localID r' = rg_localID r" and "rg_closed r' = rg_closed r" and "rg_heap r' = rg_heap r"
    and "\<not> rg_closed r \<Longrightarrow> bus_subs (rg_subs r') = ch # bus_subs (rg_subs r)" and "ch \<notin> set (bus_subs (rg_subs r))"
    and "\<not> rg_closed r \<Longrightarrow> covered r' (Some ch) S" and "subscribed r w \<Longrightarrow> covered r w S \<Longrightarrow> covered r' w S"
proof -
  show "reg_ok r'" using reg_ok_Subscribe [OF assms(1)] assms(2) by simp
  have ch: "ch = bus_next (rg_subs r)" using assms(2) by (auto simp: SubscribeNewSessions_def Let_def split: if_splits)
  then show new: "ch \<notin> set (bus_subs (rg_subs r))" using bus_okD(1,4) [OF reg_okD(2) [OF assms(1)]] by blast
  show "rg_localID r' = rg_localID r" "rg_closed r' = rg_closed r" "rg_heap r' = rg_heap r"
    "\<not> rg_closed r \<Longrightarrow> bus_subs (rg_subs r') = ch # bus_subs (rg_subs r)"
    using assms(2) by (auto simp: SubscribeNewSessions_def Let_def split: if_splits)
  have g: "reg_Get p r = Some i \<Longrightarrow> i \<in> set (gm_vals (rg_sessions r))" for p i
    using gm_vals_iff [OF reg_okD(1) [OF assms(1)]] by (auto simp: reg_Get_def)
  have s: "reg_Get p r' = reg_Get p r" for p using assms(2) by (auto simp: SubscribeNewSessions_def Let_def reg_Get_def split: if_splits)
  have b: "k \<noteq> ch \<Longrightarrow> chan_buf k (rg_subs r') = chan_buf k (rg_subs r)"
    "\<not> rg_closed r \<Longrightarrow> chan_buf ch (rg_subs r') = gm_vals (rg_sessions r)" for k
    using assms(2) by (auto simp: SubscribeNewSessions_def Let_def chan_buf_def mkchan_def split: if_splits)
  show "\<not> rg_closed r \<Longrightarrow> covered r' (Some ch) S" using b(2) g s by (auto simp: covered_def)
  show "covered r' w S" if "subscribed r w" "covered r w S"
  proof (rule covered_buf [OF that(2) subset_refl s \<open>rg_heap r' = rg_heap r\<close>])
    fix k assume "w = Some k"
    with that(1) new have "k \<noteq> ch" by (auto simp: subscribed_def)
    then show "set (chan_buf k (rg_subs r)) \<subseteq> set (chan_buf k (rg_subs r')) \<union> S" using b(1) by simp
  qed
qed

lemma mesh_inv_dialled:
  assumes inv: "mesh_inv s" and "addr \<in> set (mr_inflight s)" and "gm_get (rg_heap (mr_registry s)) i = None"
    and c: "connect_end grpcOk clk i conn addr (mn_syncer (mr_node s)) = Some ds"
  shows "mesh_inv (set_syncer ds s\<lparr>mr_inflight := remove1 addr (mr_inflight s), mr_lost := mr_lost s \<or> \<not> offered s\<rparr>)"
proof -
  have "dial_inv (mn_syncer (mr_node s), mr_inflight s)" using inv by (simp add: mesh_inv_def)
  from dial_inv_step [OF this dial_step.end_dial [OF assms(2) c]] have d: "dial_inv (ds, remove1 addr (mr_inflight s))" .
  show ?thesis
  proof (cases conn)
    case None
    with c have "ds_engine ds = mn_engine (mr_node s)" by (auto simp: connect_end_def finishDial_def)
    with inv d show ?thesis by (intro mesh_inv_same_registry [OF inv]) (simp_all add: mesh_inv_def)
  next
    case (Some pc)
    with c obtain st where "HandleConnection grpcOk clk i (Some pc) (mn_engine (mr_node s)) = Some (st, ds_engine ds)"
      by (auto simp: connect_end_def finishDial_def)
    with d show ?thesis by (intro mesh_inv_connection [OF inv assms(3)]) simp_all
  qed
qed

lemma mesh_inv_accept:
  assumes inv: "mesh_inv s" and "gm_get (rg_heap (mr_registry s)) i = None" and c: "acceptConn grpcOk clk i conn (mr_node s) = Some (own, n)"
  shows "mesh_inv (s\<lparr>mr_node := n, mr_lost := mr_lost s \<or> \<not> offered s\<rparr>)"
proof (cases "pc_ID conn = mn_localID (mr_node s)")
  case True
  with c have "n = mr_node s" by (simp add: acceptConn_def)
  with inv show ?thesis by (intro mesh_inv_same_registry [OF inv]) (simp_all add: mesh_inv_def)
next
  case False
  with c obtain st e where e: "HandleConnection grpcOk clk i (Some conn) (mn_engine (mr_node s)) = Some (st, e)" "n = set_engine e (mr_node s)"
    by (auto simp: acceptConn_def)
  moreover have "dial_inv (mn_syncer (mr_node s), mr_inflight s)" using inv by (simp add: mesh_inv_def)
  ultimately show ?thesis by (intro mesh_inv_connection [OF inv assms(2)]) simp_all
qed

lemma mesh_inv_listen:
  assumes inv: "mesh_inv s" and r: "SubscribeNewSessions (mr_registry s) = (ch, r)"
  shows "mr_discCh s = None \<Longrightarrow> mesh_inv (set_registry r s\<lparr>mr_discCh := Some ch\<rparr>)"
    and "mr_syncCh s = None \<Longrightarrow> mesh_inv (set_registry r s\<lparr>mr_syncCh := Some ch\<rparr>)"
proof -
  have ok: "reg_ok (mr_registry s)" using inv by (simp add: mesh_inv_def)
  note k = subscribe_sessions [OF ok r]
  have st: "stream_sessions K (set_registry r s\<lparr>mr_discCh := w\<rparr>) = stream_sessions K s" "stream_sessions K (set_registry r s\<lparr>mr_syncCh := w\<rparr>) = stream_sessions K s"
    for K w by (simp_all add: stream_sessions_def)
  have sub: "subscribed r (Some ch) \<and> (\<forall>w. subscribed (mr_registry s) w \<longrightarrow> subscribed r w \<and> w \<noteq> Some ch)"
    if "\<not> mn_cancelled (mr_node s)" using inv that k(5,6) by (auto simp: mesh_inv_def subscribed_def)
  have opn: "\<not> mn_cancelled (mr_node s) \<Longrightarrow> \<not> rg_closed (mr_registry s)" using inv by (auto simp: mesh_inv_def)
  show "mesh_inv (set_registry r s\<lparr>mr_discCh := Some ch\<rparr>)" if "mr_discCh s = None"
    using inv k(1-3) k(7,8) sub opn that unfolding mesh_inv_def st by auto
  show "mesh_inv (set_registry r s\<lparr>mr_syncCh := Some ch\<rparr>)" if "mr_syncCh s = None"
    using inv k(1-3) k(7,8) sub opn that unfolding mesh_inv_def st by auto
qed

lemma mesh_inv_stream_over:
  assumes inv: "mesh_inv s" and "gm_get (rg_heap (mr_registry s)) i = Some ss" and "ss_dead ss \<or> mn_cancelled (mr_node s)"
  shows "mesh_inv (s\<lparr>mr_streams := removeAll (k, i) (mr_streams s)\<rparr>)"
proof -
  let ?t = "s\<lparr>mr_streams := removeAll (k, i) (mr_streams s)\<rparr>"
  have "covered (mr_registry s) w (stream_sessions K ?t)" if c: "covered (mr_registry s) w (stream_sessions K s)" and "\<not> mn_cancelled (mr_node s)" for w K
  proof -
    have "j \<in> stream_sessions K ?t" if "j \<in> stream_sessions K s" "j \<noteq> i" for j using that by (auto simp: stream_sessions_def)
    with c assms(2,3) that(2) show ?thesis unfolding covered_def by metis
  qed
  with inv show ?thesis unfolding mesh_inv_def by simp
qed

lemma mesh_inv_shutdown:
  assumes inv: "mesh_inv s" and "mesh_shutdown (mr_node s) = Some n"
  shows "mesh_inv (s\<lparr>mr_node := n\<rparr>)"
proof (cases "mn_closed (mr_node s)")
  case True
  with assms(2) have n: "n = mr_node s" by (simp add: mesh_shutdown_def)
  show ?thesis unfolding n using inv by simp
next
  case False
  have "reg_ok (mr_registry s)" using inv by (simp add: mesh_inv_def)
  from reg_Close_spec [OF this] obtain r where r: "reg_Close (mr_registry s) = Some r" "reg_ok r" "rg_closed r" by blast
  then have "rg_localID r = rg_localID (mr_registry s)" by (auto simp: reg_Close_def fold_closeSession split: if_splits option.splits)
  with assms False r show ?thesis by (auto simp: mesh_shutdown_def Let_def mesh_inv_def set_engine_def)
qed

lemma mesh_inv_dial:
  assumes inv: "mesh_inv s" and c: "connect_begin addr (mn_syncer (mr_node s)) = (ok, ds)"
  shows "mesh_inv (set_syncer ds s\<lparr>mr_connecting := cs, mr_inflight := (if ok then addr # mr_inflight s else mr_inflight s)\<rparr>)"
proof -
  have "dial_inv (mn_syncer (mr_node s), mr_inflight s)" using inv by (simp add: mesh_inv_def)
  then have "dial_inv (ds, if ok then addr # mr_inflight s else mr_inflight s)"
    using c dial_inv_step [OF _ dial_step.begin_dial] dial_inv_step [OF _ dial_step.refused] by (cases ok) auto
  moreover have "ds_engine ds = mn_engine (mr_node s)" using c by (auto simp: connect_begin_def startDial_def split: if_splits)
  ultimately show ?thesis using inv by (intro mesh_inv_same_registry [OF inv]) (simp_all add: mesh_inv_def)
qed

lemma mesh_inv_refresh:
  assumes inv: "mesh_inv s" and c: "refreshPeers now (mn_syncer (mr_node s)) = Some (ds, dials)"
  shows "mesh_inv (set_syncer ds s\<lparr>mr_connecting := cs\<rparr>)"
proof -
  have "topo_live (mr_repo s)" using inv by (simp_all add: mesh_inv_def)
  from refresh_runs [OF this, of now] c obtain repo where
    "ds = (mn_syncer (mr_node s))\<lparr>ds_engine := (mn_engine (mr_node s))\<lparr>en_repo := repo\<rparr>\<rparr>" "topo_live repo" by auto
  with inv show ?thesis by (intro mesh_inv_same_registry [OF inv]) (simp_all add: mesh_inv_def)
qed

text \<open>The steps that touch neither the registry nor the dials.\<close>

lemma mesh_inv_repo: "mesh_inv s \<Longrightarrow> topo_live repo \<Longrightarrow> mesh_inv (set_repo repo s\<lparr>mr_connecting := cs, mr_peerCh := ch\<rparr>)"
  by (rule mesh_inv_same_registry [of s]) (simp_all add: mesh_inv_def)

lemma mesh_inv_engine:
  assumes "mesh_inv s" and "en_registry e = mr_registry s" and "en_repo e = mr_repo s"
  shows "mesh_inv (s\<lparr>mr_node := set_engine e (mr_node s)\<rparr>)"
  using assms by (intro mesh_inv_same_registry [OF assms(1)]) (simp_all add: mesh_inv_def)

lemma mesh_inv_router: "mesh_inv s \<Longrightarrow> mesh_inv (s\<lparr>mr_node := mn_setRouter r (mr_node s)\<rparr>)"
  unfolding mn_setRouter_def by (rule mesh_inv_engine) simp_all

lemma mesh_step_inv:
  assumes inv: "mesh_inv s" and "mesh_step s t"
  shows "mesh_inv t"
  using assms(2)
proof (cases rule: mesh_step.cases)
  case (accept i grpcOk clk conn own n)
  with mesh_inv_accept [OF inv] show ?thesis by simp
next
  case (dial addr ok ds)
  with mesh_inv_dial [OF inv] show ?thesis by simp
next
  case (dialled addr i grpcOk clk conn ds)
  with mesh_inv_dialled [OF inv] show ?thesis by simp
next
  case (refresh now ds dials)
  with mesh_inv_refresh [OF inv] show ?thesis by simp
next
  case (listen_peers ch repo)
  have "topo_live repo" using topo_live_bus(1) [OF _ listen_peers(3)] inv by (simp add: mesh_inv_def)
  with mesh_inv_repo [OF inv, where repo = repo and cs = "mr_connecting s" and ch = "Some ch"] listen_peers(1) show ?thesis by (simp add: set_repo_def)
next
  case (peer_event ch ev b)
  have "topo_live ((mr_repo s)\<lparr>ms_subs := b\<rparr>)" using topo_live_bus(3) [OF _ peer_event(3)] inv by (simp add: mesh_inv_def)
  with mesh_inv_repo [OF inv this, where ch = "mr_peerCh s"] peer_event(1) show ?thesis by (simp add: set_repo_def)
next
  case (listen_disc ch r)
  with mesh_inv_listen(1) [OF inv] show ?thesis by simp
next
  case (disc_session ch i b)
  with mesh_inv_new_stream [OF inv disc_session(3) _ refl] show ?thesis by simp
next
  case (listen_sync ch r)
  with mesh_inv_listen(2) [OF inv] show ?thesis by simp
next
  case (sync_session ch i b)
  show ?thesis
  proof (cases "mn_cancelled (mr_node s)")
    case True
    have "reg_ok ((mr_registry s)\<lparr>rg_subs := b\<rparr>)" using inv sync_session(3) reg_ok_recv by (auto simp: mesh_inv_def)
    with True inv sync_session(1) show ?thesis by (simp add: mesh_inv_def)
  next
    case False
    then have "mr_discCh s \<noteq> Some ch" using inv sync_session(2) by (auto simp: mesh_inv_def)
    with mesh_inv_new_stream [OF inv sync_session(3) _ refl] sync_session(1,2) show ?thesis by simp
  qed
next
  case (disc_message i dev repo)
  have "topo_live repo" using applyDiscoveryEvent_live [of "mr_repo s" "mr_registry s" dev] inv disc_message(3) by (simp add: mesh_inv_def)
  with mesh_inv_repo [OF inv this, where cs = "mr_connecting s" and ch = "mr_peerCh s"] disc_message(1) show ?thesis by (simp add: set_repo_def)
next
  case (rules_message i ss uev)
  with mesh_inv_router [OF inv] show ?thesis by simp
next
  case (clients_message i ss cev)
  with mesh_inv_router [OF inv] show ?thesis by simp
next
  case (stream_over k i ss)
  with mesh_inv_stream_over [OF inv] show ?thesis by simp
next
  case (neighbour_stream pickDone st)
  with mesh_inv_engine [OF inv] show ?thesis by (simp add: session_stream_def)
next
  case (datagram choice d e)
  then have "en_registry e = mr_registry s \<and> en_repo e = mr_repo s" by (auto simp: session_datagram_def split: option.splits sum.splits)
  with datagram mesh_inv_engine [OF inv] show ?thesis by simp
next
  case (connection_dies i)
  with mesh_inv_registry [OF inv, of "closeSession i (mr_registry s)"] covered_close reg_ok_close inv show ?thesis by (simp add: mesh_inv_def)
next
  case (session_over i)
  let ?r = "reg_Remove i (mr_registry s)"
  have "rg_localID ?r = rg_localID (mr_registry s) \<and> rg_closed ?r = rg_closed (mr_registry s) \<and> bus_subs (rg_subs ?r) = bus_subs (rg_subs (mr_registry s))"
    by (simp add: reg_Remove_def split: option.splits)
  with session_over mesh_inv_registry [OF inv, of ?r] covered_Remove reg_ok_Remove inv show ?thesis
    by (simp add: mesh_inv_def set_registry_def session_end_def)
next
  case (send out n)
  then obtain r where "n = mn_setRouter r (mr_node s)" by (auto simp: meshSender_def mn_setRouter_def Let_def split: option.splits)
  with send mesh_inv_router [OF inv] show ?thesis by simp
next
  case (router_work r)
  with mesh_inv_router [OF inv] show ?thesis by simp
next
  case cancelled
  with inv show ?thesis by (simp add: mesh_inv_def)
next
  case (unsubscribe ch r)
  have "reg_ok r" using reg_ok_step [OF _ reg_step.cancel [OF unsubscribe(3)]] inv by (simp add: mesh_inv_def)
  moreover have "rg_localID r = rg_localID (mr_registry s)" "rg_closed r = rg_closed (mr_registry s)" using unsubscribe(3) by (auto simp: reg_cancel_def)
  ultimately show ?thesis using inv unsubscribe(1,2) by (simp add: mesh_inv_def)
next
  case (leave_peers ch repo)
  have "topo_live repo" using topo_live_bus(2) [OF _ leave_peers(3)] inv by (simp add: mesh_inv_def)
  with mesh_inv_repo [OF inv this, where cs = "mr_connecting s" and ch = "mr_peerCh s"] leave_peers(1) show ?thesis by (simp add: set_repo_def)
next
  case (shutdown n)
  with mesh_inv_shutdown [OF inv] show ?thesis by simp
qed

text \<open>A node as \<^verbatim>\<open>NewWithTransport\<close> builds it, from whatever peers file there is, at the start of \<^verbatim>\<open>Run\<close>.\<close>

definition mesh_init :: "('l, 'w, 'c) mesh_run \<Rightarrow> bool" where
  "mesh_init s \<longleftrightarrow> (\<exists>parse sha256 readOk fs cfg cert router tAddr n.
     NewWithTransport parse sha256 readOk fs cfg cert router True = Inr n \<and> s = mesh_start tAddr n)"

lemma NewPeerRepository_live: "bus_ok (ms_subs (NewPeerRepository readOk f fs))"
  by (auto simp: NewPeerRepository_def newInMemoryState_def bus_ok_New split: load_result.splits)

lemma mesh_inv_init:
  assumes "mesh_init s" and "\<not> ms_nil (mr_repo s)" shows "mesh_inv s"
proof -
  from assms(1) obtain parse sha256 readOk fs cfg cert router tAddr n where
    n: "NewWithTransport parse sha256 readOk fs cfg cert router True = Inr n" and s: "s = mesh_start tAddr n" unfolding mesh_init_def by blast
  from n have "mr_repo s = NewPeerRepository readOk (mc_PeersStore cfg) fs" "mr_registry s = NewRegistry (mn_localID n)"
    "ds_dialing (mn_syncer n) = []" "\<not> mn_closed n"
    by (auto simp: NewWithTransport_def Let_def NewDiscoverySyncer_def s mesh_start_def split: sum.splits)
  moreover have "mr_node s = n" "mr_inflight s = []" "mr_discCh s = None" "mr_syncCh s = None" by (simp_all add: s mesh_start_def)
  moreover have "rg_localID (NewRegistry me) = me" "\<not> rg_closed (NewRegistry me)" for me by (simp_all add: NewRegistry_def)
  moreover have "topo_live (NewPeerRepository readOk (mc_PeersStore cfg) fs)"
    using assms(2) NewPeerRepository_live calculation(1) by (simp add: topo_live_def)
  ultimately show ?thesis by (simp add: mesh_inv_def reg_ok_New dial_inv_def subscribed_def covered_def)
qed

interpretation mesh: invariant_system "\<lambda>s. mesh_init s \<and> \<not> ms_nil (mr_repo s)" mesh_step mesh_inv
  by unfold_locales (auto intro: mesh_inv_init mesh_step_inv)

section \<open>Properties of a running node\<close>

text \<open>Shutting down from the invariant.\<close>

lemma shutdown_result:
  assumes "mesh_inv s"
  shows "\<exists>n. mesh_shutdown (mr_node s) = Some n \<and> mn_cancelled n \<and> CountConnections n = 0 \<and>
    (\<forall>i ss. gm_get (rg_heap (mn_registry n)) i = Some ss \<longrightarrow> ss_AddedAt ss \<noteq> None \<longrightarrow> ss_dead ss)"
proof -
  have ok: "reg_ok (mr_registry s)" using assms by (simp add: mesh_inv_def)
  from reg_Close_spec [OF this] obtain r where r: "reg_Close (mr_registry s) = Some r" "reg_ok r" "rg_closed r" by blast
  obtain n where n: "mesh_shutdown (mr_node s) = Some n" "mn_cancelled n" "mn_registry n = r"
  proof (cases "mn_closed (mr_node s)")
    case True
    then have "rg_closed (mr_registry s)" "mn_cancelled (mr_node s)" using assms by (auto simp: mesh_inv_def)
    with True r(1) show thesis by (intro that [of "mr_node s"]) (auto simp: mesh_shutdown_def reg_Close_def)
  next
    case False
    with r(1) show thesis by (intro that) (auto simp: mesh_shutdown_def Let_def set_engine_def)
  qed
  have none: "rg_sessions r = []" using reg_okD(5) [OF r(2,3)] by simp
  then have "\<forall>i ss. gm_get (rg_heap r) i = Some ss \<longrightarrow> ss_AddedAt ss \<noteq> None \<longrightarrow> ss_dead ss" using reg_okD(4) [OF r(2)] by fastforce
  with none n show ?thesis by (auto simp: CountConnections_def ListActive_def gm_vals_def)
qed

text \<open>C22: a running node keeps its order. Unless its peers file holds the JSON value null (the node then panics when it stores
  the first peer), in every state that the goroutines of \<^verbatim>\<open>Run\<close> reach, in any interleaving and with any
  connections, messages and failures from outside: the registry holds for a peer a session of that peer, and none of the node
  itself; every address is dialled at most once at a time, and the dial lock names exactly the dials in flight; an accepted
  connection, a finished dial, a refresh and a message of gossip are handled without a panic; and \<^verbatim>\<open>shutdown\<close> returns, with no
  session left and every session that was ever admitted closed.\<close>

theorem mesh_run_sound:
  assumes "mesh_init s0" and "\<not> ms_nil (mr_repo s0)" and "mesh_step\<^sup>*\<^sup>* s0 s"
  shows "(\<forall>p i. reg_Get p (mr_registry s) = Some i \<longrightarrow> p \<noteq> mn_localID (mr_node s) \<and>
      (\<exists>ss. gm_get (rg_heap (mr_registry s)) i = Some ss \<and> ss_PeerID ss = p)) \<and>
    distinct (mr_inflight s) \<and> set (mr_inflight s) = set (ds_dialing (mn_syncer (mr_node s))) \<and>
    (\<forall>grpcOk clk i conn. gm_get (rg_heap (mr_registry s)) i = None \<longrightarrow> acceptConn grpcOk clk i conn (mr_node s) \<noteq> None) \<and>
    (\<forall>grpcOk clk i conn addr. gm_get (rg_heap (mr_registry s)) i = None \<longrightarrow> connect_end grpcOk clk i conn addr (mn_syncer (mr_node s)) \<noteq> None) \<and>
    (\<forall>now. refreshPeers now (mn_syncer (mr_node s)) \<noteq> None) \<and>
    (\<forall>ev. applyDiscoveryEvent (mr_registry s) ev (mr_repo s) \<noteq> None) \<and>
    (\<exists>n. mesh_shutdown (mr_node s) = Some n \<and> mn_cancelled n \<and> CountConnections n = 0 \<and>
      (\<forall>i ss. gm_get (rg_heap (mn_registry n)) i = Some ss \<longrightarrow> ss_AddedAt ss \<noteq> None \<longrightarrow> ss_dead ss))"
proof -
  have inv: "mesh_inv s" by (rule mesh.inv_reachable [OF conjI [OF assms(1,2)] assms(3)])
  then have t: "topo_live (mr_repo s)" and r: "reg_ok (mr_registry s)" and d: "dial_inv (mn_syncer (mr_node s), mr_inflight s)"
    and me: "rg_localID (mr_registry s) = mn_localID (mr_node s)" by (simp_all add: mesh_inv_def)
  have h: "HandleConnection grpcOk clk i (Some conn) (mn_engine (mr_node s)) \<noteq> None" if "gm_get (rg_heap (mr_registry s)) i = None" for grpcOk clk i conn
    by (rule HandleConnection_runs [OF t r that])
  then have "gm_get (rg_heap (mr_registry s)) i = None \<Longrightarrow> acceptConn grpcOk clk i conn (mr_node s) \<noteq> None"
    "gm_get (rg_heap (mr_registry s)) i = None \<Longrightarrow> connect_end grpcOk clk i c addr (mn_syncer (mr_node s)) \<noteq> None" for grpcOk clk i conn c addr
    by (auto simp: acceptConn_def connect_end_def split: option.splits)
  moreover have "refreshPeers now (mn_syncer (mr_node s)) \<noteq> None" for now using refresh_runs [OF t, of now] by auto
  moreover have "applyDiscoveryEvent (mr_registry s) ev (mr_repo s) \<noteq> None" for ev using applyDiscoveryEvent_live [OF t, of "mr_registry s" ev] by auto
  moreover have "p \<noteq> mn_localID (mr_node s) \<and> (\<exists>ss. gm_get (rg_heap (mr_registry s)) i = Some ss \<and> ss_PeerID ss = p)"
    if "reg_Get p (mr_registry s) = Some i" for p i using reg_okD(3) [OF r, of p i] that me by (auto simp: reg_Get_def)
  ultimately show ?thesis using d shutdown_result [OF inv] unfolding dial_inv_def by auto
qed

text \<open>C23: every neighbour is synchronised with. Unless the peers file holds the JSON value null, in every state that the goroutines of \<^verbatim>\<open>Run\<close> reach before the node is told to stop: when
  the two listeners for new sessions have subscribed, no session was offered to a full channel and both have caught up, then
  every registered session with a live connection has its three streams running, for discovery, clients and rules, no
  matter whether the session came before or after the subscription and how it replaced another.\<close>

theorem sessions_are_synced:
  assumes "mesh_init s0" and "\<not> ms_nil (mr_repo s0)" and "mesh_step\<^sup>*\<^sup>* s0 s" and "\<not> mn_cancelled (mr_node s)" and "\<not> mr_lost s"
    and "mr_discCh s = Some c" and "mr_syncCh s = Some d"
    and "chan_buf c (rg_subs (mr_registry s)) = []" and "chan_buf d (rg_subs (mr_registry s)) = []"
    and "reg_Get p (mr_registry s) = Some i" and "gm_get (rg_heap (mr_registry s)) i = Some ss" and "\<not> ss_dead ss"
  shows "(k, i) \<in> set (mr_streams s)"
proof -
  have "mesh_inv s" by (rule mesh.inv_reachable [OF conjI [OF assms(1,2)] assms(3)])
  with assms(4,5) have "covered (mr_registry s) (mr_discCh s) (stream_sessions {DiscoveryStream} s)"
    "covered (mr_registry s) (mr_syncCh s) (stream_sessions {ClientsStream, RulesStream} s)" by (simp_all add: mesh_inv_def)
  with assms(6-12) have "i \<in> stream_sessions {DiscoveryStream} s" "i \<in> stream_sessions {ClientsStream, RulesStream} s"
    unfolding covered_def by fastforce+
  then show ?thesis by (cases k) (auto simp: stream_sessions_def)
qed

definition exRunNode :: "(nat, nat list, nat) MeshNode" where
  "exRunNode = \<lparr>mn_localID = ''01'', mn_syncer = NewDiscoverySyncer \<lparr>en_registry = NewRegistry ''01'', en_pusher = NewBiStreamLis,
     en_repo = newInMemoryState, en_router = mn_router exMeshNode\<rparr> [''10.0.0.9:443''] ''01'',
     mn_closed = False, mn_cancelled = False, mn_grpcStopped = False, mn_transportClosed = False\<rparr>"

definition exRun :: "(nat, nat list, nat) mesh_run" where
  "exRun = mesh_start None exRunNode"

lemma exRun_init: "mesh_init exRun"
proof -
  let ?cfg = "\<lparr>mc_ListenAddr = '':443'', mc_PeersStore = ''peers.json'', mc_BootstrapAddrs = [''10.0.0.9:443'']\<rparr>"
  let ?cert = "\<lparr>ct_chain = [[0]], ct_Leaf = Some [7]\<rparr>"
  let ?router = "mn_router exMeshNode"
  have id: "extractLocalPeerID Some (\<lambda>_. [1]) ?cert = Inr ''01''" by (simp add: extractLocalPeerID_def hexEncode_def hexDigit_def, code_simp)
  have fs: "NewPeerRepository True ''peers.json'' [] = newInMemoryState" by (simp add: NewPeerRepository_def fp_Load_def, simp add: newInMemoryState_def)
  have "NewWithTransport Some (\<lambda>_. [1]) True [] ?cfg ?cert ?router True = Inr exRunNode"
    by (simp add: NewWithTransport_def id Let_def fs exRunNode_def exMeshNode_def NewDiscoverySyncer_def)
  with fs show ?thesis unfolding mesh_init_def exRun_def
    by (intro exI [of _ "Some"] exI [of _ "\<lambda>_. [1]"] exI [of _ True] exI [of _ "[]"] exI [of _ ?cfg] exI [of _ ?cert] exI [of _ ?router]
        exI [of _ None] exI [of _ exRunNode]) simp
qed

lemma exRun_live: "\<not> ms_nil (mr_repo exRun)"
  by (simp add: exRun_def mesh_start_def exRunNode_def NewDiscoverySyncer_def newInMemoryState_def)

text \<open>A run: both listeners subscribe, a neighbour connects, both listeners start its streams.\<close>

definition exListening :: "(nat, nat list, nat) mesh_run" where
  "exListening = (let s = set_registry (snd (SubscribeNewSessions (mr_registry exRun))) exRun\<lparr>mr_discCh := Some 0\<rparr>
     in set_registry (snd (SubscribeNewSessions (mr_registry s))) s\<lparr>mr_syncCh := Some 1\<rparr>)"

definition exConn :: PeerConnection where
  "exConn = \<lparr>pc_ID = ''02'', pc_initiator = False, pc_RemoteAddr = ''1.2.3.4:443''\<rparr>"

definition exConnected :: "(nat, nat list, nat) mesh_run" where
  "exConnected = exListening\<lparr>mr_node := snd (the (acceptConn True (\<lambda>_. 1) 0 exConn (mr_node exListening))), mr_lost := \<not> offered exListening\<rparr>"

definition exSynced :: "(nat, nat list, nat) mesh_run" where
  "exSynced = (let s = set_registry ((mr_registry exConnected)\<lparr>rg_subs := snd (the (bus_recv 0 (rg_subs (mr_registry exConnected))))\<rparr>) exConnected
       \<lparr>mr_streams := [(DiscoveryStream, 0)]\<rparr>
     in set_registry ((mr_registry s)\<lparr>rg_subs := snd (the (bus_recv 1 (rg_subs (mr_registry s))))\<rparr>) s
       \<lparr>mr_streams := (ClientsStream, 0) # (RulesStream, 0) # mr_streams s\<rparr>)"

lemma exListening_steps: "mesh_step\<^sup>*\<^sup>* exRun exListening"
proof -
  let ?s = "set_registry (snd (SubscribeNewSessions (mr_registry exRun))) exRun\<lparr>mr_discCh := Some 0\<rparr>"
  have "mr_discCh exRun = None" "SubscribeNewSessions (mr_registry exRun) = (0, snd (SubscribeNewSessions (mr_registry exRun)))"
    by (simp_all add: exRun_def mesh_start_def exRunNode_def NewDiscoverySyncer_def NewRegistry_def SubscribeNewSessions_def bus_New_def)
  then have 1: "mesh_step exRun ?s" by (rule mesh_step.listen_disc)
  have "mr_syncCh ?s = None" "SubscribeNewSessions (mr_registry ?s) = (1, snd (SubscribeNewSessions (mr_registry ?s)))"
    by (simp_all add: exRun_def mesh_start_def exRunNode_def NewDiscoverySyncer_def NewRegistry_def SubscribeNewSessions_def bus_New_def Let_def)
  then have "mesh_step ?s exListening" unfolding exListening_def Let_def by (rule mesh_step.listen_sync)
  with 1 show ?thesis by (blast intro: rtranclp.rtrancl_into_rtrancl)
qed

lemma exListening_node:
  "mr_registry exListening = \<lparr>rg_localID = ''01'', rg_sessions = [], rg_subs = \<lparr>bus_chans = [(0, mkchan 100), (1, mkchan 100)], bus_subs = [1, 0], bus_next = 2\<rparr>,
     rg_closed = False, rg_heap = []\<rparr>"
  "mr_repo exListening = newInMemoryState" "mn_localID (mr_node exListening) = ''01''" "mn_cancelled (mr_node exListening) = False"
  "mr_discCh exListening = Some 0" "mr_syncCh exListening = Some 1" "mr_streams exListening = []" "mr_lost exListening = False"
  by (simp_all add: exListening_def Let_def exRun_def mesh_start_def exRunNode_def NewDiscoverySyncer_def NewRegistry_def SubscribeNewSessions_def
      bus_New_def gm_set_def mkchan_def numeral_2_eq_2 gm_vals_def)

definition exRegistry :: "nat list \<Rightarrow> nat list \<Rightarrow> sessionRegistry" where
  "exRegistry xs ys = \<lparr>rg_localID = ''01'', rg_sessions = [(''02'', 0)],
     rg_subs = \<lparr>bus_chans = [(0, (mkchan 100)\<lparr>ch_buf := xs\<rparr>), (1, (mkchan 100)\<lparr>ch_buf := ys\<rparr>)], bus_subs = [1, 0], bus_next = 2\<rparr>,
     rg_closed = False, rg_heap = [(0, (newSession exConn)\<lparr>ss_AddedAt := Some 1\<rparr>)]\<rparr>"

lemma exConnected_accept:
  "\<exists>e. acceptConn True (\<lambda>_. 1) 0 exConn (mr_node exListening) = Some (False, set_engine e (mr_node exListening)) \<and> en_registry e = exRegistry [0] [0]"
proof -
  have add: "reg_Add (\<lambda>k. 1) 0 ((mr_registry exListening)\<lparr>rg_heap := gm_set 0 (newSession exConn) (rg_heap (mr_registry exListening))\<rparr>) = Some (None, exRegistry [0] [0])"
    by (simp add: exListening_node(1) reg_Add_def exConn_def newSession_def exRegistry_def Let_def addVerdict_def bus_notify_def offer_def try_send_def mkchan_def
        gm_get_def gm_set_def)
  have "topo_live (mr_repo exListening)" by (simp add: exListening_node(2) topo_live_New)
  then obtain b repo where "InsertMerge \<lparr>pi_ID = pc_ID exConn, pi_Address = (if pc_initiator exConn then pc_RemoteAddr exConn else []), pi_LastSeen = 1\<rparr>
      (mr_repo exListening) = Some (b, repo)" using InsertMerge_live by blast
  with add have "HandleConnection True (\<lambda>_. 1) 0 (Some exConn) (mn_engine (mr_node exListening)) =
      Some (True, (mn_engine (mr_node exListening))\<lparr>en_repo := repo, en_registry := exRegistry [0] [0]\<rparr>)"
    by (simp add: HandleConnection_def Let_def)
  moreover have "pc_ID exConn \<noteq> mn_localID (mr_node exListening)" by (simp add: exListening_node(3) exConn_def)
  ultimately show ?thesis
    by (intro exI [of _ "(mn_engine (mr_node exListening))\<lparr>en_repo := repo, en_registry := exRegistry [0] [0]\<rparr>"]) (simp add: acceptConn_def)
qed

lemma exConnected_registry: "mr_registry exConnected = exRegistry [0] [0]" "mesh_step exListening exConnected"
  "mn_cancelled (mr_node exConnected) = False" "mr_discCh exConnected = Some 0" "mr_syncCh exConnected = Some 1" "mr_streams exConnected = []" "mr_lost exConnected = False"
proof -
  from exConnected_accept obtain e where
    e: "acceptConn True (\<lambda>_. 1) 0 exConn (mr_node exListening) = Some (False, set_engine e (mr_node exListening))" "en_registry e = exRegistry [0] [0]" by blast
  have n: "gm_get (rg_heap (mr_registry exListening)) 0 = None" by (simp add: exListening_node(1) gm_get_def)
  show "mesh_step exListening exConnected" using mesh_step.accept [OF n e(1)] e(1) by (simp add: exConnected_def exListening_node(8))
  have "offered exListening" by (simp add: offered_def has_room_def exListening_node(1,5,6) gm_get_def mkchan_def)
  then show "mr_lost exConnected = False" by (simp add: exConnected_def)
  show "mr_registry exConnected = exRegistry [0] [0]" "mn_cancelled (mr_node exConnected) = False" "mr_discCh exConnected = Some 0"
    "mr_syncCh exConnected = Some 1" "mr_streams exConnected = []"
    using e by (simp_all add: exConnected_def exListening_node(4-7))
qed

lemma exRecv:
  "bus_recv 0 (rg_subs (exRegistry [0] ys)) = Some (0, rg_subs (exRegistry [] ys))" "bus_recv 1 (rg_subs (exRegistry xs [0])) = Some (0, rg_subs (exRegistry xs []))"
  "(exRegistry xs ys)\<lparr>rg_subs := rg_subs (exRegistry us vs)\<rparr> = exRegistry us vs"
  by (simp_all add: exRegistry_def bus_recv_def chan_recv_def gm_get_def gm_set_def mkchan_def)

lemma exSynced_state: "mr_registry exSynced = exRegistry [] []" "mesh_step\<^sup>*\<^sup>* exConnected exSynced"
  "mn_cancelled (mr_node exSynced) = False" "mr_discCh exSynced = Some 0" "mr_syncCh exSynced = Some 1" "mr_lost exSynced = False"
proof -
  let ?s = "set_registry (exRegistry [] [0]) exConnected\<lparr>mr_streams := [(DiscoveryStream, 0)]\<rparr>"
  have s: "exSynced = set_registry (exRegistry [] []) ?s\<lparr>mr_streams := [(ClientsStream, 0), (RulesStream, 0), (DiscoveryStream, 0)]\<rparr>"
    unfolding exSynced_def exConnected_registry(1) exRecv Let_def using exRecv(2) [of "[]"] by (simp add: exRecv)
  have "mesh_step exConnected ?s"
    using mesh_step.disc_session [of exConnected 0 0 "rg_subs (exRegistry [] [0])"] by (simp add: exConnected_registry exRecv)
  moreover have "mesh_step ?s exSynced"
    using mesh_step.sync_session [of ?s 1 0 "rg_subs (exRegistry [] [])"] exRecv(2) [of "[]"] by (simp add: exConnected_registry exRecv s)
  ultimately show "mesh_step\<^sup>*\<^sup>* exConnected exSynced" by (blast intro: rtranclp.rtrancl_into_rtrancl)
  show "mr_registry exSynced = exRegistry [] []" "mn_cancelled (mr_node exSynced) = False" "mr_discCh exSynced = Some 0" "mr_syncCh exSynced = Some 1" "mr_lost exSynced = False"
    by (simp_all add: s exConnected_registry)
qed

lemma exSynced_reached: "mesh_step\<^sup>*\<^sup>* exRun exSynced"
  using exListening_steps exConnected_registry(2) exSynced_state(2) by (meson rtranclp.rtrancl_into_rtrancl rtranclp_trans)

lemma mesh_run_sound_witness:
  "reg_Get ''02'' (mr_registry exSynced) = Some 0 \<and> refreshPeers 100 (mn_syncer (mr_node exSynced)) \<noteq> None \<and>
   (\<exists>n. mesh_shutdown (mr_node exSynced) = Some n \<and> mn_cancelled n \<and> CountConnections n = 0)"
proof -
  have "reg_Get ''02'' (mr_registry exSynced) = Some 0" by (simp add: exSynced_state exRegistry_def reg_Get_def gm_get_def)
  with mesh_run_sound [OF exRun_init exRun_live exSynced_reached] show ?thesis by blast
qed

lemma sessions_are_synced_witness: "(RulesStream, 0) \<in> set (mr_streams exSynced)"
proof -
  from sessions_are_synced [OF exRun_init exRun_live exSynced_reached _ _ exSynced_state(4,5), of "''02''" 0 "(newSession exConn)\<lparr>ss_AddedAt := Some 1\<rparr>" RulesStream]
  show ?thesis by (simp add: exSynced_state chan_buf_def gm_get_def exRegistry_def reg_Get_def mkchan_def, simp add: newSession_def)
qed

end
