(* ===== verification/App.thy ===== *)
theory App
  imports Api TunIface QuicTransport MeshRun
begin

text \<open>
  \<^verbatim>\<open>internal/app\<close>, \<^verbatim>\<open>internal/appconfig\<close>, \<^verbatim>\<open>internal/infra/ipapi\<close> and the program \<^verbatim>\<open>cmd/node\<close>: how the node is put
  together from its configuration and its certificate, and how it is taken down again. \<open>app_New\<close> calls the constructors
  of the other theories in the order of the code. The outside (key files, sockets, the database file, the IP service, YAML)
  is the record \<open>platform\<close> of outcomes. Shared objects are kept once: router, firewall manager, database and transports are the ones
  inside the peers manager. A panic is None.
\<close>

section \<open>Configuration\<close>

record AuthConfig =
  au_JWTSecret :: string
  au_Cert :: string
  au_Key :: string
  au_RootCert :: string

text \<open>A value of the type \<^verbatim>\<open>any\<close>, and the transports in the order in which the loop over the map meets them.\<close>

datatype 'y any = AnyString string | AnyOther 'y

record 'y RouterConfig =
  rc_Transports :: "(string \<times> (string \<times> 'y any) list) list"

record 'y AppConfig =
  ac_Auth :: AuthConfig
  ac_TunConfig :: TUNConfig
  ac_Router :: "'y RouterConfig"
  ac_Mesh :: MeshConfig
  ac_DatabaseFile :: string
  ac_GrpcListenAddr :: string
  ac_HttpListenAddr :: string

definition LoadAppConfig :: "(string \<Rightarrow> 'y AppConfig option) \<Rightarrow> string \<Rightarrow> 'y AppConfig option" where
  "LoadAppConfig readConfig configFile = readConfig configFile"

section \<open>Where the node is\<close>

record IPInfo =
  ii_IP :: string
  ii_City :: string
  ii_Region :: string
  ii_CountryCode :: string
  ii_Loc :: string
  ii_Org :: string
  ii_Postal :: string
  ii_Timezone :: string
  ii_Readme :: string

text \<open>\<^verbatim>\<open>encoding/json\<close> fills a field from the last key that equals its tag up to case; a missing key leaves the empty text.\<close>

definition jsonField :: "string \<Rightarrow> (string \<times> string) list \<Rightarrow> string" where
  "jsonField tag obj = (case filter (\<lambda>kv. EqualFold (fst kv) tag) obj of [] \<Rightarrow> '''' | kvs \<Rightarrow> snd (last kvs))"

definition decodeIPInfo :: "(string \<times> string) list \<Rightarrow> IPInfo" where
  "decodeIPInfo obj =
     \<lparr>ii_IP = jsonField ''ip'' obj, ii_City = jsonField ''city'' obj, ii_Region = jsonField ''region'' obj, ii_CountryCode = jsonField ''country'' obj,
      ii_Loc = jsonField ''loc'' obj, ii_Org = jsonField ''org'' obj, ii_Postal = jsonField ''postal'' obj, ii_Timezone = jsonField ''timezone'' obj,
      ii_Readme = jsonField ''readme'' obj\<rparr>"

text \<open>The response: status and the object of the body, None when it is not one of texts.\<close>

definition getIpInfo :: "bool \<Rightarrow> (nat \<times> (string \<times> string) list option) option \<Rightarrow> IPInfo option" where
  "getIpInfo rqOk resp =
     (if \<not> rqOk then None
      else case resp of
             None \<Rightarrow> None
           | Some (status, body) \<Rightarrow> if status < 200 \<or> 300 \<le> status then None else map_option decodeIPInfo body)"

definition GetIpInfo :: "(nat \<times> (string \<times> string) list option) option \<Rightarrow> IPInfo option" where
  "GetIpInfo resp = getIpInfo True resp"

definition unknownPlace :: IPInfo where
  "unknownPlace = \<lparr>ii_IP = '''', ii_City = '''', ii_Region = '''', ii_CountryCode = ''UNKNOWN'', ii_Loc = '''', ii_Org = '''', ii_Postal = '''',
     ii_Timezone = '''', ii_Readme = ''''\<rparr>"

section \<open>Secret and networks\<close>

definition weakSecrets :: "string list" where
  "weakSecrets = [''sraka'', ''secret'', ''changeme'', ''password'']"

text \<open>\<^verbatim>\<open>strings.ToLower\<close> on ASCII; a text with other bytes is none of the four.\<close>

definition validateJWTSecret :: "string \<Rightarrow> bool" where
  "validateJWTSecret secret =
     (if length secret < 16 then False
      else if map toLower secret \<in> set weakSecrets then False
      else True)"

text \<open>The network of the node and the network of all nodes, from the first address of the certificate. An address without a
  four-byte form gives an empty mask result, and taking its bytes panics.\<close>

definition certNets :: "netIP \<Rightarrow> (string \<times> string) option" where
  "certNets addr =
     (let ip = To4 addr; nodeIP = ipMask ip (CIDRMask 16 4) in
      if length nodeIP < 3 then None
      else Some (dotted [nodeIP ! 0, nodeIP ! 1, nodeIP ! 2, 1] @ ''/'' @ show_nat 16, dotted (ipMask ip (CIDRMask 8 4)) @ ''/'' @ show_nat 8))"

section \<open>The application\<close>

datatype handle = NoHandle | Opened | Closed

definition shut :: "handle \<Rightarrow> handle" where
  "shut h = (if h = Opened then Closed else h)"

record ('l, 'w, 'c, 'd) App =
  app_cancelled :: bool
  app_db :: handle
  app_peersManager :: "('d AWGTransport, ('l, 'w mesh_net) Router) PeersManager option"
  app_node :: "('l, 'w, 'c) MeshNode option"
  app_tunIface :: "TUNIface option"
  app_grpcLis :: handle
  app_grpcServer :: handle
  app_httpServer :: handle
  app_ipInfo :: "IPInfo option"

datatype app_error = WeakSecret | RootCertFailed | NodeCertFailed | NoLeaf | NoIPs | GrpcListenFailed | DbOpenFailed | DbPingFailed | DbMigrateFailed
  | RouterFailed cidr_error | MeshFailed node_error | TunFailed iface_error | DuplicatedTransport string | NoTransportType string
  | TransportConfigFailed string | TransportNotCreated string awg_error | UnknownTransportType string
  | FirewallManagerFailed | PeersManagerFailed | ServerFailed | DbCloseFailed

record ('y, 'k, 'd) platform =
  pf_lib :: x509_lib
  pf_files :: files
  pf_LoadX509KeyPair :: "string \<Rightarrow> string \<Rightarrow> (bytes list \<times> x509_cert option) option"
  pf_parse :: "bytes \<Rightarrow> bytes option"
  pf_sha256 :: "bytes \<Rightarrow> bytes"
  pf_grpcListen :: bool
  pf_dbOpen :: bool
  pf_dbPing :: bool
  pf_dbMigrate :: bool
  pf_dbClose :: bool \<comment> \<open>what \<^verbatim>\<open>Close\<close> of the database returns\<close>
  pf_stored :: "database option" \<comment> \<open>what the database file holds\<close>
  pf_fk :: bool
  pf_procs :: nat
  pf_meshListen :: bool
  pf_storeReadable :: bool
  pf_fs :: filesystem
  pf_ipService :: "(nat \<times> (string \<times> string) list option) option"
  pf_v6text :: "netIP \<Rightarrow> string"
  pf_host :: "'k host_port"
  pf_yaml :: "(string \<times> 'y any) list \<Rightarrow> TransportConfig option" \<comment> \<open>\<^verbatim>\<open>ParseConfig\<close>\<close>
  pf_device :: "'d awg_device"
  pf_x25519 :: "bytes \<Rightarrow> bytes option"

definition migrateDatabase :: "bool \<Rightarrow> database option \<Rightarrow> database" where
  "migrateDatabase fk stored = (case stored of None \<Rightarrow> db_empty fk | Some db \<Rightarrow> db)"

fun buildTransports ::
  "('y, 'k, 'd) platform \<Rightarrow> string \<Rightarrow> (string \<times> (string \<times> 'y any) list) list \<Rightarrow> ('d AWGTransport, 'r) PeersManager \<Rightarrow>
   app_error option \<times> ('d AWGTransport, 'r) PeersManager" where
  "buildTransports pf nodeID [] pm = (None, pm)"
| "buildTransports pf nodeID ((name, iconf) # rest) pm =
     (if sm_Exists (pm_transports pm) name then (Some (DuplicatedTransport name), pm)
      else case map_of iconf ''type'' of
             None \<Rightarrow> (Some (NoTransportType name), pm)
           | Some typ \<Rightarrow>
               if typ = AnyString ''awg''
               then case pf_yaml pf iconf of
                      None \<Rightarrow> (Some (TransportConfigFailed name), pm)
                    | Some icfg \<Rightarrow>
                        (case awg_New (pf_device pf) (pf_x25519 pf) icfg nodeID of
                           Inl e \<Rightarrow> (Some (TransportNotCreated name e), pm)
                         | Inr trp \<Rightarrow> buildTransports pf nodeID rest (RegisterTransport name trp pm))
               else (Some (UnknownTransportType name), pm))"

definition stopRuntime ::
  "('y, 'k, 'd) platform \<Rightarrow> ('l, 'w, 'c, 'd) App \<times> 'k \<Rightarrow> (('l, 'w, 'c, 'd) App \<times> 'k) option" where
  "stopRuntime pf s =
     (let (app, k) = s; app = app\<lparr>app_cancelled := True\<rparr> in
      case (case app_node app of None \<Rightarrow> Some None | Some n \<Rightarrow> map_option Some (mesh_Close n)) of
        None \<Rightarrow> None
      | Some node \<Rightarrow>
          let app = app\<lparr>app_node := node, app_grpcServer := shut (app_grpcServer app), app_grpcLis := shut (app_grpcLis app),
                        app_httpServer := shut (app_httpServer app)\<rparr>
          in case app_tunIface app of
               None \<Rightarrow> Some (app, k)
             | Some t \<Rightarrow> let (_, t', k') = iface_Close (pf_v6text pf) (pf_host pf) t k in Some (app\<lparr>app_tunIface := Some t'\<rparr>, k'))"

text \<open>\<^verbatim>\<open>Close\<close> of the database; when it fails the handle counts as open.\<close>

definition closeDb :: "('y, 'k, 'd) platform \<Rightarrow> ('l, 'w, 'c, 'd) App \<Rightarrow> ('l, 'w, 'c, 'd) App" where
  "closeDb pf app = (if pf_dbClose pf then app\<lparr>app_db := shut (app_db app)\<rparr> else app)"

definition closeResources ::
  "('y, 'k, 'd) platform \<Rightarrow> ('l, 'w, 'c, 'd) App \<times> 'k \<Rightarrow> (('l, 'w, 'c, 'd) App \<times> 'k) option" where
  "closeResources pf s = map_option (\<lambda>(app, k). (closeDb pf app, k)) (stopRuntime pf s)"

section \<open>Start\<close>

definition app_fresh :: "('l, 'w, 'c, 'd) App" where
  "app_fresh = \<lparr>app_cancelled = False, app_db = NoHandle, app_peersManager = None, app_node = None, app_tunIface = None, app_grpcLis = NoHandle,
     app_grpcServer = NoHandle, app_httpServer = NoHandle, app_ipInfo = None\<rparr>"

text \<open>An error return of \<^verbatim>\<open>New\<close>: the deferred function closes what is open.\<close>

definition app_fail ::
  "('y, 'k, 'd) platform \<Rightarrow> app_error \<Rightarrow> ('l, 'w, 'c, 'd) App \<Rightarrow> 'k \<Rightarrow> (app_error option \<times> ('l, 'w, 'c, 'd) App \<times> 'k) option" where
  "app_fail pf e app k = map_option (Pair (Some e)) (closeResources pf (app, k))"

text \<open>From the interface on, and from the router on.\<close>

definition app_edge ::
  "('y, 'k, 'd) platform \<Rightarrow> 'y AppConfig \<Rightarrow> string \<Rightarrow> string \<Rightarrow> ('d AWGTransport, ('l, 'w mesh_net) Router) PeersManager \<Rightarrow>
   ('l, 'w, 'c, 'd) App \<Rightarrow> 'k \<Rightarrow> (app_error option \<times> ('l, 'w, 'c, 'd) App \<times> 'k) option" where
  "app_edge pf cfg nodeNet nodeID pm app k =
     (let app = app\<lparr>app_peersManager := Some pm, app_ipInfo := Some (case GetIpInfo (pf_ipService pf) of None \<Rightarrow> unknownPlace | Some i \<Rightarrow> i)\<rparr> in
      case NewTUN (pf_v6text pf) (pf_host pf) (ac_TunConfig cfg) nodeNet k of
        (Inl e, k) \<Rightarrow> app_fail pf (TunFailed e) app k
      | (Inr tun, k) \<Rightarrow>
          let app = app\<lparr>app_tunIface := Some tun\<rparr> in
          (case buildTransports pf nodeID (rc_Transports (ac_Router cfg)) pm of
             (Some e, pm) \<Rightarrow> app_fail pf e (app\<lparr>app_peersManager := Some pm\<rparr>) k
           | (None, pm) \<Rightarrow> Some (None, app\<lparr>app_peersManager := Some pm\<rparr>, k)))"

definition app_network ::
  "('y, 'k, 'd) platform \<Rightarrow> 'y AppConfig \<Rightarrow> 'w \<Rightarrow> Certificate \<Rightarrow> string \<Rightarrow> string \<Rightarrow> ('l, 'w, 'c, 'd) App \<Rightarrow> 'k \<Rightarrow>
   (app_error option \<times> ('l, 'w, 'c, 'd) App \<times> 'k) option" where
  "app_network pf cfg w0 cert nodeNet globalNet app k =
     (case router_New (pf_procs pf) (mkchan 0, w0) nodeNet globalNet of
        Inl e \<Rightarrow> app_fail pf (RouterFailed e) app k
      | Inr router \<Rightarrow>
          (case fst (mesh_New (pf_parse pf) (pf_sha256 pf) (pf_storeReadable pf) (pf_fs pf) (ac_Mesh cfg) cert router (pf_meshListen pf)) of
             Inl e \<Rightarrow> app_fail pf (MeshFailed e) app k
           | Inr node \<Rightarrow>
               let fm = \<lparr>fm_firewall = mn_router node, fm_db = migrateDatabase (pf_fk pf) (pf_stored pf), fm_nodeID = NodeID node\<rparr>
               in app_edge pf cfg nodeNet (NodeID node) (pm_New fm nodeNet) (app\<lparr>app_node := Some node\<rparr>) k))"

text \<open>From the listener on.\<close>

definition app_services ::
  "('y, 'k, 'd) platform \<Rightarrow> 'y AppConfig \<Rightarrow> 'w \<Rightarrow> Certificate \<Rightarrow> string \<Rightarrow> string \<Rightarrow> 'k \<Rightarrow> (app_error option \<times> ('l, 'w, 'c, 'd) App \<times> 'k) option" where
  "app_services pf cfg w0 cert nodeNet globalNet k =
     (if \<not> pf_grpcListen pf then app_fail pf GrpcListenFailed app_fresh k
      else
        let app = app_fresh\<lparr>app_grpcLis := Opened, app_grpcServer := Opened, app_httpServer := Opened\<rparr> in
        if \<not> pf_dbOpen pf then app_fail pf DbOpenFailed app k
        else
          let app = app\<lparr>app_db := Opened\<rparr> in
          if \<not> pf_dbPing pf then app_fail pf DbPingFailed app k
          else if \<not> pf_dbMigrate pf then app_fail pf DbMigrateFailed app k
          else app_network pf cfg w0 cert nodeNet globalNet app k)"

text \<open>The secret, the root and the certificate with its first address.\<close>

definition loadIdentity :: "('y, 'k, 'd) platform \<Rightarrow> AuthConfig \<Rightarrow> app_error + (Certificate \<times> netIP)" where
  "loadIdentity pf auth =
     (if \<not> validateJWTSecret (au_JWTSecret auth) then Inl WeakSecret
      else case ReadCertificateFromFile (pf_lib pf) (au_RootCert auth) (pf_files pf) of
        Inl _ \<Rightarrow> Inl RootCertFailed
      | Inr _ \<Rightarrow>
          (case pf_LoadX509KeyPair pf (au_Cert auth) (au_Key auth) of
             None \<Rightarrow> Inl NodeCertFailed
           | Some (_, None) \<Rightarrow> Inl NoLeaf
           | Some (chain, Some leaf) \<Rightarrow>
               (case xc_IPAddresses leaf of
                  [] \<Rightarrow> Inl NoIPs
                | addr # _ \<Rightarrow> Inr (\<lparr>ct_chain = chain, ct_Leaf = Some (xc_PublicKey leaf)\<rparr>, addr))))"

definition app_New ::
  "('y, 'k, 'd) platform \<Rightarrow> 'y AppConfig \<Rightarrow> 'w \<Rightarrow> 'k \<Rightarrow> (app_error option \<times> ('l, 'w, 'c, 'd) App \<times> 'k) option" where
  "app_New pf cfg w0 k =
     (case loadIdentity pf (ac_Auth cfg) of
        Inl e \<Rightarrow> app_fail pf e app_fresh k
      | Inr (cert, addr) \<Rightarrow>
          (case certNets addr of
             None \<Rightarrow> None
           | Some (nodeNet, globalNet) \<Rightarrow> app_services pf cfg w0 cert nodeNet globalNet k))"

section \<open>Run\<close>

text \<open>
  The workers run between the start of the managers and the first value of \<^verbatim>\<open>serveErr\<close> (\<open>first\<close>): the result of the
  gRPC server or of the HTTP server, whichever comes first, before or after the context is done. \<open>work\<close> is the state they
  leave, one that \<open>workers\<close> allows: the mesh node takes the steps of \<open>mesh_step\<close> from the start of its \<^verbatim>\<open>Run\<close>; what
  the router, the interface, the transports, the handlers of requests and the host do to everything else is left open,
  except that the interface object stays and nobody closes the database. After the stop \<^verbatim>\<open>workers.Wait\<close> waits for the
  transports, whose \<^verbatim>\<open>Run\<close> closes the device (\<open>transportsEnd\<close>). The deferred function stops what is left and closes the database.
\<close>

datatype serve_result = ServeOk | ErrServerStopped | GrpcError | HttpError

definition workers :: "('l, 'w, 'c, 'd) App \<times> 'k \<Rightarrow> ('l, 'w, 'c, 'd) App \<times> 'k \<Rightarrow> bool" where
  "workers s s' \<longleftrightarrow>
     (case app_node (fst s) of None \<Rightarrow> app_node (fst s') = None
      | Some n \<Rightarrow> \<exists>tAddr m. mesh_step\<^sup>*\<^sup>* (mesh_start tAddr n) m \<and> app_node (fst s') = Some (mr_node m)) \<and>
     (app_tunIface (fst s') = None \<longleftrightarrow> app_tunIface (fst s) = None) \<and> app_db (fst s') = app_db (fst s)"

definition transportsEnd :: "'d awg_device \<Rightarrow> ('d AWGTransport, 'r) PeersManager \<Rightarrow> ('d AWGTransport, 'r) PeersManager" where
  "transportsEnd D pm = pm\<lparr>pm_transports := (pm_transports pm)\<lparr>sm_data :=
     map (\<lambda>(name, t). (name, t\<lparr>aw_device := dv_Close D (aw_device t)\<rparr>)) (sm_data (pm_transports pm))\<rparr>\<rparr>"

definition app_deferred ::
  "('y, 'k, 'd) platform \<Rightarrow> app_error option \<Rightarrow> ('l, 'w, 'c, 'd) App \<times> 'k \<Rightarrow> (app_error option \<times> ('l, 'w, 'c, 'd) App \<times> 'k) option" where
  "app_deferred pf runErr s =
     map_option (\<lambda>(app, k). (if runErr = None \<and> \<not> pf_dbClose pf then Some DbCloseFailed else runErr, closeDb pf app, k)) (stopRuntime pf s)"

definition app_Run ::
  "('y, 'k, 'd) platform \<Rightarrow> ('d AWGTransport, ('l, 'w mesh_net) Router) transport_port \<Rightarrow> (nat \<Rightarrow> bool) \<Rightarrow> (nat \<Rightarrow> bool) \<Rightarrow> gotime \<Rightarrow>
   (('l, 'w, 'c, 'd) App \<times> 'k \<Rightarrow> ('l, 'w, 'c, 'd) App \<times> 'k) \<Rightarrow> serve_result \<Rightarrow> ('l, 'w, 'c, 'd) App \<Rightarrow> 'k \<Rightarrow>
   (app_error option \<times> ('l, 'w, 'c, 'd) App \<times> 'k) option" where
  "app_Run pf T ioF ioP now work first app k =
     (case app_peersManager app of
        None \<Rightarrow> None
      | Some pm \<Rightarrow>
          (case fm_Run router_port ioF (pm_fm pm) of
             None \<Rightarrow> None
           | Some (Inl _, fm) \<Rightarrow> app_deferred pf (Some FirewallManagerFailed) (app\<lparr>app_peersManager := Some (set_fm fm pm)\<rparr>, k)
           | Some (Inr _, fm) \<Rightarrow>
               (case pm_Run T ioP now (set_fm fm pm) of
                  None \<Rightarrow> None
                | Some (Inl _, pm) \<Rightarrow> app_deferred pf (Some PeersManagerFailed) (app\<lparr>app_peersManager := Some pm\<rparr>, k)
                | Some (Inr _, pm) \<Rightarrow>
                    (case stopRuntime pf (work (app\<lparr>app_peersManager := Some pm\<rparr>, k)) of
                       None \<Rightarrow> None
                     | Some (app, k) \<Rightarrow>
                         app_deferred pf (if first = ServeOk \<or> first = ErrServerStopped then None else Some ServerFailed)
                           (app\<lparr>app_peersManager := map_option (transportsEnd (pf_device pf)) (app_peersManager app)\<rparr>, k)))))"

text \<open>\<^verbatim>\<open>cmd/node\<close>: the exit of the process. Without a configuration file the program prints a hint and ends.\<close>

datatype exit = ExitOk | ExitPanic | ExitFatal

definition node_main where
  "node_main pf readConfig args T ioF ioP now work first w0 k =
     (if length args < 2 then ExitOk
      else case LoadAppConfig readConfig (args ! 1) of
             None \<Rightarrow> ExitPanic
           | Some cfg \<Rightarrow>
               (case app_New pf cfg w0 k of
                  None \<Rightarrow> ExitPanic
                | Some (Some _, _) \<Rightarrow> ExitPanic
                | Some (None, app, k) \<Rightarrow>
                    (case app_Run pf T ioF ioP now work first app k of
                       None \<Rightarrow> ExitPanic | Some (Some _, _) \<Rightarrow> ExitFatal | Some (None, _) \<Rightarrow> ExitOk)))"

section \<open>What the certificate decides\<close>

lemma masks: "CIDRMask 16 4 = [255, 255, 0, 0]" "CIDRMask 8 4 = [255, 0, 0, 0]"
  by code_simp+

lemma byte_and_255 [simp]: "x AND 255 = (x :: u8)"
proof -
  have "(255 :: u8) = - 1" by simp
  then show ?thesis by (simp only: and.right_neutral)
qed

lemma certNets_v4:
  assumes "To4 addr = [a, b, c, d]"
  shows "certNets addr = Some (dotted [a, b, 0, 1] @ ''/'' @ show_nat 16, dotted [a, 0, 0, 0] @ ''/'' @ show_nat 8)"
  using assms by (simp add: certNets_def masks ipMask_def Let_def v4InV6Prefix_def del: dotted.simps)

lemma certNets_none: "certNets addr = None \<longleftrightarrow> To4 addr = []"
proof (cases "To4 addr = []")
  case True
  then show ?thesis by (simp add: certNets_def masks ipMask_def Let_def)
next
  case False
  then have "length (To4 addr) = 4" by (auto simp: To4_def split: if_splits)
  then obtain a b c d where "To4 addr = [a, b, c, d]" by (auto simp: numeral_eq_Suc length_Suc_conv)
  with certNets_v4 show ?thesis by simp
qed

text \<open>The address of the node in its network, and the base of the network of all nodes, as words.\<close>

definition gatewayOf :: "u32 \<Rightarrow> u32" where
  "gatewayOf x = (x AND NOT (mask 16)) OR 1"

definition allNodes :: "u32 \<Rightarrow> u32" where
  "allNodes x = x AND NOT (mask 24)"

lemma put32_gateway:
  assumes "put32 x = [a, b, c, d]"
  shows "put32 (gatewayOf x) = [a, b, 0, 1]" "put32 (allNodes x) = [a, 0, 0, 0]"
proof -
  have w: "ucast (drop_bit 24 x) = a" "ucast (drop_bit 16 x) = b" using assms by (simp_all add: put32_def)
  have "ucast (drop_bit 24 (gatewayOf x)) = (ucast (drop_bit 24 x) :: u8)" "ucast (drop_bit 16 (gatewayOf x)) = (ucast (drop_bit 16 x) :: u8)"
    "ucast (drop_bit 8 (gatewayOf x)) = (0 :: u8)" "ucast (gatewayOf x) = (1 :: u8)"
    "ucast (drop_bit 24 (allNodes x)) = (ucast (drop_bit 24 x) :: u8)" "ucast (drop_bit 16 (allNodes x)) = (0 :: u8)"
    "ucast (drop_bit 8 (allNodes x)) = (0 :: u8)" "ucast (allNodes x) = (0 :: u8)"
    by (rule bit_eqI; auto simp: gatewayOf_def allNodes_def bit_simps)+
  with w show "put32 (gatewayOf x) = [a, b, 0, 1]" "put32 (allNodes x) = [a, 0, 0, 0]" by (simp_all add: put32_def)
qed

definition netText :: "u32 \<Rightarrow> string" where
  "netText x = Uint32ToIPString (gatewayOf x) @ CHR ''/'' # show_nat 16"

definition allText :: "u32 \<Rightarrow> string" where
  "allText x = Uint32ToIPString (allNodes x) @ CHR ''/'' # show_nat 8"

lemma certNets_text:
  assumes "To4 addr = put32 x"
  shows "certNets addr = Some (netText x, allText x)"
proof -
  obtain a b c d where p: "put32 x = [a, b, c, d]" by (rule put32_parts)
  with certNets_v4 [of addr a b c d] assms put32_gateway [OF p] show ?thesis
    by (simp add: Uint32ToIPString_def netText_def allText_def del: dotted.simps)
qed

lemma prefix_gateway [simp]: "drop_bit 16 (gatewayOf x) = drop_bit 16 x" "drop_bit 24 (allNodes x) = drop_bit 24 x"
  by (rule bit_eqI; auto simp: gatewayOf_def allNodes_def bit_simps dest: bit_imp_le_length)+

lemma prefix_gateway_next: "drop_bit 16 (gatewayOf x + 1) = drop_bit 16 x"
proof -
  let ?y = "x AND NOT (mask 16)"
  have low: "bit w n \<Longrightarrow> n < 16" if "w \<in> {1, 2 :: u32}" for w n
    using that by (auto simp: bit_1_iff bit_2_iff)
  have z: "?y AND w = 0" if "w \<in> {1, 2}" for w
    by (rule bit_eqI) (use low [OF that] in \<open>auto simp: bit_simps\<close>)
  have "gatewayOf x + 1 = ?y + 2" using disjunctive_add_eq_or [OF z, of 1] by (simp add: gatewayOf_def add.commute)
  also have "\<dots> = ?y OR 2" by (rule disjunctive_add_eq_or [OF z]) simp
  finally have "drop_bit 16 (gatewayOf x + 1) = drop_bit 16 (?y OR 2)" by (rule arg_cong)
  also have "\<dots> = drop_bit 16 x" by (rule bit_eqI) (auto simp: bit_simps dest: bit_imp_le_length)
  finally show ?thesis .
qed

lemma router_of_nets:
  obtains r :: "('l, 'n) Router" where "router_New procs net0 (netText x) (allText y) = Inr r" "gatewayAddr r = gatewayOf x"
    "routingTable r = rt_New" "firewall r = fw_New" "routingsubs r = bus_New" "firewallsubs r = bus_New"
    "\<forall>ip. Contains (network r) ip = (drop_bit 16 ip = drop_bit 16 x)" "\<forall>ip. Contains (globalNetwork r) ip = (drop_bit 24 ip = drop_bit 24 y)"
proof -
  have "\<exists>r :: ('l, 'n) Router. router_New procs net0 (netText x) (allText y) = Inr r \<and> gatewayAddr r = gatewayOf x \<and>
     routingTable r = rt_New \<and> firewall r = fw_New \<and> routingsubs r = bus_New \<and> firewallsubs r = bus_New \<and>
     (\<forall>ip. Contains (network r) ip = (drop_bit 16 ip = drop_bit 16 x)) \<and> (\<forall>ip. Contains (globalNetwork r) ip = (drop_bit 24 ip = drop_bit 24 y))"
    using same_prefix [of 16 _ "gatewayOf x"] same_prefix [of 8 _ "allNodes y"]
    by (simp add: router_New_def NewNativeIPNet_text Contains_def netText_def allText_def)
  with that show thesis by blast
qed

lemma prefix_nested: "drop_bit 16 (a :: u32) = drop_bit 16 b \<Longrightarrow> drop_bit 24 a = drop_bit 24 b"
proof -
  assume "drop_bit 16 a = drop_bit 16 b"
  then have "drop_bit 8 (drop_bit 16 a) = drop_bit 8 (drop_bit 16 b)" by simp
  then show ?thesis by simp
qed

text \<open>The networks of a node. From a certificate whose first address is x the router is built without an error: its own network are
  the addresses that share the first two bytes of x, the network of all nodes those that share the first byte, the gateway is
  the first address of the node's network, and the addresses of clients are searched from the second one on.\<close>

theorem node_networks:
  assumes "To4 addr = put32 x"
  shows "\<exists>nodeNet globalNet (r :: ('l, 'n) Router). certNets addr = Some (nodeNet, globalNet) \<and> router_New procs net0 nodeNet globalNet = Inr r \<and>
    gatewayAddr r = gatewayOf x \<and> Contains (network r) (gatewayOf x) \<and>
    pm_startingIP (pm_New fm nodeNet) = gatewayOf x + 1 \<and> Contains (network r) (gatewayOf x + 1) \<and>
    (\<forall>ip. Contains (network r) ip = (drop_bit 16 ip = drop_bit 16 x)) \<and> (\<forall>ip. Contains (globalNetwork r) ip = (drop_bit 24 ip = drop_bit 24 x)) \<and>
    (\<forall>ip. Contains (network r) ip \<longrightarrow> Contains (globalNetwork r) ip)"
proof -
  obtain r :: "('l, 'n) Router" where r: "router_New procs net0 (netText x) (allText x) = Inr r" "gatewayAddr r = gatewayOf x"
    "\<forall>ip. Contains (network r) ip = (drop_bit 16 ip = drop_bit 16 x)" "\<forall>ip. Contains (globalNetwork r) ip = (drop_bit 24 ip = drop_bit 24 x)"
    by (rule router_of_nets)
  have start: "pm_startingIP (pm_New fm (netText x)) = gatewayOf x + 1" by (simp add: pm_New_def NewNativeIPNet_text netText_def)
  have inside: "Contains (network r) (gatewayOf x)" "Contains (network r) (gatewayOf x + 1)"
    unfolding r(3) [THEN spec] by (rule prefix_gateway, rule prefix_gateway_next)
  have nested: "\<forall>ip. Contains (network r) ip \<longrightarrow> Contains (globalNetwork r) ip" using prefix_nested r(3,4) by blast
  show ?thesis
    by (intro exI [of _ "netText x"] exI [of _ "allText x"] exI [of _ r] conjI) (rule certNets_text [OF assms] r start inside nested)+
qed

theorem node_networks_witness:
  "\<exists>nodeNet globalNet (r :: (nat, unit \<times> nat) Router). certNets [10, 3, 0, 0] = Some (nodeNet, globalNet) \<and> router_New 4 ((), 0 :: nat) nodeNet globalNet = Inr r \<and>
     gatewayAddr r = 0x0A030001 \<and> pm_startingIP (pm_New (exManager True) nodeNet) = 0x0A030002"
proof -
  have "To4 [10, 3, 0, 0] = put32 0x0A030000" "gatewayOf 0x0A030000 = 0x0A030001"
    by (simp_all add: To4_def put32_def gatewayOf_def mask_eq_exp_minus_1)
  from node_networks [OF this(1), of 4 "((), 0 :: nat)" "exManager True"] this(2) show ?thesis by auto
qed

text \<open>The nodes of one generator do not overlap. After a run of the certificate generator the key and the certificate of every node can be
  read back; the networks that two of the nodes build from their certificates have no address in common and lie in the same
  network of all nodes.\<close>

theorem certgen_networks:
  assumes "x509_laws L" and "certgen_main L gs fs = Some fs'" and "i < 10" and "j < 10" and "i \<noteq> j"
  shows "\<exists>k ci cj ni nj g (ri :: ('l, 'n) Router) (rj :: ('l, 'n) Router). gs_key gs (i + 1) = Some k \<and> ReadPrivateKeyFromFile L (certFile (nodeName i @ ''.key'')) fs' = Inr k \<and>
    ReadCertificateFromFile L (certFile (nodeName i @ ''.crt'')) fs' = Inr ci \<and>
    ReadCertificateFromFile L (certFile (nodeName j @ ''.crt'')) fs' = Inr cj \<and>
    certNets (hd (xc_IPAddresses ci)) = Some (ni, g) \<and> certNets (hd (xc_IPAddresses cj)) = Some (nj, g) \<and>
    router_New procs net0 ni g = Inr ri \<and> router_New procs net0 nj g = Inr rj \<and> (\<forall>ip. Contains (globalNetwork ri) ip = Contains (globalNetwork rj) ip) \<and>
    (\<forall>ip. \<not> (Contains (network ri) ip \<and> Contains (network rj) ip))"
proof -
  define x where "x n = (0x0A000000 :: u32) + of_nat (n + 1) * 0x10000" for n
  have put: "put32 (x n) = [10, of_nat (n + 1), 0, 0] \<and> allNodes (x n) = 0x0A000000 \<and> unat (drop_bit 16 (x n)) = 2560 + (n + 1)" if "n < 10" for n
  proof -
    have "n \<in> set [0..<10]" using that by simp
    moreover have "\<forall>n \<in> set [0..<10]. put32 (x n) = [10, of_nat (n + 1), 0, 0] \<and> allNodes (x n) = 0x0A000000 \<and> unat (drop_bit 16 (x n)) = 2560 + (n + 1)"
      unfolding x_def by code_simp
    ultimately show ?thesis by blast
  qed
  have net: "\<exists>k c (r :: ('l, 'n) Router). gs_key gs (n + 1) = Some k \<and> ReadPrivateKeyFromFile L (certFile (nodeName n @ ''.key'')) fs' = Inr k \<and>
      ReadCertificateFromFile L (certFile (nodeName n @ ''.crt'')) fs' = Inr c \<and> certNets (hd (xc_IPAddresses c)) = Some (netText (x n), allText 0x0A000000) \<and>
      router_New procs net0 (netText (x n)) (allText 0x0A000000) = Inr r \<and>
      (\<forall>ip. Contains (network r) ip = (drop_bit 16 ip = drop_bit 16 (x n))) \<and> (\<forall>ip. Contains (globalNetwork r) ip = (drop_bit 24 ip = drop_bit 24 0x0A000000))"
    if "n < 10" for n
  proof -
    from certgen_files(2) [OF assms(1,2) that] obtain k c where k: "gs_key gs (n + 1) = Some k"
      "ReadPrivateKeyFromFile L (certFile (nodeName n @ ''.key'')) fs' = Inr k"
      "ReadCertificateFromFile L (certFile (nodeName n @ ''.crt'')) fs' = Inr c" "xc_IPAddresses c = [[10, of_nat (n + 1), 0, 0]]"
      by (auto simp: pair_ok_def node_cert_def)
    then have "To4 (hd (xc_IPAddresses c)) = put32 (x n)" using put [OF that] by (simp add: To4_def)
    moreover have "allText (x n) = allText 0x0A000000" using put [OF that] by (simp add: allText_def) (simp add: allNodes_def mask_eq_exp_minus_1)
    ultimately have c: "certNets (hd (xc_IPAddresses c)) = Some (netText (x n), allText 0x0A000000)" using certNets_text by metis
    obtain r :: "('l, 'n) Router" where "router_New procs net0 (netText (x n)) (allText 0x0A000000) = Inr r"
      "\<forall>ip. Contains (network r) ip = (drop_bit 16 ip = drop_bit 16 (x n))" "\<forall>ip. Contains (globalNetwork r) ip = (drop_bit 24 ip = drop_bit 24 0x0A000000)"
      by (rule router_of_nets)
    with k(1-3) c show ?thesis by blast
  qed
  have "drop_bit 16 (x i) \<noteq> drop_bit 16 (x j)" using put [OF assms(3)] put [OF assms(4)] assms(5) by auto
  then have apart: "\<not> (drop_bit 16 ip = drop_bit 16 (x i) \<and> drop_bit 16 ip = drop_bit 16 (x j))" for ip by metis
  obtain ki ci and ri :: "('l, 'n) Router" where i: "gs_key gs (i + 1) = Some ki" "ReadPrivateKeyFromFile L (certFile (nodeName i @ ''.key'')) fs' = Inr ki"
    "ReadCertificateFromFile L (certFile (nodeName i @ ''.crt'')) fs' = Inr ci" "certNets (hd (xc_IPAddresses ci)) = Some (netText (x i), allText 0x0A000000)"
    "router_New procs net0 (netText (x i)) (allText 0x0A000000) = Inr ri" "\<forall>ip. Contains (network ri) ip = (drop_bit 16 ip = drop_bit 16 (x i))"
    "\<forall>ip. Contains (globalNetwork ri) ip = (drop_bit 24 ip = drop_bit 24 0x0A000000)" using net [OF assms(3)] by blast
  obtain cj and rj :: "('l, 'n) Router" where j: "ReadCertificateFromFile L (certFile (nodeName j @ ''.crt'')) fs' = Inr cj" "certNets (hd (xc_IPAddresses cj)) = Some (netText (x j), allText 0x0A000000)"
    "router_New procs net0 (netText (x j)) (allText 0x0A000000) = Inr rj" "\<forall>ip. Contains (network rj) ip = (drop_bit 16 ip = drop_bit 16 (x j))"
    "\<forall>ip. Contains (globalNetwork rj) ip = (drop_bit 24 ip = drop_bit 24 0x0A000000)" using net [OF assms(4)] by blast
  show ?thesis
    by (intro exI [of _ ki] exI [of _ ci] exI [of _ cj] exI [of _ "netText (x i)"] exI [of _ "netText (x j)"] exI [of _ "allText 0x0A000000"] exI [of _ ri] exI [of _ rj] conjI)
      (use i j apart in simp_all)
qed

theorem certgen_networks_witness:
  "\<exists>fs' c n g (r :: (nat, nat) Router). certgen_main exLib exSources [] = Some fs' \<and> ReadCertificateFromFile exLib (certFile (nodeName 2 @ ''.crt'')) fs' = Inr c \<and>
     certNets (hd (xc_IPAddresses c)) = Some (n, g) \<and> router_New 4 0 n g = Inr r"
proof -
  obtain fs' where m: "certgen_main exLib exSources [] = Some fs'" using exSources_main by blast
  have "\<exists>k ci cj ni nj g (ri :: (nat, nat) Router) (rj :: (nat, nat) Router). gs_key exSources (2 + 1) = Some k \<and>
      ReadPrivateKeyFromFile exLib (certFile (nodeName 2 @ ''.key'')) fs' = Inr k \<and>
      ReadCertificateFromFile exLib (certFile (nodeName 2 @ ''.crt'')) fs' = Inr ci \<and> ReadCertificateFromFile exLib (certFile (nodeName 7 @ ''.crt'')) fs' = Inr cj \<and>
      certNets (hd (xc_IPAddresses ci)) = Some (ni, g) \<and> certNets (hd (xc_IPAddresses cj)) = Some (nj, g) \<and>
      router_New 4 0 ni g = Inr ri \<and> router_New 4 0 nj g = Inr rj \<and> (\<forall>ip. Contains (globalNetwork ri) ip = Contains (globalNetwork rj) ip) \<and>
      (\<forall>ip. \<not> (Contains (network ri) ip \<and> Contains (network rj) ip))"
    by (rule certgen_networks [OF exLib_laws m]) simp_all
  with m show ?thesis by blast
qed

section \<open>What a stop closes\<close>

text \<open>
  What \<^verbatim>\<open>stopRuntime\<close> stops: the context, the listener, the servers, the mesh node with its transport, the interface. \<open>closedHost\<close> is
  the host after the interface, if there is one, has gone through \<^verbatim>\<open>Close\<close>.
\<close>

definition stopped :: "('l, 'w, 'c, 'd) App \<Rightarrow> bool" where
  "stopped app \<longleftrightarrow> app_cancelled app \<and> app_grpcLis app \<noteq> Opened \<and> app_grpcServer app \<noteq> Opened \<and> app_httpServer app \<noteq> Opened \<and>
     (case app_node app of None \<Rightarrow> True | Some n \<Rightarrow> mn_closed n \<and> mn_transportClosed n) \<and> (case app_tunIface app of None \<Rightarrow> True | Some t \<Rightarrow> eg_closed t)"

definition closedHost :: "('y, 'k, 'd) platform \<Rightarrow> TUNIface option \<Rightarrow> 'k \<Rightarrow> 'k" where
  "closedHost pf tun k = (case tun of None \<Rightarrow> k | Some t \<Rightarrow> snd (snd (iface_Close (pf_v6text pf) (pf_host pf) t k)))"

definition db_closed :: "('y, 'k, 'd) platform \<Rightarrow> ('l, 'w, 'c, 'd) App \<Rightarrow> bool" where
  "db_closed pf app \<longleftrightarrow> (if pf_dbClose pf then app_db app \<noteq> Opened else True)"

text \<open>A node that can be shut down: it was already, or its registry is well formed.\<close>

definition node_sound :: "('l, 'w, 'c, 'd) App \<Rightarrow> bool" where
  "node_sound app \<longleftrightarrow> (case app_node app of None \<Rightarrow> True
     | Some n \<Rightarrow> if mn_closed n then mn_transportClosed n else reg_ok (mn_registry n))"

lemma shut_neq [simp]: "shut h \<noteq> Opened"
  by (simp add: shut_def)

lemma mesh_Close_sound:
  assumes "if mn_closed n then mn_transportClosed n else reg_ok (mn_registry n)"
  shows "\<exists>n'. mesh_Close n = Some n' \<and> mn_closed n' \<and> mn_transportClosed n'"
proof (cases "mn_closed n")
  case False
  with assms have "reg_ok (mn_registry n)" by simp
  from reg_Close_spec [OF this] obtain reg where "reg_Close (mn_registry n) = Some reg" by blast
  with False show ?thesis by (simp add: mesh_Close_def mesh_shutdown_def Let_def)
qed (use assms in \<open>simp add: mesh_Close_def mesh_shutdown_def\<close>)

lemma iface_Close_closed: "iface_Close v6 H t k = (errs, t', k') \<Longrightarrow> eg_closed t'"
  by (auto simp: iface_Close_def split: if_splits prod.splits)

lemma iface_Close_twice: "iface_Close v6 H t k = (errs, t', k') \<Longrightarrow> iface_Close v6 H t' k1 = ([], t', k1)"
  using iface_Close_closed [of v6 H t k errs t' k'] by (simp add: iface_Close_def)

lemma stopRuntime_spec:
  assumes "node_sound app"
  shows "\<exists>app'. stopRuntime pf (app, k) = Some (app', closedHost pf (app_tunIface app) k) \<and> stopped app' \<and> node_sound app' \<and>
    app_peersManager app' = app_peersManager app \<and> app_db app' = app_db app \<and> (\<forall>l. closedHost pf (app_tunIface app') l = l)"
proof -
  have "\<exists>node. (case app_node app of None \<Rightarrow> Some None | Some n \<Rightarrow> map_option Some (mesh_Close n)) = Some node \<and>
    (case node of None \<Rightarrow> True | Some n \<Rightarrow> mn_closed n \<and> mn_transportClosed n)"
  proof (cases "app_node app")
    case (Some n)
    then have "if mn_closed n then mn_transportClosed n else reg_ok (mn_registry n)" using assms by (simp add: node_sound_def)
    from mesh_Close_sound [OF this] Some show ?thesis by auto
  qed simp
  then obtain node where n: "(case app_node app of None \<Rightarrow> Some None | Some n \<Rightarrow> map_option Some (mesh_Close n)) = Some node"
    "case node of None \<Rightarrow> True | Some n \<Rightarrow> mn_closed n \<and> mn_transportClosed n" by blast
  show ?thesis
  proof (cases "app_tunIface app")
    case None
    with n show ?thesis by (auto simp: stopRuntime_def Let_def stopped_def node_sound_def closedHost_def split: option.splits)
  next
    case (Some t)
    obtain errs t' k' where c: "iface_Close (pf_v6text pf) (pf_host pf) t k = (errs, t', k')" using prod_cases3 by blast
    with n Some iface_Close_closed [OF c] iface_Close_twice [OF c] show ?thesis
      by (auto simp: stopRuntime_def Let_def stopped_def node_sound_def closedHost_def split: option.splits)
  qed
qed

lemma closeDb_keeps [simp]:
  "stopped (closeDb pf app) = stopped app" "db_closed pf (closeDb pf app)" "app_peersManager (closeDb pf app) = app_peersManager app"
  by (simp_all add: closeDb_def stopped_def db_closed_def)

lemma app_fail_spec:
  assumes "node_sound app"
  shows "\<exists>app'. app_fail pf e app k = Some (Some e, app', closedHost pf (app_tunIface app) k) \<and> stopped app' \<and> db_closed pf app' \<and>
    app_peersManager app' = app_peersManager app"
  using stopRuntime_spec [OF assms, of pf k] by (auto simp: app_fail_def closeResources_def)

section \<open>The start of the node\<close>

lemma node_sound_cong [simp]:
  "node_sound (app\<lparr>app_peersManager := p, app_ipInfo := i\<rparr>) = node_sound app" "node_sound (app\<lparr>app_tunIface := t\<rparr>) = node_sound app"
  "node_sound (app\<lparr>app_peersManager := p\<rparr>) = node_sound app"
  by (simp_all add: node_sound_def)

text \<open>Running: nothing is closed, and managers, node and interface are there.\<close>

definition running :: "('l, 'w, 'c, 'd) App \<Rightarrow> bool" where
  "running app \<longleftrightarrow> \<not> app_cancelled app \<and> app_db app = Opened \<and> app_grpcLis app = Opened \<and> app_grpcServer app = Opened \<and> app_httpServer app = Opened \<and>
     (case app_node app of None \<Rightarrow> False | Some n \<Rightarrow> \<not> mn_closed n \<and> reg_ok (mn_registry n)) \<and> app_tunIface app \<noteq> None \<and> app_peersManager app \<noteq> None"

definition servers_up :: "('l, 'w, 'c, 'd) App \<Rightarrow> bool" where
  "servers_up app \<longleftrightarrow> \<not> app_cancelled app \<and> app_db app = Opened \<and> app_grpcLis app = Opened \<and> app_grpcServer app = Opened \<and> app_httpServer app = Opened \<and>
     app_tunIface app = None"

text \<open>How \<^verbatim>\<open>New\<close> leaves things on an error. The host is untouched, or as \<^verbatim>\<open>NewTUN\<close> left it when it failed, or the interface that
  \<^verbatim>\<open>NewTUN\<close> created has gone through \<^verbatim>\<open>Close\<close>.\<close>

definition hostDone :: "('y, 'k, 'd) platform \<Rightarrow> 'y AppConfig \<Rightarrow> 'k \<Rightarrow> 'k \<Rightarrow> bool" where
  "hostDone pf cfg k k' \<longleftrightarrow> k' = k \<or>
     (\<exists>net. case NewTUN (pf_v6text pf) (pf_host pf) (ac_TunConfig cfg) net k of
        (Inl _, k1) \<Rightarrow> k' = k1
      | (Inr t, k1) \<Rightarrow> k' = closedHost pf (Some t) k1)"

definition failed :: "('y, 'k, 'd) platform \<Rightarrow> 'y AppConfig \<Rightarrow> 'k \<Rightarrow> ('l, 'w, 'c, 'd) App \<Rightarrow> 'k \<Rightarrow> bool" where
  "failed pf cfg k app' k' \<longleftrightarrow> stopped app' \<and> db_closed pf app' \<and> hostDone pf cfg k k'"

lemma app_fail_early:
  assumes "node_sound app" and "app_tunIface app = None"
  shows "\<exists>app'. app_fail pf e app k = Some (Some e, app', k) \<and> failed pf cfg k app' k"
  using app_fail_spec [OF assms(1), of pf e k] assms(2) by (auto simp: closedHost_def failed_def hostDone_def)

lemma app_edge_spec:
  assumes "app_node app = Some n" and "\<not> mn_closed n" and "reg_ok (mn_registry n)" and "servers_up app"
  shows "\<exists>err app' k'. app_edge pf cfg nodeNet nodeID pm app k = Some (err, app', k') \<and>
    (case err of Some e \<Rightarrow> failed pf cfg k app' k'
     | None \<Rightarrow> running app' \<and> app_node app' = Some n \<and>
         (\<exists>pm'. app_peersManager app' = Some pm' \<and> buildTransports pf nodeID (rc_Transports (ac_Router cfg)) pm = (None, pm')))"
proof -
  let ?info = "Some (case GetIpInfo (pf_ipService pf) of None \<Rightarrow> unknownPlace | Some i \<Rightarrow> i)"
  have s: "node_sound app" using assms by (simp add: node_sound_def)
  obtain r k1 where tun: "NewTUN (pf_v6text pf) (pf_host pf) (ac_TunConfig cfg) nodeNet k = (r, k1)" by fastforce
  obtain e pm' where b: "buildTransports pf nodeID (rc_Transports (ac_Router cfg)) pm = (e, pm')" by fastforce
  show ?thesis
  proof (cases r)
    case (Inl err)
    have "node_sound (app\<lparr>app_peersManager := Some pm, app_ipInfo := ?info\<rparr>)" using s by simp
    from app_fail_spec [OF this, of pf "TunFailed err" k1] assms(4) show ?thesis
      by (auto simp: app_edge_def tun Inl Let_def failed_def hostDone_def closedHost_def servers_up_def intro!: exI [of _ nodeNet])
  next
    case (Inr t)
    let ?app = "app\<lparr>app_peersManager := Some pm, app_ipInfo := ?info\<rparr>\<lparr>app_tunIface := Some t\<rparr>\<lparr>app_peersManager := Some pm'\<rparr>"
    have "node_sound ?app" using s by (simp add: node_sound_def)
    note f = app_fail_spec [OF this, of pf _ k1]
    show ?thesis
    proof (cases e)
      case None
      then show ?thesis using assms by (simp add: app_edge_def tun Inr Let_def b running_def servers_up_def)
    next
      case (Some err)
      with f [of err] show ?thesis by (auto simp: app_edge_def tun Inr Let_def b failed_def hostDone_def intro!: exI [of _ nodeNet])
    qed
  qed
qed

lemma mesh_New_node:
  assumes "fst (mesh_New parse sha readable fs cfg cert router listen) = Inr n"
  shows "\<not> mn_closed n" "reg_ok (mn_registry n)" "mn_router n = router\<lparr>netside := (mkchan 1000, snd (netside router))\<rparr>"
    "\<exists>spki. NodeID n = hexEncode (sha spki)" "NewWithTransport parse sha readable fs cfg cert router True = Inr n"
  using assms by (auto simp: mesh_New_def NewWithTransport_def Let_def reg_ok_New NewDiscoverySyncer_def NodeID_def extractLocalPeerID_def
      split: if_splits sum.splits option.splits list.splits)

text \<open>A node that came up: the router from the two networks, the mesh on it, the managers on the stored database.\<close>

definition started :: "('y, 'k, 'd) platform \<Rightarrow> 'y AppConfig \<Rightarrow> 'w \<Rightarrow> string \<Rightarrow> string \<Rightarrow> ('l, 'w, 'c, 'd) App \<Rightarrow> bool" where
  "started pf cfg w0 nodeNet globalNet app \<longleftrightarrow> running app \<and>
     (\<exists>router n pm. router_New (pf_procs pf) (mkchan 0, w0) nodeNet globalNet = Inr router \<and> app_node app = Some n \<and>
        (\<exists>cert. NewWithTransport (pf_parse pf) (pf_sha256 pf) (pf_storeReadable pf) (pf_fs pf) (ac_Mesh cfg) cert router True = Inr n) \<and>
        mn_router n = router\<lparr>netside := (mkchan 1000, snd (netside router))\<rparr> \<and> (\<exists>spki. NodeID n = hexEncode (pf_sha256 pf spki)) \<and>
        app_peersManager app = Some pm \<and> buildTransports pf (NodeID n) (rc_Transports (ac_Router cfg))
          (pm_New \<lparr>fm_firewall = mn_router n, fm_db = migrateDatabase (pf_fk pf) (pf_stored pf), fm_nodeID = NodeID n\<rparr> nodeNet) = (None, pm))"

lemma app_network_spec:
  fixes app :: "('l, 'w, 'c, 'd) App"
  assumes "app_node app = None" and "servers_up app"
  shows "\<exists>err app' k'. app_network pf cfg w0 cert nodeNet globalNet app k = Some (err, app', k') \<and>
    (case err of Some e \<Rightarrow> failed pf cfg k app' k' | None \<Rightarrow> started pf cfg w0 nodeNet globalNet app')"
proof -
  have s: "node_sound app" "app_tunIface app = None" using assms by (simp_all add: node_sound_def servers_up_def)
  note f = app_fail_early [OF s, of pf _ k cfg]
  show ?thesis
  proof (cases "router_New (pf_procs pf) (mkchan 0, w0) nodeNet globalNet :: cidr_error + ('l, 'w mesh_net) Router")
    case (Inl e)
    with f [of "RouterFailed e"] show ?thesis by (auto simp: app_network_def)
  next
    case router: (Inr router)
    show ?thesis
    proof (cases "fst (mesh_New (pf_parse pf) (pf_sha256 pf) (pf_storeReadable pf) (pf_fs pf) (ac_Mesh cfg) cert router (pf_meshListen pf)) :: node_error + ('l, 'w, 'c) MeshNode")
      case (Inl e)
      with f [of "MeshFailed e"] router show ?thesis by (auto simp: app_network_def)
    next
      case (Inr n)
      note m = mesh_New_node [OF Inr]
      let ?pm = "pm_New \<lparr>fm_firewall = mn_router n, fm_db = migrateDatabase (pf_fk pf) (pf_stored pf), fm_nodeID = NodeID n\<rparr> nodeNet"
      have "app_node (app\<lparr>app_node := Some n\<rparr>) = Some n" "servers_up (app\<lparr>app_node := Some n\<rparr>)" using assms(2) by (simp_all add: servers_up_def)
      from app_edge_spec [OF this(1) m(1,2) this(2), of pf cfg nodeNet "NodeID n" ?pm k] obtain err app' k' where
        e: "app_edge pf cfg nodeNet (NodeID n) ?pm (app\<lparr>app_node := Some n\<rparr>) k = Some (err, app', k')"
        "case err of Some e \<Rightarrow> failed pf cfg k app' k' | None \<Rightarrow> running app' \<and> app_node app' = Some n \<and>
           (\<exists>pm'. app_peersManager app' = Some pm' \<and> buildTransports pf (NodeID n) (rc_Transports (ac_Router cfg)) ?pm = (None, pm'))" by blast
      have "case err of Some e \<Rightarrow> failed pf cfg k app' k' | None \<Rightarrow> started pf cfg w0 nodeNet globalNet app'"
        using e(2) router m(3-5) unfolding started_def by (cases err) auto
      with e(1) router Inr show ?thesis by (simp add: app_network_def Let_def)
    qed
  qed
qed

lemma app_services_spec:
  fixes w0 :: 'w and k :: 'k
  shows "\<exists>err (app' :: ('l, 'w, 'c, 'd) App) k'. app_services pf cfg w0 cert nodeNet globalNet k = Some (err, app', k') \<and>
    (case err of Some e \<Rightarrow> failed pf cfg k app' k' | None \<Rightarrow> started pf cfg w0 nodeNet globalNet app')"
proof -
  let ?app = "app_fresh\<lparr>app_grpcLis := Opened, app_grpcServer := Opened, app_httpServer := Opened\<rparr> :: ('l, 'w, 'c, 'd) App"
  have s: "node_sound (app_fresh :: ('l, 'w, 'c, 'd) App)" "node_sound ?app" "node_sound (?app\<lparr>app_db := Opened\<rparr>)"
    by (simp_all add: node_sound_def app_fresh_def)
  have i: "app_tunIface (app_fresh :: ('l, 'w, 'c, 'd) App) = None" "app_tunIface ?app = None" "app_tunIface (?app\<lparr>app_db := Opened\<rparr>) = None"
    by (simp_all add: app_fresh_def)
  have u: "app_node (?app\<lparr>app_db := Opened\<rparr>) = None" "servers_up (?app\<lparr>app_db := Opened\<rparr>)" by (simp_all add: servers_up_def app_fresh_def)
  consider "\<not> pf_grpcListen pf" | "pf_grpcListen pf" "\<not> pf_dbOpen pf" | "pf_grpcListen pf" "pf_dbOpen pf" "\<not> pf_dbPing pf"
    | "pf_grpcListen pf" "pf_dbOpen pf" "pf_dbPing pf" "\<not> pf_dbMigrate pf" | "pf_grpcListen pf" "pf_dbOpen pf" "pf_dbPing pf" "pf_dbMigrate pf" by blast
  then show ?thesis
  proof cases
    case 1 then show ?thesis using app_fail_early [OF s(1) i(1), of pf GrpcListenFailed k cfg] by (auto simp: app_services_def)
  next
    case 2 then show ?thesis using app_fail_early [OF s(2) i(2), of pf DbOpenFailed k cfg] by (auto simp: app_services_def Let_def)
  next
    case 3 then show ?thesis using app_fail_early [OF s(3) i(3), of pf DbPingFailed k cfg] by (auto simp: app_services_def Let_def)
  next
    case 4 then show ?thesis using app_fail_early [OF s(3) i(3), of pf DbMigrateFailed k cfg] by (auto simp: app_services_def Let_def)
  next
    case 5 then show ?thesis using app_network_spec [OF u, of pf cfg w0 cert nodeNet globalNet k] by (simp add: app_services_def Let_def)
  qed
qed

text \<open>C14: what \<^verbatim>\<open>New\<close> does on every outcome. It panics exactly when the secret is accepted, the certificates can be loaded and
  the first address of the node's certificate is not an IPv4 address. Otherwise it returns: with a running application, or
  with an error. After an error the context is cancelled and the listener, both servers and the mesh node are closed as far
  as the application held them; the database is closed unless its \<^verbatim>\<open>Close\<close> fails; and the host is untouched, or as \<^verbatim>\<open>NewTUN\<close> left
  it when it failed, or the interface it created has gone through \<^verbatim>\<open>Close\<close>. The error path does not take down the devices
  of transports that were built before the failing one (app.go:214), the UDP socket under the QUIC listener (quic.go:130)
  and the iptables rules that \<^verbatim>\<open>Close\<close> of the interface does not match (iface.go:302).\<close>

theorem New_outcomes:
  fixes w0 :: 'w and k :: 'k
  shows "case loadIdentity pf (ac_Auth cfg) of
     Inl e \<Rightarrow> \<exists>app' :: ('l, 'w, 'c, 'd) App. app_New pf cfg w0 k = Some (Some e, app', k) \<and> stopped app' \<and> db_closed pf app'
   | Inr (cert, addr) \<Rightarrow>
       if To4 addr = [] then app_New pf cfg w0 k = (None :: (app_error option \<times> ('l, 'w, 'c, 'd) App \<times> 'k) option)
       else \<exists>err (app' :: ('l, 'w, 'c, 'd) App) k'. app_New pf cfg w0 k = Some (err, app', k') \<and>
              (case err of Some e \<Rightarrow> stopped app' \<and> db_closed pf app' \<and> hostDone pf cfg k k' | None \<Rightarrow> running app')"
proof (cases "loadIdentity pf (ac_Auth cfg)")
  case (Inl e)
  have "node_sound (app_fresh :: ('l, 'w, 'c, 'd) App)" by (simp add: node_sound_def app_fresh_def)
  from app_fail_early [OF this, of pf e k cfg] Inl show ?thesis by (auto simp: app_New_def failed_def app_fresh_def)
next
  case (Inr ca)
  obtain cert addr where ca: "ca = (cert, addr)" by fastforce
  show ?thesis
  proof (cases "certNets addr")
    case None
    then have "To4 addr = []" using certNets_none by blast
    with None show ?thesis using Inr ca by (simp add: app_New_def)
  next
    case (Some ng)
    obtain n g where ng: "ng = (n, g)" by fastforce
    from app_services_spec [of pf cfg w0 cert n g k] obtain err k' and app' :: "('l, 'w, 'c, 'd) App" where
      s: "app_services pf cfg w0 cert n g k = Some (err, app', k')" "case err of Some e \<Rightarrow> failed pf cfg k app' k' | None \<Rightarrow> started pf cfg w0 n g app'" by blast
    have "To4 addr \<noteq> []" using Some certNets_none [of addr] by simp
    moreover have "case err of Some e \<Rightarrow> stopped app' \<and> db_closed pf app' \<and> hostDone pf cfg k k' | None \<Rightarrow> running app'"
      using s(2) by (cases err) (simp_all add: started_def failed_def)
    ultimately show ?thesis using s(1) Inr ca Some ng by (simp add: app_New_def)
  qed
qed

text \<open>The transports of a started node.\<close>

lemma buildTransports_spec:
  assumes "buildTransports pf nodeID ts pm = (None, pm')"
  shows "pm_fm pm' = pm_fm pm \<and> pm_startingIP pm' = pm_startingIP pm \<and>
    (\<forall>name. sm_Get (pm_transports pm) name \<noteq> None \<or> name \<in> fst ` set ts \<longrightarrow> sm_Get (pm_transports pm') name \<noteq> None) \<and>
    (\<forall>name t. sm_Get (pm_transports pm') name = Some t \<longrightarrow> sm_Get (pm_transports pm) name = Some t \<or>
       name \<in> fst ` set ts \<and> (\<exists>icfg. awg_New (pf_device pf) (pf_x25519 pf) icfg nodeID = Inr t))"
  using assms
proof (induction pf nodeID ts pm arbitrary: pm' rule: buildTransports.induct)
  case (2 pf nodeID name iconf rest pm)
  from 2(2) obtain icfg trp where b: "buildTransports pf nodeID rest (RegisterTransport name trp pm) = (None, pm')"
    "awg_New (pf_device pf) (pf_x25519 pf) icfg nodeID = Inr trp" "\<not> sm_Exists (pm_transports pm) name" "map_of iconf ''type'' = Some (AnyString ''awg'')"
    "pf_yaml pf iconf = Some icfg"
    by (auto split: if_splits option.splits sum.splits)
  from 2(1) [OF b(3,4) refl b(5,2,1)] have IH: "pm_fm pm' = pm_fm pm" "pm_startingIP pm' = pm_startingIP pm"
    "\<And>nm. nm = name \<or> sm_Get (pm_transports pm) nm \<noteq> None \<or> nm \<in> fst ` set rest \<Longrightarrow> sm_Get (pm_transports pm') nm \<noteq> None"
    "\<And>nm t. sm_Get (pm_transports pm') nm = Some t \<Longrightarrow> (if nm = name then t = trp else sm_Get (pm_transports pm) nm = Some t) \<or>
       nm \<in> fst ` set rest \<and> (\<exists>icfg. awg_New (pf_device pf) (pf_x25519 pf) icfg nodeID = Inr t)"
    by (simp_all add: RegisterTransport_def) (metis option.inject)+
  have "sm_Get (pm_transports pm) nm = Some t \<or> nm \<in> fst ` set ((name, iconf) # rest) \<and> (\<exists>icfg. awg_New (pf_device pf) (pf_x25519 pf) icfg nodeID = Inr t)"
    if "sm_Get (pm_transports pm') nm = Some t" for nm t
    using IH(4) [OF that] b(2) by (cases "nm = name") auto
  with IH(1-3) show ?case by auto
qed auto

lemma started_sound:
  fixes app :: "('l, 'w, 'c, 'd) App"
  assumes "started pf cfg w0 (netText x) (allText x) app" and "\<forall>b. length (pf_sha256 pf b) = 32"
  shows "\<exists>pm n. app_peersManager app = Some pm \<and> app_node app = Some n \<and> pm_router pm = mn_router n \<and> fm_nodeID (pm_fm pm) = NodeID n \<and>
    own_inv {NodeID n} (NodeID n) (pm_router pm) \<and> (\<forall>i. own_view (NodeID n) (pm_router pm) i = None) \<and>
    (\<forall>ip. route_to (pm_router pm) ip = None) \<and> (\<forall>idx. policy (firewall (pm_router pm)) idx = None) \<and>
    pm_db pm = migrateDatabase (pf_fk pf) (pf_stored pf) \<and>
    (\<forall>name \<in> fst ` set (rc_Transports (ac_Router cfg)). sm_Get (pm_transports pm) name \<noteq> None) \<and>
    (\<forall>name t. sm_Get (pm_transports pm) name = Some t \<longrightarrow> name \<in> fst ` set (rc_Transports (ac_Router cfg)) \<and> awg_ok (t, pm_router pm) \<and> aw_nodeID t = NodeID n \<and>
       (\<forall>ip. \<not> ExistsPeer ip t))"
proof -
  obtain router :: "('l, 'w mesh_net) Router" and n pm spki where
    st: "router_New (pf_procs pf) (mkchan 0, w0) (netText x) (allText x) = Inr router" "app_node app = Some n"
    "mn_router n = router\<lparr>netside := (mkchan 1000, snd (netside router))\<rparr>" "NodeID n = hexEncode (pf_sha256 pf spki)" "app_peersManager app = Some pm" and
    bt: "buildTransports pf (NodeID n) (rc_Transports (ac_Router cfg))
       (pm_New \<lparr>fm_firewall = mn_router n, fm_db = migrateDatabase (pf_fk pf) (pf_stored pf), fm_nodeID = NodeID n\<rparr> (netText x)) = (None, pm)"
    using assms(1) unfolding started_def by blast
  obtain r0 :: "('l, 'w mesh_net) Router" where r0: "router_New (pf_procs pf) (mkchan 0, w0) (netText x) (allText x) = Inr r0" "routingTable r0 = rt_New"
    "firewall r0 = fw_New" "routingsubs r0 = bus_New" "firewallsubs r0 = bus_New" by (rule router_of_nets)
  with st(1) have r: "routingTable router = rt_New" "firewall router = fw_New" "routingsubs router = bus_New" "firewallsubs router = bus_New" by simp_all
  note b = buildTransports_spec [OF bt]
  have fm: "pm_fm pm = \<lparr>fm_firewall = mn_router n, fm_db = migrateDatabase (pf_fk pf) (pf_stored pf), fm_nodeID = NodeID n\<rparr>"
    using b by (simp add: pm_New_def)
  have "length (NodeID n) = 64" using assms(2) st(4) by (simp add: length_hexEncode)
  then have me: "NodeID n \<noteq> ''''" by auto
  have inv: "own_inv {NodeID n} (NodeID n) (pm_router pm)"
    using me by (simp add: own_inv_def fm st(3) r rules_inv_def fw_inv_New bus_ok_New) (simp add: short_ok_def fw_New_def)
  have view: "own_view (NodeID n) (pm_router pm) i = None" for i
    by (simp add: own_view_def fm st(3) rules_view_def r) (simp add: policy_def fw_New_def getShortID_def)
  have "awg_ok (t, pm_router pm) \<and> aw_nodeID t = NodeID n \<and> (\<forall>ip. \<not> ExistsPeer ip t) \<and> name \<in> fst ` set (rc_Transports (ac_Router cfg))" if "sm_Get (pm_transports pm) name = Some t" for name t
  proof -
    from b that obtain icfg where t: "awg_New (pf_device pf) (pf_x25519 pf) icfg (NodeID n) = Inr t" "name \<in> fst ` set (rc_Transports (ac_Router cfg))"
      by (fastforce simp: pm_New_def)
    have "awg_ok (t, pm_router pm)" by (rule awg_ok_New [OF t(1)]) (simp_all add: fm st(3) r bus_ok_New rt_ok_New)
    with t show ?thesis by (auto simp: awg_New_def ExistsPeer_iff split: sum.splits prod.splits bool.splits)
  qed
  moreover have "route_to (pm_router pm) ip = None" "policy (firewall (pm_router pm)) idx = None" for ip idx
    by (simp_all add: fm st(3) r route_to_def rt_GetByIP_def rt_New_def policy_def fw_New_def getShortID_def)
  ultimately show ?thesis using st(2,3,5) fm inv view b by (intro exI [of _ pm] exI [of _ n]) auto
qed

lemma put32_onto: "\<exists>x. put32 x = [a, b, c, d]"
proof -
  let ?x = "ucast d OR push_bit 8 (ucast c) OR push_bit 16 (ucast b) OR push_bit 24 (ucast a) :: u32"
  have "ucast (drop_bit 24 ?x) = a" "ucast (drop_bit 16 ?x) = b" "ucast (drop_bit 8 ?x) = c" "ucast ?x = d"
    by (rule bit_eqI; auto simp: bit_simps dest: bit_imp_le_length)+
  then have "put32 ?x = [a, b, c, d]" by (simp add: put32_def)
  then show ?thesis by blast
qed

lemma To4_word:
  assumes "To4 addr \<noteq> []" shows "\<exists>x. To4 addr = put32 x"
proof -
  have "length (To4 addr) = 4" using assms by (auto simp: To4_def split: if_splits)
  then obtain a b c d where "To4 addr = [a, b, c, d]" by (auto simp: numeral_eq_Suc length_Suc_conv)
  with put32_onto show ?thesis by metis
qed

lemma New_started:
  fixes app :: "('l, 'w, 'c, 'd) App"
  assumes "app_New pf cfg w0 k = Some (None, app, k')"
  shows "\<exists>x. started pf cfg w0 (netText x) (allText x) app"
proof -
  obtain cert addr where l: "loadIdentity pf (ac_Auth cfg) = Inr (cert, addr)" "certNets addr \<noteq> None"
    using assms by (auto simp: app_New_def app_fail_def closeResources_def split: sum.splits option.splits)
  then obtain x where "To4 addr = put32 x" using certNets_none To4_word by metis
  from certNets_text [OF this] l(1) assms have s: "app_services pf cfg w0 cert (netText x) (allText x) k = Some (None, app, k')" by (simp add: app_New_def)
  from app_services_spec [of pf cfg w0 cert "netText x" "allText x" k, where 'l = 'l and 'c = 'c] s show ?thesis by auto
qed

lemma started_fm_Run:
  fixes app :: "('l, 'w, 'c, 'd) App"
  assumes "started pf cfg w0 (netText x) (allText x) app" and "\<forall>b. length (pf_sha256 pf b) = 32" and "db_fits (migrateDatabase (pf_fk pf) (pf_stored pf))"
    and "app_peersManager app = Some pm" and "app_node app = Some n"
  shows "\<exists>fm1. fm_Run router_port (\<lambda>_. True) (pm_fm pm) = Some (Inr (), fm1) \<and> fm_db fm1 = migrateDatabase (pf_fk pf) (pf_stored pf) \<and>
    (\<forall>i < 2 ^ 48. own_view (NodeID n) (fm_firewall fm1) i = db_view (NodeID n) (fm_db fm1) i)"
proof -
  from started_sound [OF assms(1,2)] assms(4,5) have p: "fm_nodeID (pm_fm pm) = NodeID n" "own_inv {NodeID n} (NodeID n) (pm_router pm)"
    "\<forall>i. own_view (NodeID n) (pm_router pm) i = None" "pm_db pm = migrateDatabase (pf_fk pf) (pf_stored pf)" by auto
  have g: "fm_good (own_inv {NodeID n} (NodeID n)) (NodeID n) (pm_fm pm)" using p(1,2,4) assms(3) by (simp add: fm_good_def)
  from router_own.fm_Run_law [OF g, of "\<lambda>_. True"] p(3,4) show ?thesis unfolding agree_def by auto
qed

text \<open>C13: the node starts in the invariants of its parts. When \<^verbatim>\<open>New\<close> succeeds (with a hash of 32 bytes for the identifier), managers
  and mesh share one router that has no route and no firewall rule; the transports are exactly the configured ones, each with
  the identifier of the node and without peers; and if besides the stored database is well formed and answers, the firewall
  manager then starts without a panic and the firewall has exactly the stored rules.\<close>

theorem New_starts_sound:
  fixes app :: "('l, 'w, 'c, 'd) App"
  assumes "app_New pf cfg w0 k = Some (None, app, k')" and "\<forall>b. length (pf_sha256 pf b) = 32"
  shows "\<exists>pm n. app_peersManager app = Some pm \<and> app_node app = Some n \<and> pm_router pm = mn_router n \<and>
    own_inv {NodeID n} (NodeID n) (pm_router pm) \<and>
    (\<forall>ip. route_to (pm_router pm) ip = None) \<and> (\<forall>idx. policy (firewall (pm_router pm)) idx = None) \<and>
    (\<forall>name \<in> fst ` set (rc_Transports (ac_Router cfg)). sm_Get (pm_transports pm) name \<noteq> None) \<and>
    (\<forall>name t. sm_Get (pm_transports pm) name = Some t \<longrightarrow> name \<in> fst ` set (rc_Transports (ac_Router cfg)) \<and> awg_ok (t, pm_router pm) \<and>
       aw_nodeID t = NodeID n \<and> (\<forall>ip. \<not> ExistsPeer ip t)) \<and>
    (db_fits (migrateDatabase (pf_fk pf) (pf_stored pf)) \<longrightarrow>
      (\<exists>fm1. fm_Run router_port (\<lambda>_. True) (pm_fm pm) = Some (Inr (), fm1) \<and> fm_db fm1 = migrateDatabase (pf_fk pf) (pf_stored pf) \<and>
        (\<forall>i < 2 ^ 48. own_view (NodeID n) (fm_firewall fm1) i = db_view (NodeID n) (fm_db fm1) i)))"
proof -
  obtain x where st: "started pf cfg w0 (netText x) (allText x) app" using New_started [OF assms(1)] by blast
  from started_sound [OF st assms(2)] obtain pm n where
    p: "app_peersManager app = Some pm" "app_node app = Some n" "pm_router pm = mn_router n" "own_inv {NodeID n} (NodeID n) (pm_router pm)"
    "\<forall>ip. route_to (pm_router pm) ip = None" "\<forall>idx. policy (firewall (pm_router pm)) idx = None"
    "\<forall>name \<in> fst ` set (rc_Transports (ac_Router cfg)). sm_Get (pm_transports pm) name \<noteq> None"
    "\<forall>name t. sm_Get (pm_transports pm) name = Some t \<longrightarrow> name \<in> fst ` set (rc_Transports (ac_Router cfg)) \<and> awg_ok (t, pm_router pm) \<and>
       aw_nodeID t = NodeID n \<and> (\<forall>ip. \<not> ExistsPeer ip t)"
    by (elim exE conjE) (rule that; assumption)
  show ?thesis
    by (rule exI [of _ pm], rule exI [of _ n], intro conjI impI) (fact p | rule started_fm_Run [OF st assms(2) _ p(1,2)], assumption)+
qed

definition exPlatform :: "(unit, ex_host, string list) platform" where
  "exPlatform = \<lparr>pf_lib = exLib, pf_files = [(''root.crt'', [0, 0])],
     pf_LoadX509KeyPair = (\<lambda>_ _. Some ([[1, 10, 8, 0, 0]], Some (exCert [1, 10, 8, 0, 0] False [[10, 8, 0, 0]]))),
     pf_parse = Some, pf_sha256 = (\<lambda>_. replicate 32 0), pf_grpcListen = True, pf_dbOpen = True, pf_dbPing = True, pf_dbMigrate = True, pf_dbClose = True,
     pf_stored = None, pf_fk = True, pf_procs = 4, pf_meshListen = True, pf_storeReadable = True, pf_fs = [], pf_ipService = None,
     pf_v6text = (\<lambda>_. ''''), pf_host = exHost, pf_yaml = (\<lambda>_. Some exConfig), pf_device = exDevice, pf_x25519 = (\<lambda>_. Some (replicate 32 9))\<rparr>"

definition exAppConfig :: "unit AppConfig" where
  "exAppConfig = \<lparr>ac_Auth = \<lparr>au_JWTSecret = ''0123456789abcdef'', au_Cert = ''node.crt'', au_Key = ''node.key'', au_RootCert = ''root.crt''\<rparr>,
     ac_TunConfig = exTUNConfig, ac_Router = \<lparr>rc_Transports = [(''awg'', [(''type'', AnyString ''awg'')])]\<rparr>,
     ac_Mesh = \<lparr>mc_ListenAddr = '':7000'', mc_PeersStore = ''peers.json'', mc_BootstrapAddrs = []\<rparr>,
     ac_DatabaseFile = ''node.db'', ac_GrpcListenAddr = '':7001'', ac_HttpListenAddr = '':7002''\<rparr>"

lemma awg_New_id: "awg_New D x cfg node = (case awg_New D x cfg node0 of Inl e \<Rightarrow> Inl e | Inr t \<Rightarrow> Inr (t\<lparr>aw_nodeID := node\<rparr>))"
  by (simp add: awg_New_def split: sum.split prod.split bool.split)

lemma exIdentity:
  "loadIdentity exPlatform (ac_Auth exAppConfig) = Inr (\<lparr>ct_chain = [[1, 10, 8, 0, 0]], ct_Leaf = Some [1, 10, 8, 0, 0]\<rparr>, [10, 8, 0, 0])"
  by (simp add: loadIdentity_def exPlatform_def exAppConfig_def validateJWTSecret_def weakSecrets_def ReadCertificateFromFile_def gm_get_def exLib_def exCert_def)

lemma exApp_New: "\<exists>(app :: (nat, nat, nat, string list) App) k'. app_New exPlatform exAppConfig 0 [] = Some (None, app, k')"
proof -
  have w: "To4 [10, 8, 0, 0] = put32 0x0A080000" "gatewayOf 0x0A080000 = 0x0A080001" by (simp_all add: To4_def put32_def gatewayOf_def mask_eq_exp_minus_1)
  obtain eg k1 where tun: "NewTUN (\<lambda>_. '''') exHost exTUNConfig (netText 0x0A080000) [] = (Inr eg, k1)"
    using exTUN_eq unfolding exTUN_def netText_def w(2) by blast
  have trp: "\<exists>pm'. buildTransports exPlatform node [(''awg'', [(''type'', AnyString ''awg'')])] (pm_New fm n) = (None, pm')"
    for node n and fm :: "(nat, nat mesh_net) Router Firewallmanager"
    using exTransport_New by (simp add: exPlatform_def pm_New_def awg_New_id [of _ _ _ node "''b''"] sm_Exists_iff)
  obtain r :: "(nat, nat mesh_net) Router" where r: "router_New 4 (mkchan 0, 0) (netText 0x0A080000) (allText 0x0A080000) = Inr r" by (rule router_of_nets)
  have "\<exists>node :: (nat, nat, nat) MeshNode. fst (mesh_New Some (\<lambda>_. replicate 32 0) True [] (ac_Mesh exAppConfig)
      \<lparr>ct_chain = [[1, 10, 8, 0, 0]], ct_Leaf = Some [1, 10, 8, 0, 0]\<rparr> r True) = Inr node"
    by (simp add: mesh_New_def NewWithTransport_def extractLocalPeerID_def Let_def)
  then obtain node :: "(nat, nat, nat) MeshNode" where node: "fst (mesh_New Some (\<lambda>_. replicate 32 0) True [] (ac_Mesh exAppConfig)
      \<lparr>ct_chain = [[1, 10, 8, 0, 0]], ct_Leaf = Some [1, 10, 8, 0, 0]\<rparr> r True) = Inr node" by blast
  have pf: "pf_grpcListen exPlatform" "pf_dbOpen exPlatform" "pf_dbPing exPlatform" "pf_dbMigrate exPlatform" "pf_procs exPlatform = 4" "pf_parse exPlatform = Some"
    "pf_sha256 exPlatform = (\<lambda>_. replicate 32 0)" "pf_storeReadable exPlatform" "pf_fs exPlatform = []" "pf_meshListen exPlatform" "pf_v6text exPlatform = (\<lambda>_. '''')"
    "pf_host exPlatform = exHost" by (simp_all add: exPlatform_def)
  have cfg: "ac_TunConfig exAppConfig = exTUNConfig" "rc_Transports (ac_Router exAppConfig) = [(''awg'', [(''type'', AnyString ''awg'')])]"
    by (simp_all add: exAppConfig_def)
  obtain pm' where "buildTransports exPlatform (NodeID node) [(''awg'', [(''type'', AnyString ''awg'')])]
      (pm_New \<lparr>fm_firewall = mn_router node, fm_db = migrateDatabase (pf_fk exPlatform) (pf_stored exPlatform), fm_nodeID = NodeID node\<rparr> (netText 0x0A080000)) = (None, pm')"
    using trp by blast
  then show ?thesis
    by (simp add: app_New_def exIdentity certNets_text [OF w(1)] app_services_def pf Let_def app_network_def r node app_edge_def cfg tun del: buildTransports.simps)
qed

theorem New_starts_sound_witness:
  "\<exists>(app :: (nat, nat, nat, string list) App) k' pm fm1 t. app_New exPlatform exAppConfig 0 [] = Some (None, app, k') \<and> app_peersManager app = Some pm \<and>
     fm_Run router_port (\<lambda>_. True) (pm_fm pm) = Some (Inr (), fm1) \<and> sm_Get (pm_transports pm) ''awg'' = Some t \<and> \<not> ExistsPeer 0x0A080002 t"
proof -
  obtain k' and app :: "(nat, nat, nat, string list) App" where a: "app_New exPlatform exAppConfig 0 [] = Some (None, app, k')" using exApp_New by blast
  have e: "\<forall>b. length (pf_sha256 exPlatform b) = 32" "db_fits (migrateDatabase (pf_fk exPlatform) (pf_stored exPlatform))"
    by (simp_all add: exPlatform_def migrateDatabase_def db_fits_def db_ok_empty) (simp add: db_empty_def)
  have "''awg'' \<in> fst ` set (rc_Transports (ac_Router exAppConfig))" by (simp add: exAppConfig_def)
  moreover obtain pm n where p: "app_peersManager app = Some pm" "app_node app = Some n"
    "\<forall>name \<in> fst ` set (rc_Transports (ac_Router exAppConfig)). sm_Get (pm_transports pm) name \<noteq> None"
    "\<forall>name t. sm_Get (pm_transports pm) name = Some t \<longrightarrow> name \<in> fst ` set (rc_Transports (ac_Router exAppConfig)) \<and> awg_ok (t, pm_router pm) \<and>
       aw_nodeID t = NodeID n \<and> (\<forall>ip. \<not> ExistsPeer ip t)"
    "db_fits (migrateDatabase (pf_fk exPlatform) (pf_stored exPlatform)) \<longrightarrow>
      (\<exists>fm1. fm_Run router_port (\<lambda>_. True) (pm_fm pm) = Some (Inr (), fm1) \<and> fm_db fm1 = migrateDatabase (pf_fk exPlatform) (pf_stored exPlatform) \<and>
        (\<forall>i < 2 ^ 48. own_view (NodeID n) (fm_firewall fm1) i = db_view (NodeID n) (fm_db fm1) i))"
    using New_starts_sound [OF a e(1)] by (elim exE conjE) (rule that; assumption)
  ultimately obtain t where t: "sm_Get (pm_transports pm) ''awg'' = Some t" by blast
  with p(4) have "\<not> ExistsPeer 0x0A080002 t" by blast
  moreover from p(5) e(2) obtain fm1 where "fm_Run router_port (\<lambda>_. True) (pm_fm pm) = Some (Inr (), fm1)" by blast
  ultimately show ?thesis using a p(1) t by blast
qed

text \<open>What the workers leave can be shut down.\<close>

lemma workers_sound:
  fixes app :: "('l, 'w, 'c, 'd) App"
  assumes "started pf cfg w0 nodeNet globalNet app" and "fp_Load (pf_storeReadable pf) (mc_PeersStore (ac_Mesh cfg)) (pf_fs pf) \<noteq> LoadedNil"
    and "workers (app\<lparr>app_peersManager := pm\<rparr>, k) (a, l)"
  shows "node_sound a"
proof -
  from assms(1) obtain n cert and router :: "('l, 'w mesh_net) Router" where
    n: "app_node app = Some n" "NewWithTransport (pf_parse pf) (pf_sha256 pf) (pf_storeReadable pf) (pf_fs pf) (ac_Mesh cfg) cert router True = Inr n"
    unfolding started_def by blast
  with assms(3) obtain tAddr m where m: "mesh_step\<^sup>*\<^sup>* (mesh_start tAddr n) m" "app_node a = Some (mr_node m)" by (auto simp: workers_def)
  have i: "mesh_init (mesh_start tAddr n)" unfolding mesh_init_def using n(2) by blast
  have "mr_repo (mesh_start tAddr n) = NewPeerRepository (pf_storeReadable pf) (mc_PeersStore (ac_Mesh cfg)) (pf_fs pf)"
    using n(2) by (auto simp: mesh_start_def NewWithTransport_def Let_def NewDiscoverySyncer_def split: sum.splits)
  then have "\<not> ms_nil (mr_repo (mesh_start tAddr n))"
    using assms(2) by (simp add: NewPeerRepository_def newInMemoryState_def split: load_result.splits)
  with i mesh.inv_reachable [OF _ m(1)] have "mesh_inv m" by blast
  with m(2) show ?thesis by (simp add: node_sound_def mesh_inv_def)
qed

lemma app_deferred_spec:
  assumes "node_sound a"
  shows "\<exists>app'. app_deferred pf e (a, l) = Some (if e = None \<and> \<not> pf_dbClose pf then Some DbCloseFailed else e, app', closedHost pf (app_tunIface a) l) \<and>
    stopped app' \<and> db_closed pf app' \<and> app_peersManager app' = app_peersManager a"
  using stopRuntime_spec [OF assms, of pf l] by (auto simp: app_deferred_def)

text \<open>C15: how \<^verbatim>\<open>Run\<close> ends, for an application that \<^verbatim>\<open>New\<close> built from a peers file that is not null, when neither manager panics while it
  starts and the mesh node takes any steps of its goroutines meanwhile. However it ends (a manager that does not start, a
  server that fails, a stop from outside, a database that cannot be closed), it returns the first of these errors; the context
  is cancelled, the listener, both servers and the mesh node are closed, the database is closed unless its \<^verbatim>\<open>Close\<close> fails, and the
  interface has gone through \<^verbatim>\<open>Close\<close> on the host. The devices of the transports are closed when the transports were running;
  when a manager does not start they stay up. The UDP socket under the QUIC listener (quic.go:130) and the iptables rules that
  \<^verbatim>\<open>Close\<close> of the interface does not match (iface.go:302) are left in every case.\<close>

theorem Run_ends_stopped:
  fixes app :: "('l, 'w, 'c, 'd) App"
  assumes "app_New pf cfg w0 k0 = Some (None, app, k)" and "fp_Load (pf_storeReadable pf) (mc_PeersStore (ac_Mesh cfg)) (pf_fs pf) \<noteq> LoadedNil"
    and "app_peersManager app = Some pm" and "fm_Run router_port ioF (pm_fm pm) = Some (rF, fm)"
    and "isl rF \<or> pm_Run T ioP now (set_fm fm pm) = Some (rP, pmR)"
    and "isl rF \<or> isl rP \<or> workers (app\<lparr>app_peersManager := Some pmR\<rparr>, k) (work (app\<lparr>app_peersManager := Some pmR\<rparr>, k))"
  shows "\<exists>app' k'. app_Run pf T ioF ioP now work first app k =
      Some (if isl rF then Some FirewallManagerFailed else if isl rP then Some PeersManagerFailed
            else if first = GrpcError \<or> first = HttpError then Some ServerFailed else if pf_dbClose pf then None else Some DbCloseFailed, app', k') \<and>
    stopped app' \<and> db_closed pf app' \<and>
    (if isl rF \<or> isl rP
     then k' = closedHost pf (app_tunIface app) k \<and> app_peersManager app' = Some (if isl rF then set_fm fm pm else pmR)
     else let (a, l) = work (app\<lparr>app_peersManager := Some pmR\<rparr>, k) in
       k' = closedHost pf (app_tunIface a) l \<and> app_peersManager app' = map_option (transportsEnd (pf_device pf)) (app_peersManager a))"
proof -
  obtain x where st: "started pf cfg w0 (netText x) (allText x) app" using New_started [OF assms(1)] by blast
  then have s: "node_sound app" by (auto simp: started_def running_def node_sound_def split: option.splits)
  show ?thesis
  proof (cases rF)
    case (Inl e)
    have "node_sound (app\<lparr>app_peersManager := Some (set_fm fm pm)\<rparr>)" using s by simp
    from app_deferred_spec [OF this, of pf "Some FirewallManagerFailed" k] Inl assms(3,4) show ?thesis by (auto simp: app_Run_def)
  next
    case rF: (Inr u)
    with assms(5) have pr: "pm_Run T ioP now (set_fm fm pm) = Some (rP, pmR)" by simp
    show ?thesis
    proof (cases rP)
      case (Inl e)
      have "node_sound (app\<lparr>app_peersManager := Some pmR\<rparr>)" using s by simp
      from app_deferred_spec [OF this, of pf "Some PeersManagerFailed" k] Inl rF assms(3,4) pr show ?thesis by (auto simp: app_Run_def)
    next
      case (Inr v)
      obtain a l where w: "work (app\<lparr>app_peersManager := Some pmR\<rparr>, k) = (a, l)" by fastforce
      have "node_sound a" by (rule workers_sound [OF st assms(2)]) (use assms(6) rF Inr w in auto)
      from stopRuntime_spec [OF this, of pf l] obtain a' where a': "stopRuntime pf (a, l) = Some (a', closedHost pf (app_tunIface a) l)" "node_sound a'"
        "app_peersManager a' = app_peersManager a" "\<And>l. closedHost pf (app_tunIface a') l = l" by blast
      let ?a = "a'\<lparr>app_peersManager := map_option (transportsEnd (pf_device pf)) (app_peersManager a)\<rparr>"
      have "node_sound ?a" using a'(2) by simp
      from app_deferred_spec [OF this, of pf "if first = ServeOk \<or> first = ErrServerStopped then None else Some ServerFailed" "closedHost pf (app_tunIface a) l"]
        a'(1,3,4) w Inr rF assms(3,4) pr show ?thesis by (cases first) (auto simp: app_Run_def)
    qed
  qed
qed

theorem Run_ends_stopped_witness:
  "\<exists>(app :: (nat, nat, nat, string list) App) k app' k'. app_New exPlatform exAppConfig 0 [] = Some (None, app, k) \<and>
     app_Run exPlatform (awg_port exDevice (\<lambda>_ _. 0) (\<lambda>_. Some (replicate 32 9)) (\<lambda>_. '''') id ''u'') (\<lambda>_. True) (\<lambda>_. True) 50 id HttpError app k =
       Some (Some ServerFailed, app', k') \<and> stopped app' \<and> app_db app' \<noteq> Opened"
proof -
  obtain k and app :: "(nat, nat, nat, string list) App" where a: "app_New exPlatform exAppConfig 0 [] = Some (None, app, k)" using exApp_New by blast
  from New_started [OF a] obtain x where st: "started exPlatform exAppConfig 0 (netText x) (allText x) app" by blast
  have e: "\<forall>b. length (pf_sha256 exPlatform b) = 32" "db_fits (migrateDatabase (pf_fk exPlatform) (pf_stored exPlatform))"
    "migrateDatabase (pf_fk exPlatform) (pf_stored exPlatform) = db_empty True"
    by (simp_all add: exPlatform_def migrateDatabase_def db_fits_def db_ok_empty) (simp add: db_empty_def)
  from started_sound [OF st e(1)] obtain pm n where p: "app_peersManager app = Some pm" "app_node app = Some n"
    by (elim exE conjE) (rule that; assumption)
  from started_fm_Run [OF st e(1,2) p] obtain fm1 where f: "fm_Run router_port (\<lambda>_. True) (pm_fm pm) = Some (Inr (), fm1)" "fm_db fm1 = db_empty True"
    using e(3) by auto
  let ?T = "awg_port exDevice (\<lambda>_ _. 0) (\<lambda>_. Some (replicate 32 9)) (\<lambda>_. '''') id ''u''"
  have r: "pm_Run ?T (\<lambda>_. True) 50 (set_fm fm1 pm) = Some (Inr (), set_fm fm1 pm)"
    using f(2) by (simp add: pm_Run_def set_fm_def sql_ListPeers_def db_empty_def)
  have w: "workers (app\<lparr>app_peersManager := Some (set_fm fm1 pm)\<rparr>, k) (id (app\<lparr>app_peersManager := Some (set_fm fm1 pm)\<rparr>, k))"
    using p(2) by (auto simp: workers_def mesh_start_def intro!: exI [of _ None] exI [of _ "mesh_start None n"])
  have "fp_Load (pf_storeReadable exPlatform) (mc_PeersStore (ac_Mesh exAppConfig)) (pf_fs exPlatform) \<noteq> LoadedNil"
    by (simp add: exPlatform_def exAppConfig_def fp_Load_def)
  from Run_ends_stopped [OF a this p(1) f(1), where T = ?T and ioP = "\<lambda>_. True" and now = 50 and work = id and pmR = "set_fm fm1 pm" and rP = "Inr ()"
      and first = HttpError] r w have
    "\<exists>app' k'. app_Run exPlatform ?T (\<lambda>_. True) (\<lambda>_. True) 50 id HttpError app k = Some (Some ServerFailed, app', k') \<and> stopped app' \<and> db_closed exPlatform app'"
    by auto
  moreover have "pf_dbClose exPlatform" by (simp add: exPlatform_def)
  ultimately show ?thesis using a by (auto simp: db_closed_def)
qed

text \<open>The list of weak secrets has no effect. A secret is accepted exactly when it has at least sixteen bytes: the four secrets that are
  meant to be refused are shorter than that.\<close>

theorem secret_length_decides: "validateJWTSecret secret \<longleftrightarrow> 16 \<le> length secret"
proof -
  have "length (map toLower secret) < 16" if "map toLower secret \<in> set weakSecrets" using that by (auto simp: weakSecrets_def simp del: length_map)
  then show ?thesis by (auto simp: validateJWTSecret_def)
qed

text \<open>The test of the IP service does not pass. For the answer the test prepares the decoded country is empty, since the field is
  filled from the key country and the answer has the key countryCode.\<close>

theorem ip_test_country_empty:
  "map_option ii_CountryCode (getIpInfo True (Some (200, Some [(''status'', ''success''), (''countryCode'', ''FI'')]))) = Some ''''"
  by (simp add: getIpInfo_def decodeIPInfo_def jsonField_def EqualFold_def)

end
