(* ===== verification/IPAlloc.thy ===== *)
theory IPAlloc
  imports NetUtils
begin

text \<open>
  \<^verbatim>\<open>internal/utils/ipalloc\<close>: the allocator of addresses in a subnet. \<^verbatim>\<open>Get\<close> scans upwards with a 32-bit
  counter that could wrap, so its loop is a partial function and its termination is a theorem. The client
  of the allocator is a transition system whose ghost state is the set of addresses handed out and the set
  of addresses that a failed \<^verbatim>\<open>Reserve\<close> dropped.
\<close>

section \<open>State and operations\<close>

record IPAllocator =
  ipa_start :: u32
  ipa_end :: u32
  ipa_next :: u32
  ipa_freed :: "u32 list"
  ipa_reserved :: "u32 list"

datatype alloc_error = BadCIDR | NotIPv4 | NoAddresses | OutOfRange | AlreadyReserved | AlreadyAllocated
  | NoFree | IsReserved | AlreadyFree

definition ipToU32 :: "netIP \<Rightarrow> u32" where
  "ipToU32 ip = (case To4 ip of
     a # b # c # d # _ \<Rightarrow> push_bit 24 (ucast a) OR push_bit 16 (ucast b) OR push_bit 8 (ucast c) OR ucast d
   | _ \<Rightarrow> 0)"

definition u32ToIP :: "u32 \<Rightarrow> netIP" where
  "u32ToIP n = IPv4 (ucast (drop_bit 24 n)) (ucast (drop_bit 16 n)) (ucast (drop_bit 8 n)) (ucast n)"

text \<open>The mask of a parsed CIDR is contiguous, so its size is eight times its length.\<close>

definition ipa_New :: "string \<Rightarrow> alloc_error + IPAllocator" where
  "ipa_New cidr =
     (case ParseCIDR cidr of
        None \<Rightarrow> Inl BadCIDR
      | Some (_, ipnet) \<Rightarrow>
          if length (net_IP ipnet) \<noteq> 4 then Inl NotIPv4
          else if 8 * length (net_Mask ipnet) \<noteq> 32 then Inl NotIPv4
          else
            let network = ipToU32 (ipMask (net_IP ipnet) (net_Mask ipnet));
                broadcast = network OR NOT (ipToU32 (net_Mask ipnet));
                start = network + 1;
                en = broadcast - 1
            in if start > en then Inl NoAddresses
               else Inr \<lparr>ipa_start = start, ipa_end = en, ipa_next = start, ipa_freed = [], ipa_reserved = []\<rparr>)"

definition isReserved :: "IPAllocator \<Rightarrow> u32 \<Rightarrow> bool" where
  "isReserved a addr = list_ex (\<lambda>r. r = addr) (ipa_reserved a)"

definition removeFromFreed :: "u32 \<Rightarrow> IPAllocator \<Rightarrow> IPAllocator" where
  "removeFromFreed addr a = a\<lparr>ipa_freed := remove1 addr (ipa_freed a)\<rparr>"

definition Reserve :: "netIP \<Rightarrow> IPAllocator \<Rightarrow> alloc_error option \<times> IPAllocator" where
  "Reserve ip a =
     (let addr = ipToU32 ip in
      if addr < ipa_start a \<or> addr > ipa_end a then (Some OutOfRange, a)
      else if isReserved a addr then (Some AlreadyReserved, a)
      else
        let a1 = removeFromFreed addr a in
        if addr < ipa_next a1 \<and> \<not> list_ex (\<lambda>f. f = addr) (ipa_freed a1) then (Some AlreadyAllocated, a1)
        else (None, a1\<lparr>ipa_reserved := ipa_reserved a1 @ [addr]\<rparr>))"

text \<open>The two loops of \<^verbatim>\<open>Get\<close>: the freed addresses from the back, then the counter.\<close>

function get_freed :: "IPAllocator \<Rightarrow> u32 option \<times> IPAllocator" where
  "get_freed a =
     (if ipa_freed a = [] then (None, a)
      else let addr = last (ipa_freed a); a1 = a\<lparr>ipa_freed := butlast (ipa_freed a)\<rparr>
           in if \<not> isReserved a1 addr then (Some addr, a1) else get_freed a1)"
  by auto
termination by (relation "measure (\<lambda>a. length (ipa_freed a))") auto

partial_function (option) get_next :: "IPAllocator \<Rightarrow> (u32 option \<times> IPAllocator) option" where
  "get_next a =
     (if ipa_next a \<le> ipa_end a then
        if \<not> isReserved a (ipa_next a) then Some (Some (ipa_next a), a\<lparr>ipa_next := ipa_next a + 1\<rparr>)
        else get_next (a\<lparr>ipa_next := ipa_next a + 1\<rparr>)
      else Some (None, a))"

definition ipa_Get :: "IPAllocator \<Rightarrow> ((alloc_error + netIP) \<times> IPAllocator) option" where
  "ipa_Get a =
     (case get_freed a of
        (Some addr, a1) \<Rightarrow> Some (Inr (u32ToIP addr), a1)
      | (None, a1) \<Rightarrow>
          (case get_next a1 of
             None \<Rightarrow> None
           | Some (Some addr, a2) \<Rightarrow> Some (Inr (u32ToIP addr), a2)
           | Some (None, a2) \<Rightarrow> Some (Inl NoFree, a2)))"

definition ipa_Free :: "netIP \<Rightarrow> IPAllocator \<Rightarrow> alloc_error option \<times> IPAllocator" where
  "ipa_Free ip a =
     (let addr = ipToU32 ip in
      if addr < ipa_start a \<or> addr > ipa_end a then (Some OutOfRange, a)
      else if isReserved a addr then (Some IsReserved, a)
      else if list_ex (\<lambda>f. f = addr) (ipa_freed a) then (Some AlreadyFree, a)
      else (None, a\<lparr>ipa_freed := ipa_freed a @ [addr]\<rparr>))"

declare get_freed.simps [simp del]

section \<open>Basic facts\<close>

lemma ipToU32_u32ToIP [simp]: "ipToU32 (u32ToIP n) = n"
proof -
  have "ipToU32 (u32ToIP n) = be32z (put32 n)"
    by (simp add: ipToU32_def u32ToIP_def IPv4_def be32z_def put32_def ac_simps)
  then show ?thesis by simp
qed

lemma isReserved_iff [simp]: "isReserved a x \<longleftrightarrow> x \<in> set (ipa_reserved a)"
  by (auto simp: isReserved_def list_ex_iff)

lemma list_ex_eq [simp]: "list_ex (\<lambda>f. f = x) xs \<longleftrightarrow> x \<in> set xs"
  by (auto simp: list_ex_iff)

lemma u32_succ:
  "(x :: u32) \<le> e \<Longrightarrow> e < 0xFFFFFFFF \<Longrightarrow> x < x + 1 \<and> x + 1 \<le> e + 1 \<and> (y < x + 1 \<longleftrightarrow> y \<le> x)"
  by (simp add: word_less_nat_alt word_le_nat_alt unat_word_ariths) linarith

lemma u32_le_or: "(x :: u32) \<le> e + 1 \<Longrightarrow> e < 0xFFFFFFFF \<Longrightarrow> \<not> x \<le> e \<Longrightarrow> x = e + 1"
  by (simp add: word_less_nat_alt word_le_nat_alt unat_word_ariths word_unat_eq_iff)

section \<open>The loops end\<close>

lemma get_freed_disjoint:
  "set (ipa_freed a) \<inter> set (ipa_reserved a) = {} \<Longrightarrow>
    get_freed a = (if ipa_freed a = [] then (None, a)
      else (Some (last (ipa_freed a)), a\<lparr>ipa_freed := butlast (ipa_freed a)\<rparr>))"
  by (subst get_freed.simps) (auto simp: Let_def disjoint_iff)

text \<open>With an end below the largest address the scan returns: the first address from the counter on that
  is not reserved, or nothing when there is none.\<close>

lemma get_next_spec:
  assumes "ipa_end a < 0xFFFFFFFF" and "ipa_next a \<le> ipa_end a + 1"
  shows "\<exists>r n. get_next a = Some (r, a\<lparr>ipa_next := n\<rparr>) \<and> ipa_next a \<le> n \<and> n \<le> ipa_end a + 1 \<and>
    (case r of
       Some x \<Rightarrow> x \<notin> set (ipa_reserved a) \<and> ipa_next a \<le> x \<and> x \<le> ipa_end a \<and> n = x + 1 \<and>
         {ipa_next a..<x} \<subseteq> set (ipa_reserved a)
     | None \<Rightarrow> n = ipa_end a + 1 \<and> {ipa_next a..ipa_end a} \<subseteq> set (ipa_reserved a))"
  using assms
proof (induction "unat (ipa_end a + 1 - ipa_next a)" arbitrary: a rule: less_induct)
  case less
  let ?n = "ipa_next a" and ?e = "ipa_end a"
  consider "?n \<le> ?e" "?n \<notin> set (ipa_reserved a)" | "?n \<le> ?e" "?n \<in> set (ipa_reserved a)" | "\<not> ?n \<le> ?e"
    by blast
  then show ?case
  proof cases
    case 1
    then have "get_next a = Some (Some ?n, a\<lparr>ipa_next := ?n + 1\<rparr>)" by (subst get_next.simps) simp
    with u32_succ [OF 1(1) less.prems(1)] 1 show ?thesis
      by (intro exI [of _ "Some ?n"] exI [of _ "?n + 1"]) (simp add: less_imp_le)
  next
    case 2
    let ?a = "a\<lparr>ipa_next := ?n + 1\<rparr>"
    note s = u32_succ [OF 2(1) less.prems(1)]
    have "unat (?e + 1 - (?n + 1)) < unat (?e + 1 - ?n)"
      using 2(1) less.prems(1) s by (simp add: word_less_nat_alt word_le_nat_alt unat_word_ariths unat_sub_if_size)
    with less.hyps [of ?a] less.prems s have "\<exists>r n. get_next ?a = Some (r, ?a\<lparr>ipa_next := n\<rparr>) \<and> ?n + 1 \<le> n \<and>
      n \<le> ?e + 1 \<and> (case r of
       Some x \<Rightarrow> x \<notin> set (ipa_reserved a) \<and> ?n + 1 \<le> x \<and> x \<le> ?e \<and> n = x + 1 \<and> {?n + 1..<x} \<subseteq> set (ipa_reserved a)
     | None \<Rightarrow> n = ?e + 1 \<and> {?n + 1..?e} \<subseteq> set (ipa_reserved a))"
      by (simp cong: option.case_cong)
    then obtain r n where
      r: "get_next ?a = Some (r, ?a\<lparr>ipa_next := n\<rparr>)" "?n + 1 \<le> n" "n \<le> ?e + 1" "case r of
       Some x \<Rightarrow> x \<notin> set (ipa_reserved a) \<and> ?n + 1 \<le> x \<and> x \<le> ?e \<and> n = x + 1 \<and> {?n + 1..<x} \<subseteq> set (ipa_reserved a)
     | None \<Rightarrow> n = ?e + 1 \<and> {?n + 1..?e} \<subseteq> set (ipa_reserved a)"
      by blast
    have up: "x = ?n \<or> ?n + 1 \<le> x" if "?n \<le> x" for x
      using u32_succ [OF 2(1) less.prems(1), of x] that by (auto simp: not_le)
    have "get_next a = Some (r, a\<lparr>ipa_next := n\<rparr>)" using r(1) 2 by (subst get_next.simps) simp
    moreover have "?n \<le> n" using r(2) s by (meson less_imp_le order.trans)
    moreover have "{?n..<x} \<subseteq> set (ipa_reserved a)" if "{?n + 1..<x} \<subseteq> set (ipa_reserved a)" for x
      using that up 2(2) by fastforce
    moreover have "{?n..?e} \<subseteq> set (ipa_reserved a)" if "{?n + 1..?e} \<subseteq> set (ipa_reserved a)"
      using that up 2(2) by fastforce
    moreover have "?n \<le> x" if "?n + 1 \<le> x" for x using that s by (meson less_imp_le order.trans)
    ultimately show ?thesis using r(3,4) by (intro exI [of _ r] exI [of _ n]) (auto split: option.splits)
  next
    case 3
    then have "get_next a = Some (None, a)" by (subst get_next.simps) simp
    with u32_le_or [OF less.prems(2,1) 3] 3 show ?thesis
      by (intro exI [of _ None] exI [of _ ?n]) auto
  qed
qed

section \<open>The allocator and its clients\<close>

text \<open>
  Beside the allocator, ghosts: the addresses the clients hold, those a failed \<^verbatim>\<open>Reserve\<close> has dropped, and whether an address
  was ever given back that nobody held. \<^verbatim>\<open>Free\<close> does not check that and accepts every address of the range that is not
  reserved and not in its list.
\<close>

record alloc_world =
  aw_a :: IPAllocator
  aw_out :: "u32 set"
  aw_lost :: "u32 set"
  aw_misused :: bool

definition alloc_bounds :: "IPAllocator \<Rightarrow> bool" where
  "alloc_bounds a \<longleftrightarrow> ipa_start a \<le> ipa_next a \<and> ipa_next a \<le> ipa_end a + 1 \<and> ipa_end a < 0xFFFFFFFF \<and>
     ipa_start a \<le> ipa_end a"

text \<open>What holds whatever the clients give back.\<close>

definition alloc_safe :: "IPAllocator \<Rightarrow> bool" where
  "alloc_safe a \<longleftrightarrow> alloc_bounds a \<and> distinct (ipa_freed a) \<and> set (ipa_freed a) \<subseteq> {ipa_start a..ipa_end a} - set (ipa_reserved a)"

text \<open>As long as only held addresses were given back: below the counter every address is exactly one of freed, handed out, lost or reserved.\<close>

definition alloc_inv :: "alloc_world \<Rightarrow> bool" where
  "alloc_inv w \<longleftrightarrow>
     alloc_bounds (aw_a w) \<and> distinct (ipa_freed (aw_a w)) \<and>
     set (ipa_reserved (aw_a w)) \<subseteq> {ipa_start (aw_a w)..ipa_end (aw_a w)} \<and>
     {ipa_start (aw_a w)..<ipa_next (aw_a w)} =
       set (ipa_freed (aw_a w)) \<union> aw_out w \<union> aw_lost w \<union> (set (ipa_reserved (aw_a w)) \<inter> {..<ipa_next (aw_a w)}) \<and>
     set (ipa_freed (aw_a w)) \<inter> aw_out w = {} \<and> aw_lost w \<inter> (set (ipa_freed (aw_a w)) \<union> aw_out w) = {} \<and>
     set (ipa_reserved (aw_a w)) \<inter> (set (ipa_freed (aw_a w)) \<union> aw_out w \<union> aw_lost w) = {}"

inductive alloc_step :: "alloc_world \<Rightarrow> alloc_world \<Rightarrow> bool" where
  get: "ipa_Get (aw_a w) = Some (Inr ip, a') \<Longrightarrow>
    alloc_step w (w\<lparr>aw_a := a', aw_out := insert (ipToU32 ip) (aw_out w)\<rparr>)"
| get_fail: "ipa_Get (aw_a w) = Some (Inl e, a') \<Longrightarrow> alloc_step w (w\<lparr>aw_a := a'\<rparr>)"
| free: "ipa_Free ip (aw_a w) = (None, a') \<Longrightarrow>
    alloc_step w (w\<lparr>aw_a := a', aw_out := aw_out w - {ipToU32 ip}, aw_misused := aw_misused w \<or> ipToU32 ip \<notin> aw_out w\<rparr>)"
| free_fail: "ipa_Free ip (aw_a w) = (Some e, a') \<Longrightarrow> alloc_step w (w\<lparr>aw_a := a'\<rparr>)"
| reserve: "Reserve ip (aw_a w) = (r, a') \<Longrightarrow>
    alloc_step w (w\<lparr>aw_a := a', aw_lost := aw_lost w \<union> (set (ipa_freed (aw_a w)) - set (ipa_freed a'))\<rparr>)"

inductive_cases alloc_stepE: "alloc_step w w'"

definition alloc_init :: "alloc_world \<Rightarrow> bool" where
  "alloc_init w \<longleftrightarrow> aw_out w = {} \<and> aw_lost w = {} \<and> \<not> aw_misused w \<and> alloc_bounds (aw_a w) \<and>
     ipa_next (aw_a w) = ipa_start (aw_a w) \<and> ipa_freed (aw_a w) = [] \<and> ipa_reserved (aw_a w) = []"

lemma alloc_inv_init: "alloc_init w \<Longrightarrow> alloc_inv w"
  by (auto simp: alloc_init_def alloc_inv_def)

lemma alloc_safe_init: "alloc_init w \<Longrightarrow> alloc_safe (aw_a w)"
  by (auto simp: alloc_init_def alloc_safe_def)

text \<open>What \<^verbatim>\<open>Get\<close> does: it always returns.\<close>

lemma Get_cases:
  assumes "alloc_safe (aw_a w)"
  obtains (freed) x where "ipa_Get (aw_a w) = Some (Inr (u32ToIP x), aw_a w\<lparr>ipa_freed := butlast (ipa_freed (aw_a w))\<rparr>)"
      "ipa_freed (aw_a w) = butlast (ipa_freed (aw_a w)) @ [x]"
  | (fresh) x where "ipa_Get (aw_a w) = Some (Inr (u32ToIP x), aw_a w\<lparr>ipa_next := x + 1\<rparr>)" "ipa_freed (aw_a w) = []"
      "x \<notin> set (ipa_reserved (aw_a w))" "ipa_next (aw_a w) \<le> x" "x \<le> ipa_end (aw_a w)"
      "{ipa_next (aw_a w)..<x} \<subseteq> set (ipa_reserved (aw_a w))"
  | (full) "ipa_Get (aw_a w) = Some (Inl NoFree, aw_a w\<lparr>ipa_next := ipa_end (aw_a w) + 1\<rparr>)" "ipa_freed (aw_a w) = []"
      "{ipa_next (aw_a w)..ipa_end (aw_a w)} \<subseteq> set (ipa_reserved (aw_a w))"
proof -
  from assms have "set (ipa_freed (aw_a w)) \<inter> set (ipa_reserved (aw_a w)) = {}"
    and b: "ipa_end (aw_a w) < 0xFFFFFFFF" "ipa_next (aw_a w) \<le> ipa_end (aw_a w) + 1"
    by (auto simp: alloc_safe_def alloc_bounds_def)
  note f = get_freed_disjoint [OF this(1)]
  show thesis
  proof (cases "ipa_freed (aw_a w) = []")
    case False
    then have "ipa_freed (aw_a w) = butlast (ipa_freed (aw_a w)) @ [last (ipa_freed (aw_a w))]" by simp
    moreover from False f have "ipa_Get (aw_a w) = Some (Inr (u32ToIP (last (ipa_freed (aw_a w)))),
        aw_a w\<lparr>ipa_freed := butlast (ipa_freed (aw_a w))\<rparr>)" by (simp add: ipa_Get_def)
    ultimately show thesis by (rule freed [rotated])
  next
    case True
    from get_next_spec [OF b] obtain r n where
      "get_next (aw_a w) = Some (r, aw_a w\<lparr>ipa_next := n\<rparr>)" and
      "case r of
         Some x \<Rightarrow> x \<notin> set (ipa_reserved (aw_a w)) \<and> ipa_next (aw_a w) \<le> x \<and> x \<le> ipa_end (aw_a w) \<and> n = x + 1 \<and>
           {ipa_next (aw_a w)..<x} \<subseteq> set (ipa_reserved (aw_a w))
       | None \<Rightarrow> n = ipa_end (aw_a w) + 1 \<and> {ipa_next (aw_a w)..ipa_end (aw_a w)} \<subseteq> set (ipa_reserved (aw_a w))"
      by blast
    with True f show thesis
      by (cases r) (auto simp: ipa_Get_def intro: fresh full)
  qed
qed

lemma below_split: "(n :: u32) \<le> x \<Longrightarrow> {s..<x} = {y. s \<le> y \<and> y < n \<and> y < x} \<union> {y. s \<le> y \<and> n \<le> y \<and> y < x}"
  by auto

lemma alloc_inv_Get_fresh:
  assumes "alloc_inv w" and "ipa_freed (aw_a w) = []" and "x \<notin> set (ipa_reserved (aw_a w))"
    and "ipa_next (aw_a w) \<le> x" and "x \<le> ipa_end (aw_a w)" and "{ipa_next (aw_a w)..<x} \<subseteq> set (ipa_reserved (aw_a w))"
  shows "alloc_inv (w\<lparr>aw_a := aw_a w\<lparr>ipa_next := x + 1\<rparr>, aw_out := insert x (aw_out w)\<rparr>)"
proof -
  from assms(1) have b: "alloc_bounds (aw_a w)" by (simp add: alloc_inv_def)
  then have s: "y < x + 1 \<longleftrightarrow> y \<le> x" "x < x + 1" "x + 1 \<le> ipa_end (aw_a w) + 1" for y
    using u32_succ [OF assms(5)] by (auto simp: alloc_bounds_def)
  let ?s = "ipa_start (aw_a w)" and ?n = "ipa_next (aw_a w)" and ?R = "set (ipa_reserved (aw_a w))"
  have cover: "y \<in> {?s..<?n} \<longleftrightarrow> y \<in> aw_out w \<or> y \<in> aw_lost w \<or> (y \<in> ?R \<and> y < ?n)" for y
    using assms(1,2) unfolding alloc_inv_def by auto
  have "?s \<le> ?n" using b by (simp add: alloc_bounds_def)
  have R: "y \<in> ?R \<Longrightarrow> ?s \<le> y" for y using assms(1) by (auto simp: alloc_inv_def)
  have mid: "y \<in> ?R" if "?n \<le> y" "y < x" for y using assms(6) that by auto
  have "{?s..<x + 1} = {} \<union> insert x (aw_out w) \<union> aw_lost w \<union> (?R \<inter> {..<x + 1})"
  proof (rule set_eqI)
    fix y
    show "y \<in> {?s..<x + 1} \<longleftrightarrow> y \<in> {} \<union> insert x (aw_out w) \<union> aw_lost w \<union> (?R \<inter> {..<x + 1})"
      using cover [of y] R [of y] mid [of y] assms(4) \<open>?s \<le> ?n\<close> s(1) [of y] by (cases "y < ?n") auto
  qed
  moreover have "x \<notin> aw_lost w" using cover [of x] assms(4) by auto
  ultimately show ?thesis
    using assms(1-4) s b by (auto simp: alloc_inv_def alloc_bounds_def)
qed

lemma alloc_inv_Get_freed:
  assumes "alloc_inv w" and "ipa_freed (aw_a w) = fs @ [x]"
  shows "alloc_inv (w\<lparr>aw_a := aw_a w\<lparr>ipa_freed := fs\<rparr>, aw_out := insert x (aw_out w)\<rparr>)"
  using assms by (auto simp: alloc_inv_def alloc_bounds_def)

lemma alloc_inv_Get_full:
  assumes "alloc_inv w" and "ipa_freed (aw_a w) = []"
    and "{ipa_next (aw_a w)..ipa_end (aw_a w)} \<subseteq> set (ipa_reserved (aw_a w))"
  shows "alloc_inv (w\<lparr>aw_a := aw_a w\<lparr>ipa_next := ipa_end (aw_a w) + 1\<rparr>\<rparr>)"
proof -
  let ?s = "ipa_start (aw_a w)" and ?n = "ipa_next (aw_a w)" and ?e = "ipa_end (aw_a w)"
    and ?R = "set (ipa_reserved (aw_a w))"
  from assms(1) have b: "?s \<le> ?n" "?n \<le> ?e + 1" "?e < 0xFFFFFFFF" "?s \<le> ?e"
    by (simp_all add: alloc_inv_def alloc_bounds_def)
  have s: "y < ?e + 1 \<longleftrightarrow> y \<le> ?e" for y using u32_succ [of ?e ?e y] b by simp
  have cover: "y \<in> {?s..<?n} \<longleftrightarrow> y \<in> aw_out w \<or> y \<in> aw_lost w \<or> (y \<in> ?R \<and> y < ?n)" for y
    using assms(1,2) unfolding alloc_inv_def by auto
  have "{?s..<?e + 1} = {} \<union> aw_out w \<union> aw_lost w \<union> (?R \<inter> {..<?e + 1})"
  proof (rule set_eqI)
    fix y
    have "y \<in> ?R \<Longrightarrow> ?s \<le> y" "?n \<le> y \<Longrightarrow> y \<le> ?e \<Longrightarrow> y \<in> ?R" using assms(1,3) by (auto simp: alloc_inv_def)
    moreover have "y < ?n \<Longrightarrow> y \<le> ?e" using s [of y] b(2) by auto
    ultimately show "y \<in> {?s..<?e + 1} \<longleftrightarrow> y \<in> {} \<union> aw_out w \<union> aw_lost w \<union> (?R \<inter> {..<?e + 1})"
      using cover [of y] s [of y] b(1) by (cases "y < ?n") auto
  qed
  moreover have "?s \<le> ?e + 1" using b(1,2) by simp
  ultimately show ?thesis
    using assms(1,2) b by (auto simp: alloc_inv_def alloc_bounds_def)
qed

lemma alloc_inv_Free:
  assumes "alloc_inv w" and "ipToU32 ip \<in> aw_out w" and "ipa_Free ip (aw_a w) = (None, a')"
  shows "alloc_inv (w\<lparr>aw_a := a', aw_out := aw_out w - {ipToU32 ip}, aw_misused := m\<rparr>)"
proof -
  from assms(3) have "a' = aw_a w\<lparr>ipa_freed := ipa_freed (aw_a w) @ [ipToU32 ip]\<rparr>"
    by (auto simp: ipa_Free_def Let_def split: if_splits)
  with assms(1,2) show ?thesis by (auto simp: alloc_inv_def alloc_bounds_def)
qed

lemma Reserve_cases:
  assumes "Reserve ip a = (r, a')" and "distinct (ipa_freed a)"
  obtains (same) "a' = a" "r \<noteq> None"
  | (dropped) "a' = a\<lparr>ipa_freed := remove1 (ipToU32 ip) (ipa_freed a)\<rparr>" "r \<noteq> None"
      "ipToU32 ip < ipa_next a" "ipToU32 ip \<notin> set (ipa_reserved a)"
  | (ok) "a' = a\<lparr>ipa_freed := remove1 (ipToU32 ip) (ipa_freed a), ipa_reserved := ipa_reserved a @ [ipToU32 ip]\<rparr>"
      "r = None" "ipa_next a \<le> ipToU32 ip" "ipa_start a \<le> ipToU32 ip" "ipToU32 ip \<le> ipa_end a"
  using assms by (auto simp: Reserve_def removeFromFreed_def Let_def not_less split: if_splits)

lemma alloc_inv_Reserve:
  assumes "alloc_inv w" and "Reserve ip (aw_a w) = (r, a')"
  shows "alloc_inv (w\<lparr>aw_a := a', aw_lost := aw_lost w \<union> (set (ipa_freed (aw_a w)) - set (ipa_freed a'))\<rparr>)"
proof -
  from assms(1) have d: "distinct (ipa_freed (aw_a w))" by (simp add: alloc_inv_def)
  show ?thesis
  using assms(2) d
  proof (cases rule: Reserve_cases)
    case same
    with assms(1) show ?thesis by simp
  next
    case dropped
    with d assms(1) show ?thesis by (auto simp: alloc_inv_def alloc_bounds_def)
  next
    case ok
    from assms(1) have below: "x < ipa_next (aw_a w)" if "x \<in> set (ipa_freed (aw_a w)) \<union> aw_out w \<union> aw_lost w" for x
      using that unfolding alloc_inv_def by (metis UnI1 atLeastLessThan_iff)
    then have "ipToU32 ip \<notin> set (ipa_freed (aw_a w)) \<union> aw_out w \<union> aw_lost w" using ok(3) by force
    with ok d assms(1) show ?thesis by (auto simp: alloc_inv_def alloc_bounds_def remove1_idem)
  qed
qed

lemma alloc_inv_step:
  assumes "alloc_safe (aw_a w)" and "alloc_inv w" and "alloc_step w w'" and "\<not> aw_misused w'"
  shows "alloc_inv w'"
  using assms(3,2,4)
proof (cases rule: alloc_step.cases)
  case (get ip a')
  from assms(1) show ?thesis
    by (cases rule: Get_cases) (use get assms(2) alloc_inv_Get_freed alloc_inv_Get_fresh in auto)
next
  case (get_fail e a')
  from assms(1) show ?thesis by (cases rule: Get_cases) (use get_fail assms(2) alloc_inv_Get_full in auto)
next
  case (free ip a')
  with assms(2,4) show ?thesis by (simp add: alloc_inv_Free)
next
  case (free_fail ip e a')
  with assms(2) show ?thesis by (auto simp: ipa_Free_def Let_def split: if_splits)
next
  case (reserve ip r a')
  with assms(2) show ?thesis by (simp add: alloc_inv_Reserve)
qed

lemma alloc_safe_Reserve:
  assumes "alloc_safe a" and "Reserve ip a = (r, a')" shows "alloc_safe a'"
proof -
  from assms(1) have "distinct (ipa_freed a)" by (simp add: alloc_safe_def)
  with assms(2) show ?thesis
    by (cases rule: Reserve_cases) (use assms(1) in \<open>auto simp: alloc_safe_def alloc_bounds_def set_remove1_eq\<close>)
qed

lemma alloc_safe_step:
  assumes "alloc_safe (aw_a w)" and "alloc_step w w'"
  shows "alloc_safe (aw_a w')"
  using assms(2)
proof (cases rule: alloc_step.cases)
  case (get ip a')
  from assms(1) show ?thesis
  proof (cases rule: Get_cases)
    case (freed x)
    have "set (butlast (ipa_freed (aw_a w))) \<subseteq> set (ipa_freed (aw_a w))" by (meson in_set_butlastD subsetI)
    with freed get assms(1) show ?thesis by (auto simp: alloc_safe_def alloc_bounds_def distinct_butlast)
  next
    case (fresh x)
    have "x < x + 1" "x + 1 \<le> ipa_end (aw_a w) + 1" using u32_succ [OF fresh(5)] assms(1) by (auto simp: alloc_safe_def alloc_bounds_def)
    with fresh get assms(1) show ?thesis by (auto simp: alloc_safe_def alloc_bounds_def)
  qed (use get in simp)
next
  case (get_fail e a')
  from assms(1) show ?thesis by (cases rule: Get_cases) (use get_fail assms(1) in \<open>auto simp: alloc_safe_def alloc_bounds_def\<close>)
next
  case (free ip a')
  with assms(1) show ?thesis by (auto simp: alloc_safe_def alloc_bounds_def ipa_Free_def Let_def not_less subset_iff split: if_splits)
next
  case (free_fail ip e a')
  with assms(1) show ?thesis by (auto simp: ipa_Free_def Let_def split: if_splits)
next
  case (reserve ip r a')
  with alloc_safe_Reserve [OF assms(1)] show ?thesis by simp
qed

lemma alloc_misused_step: "alloc_step w w' \<Longrightarrow> \<not> aw_misused w' \<Longrightarrow> \<not> aw_misused w"
  by (erule alloc_stepE) auto

interpretation alloc: invariant_system alloc_init alloc_step "\<lambda>w. alloc_safe (aw_a w) \<and> (\<not> aw_misused w \<longrightarrow> alloc_inv w)"
  by unfold_locales (auto intro: alloc_inv_init alloc_safe_init alloc_safe_step alloc_inv_step dest: alloc_misused_step)

section \<open>Properties of the allocator\<close>


definition exAlloc :: IPAllocator where
  "exAlloc = \<lparr>ipa_start = 0x0A000001, ipa_end = 0x0A000002, ipa_next = 0x0A000001, ipa_freed = [], ipa_reserved = []\<rparr>"

lemma exAlloc_init: "alloc_init \<lparr>aw_a = exAlloc, aw_out = {}, aw_lost = {}, aw_misused = False\<rparr>"
  by (simp add: alloc_init_def alloc_bounds_def exAlloc_def)

text \<open>Reserving a freed address does not work. Every address below the counter that the client gave
  back is refused by \<^verbatim>\<open>Reserve\<close> as if it were handed out, and the refusal drops it from the free list, so no
  sequence of later operations brings it back.\<close>

theorem Reserve_freed_is_lost:
  assumes "alloc_init w0" and "alloc_step\<^sup>*\<^sup>* w0 w" and "\<not> aw_misused w" and "ipToU32 ip \<in> set (ipa_freed (aw_a w))"
  shows "\<exists>a'. Reserve ip (aw_a w) = (Some AlreadyAllocated, a') \<and> ipToU32 ip \<notin> set (ipa_freed a') \<and>
    ipToU32 ip \<notin> set (ipa_reserved a') \<and> ipToU32 ip < ipa_next a'"
proof -
  have inv: "alloc_inv w" using alloc.inv_reachable [OF assms(1,2)] assms(3) by blast
  have x: "ipToU32 ip \<in> {ipa_start (aw_a w)..<ipa_next (aw_a w)}"
    using inv assms(4) unfolding alloc_inv_def by blast
  then have "ipToU32 ip \<le> ipa_end (aw_a w)"
    using inv u32_succ [of "ipa_end (aw_a w)" "ipa_end (aw_a w)" "ipToU32 ip"]
    by (auto simp: alloc_inv_def alloc_bounds_def)
  with x inv assms(4) show ?thesis
    by (auto simp: Reserve_def removeFromFreed_def Let_def alloc_inv_def)
qed

text \<open>One address handed out and given back.\<close>

definition exReturned :: alloc_world where
  "exReturned = \<lparr>aw_a = exAlloc\<lparr>ipa_next := 0x0A000002, ipa_freed := [0x0A000001]\<rparr>, aw_out = {}, aw_lost = {}, aw_misused = False\<rparr>"

lemma exReturned_reach: "alloc_step\<^sup>*\<^sup>* \<lparr>aw_a = exAlloc, aw_out = {}, aw_lost = {}, aw_misused = False\<rparr> exReturned"
proof -
  let ?w1 = "\<lparr>aw_a = exAlloc\<lparr>ipa_next := 0x0A000002\<rparr>, aw_out = {0x0A000001}, aw_lost = {}, aw_misused = False\<rparr>"
  have "ipa_Get exAlloc = Some (Inr (u32ToIP 0x0A000001), exAlloc\<lparr>ipa_next := 0x0A000002\<rparr>)"
    by (simp add: ipa_Get_def exAlloc_def get_freed.simps get_next.simps isReserved_def)
  then have "alloc_step \<lparr>aw_a = exAlloc, aw_out = {}, aw_lost = {}, aw_misused = False\<rparr> ?w1"
    using alloc_step.get [of "\<lparr>aw_a = exAlloc, aw_out = {}, aw_lost = {}, aw_misused = False\<rparr>"] by simp
  moreover have "ipa_Free (u32ToIP 0x0A000001) (exAlloc\<lparr>ipa_next := 0x0A000002\<rparr>) = (None, aw_a exReturned)"
    by (simp add: ipa_Free_def exAlloc_def exReturned_def)
  then have "alloc_step ?w1 exReturned"
    using alloc_step.free [of "u32ToIP 0x0A000001" ?w1] by (simp add: exReturned_def)
  ultimately show ?thesis by (meson converse_rtranclp_into_rtranclp rtranclp.rtrancl_refl)
qed


lemma Reserve_freed_is_lost_witness:
  "\<exists>a'. Reserve (u32ToIP 0x0A000001) (aw_a exReturned) = (Some AlreadyAllocated, a') \<and>
    0x0A000001 \<notin> set (ipa_freed a') \<and> 0x0A000001 \<notin> set (ipa_reserved a') \<and> 0x0A000001 < ipa_next a'"
  using Reserve_freed_is_lost [OF exAlloc_init exReturned_reach, of "u32ToIP 0x0A000001"]
  by (simp add: exReturned_def)

text \<open>\<^verbatim>\<open>Free\<close> of an address that was never handed out is accepted, and the address is then handed out
  twice: once from the free list, and again when the counter reaches it.\<close>

theorem Free_unallocated_duplicates:
  assumes "ipa_freed a = []" and "ipa_reserved a = []" and "ipa_start a \<le> ipa_next a" and "ipa_next a \<le> ipa_end a"
  shows "\<exists>a1 a2 a3. ipa_Free (u32ToIP (ipa_next a)) a = (None, a1) \<and>
    ipa_Get a1 = Some (Inr (u32ToIP (ipa_next a)), a2) \<and> ipa_Get a2 = Some (Inr (u32ToIP (ipa_next a)), a3)"
  using assms by (simp add: ipa_Free_def ipa_Get_def get_freed.simps get_next.simps isReserved_def Let_def not_less)

lemma Free_unallocated_duplicates_witness:
  "\<exists>a1 a2 a3. ipa_Free (u32ToIP (ipa_next exAlloc)) exAlloc = (None, a1) \<and>
    ipa_Get a1 = Some (Inr (u32ToIP (ipa_next exAlloc)), a2) \<and> ipa_Get a2 = Some (Inr (u32ToIP (ipa_next exAlloc)), a3)"
  by (rule Free_unallocated_duplicates) (simp_all add: exAlloc_def)


lemma ipToU32_be32z: "length b = 4 \<Longrightarrow> ipToU32 b = be32z b"
  by (auto simp: ipToU32_def be32z_def eval_nat_numeral length_Suc_conv ac_simps)

lemma map2_and_idem: "map2 (AND) (map2 (AND) xs ms) ms = map2 (AND) xs (ms :: bytes)"
  by (induction xs ms rule: list_induct2') (simp_all add: and.assoc)

lemma host_range:
  fixes a :: u32
  assumes "n \<le> 30"
  defines "m \<equiv> mask (32 - n)"
  shows "(a AND NOT m) OR m = (a AND NOT m) + m" and "(a AND NOT m) + 1 \<le> (a AND NOT m) + m - 1"
    and "(a AND NOT m) + m - 1 < 0xFFFFFFFF" and "(a AND NOT m) + 1 \<le> (a AND NOT m) + m"
proof -
  have "(a AND NOT m) AND m = 0" by (simp add: bit_eq_iff bit_simps m_def)
  then show o: "(a AND NOT m) OR m = (a AND NOT m) + m" by (simp add: disjunctive_add_eq_or)
  have "\<forall>n \<in> set [0..<31]. (3 :: u32) \<le> mask (32 - n)" by code_simp
  then have m3: "3 \<le> unat m" using assms(1) by (simp add: m_def word_le_nat_alt)
  have "(a AND NOT m) \<le> (a AND NOT m) + m"
    using le_word_or2 [of "a AND NOT m" m] by (simp add: o)
  then have "unat ((a AND NOT m) + m) = unat (a AND NOT m) + unat m" by (simp add: unat_plus_simple)
  with m3 show "(a AND NOT m) + 1 \<le> (a AND NOT m) + m - 1" "(a AND NOT m) + m - 1 < 0xFFFFFFFF"
    "(a AND NOT m) + 1 \<le> (a AND NOT m) + m"
    using unsigned_less [of "(a AND NOT m) + m"]
    by (auto simp: word_le_nat_alt word_less_nat_alt unat_word_ariths unat_sub_if_size)
qed

text \<open>An allocator for \<^verbatim>\<open>a.b.c.d/n\<close> with n at most 30 exists and starts out owning exactly the host
  addresses of that network: from the network address plus one to the broadcast address minus one.\<close>

theorem ipa_New_range:
  assumes "n \<le> 30"
  shows "\<exists>a0. ipa_New (Uint32ToIPString a @ CHR ''/'' # show_nat n) = Inr a0 \<and>
    alloc_init \<lparr>aw_a = a0, aw_out = {}, aw_lost = {}, aw_misused = False\<rparr> \<and>
    ipa_start a0 = (a AND NOT (mask (32 - n))) + 1 \<and> ipa_end a0 = (a AND NOT (mask (32 - n))) + mask (32 - n) - 1"
proof -
  from assms have n: "n \<le> 32" by simp
  obtain i where pc: "ParseCIDR (Uint32ToIPString a @ CHR ''/'' # show_nat n) =
      Some (i, \<lparr>net_IP = map2 (AND) (put32 a) (CIDRMask n 4), net_Mask = CIDRMask n 4\<rparr>)"
    using ParseCIDR_text [OF n] by blast
  note m = CIDRMask_word [OF n] and h = host_range [OF assms, of a]
  have l: "length (map2 (AND) (put32 a) (CIDRMask n 4)) = 4" using m by simp
  have net: "ipToU32 (ipMask (map2 (AND) (put32 a) (CIDRMask n 4)) (CIDRMask n 4)) = a AND NOT (mask (32 - n))"
    using m l by (simp add: ipMask_def Let_def map2_and_idem ipToU32_be32z be32z_and)
  have msk: "NOT (ipToU32 (CIDRMask n 4)) = mask (32 - n)" using m by (simp add: ipToU32_be32z)
  show ?thesis
    unfolding ipa_New_def pc using l m(2) h
    by (simp add: net msk Let_def alloc_init_def alloc_bounds_def not_less)
qed

lemma ipa_New_range_witness:
  "\<exists>a0. ipa_New (Uint32ToIPString 0x0A000000 @ CHR ''/'' # show_nat 24) = Inr a0 \<and>
    alloc_init \<lparr>aw_a = a0, aw_out = {}, aw_lost = {}, aw_misused = False\<rparr> \<and>
    ipa_start a0 = (0x0A000000 AND NOT (mask (32 - 24))) + 1 \<and>
    ipa_end a0 = (0x0A000000 AND NOT (mask (32 - 24))) + mask (32 - 24) - 1"
  by (rule ipa_New_range) simp

end
