(* ===== verification/RuleStream.thy ===== *)
theory RuleStream
  imports FirewallManager
begin

text \<open>
  The rules stream between two nodes as a running system: the node \<open>a\<close> serves \<^verbatim>\<open>SubscribeClientsRules\<close>
  (\<^verbatim>\<open>pkg/mesh/peerssync/server.go\<close>), the node \<open>b\<close> runs \<^verbatim>\<open>streamPeerRulesData\<close> (\<^verbatim>\<open>syncer.go\<close>) under
  \<^verbatim>\<open>RunWhileConnected\<close>. The state has the routers of both nodes, the subscribed channel of \<open>a\<close> (200 events, a full
  channel drops), the notifications that the owner's requests still have to make, and the messages under way; between
  any two steps of the stream the owner may add and remove rules and either router may do other work. A change of the
  firewall and its notification are two steps, as the router takes a lock for each: requests that run side by side may
  notify in another order than they changed the rules.
\<close>

section \<open>The system\<close>

record ('l, 'n) rule_stream =
  rs_server :: "('l, 'n) Router"
  rs_ch :: nat
  rs_fresh :: bool
  rs_wire :: "ClientRuleEvent list"
  rs_client :: "('l, 'n) Router"
  rs_owed :: "FirewallEvent list"
  rs_lost :: bool

text \<open>The events waiting in a channel, and whether it would drop the next one.\<close>

definition pending :: "nat \<Rightarrow> ('l, 'n) Router \<Rightarrow> FirewallEvent list" where
  "pending ch r = (case gm_get (bus_chans (firewallsubs r)) ch of None \<Rightarrow> [] | Some c \<Rightarrow> ch_buf c)"

definition chan_full :: "nat \<Rightarrow> ('l, 'n) Router \<Rightarrow> bool" where
  "chan_full ch r = (case gm_get (bus_chans (firewallsubs r)) ch of None \<Rightarrow> True | Some c \<Rightarrow> ch_cap c \<le> length (ch_buf c))"

definition openStream :: "('l, 'n) Router \<Rightarrow> ('l, 'n) Router \<Rightarrow> ('l, 'n) rule_stream" where
  "openStream ra rb = (let (ch, r) = SubscribeFirewallEvents ra
     in \<lparr>rs_server = r, rs_ch = ch, rs_fresh = True, rs_wire = [], rs_client = rb, rs_owed = [], rs_lost = False\<rparr>)"

text \<open>
  The first dump of a stream that has subscribed (\<open>rs_fresh\<close>), then one iteration of the serving loop on the ticker, one on
  an event of the router, and one receive of the client.
  \<open>rs_owed\<close> has the events of the changes made whose notification is still to come, in the order of the changes.
  \<open>rs_lost\<close> is not part of the program: it records that an event was dropped, or was overtaken by a later one of the
  same rule, since the last dump that was sent with nothing waiting behind it.
\<close>

inductive stream_step :: "string \<Rightarrow> string \<Rightarrow> ('l, 'n) rule_stream \<Rightarrow> ('l, 'n) rule_stream \<Rightarrow> bool" for a b where
  dump: "rs_fresh s \<Longrightarrow>
    stream_step a b s (s\<lparr>rs_fresh := False, rs_wire := rs_wire s @ [buildFirewallSyncEvent the_router (rs_server s)],
      rs_lost := rs_lost s \<and> (pending (rs_ch s) (rs_server s) \<noteq> [] \<or> rs_owed s \<noteq> [])\<rparr>)"
| tick: "\<not> rs_fresh s \<Longrightarrow> serveRules the_router WakeTick (rs_server s) = Some ev \<Longrightarrow>
    stream_step a b s (s\<lparr>rs_wire := rs_wire s @ [ev], rs_lost := rs_lost s \<and> (pending (rs_ch s) (rs_server s) \<noteq> [] \<or> rs_owed s \<noteq> [])\<rparr>)"
| event: "\<not> rs_fresh s \<Longrightarrow> bus_recv (rs_ch s) (firewallsubs (rs_server s)) = Some (upd, q) \<Longrightarrow>
    serveRules the_router (WakeEvent upd) (rs_server s) = Some ev \<Longrightarrow>
    stream_step a b s (s\<lparr>rs_server := (rs_server s)\<lparr>firewallsubs := q\<rparr>, rs_wire := rs_wire s @ [ev]\<rparr>)"
| recv: "rs_wire s = ev # evs \<Longrightarrow>
    stream_step a b s (s\<lparr>rs_wire := evs, rs_client := applyRuleEvent the_router b a ev (rs_client s)\<rparr>)"

text \<open>
  The whole system. \<open>C i\<close> is the content of the owner's rule number \<open>i\<close>: the database gives a number once. The
  stream may break at any time; it is then opened again, with a new subscription and a new dump. What else the two
  routers do, the subscriptions of other nodes included, leaves the rules of \<open>a\<close> and the channel of \<open>b\<close> alone.
\<close>

definition same_rules_of :: "string \<Rightarrow> ('l, 'n) Router \<Rightarrow> ('l, 'n) Router \<Rightarrow> bool" where
  "same_rules_of a r r' \<longleftrightarrow> (\<forall>i < 2 ^ 48. own_view a r' i = own_view a r i)"

inductive rule_step :: "string set \<Rightarrow> string \<Rightarrow> string \<Rightarrow> (u64 \<Rightarrow> PortRule) \<Rightarrow>
    ('l, 'n) rule_stream \<Rightarrow> ('l, 'n) rule_stream \<Rightarrow> bool" for U a b C where
  stream: "stream_step a b s t \<Longrightarrow> rule_step U a b C s t"
| own_add: "i < 2 ^ 48 \<Longrightarrow> AddRemoteRule (ownIndex a i) (C i) (rs_server s) = (ok, r) \<Longrightarrow>
    rule_step U a b C s (s\<lparr>rs_server := r, rs_owed := rs_owed s @ (if ok then [addedEvent (ownIndex a i) (C i)] else [])\<rparr>)"
| own_remove: "i < 2 ^ 48 \<Longrightarrow> RemoveRemoteRule (ownIndex a i) (rs_server s) = (ok, r) \<Longrightarrow>
    rule_step U a b C s (s\<lparr>rs_server := r, rs_owed := rs_owed s @ (if ok then [removedEvent (ownIndex a i)] else [])\<rparr>)"
| notify: "rs_owed s = xs @ e # ys \<Longrightarrow> notifyFirewallEvent e (rs_server s) = Some r \<Longrightarrow>
    rule_step U a b C s (s\<lparr>rs_server := r, rs_owed := xs @ ys,
      rs_lost := rs_lost s \<or> chan_full (rs_ch s) (rs_server s) \<or> (\<exists>x \<in> set xs. fe_RuleID x = fe_RuleID e)\<rparr>)"
| reopen: "cancelFirewall (rs_ch s) (rs_server s) = Some r \<Longrightarrow>
    rule_step U a b C s ((openStream r (rs_client s))\<lparr>rs_owed := rs_owed s, rs_lost := rs_lost s \<and> rs_owed s \<noteq> []\<rparr>)"
| server_other: "rules_inv U r \<Longrightarrow> bus_ok (firewallsubs r) \<Longrightarrow> rs_ch s \<in> set (bus_subs (firewallsubs r)) \<Longrightarrow>
    pending (rs_ch s) r = pending (rs_ch s) (rs_server s) \<Longrightarrow> same_rules_of a (rs_server s) r \<Longrightarrow>
    rule_step U a b C s (s\<lparr>rs_server := r\<rparr>)"
| client_other: "rules_inv U r \<Longrightarrow> same_rules_of a (rs_client s) r \<Longrightarrow> rule_step U a b C s (s\<lparr>rs_client := r\<rparr>)"

text \<open>The two steps are the two halves of \<^verbatim>\<open>AddRule\<close> and \<^verbatim>\<open>RemoveRule\<close> of the router.\<close>

lemma router_AddRule_halves:
  "router_AddRule idx rule r = (let (ok, r1) = AddRemoteRule idx rule r
     in if \<not> ok then Some (False, r1) else map_option (Pair True) (notifyFirewallEvent (addedEvent idx rule) r1))"
  by (simp add: router_AddRule_def AddRemoteRule_def split_beta Let_def)

lemma router_RemoveRule_halves:
  "router_RemoveRule idx r = (let (ok, r1) = RemoveRemoteRule idx r
     in if \<not> ok then Some (False, r1) else map_option (Pair True) (notifyFirewallEvent (removedEvent idx) r1))"
  by (simp add: router_RemoveRule_def RemoveRemoteRule_def split_beta Let_def)

text \<open>Opening a stream and its first dump are what \<^verbatim>\<open>SubscribeClientsRules\<close> does before its loop.\<close>

lemma SubscribeClientsRules_halves:
  "SubscribeClientsRules r = (let s = openStream r rb in (buildFirewallSyncEvent the_router (rs_server s), rs_ch s, rs_server s))"
  by (simp add: SubscribeClientsRules_def openStream_def split_beta Let_def)

section \<open>Messages as changes of a set of rule numbers\<close>

definition rule_ids :: "string \<Rightarrow> ('l, 'n) Router \<Rightarrow> u64 set" where
  "rule_ids a r = {i. i < 2 ^ 48 \<and> own_view a r i \<noteq> None}"

definition full_rule :: "string \<Rightarrow> (u64 \<Rightarrow> PortRule) \<Rightarrow> u64 \<Rightarrow> PortRule" where
  "full_rule a C i = (C i)\<lparr>pr_index := ownIndex a i\<rparr>"

definition content_ok :: "string \<Rightarrow> (u64 \<Rightarrow> PortRule) \<Rightarrow> ('l, 'n) Router \<Rightarrow> bool" where
  "content_ok a C r \<longleftrightarrow> (\<forall>i < 2 ^ 48. \<forall>x. own_view a r i = Some x \<longrightarrow> x = full_rule a C i)"

definition item_ok :: "string set \<Rightarrow> string \<Rightarrow> (u64 \<Rightarrow> PortRule) \<Rightarrow> ClientRule \<Rightarrow> bool" where
  "item_ok U a C u \<longleftrightarrow> rules_okidx U (wire_index u) \<and>
     (cr_NodeId u = a \<longrightarrow> (wire_rule u)\<lparr>pr_index := wire_index u\<rparr> = full_rule a C (cr_Id u))"

definition msg_ok :: "string set \<Rightarrow> string \<Rightarrow> (u64 \<Rightarrow> PortRule) \<Rightarrow> ClientRuleEvent \<Rightarrow> bool" where
  "msg_ok U a C ev \<longleftrightarrow>
     (case cre_Type ev of
        EVENT_SYNC \<Rightarrow> \<forall>u \<in> set (cre_Dump ev). item_ok U a C u
      | EVENT_ADDED \<Rightarrow> (\<exists>u. cre_Update ev = Some u \<and> cr_NodeId u = a \<and> item_ok U a C u)
      | EVENT_REMOVED \<Rightarrow> (\<exists>u. cre_Update ev = Some u \<and> cr_NodeId u = a \<and> rules_okidx U (wire_index u))
      | EVENT_UNKNOWN \<Rightarrow> False)"

definition msg_ids :: "string \<Rightarrow> ClientRuleEvent \<Rightarrow> u64 set \<Rightarrow> u64 set" where
  "msg_ids a ev S =
     (case cre_Type ev of
        EVENT_SYNC \<Rightarrow> {cr_Id u |u. u \<in> set (cre_Dump ev) \<and> cr_NodeId u = a}
      | EVENT_ADDED \<Rightarrow> (case cre_Update ev of None \<Rightarrow> S | Some u \<Rightarrow> insert (cr_Id u) S)
      | EVENT_REMOVED \<Rightarrow> (case cre_Update ev of None \<Rightarrow> S | Some u \<Rightarrow> S - {cr_Id u})
      | EVENT_UNKNOWN \<Rightarrow> S)"

text \<open>A router with the right contents is determined, for the rules of \<open>a\<close>, by the numbers it has.\<close>

lemma view_by_ids:
  assumes "content_ok a C r" and "i < 2 ^ 48"
  shows "own_view a r i = (if i \<in> rule_ids a r then Some (full_rule a C i) else None)"
  using assms by (cases "own_view a r i") (auto simp: content_ok_def rule_ids_def)

lemma same_view:
  assumes "content_ok a C r" and "content_ok a C r'" and "rule_ids a r' = rule_ids a r"
  shows "same_rules_of a r r'"
  using view_by_ids [OF assms(1)] view_by_ids [OF assms(2)] assms(3) by (simp add: same_rules_of_def)

lemma same_rules_ids: "same_rules_of a r r' \<Longrightarrow> rule_ids a r' = rule_ids a r"
  by (auto simp: same_rules_of_def rule_ids_def)

lemma same_rules_content: "same_rules_of a r r' \<Longrightarrow> content_ok a C r \<Longrightarrow> content_ok a C r'"
  by (auto simp: same_rules_of_def content_ok_def)

text \<open>The client applies a message as the change it stands for.\<close>

lemma own_index_ok: "a \<in> U \<Longrightarrow> i < 2 ^ 48 \<Longrightarrow> rules_okidx U (ownIndex a i)" "pri_NodeID (ownIndex a i) = a"
  by (simp_all add: rules_okidx_def ownIndex_def)

lemma apply_sync:
  assumes "rules_inv U r" and "content_ok a C r" and "\<forall>u \<in> set dump. item_ok U a C u" and "a \<in> U" and "a \<noteq> b" and "a \<noteq> ''''"
    and r': "r' = syncRules the_router b a dump r"
  shows "rules_inv U r'" and "content_ok a C r'" and "rule_ids a r' = {cr_Id u |u. u \<in> set dump \<and> cr_NodeId u = a}"
proof -
  from assms(3) have ok: "\<forall>u \<in> set dump. rules_okidx U (wire_index u)"
    and con: "\<And>u. u \<in> set dump \<Longrightarrow> cr_NodeId u = a \<Longrightarrow> (wire_rule u)\<lparr>pr_index := wire_index u\<rparr> = full_rule a C (cr_Id u)"
    by (auto simp: item_ok_def)
  note l = router_rules.syncRules_law [OF assms(1) ok own_index_ok(1) [OF assms(4)] assms(5,6), folded r']
  show "rules_inv U r'" using l(1) [of 0] by simp
  have dom: "own_view a r' i \<noteq> None \<longleftrightarrow> i \<in> {cr_Id u |u. u \<in> set dump \<and> cr_NodeId u = a}" if "i < 2 ^ 48" for i
    using l(2) [OF that own_index_ok(2)] by (auto simp: own_view_def wire_index_def ownIndex_def image_iff)
  have "i < 2 ^ 48" if "i \<in> {cr_Id u |u. u \<in> set dump \<and> cr_NodeId u = a}" for i
    using ok that by (auto simp: rules_okidx_def wire_index_def)
  with dom show "rule_ids a r' = {cr_Id u |u. u \<in> set dump \<and> cr_NodeId u = a}" unfolding rule_ids_def by blast
  have "x = full_rule a C i" if i: "i < 2 ^ 48" "own_view a r' i = Some x" for i x
  proof (cases "own_view a r i")
    case None
    with l(5) [OF i(1), of x] i(2) obtain u where u: "u \<in> set dump" "wire_index u = ownIndex a i"
      "x = (wire_rule u)\<lparr>pr_index := ownIndex a i\<rparr>" by (auto simp: own_view_def)
    then have "cr_NodeId u = a" "cr_Id u = i" by (simp_all add: wire_index_def ownIndex_def)
    with con [OF u(1)] u show ?thesis by simp
  next
    case (Some y)
    with l(6) [OF i(1), of y] i assms(2) show ?thesis by (auto simp: own_view_def content_ok_def)
  qed
  then show "content_ok a C r'" by (simp add: content_ok_def)
qed

lemma apply_added:
  assumes "rules_inv U r" and "content_ok a C r" and "item_ok U a C u" and "cr_NodeId u = a" and "a \<in> U" and "a \<noteq> b" and "a \<noteq> ''''"
    and r': "r' = addRemoteRuleObject the_router b u r"
  shows "rules_inv U r'" and "content_ok a C r'" and "rule_ids a r' = insert (cr_Id u) (rule_ids a r)"
proof -
  from assms(3,4) have u: "rules_okidx U (wire_index u)" "(wire_rule u)\<lparr>pr_index := wire_index u\<rparr> = full_rule a C (cr_Id u)"
    by (simp_all add: item_ok_def)
  obtain ok r1 where a: "ri_AddRemoteRule the_router (wire_index u) (wire_rule u) r = (ok, r1)" by fastforce
  then have "r1 = r'" using assms(4,6) r' by (simp add: addRemoteRuleObject_def)
  note l = router_rules.add_law [OF assms(1) u(1) a, unfolded this]
  then show "rules_inv U r'" by simp
  have w: "wire_index u = ownIndex a (cr_Id u)" "cr_Id u < 2 ^ 48" using u assms(4) by (simp_all add: wire_index_def ownIndex_def rules_okidx_def)
  have v: "own_view a r' i = (if i = cr_Id u \<and> own_view a r i = None then Some (full_rule a C i) else own_view a r i)" if "i < 2 ^ 48" for i
    using l that assms(5,7) u(2) w by (auto simp: own_view_def rules_okidx_def ownIndex_def)
  then show "content_ok a C r'" using assms(2) by (auto simp: content_ok_def)
  show "rule_ids a r' = insert (cr_Id u) (rule_ids a r)" using v w(2) by (auto simp: rule_ids_def)
qed

lemma apply_removed:
  assumes "rules_inv U r" and "content_ok a C r" and "rules_okidx U (wire_index u)" and "cr_NodeId u = a" and "a \<in> U"
    and r': "r' = deleteRemoteRuleObject the_router u r"
  shows "rules_inv U r'" and "content_ok a C r'" and "rule_ids a r' = rule_ids a r - {cr_Id u}"
proof -
  obtain ok r1 where a: "ri_RemoveRemoteRule the_router (wire_index u) r = (ok, r1)" by fastforce
  then have "r1 = r'" using r' by (simp add: deleteRemoteRuleObject_def)
  note l = router_rules.remove_law [OF assms(1,3) a, unfolded this]
  then show "rules_inv U r'" by simp
  have v: "own_view a r' i = (if i = cr_Id u then None else own_view a r i)" if "i < 2 ^ 48" for i
    using l that assms(4,5) by (auto simp: own_view_def rules_okidx_def ownIndex_def wire_index_def)
  then show "content_ok a C r'" using assms(2) by (auto simp: content_ok_def split: if_splits)
  show "rule_ids a r' = rule_ids a r - {cr_Id u}" using v by (auto simp: rule_ids_def split: if_splits)
qed

lemma apply_event:
  assumes "rules_inv U r" and "content_ok a C r" and "msg_ok U a C ev" and "a \<in> U" and "a \<noteq> b" and "a \<noteq> ''''"
    and "r' = applyRuleEvent the_router b a ev r"
  shows "rules_inv U r' \<and> content_ok a C r' \<and> rule_ids a r' = msg_ids a ev (rule_ids a r)"
  using assms(3,7) apply_sync [OF assms(1,2) _ assms(4-6)] apply_added [OF assms(1,2) _ _ assms(4-6)] apply_removed [OF assms(1,2) _ _ assms(4)]
  by (cases "cre_Type ev") (auto simp: applyRuleEvent_def msg_ok_def msg_ids_def)

section \<open>What the server sends\<close>

lemma sent_added:
  assumes "a \<in> U" and "i < 2 ^ 48"
  shows "msg_ok U a C (generateFirewallEvent (addedEvent (ownIndex a i) (C i)))"
    and "msg_ids a (generateFirewallEvent (addedEvent (ownIndex a i) (C i))) S = insert i S"
proof -
  have w: "ucast (ucast (x :: u16) :: u32) = x" for x by (rule bit_word_eqI) (simp add: bit_simps)
  show "msg_ok U a C (generateFirewallEvent (addedEvent (ownIndex a i) (C i)))" using assms
    by (cases "C i") (simp add: msg_ok_def item_ok_def generateFirewallEvent_def addedEvent_def ownIndex_def wire_index_def wire_rule_def
        rules_okidx_def full_rule_def w option.map_comp comp_def option.map_ident)
  show "msg_ids a (generateFirewallEvent (addedEvent (ownIndex a i) (C i))) S = insert i S"
    by (simp add: msg_ids_def generateFirewallEvent_def addedEvent_def ownIndex_def)
qed

lemma sent_removed:
  assumes "a \<in> U" and "i < 2 ^ 48"
  shows "msg_ok U a C (generateFirewallEvent (removedEvent (ownIndex a i)))"
    and "msg_ids a (generateFirewallEvent (removedEvent (ownIndex a i))) S = S - {i}"
  using assms by (simp_all add: msg_ok_def msg_ids_def generateFirewallEvent_def removedEvent_def ownIndex_def wire_index_def rules_okidx_def)

lemma sent_dump:
  assumes "rules_inv U r" and "content_ok a C r" and "a \<in> U"
  shows "msg_ok U a C (buildFirewallSyncEvent the_router r)"
    and "msg_ids a (buildFirewallSyncEvent the_router r) S = rule_ids a r"
proof -
  have d: "(\<exists>d \<in> set (router_DumpRules r). rd_NodeID d = a \<and> rd_RuleID d = i) \<longleftrightarrow> own_view a r i \<noteq> None" if "i < 2 ^ 48" for i
    using rules_dump_index [OF assms(1) own_index_ok(1) [OF assms(3) that]] by (simp add: own_view_def ownIndex_def)
  have b: "rd_RuleID d < 2 ^ 48" if "d \<in> set (router_DumpRules r)" for d
    using rules_dump_ok [OF assms(1) that] by (simp add: rules_okidx_def)
  show "msg_ids a (buildFirewallSyncEvent the_router r) S = rule_ids a r"
    using d b by (force simp: msg_ids_def buildFirewallSyncEvent_def the_router_def ruleToWire_def rule_ids_def)
  have "item_ok U a C (ruleToWire d)" if dr: "d \<in> set (router_DumpRules r)" for d
  proof -
    from rules_dump [OF assms(1)] dr obtain k rule where g: "gm_get (rulesByID (firewall r)) k = Some rule" "d = dumpRule rule" by blast
    with policy_own_index [OF _ g(1)] assms(1) have v: "rules_view r (pr_index rule) = Some rule" by (simp add: rules_inv_def rules_view_def)
    have w: "wire_index (ruleToWire d) = pr_index rule" using g(2) by (cases "pr_index rule") (simp add: wire_index_dump dumpRule_def)
    have "rule = full_rule a C (rd_RuleID d)" if n: "rd_NodeID d = a"
    proof -
      have "pr_index rule = ownIndex a (rd_RuleID d)" using n g(2) by (cases "pr_index rule") (simp add: dumpRule_def ownIndex_def)
      with v assms(2) b [OF dr] show ?thesis by (auto simp: content_ok_def own_view_def)
    qed
    moreover have "rules_okidx U (wire_index (ruleToWire d))" using rules_dump_ok [OF assms(1) dr] by (simp add: wire_index_dump)
    moreover have "(wire_rule (ruleToWire d))\<lparr>pr_index := wire_index (ruleToWire d)\<rparr> = rule"
      using wire_roundtrip [of rule] g(2) w by simp
    moreover have "cr_NodeId (ruleToWire d) = rd_NodeID d" "cr_Id (ruleToWire d) = rd_RuleID d" by (simp_all add: ruleToWire_def)
    ultimately show ?thesis unfolding item_ok_def by simp
  qed
  then show "msg_ok U a C (buildFirewallSyncEvent the_router r)"
    by (simp add: msg_ok_def buildFirewallSyncEvent_def the_router_def)
qed

section \<open>Replaying events\<close>

abbreviation "rerun a evs S \<equiv> fold (msg_ids a) evs S"

abbreviation "sent P \<equiv> map generateFirewallEvent P"

definition own_event :: "string \<Rightarrow> (u64 \<Rightarrow> PortRule) \<Rightarrow> FirewallEvent \<Rightarrow> bool" where
  "own_event a C e \<longleftrightarrow> (\<exists>i < 2 ^ 48. e = addedEvent (ownIndex a i) (C i) \<or> e = removedEvent (ownIndex a i))"

lemma own_event_msg: "a \<in> U \<Longrightarrow> own_event a C e \<Longrightarrow> msg_ok U a C (generateFirewallEvent e)"
  using sent_added(1) sent_removed(1) by (auto simp: own_event_def)

text \<open>An event decides one number and leaves the others; so does a sequence of them, number by number.\<close>

lemma own_event_point:
  assumes "own_event a C e"
  shows "(\<forall>S. j \<in> msg_ids a (generateFirewallEvent e) S) \<or> (\<forall>S. j \<notin> msg_ids a (generateFirewallEvent e) S) \<or>
    (\<forall>S. j \<in> msg_ids a (generateFirewallEvent e) S \<longleftrightarrow> j \<in> S)"
proof -
  from assms obtain i where i: "i < 2 ^ 48" "e = addedEvent (ownIndex a i) (C i) \<or> e = removedEvent (ownIndex a i)"
    by (auto simp: own_event_def)
  have "msg_ids a (generateFirewallEvent e) S = insert i S \<or> msg_ids a (generateFirewallEvent e) S = S - {i}" for S
    using i sent_added(2) [of a "{a}" i] sent_removed(2) [of a "{a}" i] by auto
  moreover have "(\<forall>S. msg_ids a (generateFirewallEvent e) S = insert i S) \<or> (\<forall>S. msg_ids a (generateFirewallEvent e) S = S - {i})"
    using i sent_added(2) [of a "{a}" i] sent_removed(2) [of a "{a}" i] by auto
  ultimately show ?thesis by (cases "j = i") auto
qed

lemma replay_point:
  assumes "\<forall>e \<in> set P. own_event a C e"
  shows "(\<forall>S. j \<in> rerun a (sent P) S) \<or> (\<forall>S. j \<notin> rerun a (sent P) S) \<or> (\<forall>S. j \<in> rerun a (sent P) S \<longleftrightarrow> j \<in> S)"
  using assms
proof (induction P rule: rev_induct)
  case Nil
  then show ?case by simp
next
  case (snoc e P)
  then show ?case using own_event_point [of a C e j] by auto
qed

lemma replay_idem:
  assumes "\<forall>e \<in> set P. own_event a C e"
  shows "rerun a (sent P) (rerun a (sent P) S) = rerun a (sent P) S"
proof (rule set_eqI)
  fix j show "j \<in> rerun a (sent P) (rerun a (sent P) S) \<longleftrightarrow> j \<in> rerun a (sent P) S"
    using replay_point [OF assms, of j] by blast
qed

text \<open>Events already replayed stay so when another one is appended, and when the first is taken.\<close>

lemma replay_append:
  assumes "\<forall>e \<in> set P. own_event a C e" and "own_event a C e" and "rerun a (sent P) S = S"
  shows "rerun a (sent (P @ [e])) (msg_ids a (generateFirewallEvent e) S) = msg_ids a (generateFirewallEvent e) S"
proof (rule set_eqI)
  let ?m = "msg_ids a (generateFirewallEvent e)"
  fix j
  have "j \<in> rerun a (sent P) (?m S) \<longleftrightarrow> j \<in> S" if "j \<in> ?m S \<longleftrightarrow> j \<in> S"
    using replay_point [OF assms(1), of j] assms(3) that by auto
  then show "j \<in> rerun a (sent (P @ [e])) (?m S) \<longleftrightarrow> j \<in> ?m S"
    using own_event_point [OF assms(2), of j] by auto
qed

lemma replay_tail:
  assumes "\<forall>e \<in> set P. own_event a C e" and "rerun a (sent (e # P)) S = S"
  shows "rerun a (sent P) S = S"
  using replay_idem [OF assms(1), of "msg_ids a (generateFirewallEvent e) S"] assms(2) by simp

lemma replay_suffix:
  assumes "\<forall>e \<in> set Q. own_event a C e" and "rerun a (sent (P @ Q)) S = S"
  shows "rerun a (sent Q) S = S"
  using replay_idem [OF assms(1), of "rerun a (sent P) S"] assms(2) by simp

text \<open>Events of different rules may overtake each other.\<close>

lemma own_event_ids:
  assumes "own_event a C e"
  shows "(\<forall>S. msg_ids a (generateFirewallEvent e) S = insert (fe_RuleID e) S) \<or> (\<forall>S. msg_ids a (generateFirewallEvent e) S = S - {fe_RuleID e})"
  using assms sent_added(2) [of a "{a}"] sent_removed(2) [of a "{a}"]
  by (auto simp: own_event_def addedEvent_def removedEvent_def ownIndex_def)

lemma replay_overtake:
  assumes "\<forall>x \<in> set P. own_event a C x \<and> fe_RuleID x \<noteq> fe_RuleID e" and "own_event a C e"
  shows "rerun a (sent (P @ e # Q)) S = rerun a (sent (e # P @ Q)) S"
  using assms(1)
proof (induction P arbitrary: S)
  case (Cons x P)
  then have "own_event a C x" "fe_RuleID x \<noteq> fe_RuleID e" by simp_all
  with own_event_ids [of a C x] own_event_ids [OF assms(2)]
  have "msg_ids a (generateFirewallEvent e) (msg_ids a (generateFirewallEvent x) S) =
    msg_ids a (generateFirewallEvent x) (msg_ids a (generateFirewallEvent e) S)" by auto
  with Cons.IH [of "msg_ids a (generateFirewallEvent x) S"] Cons.prems show ?case by simp
qed simp

text \<open>
  Two events of one rule may not: the notification of a removal that comes before the one of the addition leaves the
  subscriber with a rule that is gone.
\<close>

lemma overtaken_removal_is_lost:
  "rerun a (sent [removedEvent (ownIndex a i), addedEvent (ownIndex a i) c]) S = insert i S"
  "rerun a (sent [addedEvent (ownIndex a i) c, removedEvent (ownIndex a i)]) S = S - {i}"
  by (auto simp: msg_ids_def generateFirewallEvent_def addedEvent_def removedEvent_def ownIndex_def)

section \<open>The invariant\<close>

definition stream_inv :: "string set \<Rightarrow> string \<Rightarrow> string \<Rightarrow> (u64 \<Rightarrow> PortRule) \<Rightarrow> ('l, 'n) rule_stream \<Rightarrow> bool" where
  "stream_inv U a b C s \<longleftrightarrow>
     a \<noteq> b \<and> own_inv U a (rs_server s) \<and> rules_inv U (rs_client s) \<and> content_ok a C (rs_server s) \<and> content_ok a C (rs_client s) \<and>
     rs_ch s \<in> set (bus_subs (firewallsubs (rs_server s))) \<and>
     (\<forall>ev \<in> set (rs_wire s). msg_ok U a C ev) \<and> (\<forall>e \<in> set (pending (rs_ch s) (rs_server s) @ rs_owed s). own_event a C e) \<and>
     (rs_fresh s \<longrightarrow> rs_wire s = []) \<and>
     (\<not> rs_lost s \<longrightarrow>
        (\<not> rs_fresh s \<longrightarrow> rerun a (rs_wire s @ sent (pending (rs_ch s) (rs_server s) @ rs_owed s)) (rule_ids a (rs_client s)) = rule_ids a (rs_server s)) \<and>
        rerun a (sent (pending (rs_ch s) (rs_server s) @ rs_owed s)) (rule_ids a (rs_server s)) = rule_ids a (rs_server s))"

definition stream_init :: "string set \<Rightarrow> string \<Rightarrow> string \<Rightarrow> (u64 \<Rightarrow> PortRule) \<Rightarrow> ('l, 'n) rule_stream \<Rightarrow> bool" where
  "stream_init U a b C s \<longleftrightarrow> (\<exists>ra rb P. a \<noteq> b \<and> own_inv U a ra \<and> rules_inv U rb \<and> content_ok a C ra \<and> content_ok a C rb \<and>
     (\<forall>e \<in> set P. own_event a C e) \<and> s = (openStream ra rb)\<lparr>rs_owed := P, rs_lost := P \<noteq> []\<rparr>)"

lemma subs_only:
  "own_view a (r\<lparr>firewallsubs := q\<rparr>) = own_view a r" "rule_ids a (r\<lparr>firewallsubs := q\<rparr>) = rule_ids a r"
  "content_ok a C (r\<lparr>firewallsubs := q\<rparr>) = content_ok a C r"
  "own_inv U a (r\<lparr>firewallsubs := q\<rparr>) \<longleftrightarrow> rules_inv U r \<and> bus_ok q \<and> a \<in> U \<and> a \<noteq> ''''"
  by (simp_all add: fun_eq_iff own_view_def rule_ids_def content_ok_def own_inv_def rules_subs)

lemma open_inv:
  assumes "a \<noteq> b" and "own_inv U a ra" and "rules_inv U rb" and "content_ok a C ra" and "content_ok a C rb"
    and "\<forall>e \<in> set P. own_event a C e" and "\<not> l \<Longrightarrow> rerun a (sent P) (rule_ids a ra) = rule_ids a ra"
  shows "stream_inv U a b C ((openStream ra rb)\<lparr>rs_owed := P, rs_lost := l\<rparr>)"
proof -
  obtain ch q where sub: "bus_subscribe 200 (firewallsubs ra) = (ch, q)" by fastforce
  let ?r = "ra\<lparr>firewallsubs := q\<rparr>"
  have q: "bus_ok q" using bus_ok_subscribe [of "firewallsubs ra" 200] sub assms(2) by (simp add: own_inv_def)
  with assms(2) have r: "own_inv U a ?r" "rules_inv U ?r" "a \<in> U" by (simp_all add: subs_only own_inv_def rules_subs)
  have s: "openStream ra rb = \<lparr>rs_server = ?r, rs_ch = ch, rs_fresh = True, rs_wire = [], rs_client = rb, rs_owed = [], rs_lost = False\<rparr>"
    using sub by (simp add: openStream_def SubscribeFirewallEvents_def)
  have "ch \<in> set (bus_subs q)" "pending ch ?r = []"
    using sub by (auto simp: bus_subscribe_def pending_def mkchan_def)
  with s assms r show ?thesis by (simp add: stream_inv_def subs_only)
qed

lemma notify_pending:
  assumes "bus_ok (firewallsubs r)" and "ch \<in> set (bus_subs (firewallsubs r))" and "notifyFirewallEvent e r = Some r'"
  shows "\<exists>q. r' = r\<lparr>firewallsubs := q\<rparr> \<and> bus_ok q \<and> bus_subs q = bus_subs (firewallsubs r)"
    and "pending ch r' = (if chan_full ch r then pending ch r else pending ch r @ [e])"
proof -
  from bus_notify_spec [OF assms(1), of e] obtain q where q: "bus_notify e (firewallsubs r) = Some q" "bus_ok q"
    "bus_subs q = bus_subs (firewallsubs r)"
    "gm_get (bus_chans q) ch = map_option (deliver e) (gm_get (bus_chans (firewallsubs r)) ch)" using assms(2) by auto
  then have r': "r' = r\<lparr>firewallsubs := q\<rparr>" using assms(3) by (simp add: notifyFirewallEvent_def)
  with q show "\<exists>q. r' = r\<lparr>firewallsubs := q\<rparr> \<and> bus_ok q \<and> bus_subs q = bus_subs (firewallsubs r)" by blast
  show "pending ch r' = (if chan_full ch r then pending ch r else pending ch r @ [e])"
    using bus_okD(4) [OF assms(1,2)] r' q(4) by (auto simp: pending_def chan_full_def deliver_def)
qed

text \<open>A change of an own rule.\<close>

lemma add_change:
  assumes "own_inv U a r" and "content_ok a C r" and "i < 2 ^ 48" and "AddRemoteRule (ownIndex a i) (C i) r = (ok, r')"
  shows "own_inv U a r'" and "content_ok a C r'" and "firewallsubs r' = firewallsubs r"
    and "rule_ids a r' = insert i (rule_ids a r)" and "\<not> ok \<Longrightarrow> rule_ids a r' = rule_ids a r"
proof -
  from assms(1) have o: "rules_inv U r" "a \<in> U" "a \<noteq> ''''" "bus_ok (firewallsubs r)" by (simp_all add: own_inv_def)
  show subs: "firewallsubs r' = firewallsubs r" using assms(4) by (auto simp: AddRemoteRule_def split_beta Let_def)
  have k: "rules_okidx U (ownIndex a i)" by (rule own_index_ok(1) [OF o(2) assms(3)])
  from assms(4) have "ri_AddRemoteRule the_router (ownIndex a i) (C i) r = (ok, r')" by (simp add: the_router_def)
  note l = router_rules.add_law [OF o(1) k this]
  with o subs show "own_inv U a r'" by (simp add: own_inv_def)
  have v: "own_view a r' k = (if k = i \<and> own_view a r k = None then Some (full_rule a C k) else own_view a r k)" if "k < 2 ^ 48" for k
    using l that o own_index_ok(1) [OF o(2) that] by (auto simp: own_view_def full_rule_def own_index_ok(2), auto simp: ownIndex_def)
  then show "content_ok a C r'" using assms(2) by (auto simp: content_ok_def)
  show ids: "rule_ids a r' = insert i (rule_ids a r)" using v assms(3) by (auto simp: rule_ids_def)
  have "ok \<longleftrightarrow> own_view a r i = None" using l o(3) by (simp add: own_view_def own_index_ok(2))
  with ids assms(3) show "rule_ids a r' = rule_ids a r" if "\<not> ok" using that by (auto simp: rule_ids_def)
qed

lemma remove_change:
  assumes "own_inv U a r" and "content_ok a C r" and "i < 2 ^ 48" and "RemoveRemoteRule (ownIndex a i) r = (ok, r')"
  shows "own_inv U a r'" and "content_ok a C r'" and "firewallsubs r' = firewallsubs r"
    and "rule_ids a r' = rule_ids a r - {i}" and "\<not> ok \<Longrightarrow> rule_ids a r' = rule_ids a r"
proof -
  from assms(1) have o: "rules_inv U r" "a \<in> U" "a \<noteq> ''''" "bus_ok (firewallsubs r)" "fw_inv (firewall r)" "short_ok (firewall r)"
    by (simp_all add: own_inv_def rules_inv_def)
  show subs: "firewallsubs r' = firewallsubs r" using assms(4) by (auto simp: RemoveRemoteRule_def split_beta Let_def)
  have k: "rules_okidx U (ownIndex a i)" by (rule own_index_ok(1) [OF o(2) assms(3)])
  from assms(4) have "ri_RemoveRemoteRule the_router (ownIndex a i) r = (ok, r')" by (simp add: the_router_def)
  note l = router_rules.remove_law [OF o(1) k this]
  with o subs show "own_inv U a r'" by (simp add: own_inv_def)
  have v: "own_view a r' k = (if k = i then None else own_view a r k)" if "k < 2 ^ 48" for k
    using l own_index_ok(1) [OF o(2) that] by (auto simp: own_view_def, auto simp: ownIndex_def)
  then show "content_ok a C r'" using assms(2) by (auto simp: content_ok_def split: if_splits)
  show ids: "rule_ids a r' = rule_ids a r - {i}" using v by (auto simp: rule_ids_def split: if_splits)
  obtain fw where c: "RemoveRule (ownIndex a i) (firewall r) = (ok, fw)" using assms(4) by (auto simp: RemoveRemoteRule_def split_beta Let_def prod_eq_iff)
  have "ok \<longleftrightarrow> own_view a r i \<noteq> None"
    using RemoveRule_policy [OF o(5,6) _ c] assms(3) by (simp add: ownIndex_def own_view_def rules_view_def)
  then show "rule_ids a r' = rule_ids a r" if "\<not> ok" using ids that by (auto simp: rule_ids_def)
qed

lemma own_change_inv:
  assumes "stream_inv U a b C s" and "own_event a C e" and "own_inv U a r" and "content_ok a C r" and "firewallsubs r = firewallsubs (rs_server s)"
    and "rule_ids a r = msg_ids a (generateFirewallEvent e) (rule_ids a (rs_server s))"
    and "\<not> ok \<Longrightarrow> rule_ids a r = rule_ids a (rs_server s)"
  shows "stream_inv U a b C (s\<lparr>rs_server := r, rs_owed := rs_owed s @ (if ok then [e] else [])\<rparr>)"
proof -
  let ?P = "pending (rs_ch s) (rs_server s) @ rs_owed s"
  have P: "\<forall>e \<in> set ?P. own_event a C e" using assms(1) by (simp add: stream_inv_def)
  have p: "pending (rs_ch s) r = pending (rs_ch s) (rs_server s)" using assms(5) by (simp add: pending_def)
  have sync: "(\<not> rs_fresh s \<longrightarrow> rerun a (rs_wire s @ sent (?P @ (if ok then [e] else []))) (rule_ids a (rs_client s)) = rule_ids a r) \<and>
      rerun a (sent (?P @ (if ok then [e] else []))) (rule_ids a r) = rule_ids a r" if "\<not> rs_lost s"
  proof -
    from that assms(1) have old: "\<not> rs_fresh s \<longrightarrow> rerun a (rs_wire s @ sent ?P) (rule_ids a (rs_client s)) = rule_ids a (rs_server s)"
      "rerun a (sent ?P) (rule_ids a (rs_server s)) = rule_ids a (rs_server s)" by (simp_all add: stream_inv_def)
    with replay_append [OF P assms(2) old(2)] assms(6,7) show ?thesis by (cases ok) simp_all
  qed
  have "\<forall>e \<in> set (?P @ (if ok then [e] else [])). own_event a C e" using P assms(2) by auto
  with sync assms(1,3-5) p show ?thesis by (simp add: stream_inv_def)
qed

lemma notify_inv:
  assumes "stream_inv U a b C s" and "rs_owed s = xs @ e # ys" and "notifyFirewallEvent e (rs_server s) = Some r"
  shows "stream_inv U a b C (s\<lparr>rs_server := r, rs_owed := xs @ ys,
    rs_lost := rs_lost s \<or> chan_full (rs_ch s) (rs_server s) \<or> (\<exists>x \<in> set xs. fe_RuleID x = fe_RuleID e)\<rparr>)"
proof -
  let ?P = "pending (rs_ch s) (rs_server s)" and ?f = "chan_full (rs_ch s) (rs_server s)"
  have o: "bus_ok (firewallsubs (rs_server s))" "rs_ch s \<in> set (bus_subs (firewallsubs (rs_server s)))" "own_inv U a (rs_server s)"
    and ev: "own_event a C e" "\<forall>x \<in> set xs. own_event a C x"
    using assms(1,2) by (simp_all add: stream_inv_def own_inv_def)
  from notify_pending(1) [OF o(1,2) assms(3)] obtain q where
    q: "r = (rs_server s)\<lparr>firewallsubs := q\<rparr>" "bus_ok q" "bus_subs q = bus_subs (firewallsubs (rs_server s))" by blast
  note p = notify_pending(2) [OF o(1,2) assms(3)]
  have own: "\<forall>e \<in> set (pending (rs_ch s) r @ xs @ ys). own_event a C e"
    using assms(1,2) by (auto simp: stream_inv_def p)
  have swap: "rerun a (sent (pending (rs_ch s) r @ xs @ ys)) S = rerun a (sent (?P @ xs @ e # ys)) S"
    if "\<not> ?f" "\<not> (\<exists>x \<in> set xs. fe_RuleID x = fe_RuleID e)" for S
    using replay_overtake [OF _ ev(1), of xs ys "rerun a (sent ?P) S"] ev(2) that p by auto
  have "own_inv U a r" using q(1,2) o(3) by (simp add: own_inv_def rules_subs)
  moreover have "(\<not> rs_fresh s \<longrightarrow> rerun a (rs_wire s @ sent (pending (rs_ch s) r @ xs @ ys)) (rule_ids a (rs_client s)) = rule_ids a (rs_server s)) \<and>
      rerun a (sent (pending (rs_ch s) r @ xs @ ys)) (rule_ids a (rs_server s)) = rule_ids a (rs_server s)"
    if "\<not> rs_lost s" "\<not> ?f" "\<not> (\<exists>x \<in> set xs. fe_RuleID x = fe_RuleID e)"
    using swap [OF that(2,3)] assms(1,2) that(1) by (simp add: stream_inv_def)
  ultimately show ?thesis using assms(1) own q by (simp add: stream_inv_def subs_only)
qed

lemma recv_pending:
  assumes "bus_ok (firewallsubs r)" and "bus_recv ch (firewallsubs r) = Some (e, q)"
  shows "bus_ok q" and "bus_subs q = bus_subs (firewallsubs r)" and "pending ch r = e # pending ch (r\<lparr>firewallsubs := q\<rparr>)"
  using bus_ok_recv [OF assms] assms(2)
  by (auto simp: bus_recv_def chan_recv_def pending_def split: option.splits list.splits)

lemma stream_step_inv:
  assumes inv: "stream_inv U a b C s" and "stream_step a b s t"
  shows "stream_inv U a b C t"
  using assms(2)
proof (cases rule: stream_step.cases)
  case dump
  have d: "rules_inv U (rs_server s)" "content_ok a C (rs_server s)" "a \<in> U" using inv by (simp_all add: stream_inv_def own_inv_def)
  with dump inv sent_dump [OF d] show ?thesis by (auto simp: stream_inv_def)
next
  case (tick ev)
  have d: "rules_inv U (rs_server s)" "content_ok a C (rs_server s)" "a \<in> U" using inv by (simp_all add: stream_inv_def own_inv_def)
  have ev: "ev = buildFirewallSyncEvent the_router (rs_server s)" using tick(3) by simp
  with tick inv sent_dump [OF d] show ?thesis by (auto simp: stream_inv_def)
next
  case (event upd q ev)
  have b: "bus_ok (firewallsubs (rs_server s))" "a \<in> U" using inv by (simp_all add: stream_inv_def own_inv_def)
  note r = recv_pending [OF b(1) event(3)]
  have e: "own_event a C upd" and P: "\<forall>e \<in> set (pending (rs_ch s) ((rs_server s)\<lparr>firewallsubs := q\<rparr>) @ rs_owed s). own_event a C e"
    using inv r(3) by (simp_all add: stream_inv_def)
  from event(4) have ev: "ev = generateFirewallEvent upd" by simp
  have tail: "rerun a (sent (pending (rs_ch s) ((rs_server s)\<lparr>firewallsubs := q\<rparr>) @ rs_owed s)) (rule_ids a (rs_server s)) = rule_ids a (rs_server s)"
    if "\<not> rs_lost s" using replay_tail [OF P, of upd] inv that r(3) by (simp add: stream_inv_def)
  have "own_inv U a ((rs_server s)\<lparr>firewallsubs := q\<rparr>)" using inv r(1) by (simp add: stream_inv_def subs_only own_inv_def rules_subs)
  with tail event(1,2) inv r own_event_msg [OF b(2) e] ev P show ?thesis by (simp add: stream_inv_def subs_only)
next
  case (recv ev evs)
  let ?r = "applyRuleEvent the_router b a ev (rs_client s)"
  have c: "rules_inv U (rs_client s)" "content_ok a C (rs_client s)" "msg_ok U a C ev" "a \<in> U" "a \<noteq> b" "a \<noteq> ''''"
    using inv recv(2) by (simp_all add: stream_inv_def own_inv_def)
  from apply_event [OF this refl] recv inv show ?thesis by (simp add: stream_inv_def)
qed

lemma rule_step_inv:
  assumes inv: "stream_inv U a b C s" and "rule_step U a b C s t"
  shows "stream_inv U a b C t"
  using assms(2)
proof (cases rule: rule_step.cases)
  case stream
  with inv show ?thesis by (rule stream_step_inv)
next
  case (own_add i ok r)
  have o: "own_inv U a (rs_server s)" "content_ok a C (rs_server s)" "a \<in> U" using inv by (simp_all add: stream_inv_def own_inv_def)
  have "own_event a C (addedEvent (ownIndex a i) (C i))" using own_add(2) by (auto simp: own_event_def)
  note c = own_change_inv [OF inv this add_change(1-3) [OF o(1,2) own_add(2,3)] _ add_change(5) [OF o(1,2) own_add(2,3)]]
  from c add_change(4) [OF o(1,2) own_add(2,3)] sent_added(2) [OF o(3) own_add(2)] show ?thesis unfolding own_add(1) by simp
next
  case (own_remove i ok r)
  have o: "own_inv U a (rs_server s)" "content_ok a C (rs_server s)" "a \<in> U" using inv by (simp_all add: stream_inv_def own_inv_def)
  have "own_event a C (removedEvent (ownIndex a i))" using own_remove(2) by (auto simp: own_event_def)
  note c = own_change_inv [OF inv this remove_change(1-3) [OF o(1,2) own_remove(2,3)] _ remove_change(5) [OF o(1,2) own_remove(2,3)]]
  from c remove_change(4) [OF o(1,2) own_remove(2,3)] sent_removed(2) [OF o(3) own_remove(2)] show ?thesis unfolding own_remove(1) by simp
next
  case (notify xs e ys r)
  with notify_inv [OF inv] show ?thesis by simp
next
  case (reopen r)
  have o: "a \<noteq> b" "own_inv U a (rs_server s)" "rules_inv U (rs_client s)" "content_ok a C (rs_server s)" "content_ok a C (rs_client s)"
    and w: "\<forall>e \<in> set (rs_owed s). own_event a C e"
    using inv by (simp_all add: stream_inv_def)
  from bus_cancel_total [of "firewallsubs (rs_server s)" "rs_ch s"] o(2) reopen(2) obtain q where
    q: "r = (rs_server s)\<lparr>firewallsubs := q\<rparr>" "bus_ok q" by (auto simp: cancelFirewall_def own_inv_def)
  with o have r: "own_inv U a r" "content_ok a C r" by (simp_all add: subs_only own_inv_def rules_subs)
  have "rerun a (sent (rs_owed s)) (rule_ids a r) = rule_ids a r" if "\<not> (rs_lost s \<and> rs_owed s \<noteq> [])"
    using that replay_suffix [OF w, of "pending (rs_ch s) (rs_server s)" "rule_ids a r"] inv q(1)
    by (cases "rs_owed s = []") (simp_all add: stream_inv_def subs_only)
  from open_inv [OF o(1) r(1) o(3) r(2) o(5) w this] reopen(1) show ?thesis by blast
next
  case (server_other r)
  have "own_inv U a r" "content_ok a C r"
    using inv server_other same_rules_content [OF server_other(6)] by (simp_all add: stream_inv_def own_inv_def)
  with inv server_other same_rules_ids [OF server_other(6)] show ?thesis by (simp add: stream_inv_def)
next
  case (client_other r)
  with inv same_rules_ids [OF client_other(3)] same_rules_content [OF client_other(3)] show ?thesis by (simp add: stream_inv_def)
qed

interpretation rule_system: invariant_system "stream_init U a b C" "rule_step U a b C" "stream_inv U a b C" for U a b C
  by unfold_locales (auto simp: stream_init_def intro: open_inv rule_step_inv)

lemma quiet_agrees:
  assumes "stream_inv U a b C s" and "\<not> rs_lost s" and "\<not> rs_fresh s" and "rs_wire s = []" and "pending (rs_ch s) (rs_server s) = []"
    and "rs_owed s = []"
  shows "same_rules_of a (rs_server s) (rs_client s)"
  using assms by (intro same_view [of a C]) (simp_all add: stream_inv_def)

section \<open>Recovery\<close>

text \<open>The serving loop can always empty the channel, and the client the wire.\<close>

lemma drain_channel:
  assumes "stream_inv U a b C s" and "\<not> rs_fresh s" and "pending (rs_ch s) (rs_server s) = P"
  shows "\<exists>t. ((stream_step a b) ^^ length P) s t \<and> stream_inv U a b C t \<and> \<not> rs_fresh t \<and> pending (rs_ch t) (rs_server t) = [] \<and>
    rs_wire t = rs_wire s @ sent P \<and> rs_owed t = rs_owed s \<and> own_view a (rs_server t) = own_view a (rs_server s)"
  using assms
proof (induction P arbitrary: s)
  case Nil
  then show ?case by auto
next
  case (Cons e P)
  have b: "bus_ok (firewallsubs (rs_server s))" using Cons.prems(1) by (simp add: stream_inv_def own_inv_def)
  obtain q where q: "bus_recv (rs_ch s) (firewallsubs (rs_server s)) = Some (e, q)"
    using Cons.prems(3) by (auto simp: pending_def bus_recv_def chan_recv_def split: option.splits)
  let ?r = "(rs_server s)\<lparr>firewallsubs := q\<rparr>"
  let ?s = "s\<lparr>rs_server := ?r, rs_wire := rs_wire s @ [generateFirewallEvent e]\<rparr>"
  have st: "stream_step a b s ?s" using stream_step.event [OF Cons.prems(2) q, of "generateFirewallEvent e" a b] by simp
  have "pending (rs_ch ?s) (rs_server ?s) = P" using recv_pending(3) [OF b q] Cons.prems(3) by simp
  from Cons.IH [OF stream_step_inv [OF Cons.prems(1) st] _ this] Cons.prems(2) obtain t where
    "((stream_step a b) ^^ length P) ?s t" "stream_inv U a b C t" "\<not> rs_fresh t" "pending (rs_ch t) (rs_server t) = []"
    "rs_wire t = rs_wire s @ sent (e # P)" "rs_owed t = rs_owed s" "own_view a (rs_server t) = own_view a (rs_server s)"
    by (auto simp: subs_only)
  with relpowp_Suc_I2 [of "stream_step a b", OF st] show ?case by (metis length_Cons)
qed

lemma drain_wire:
  assumes "stream_inv U a b C s" and "rs_wire s = w"
  shows "\<exists>t. ((stream_step a b) ^^ length w) s t \<and> stream_inv U a b C t \<and> rs_wire t = [] \<and> rs_ch t = rs_ch s \<and>
    rs_server t = rs_server s \<and> rs_lost t = rs_lost s \<and> rule_ids a (rs_client t) = rerun a w (rule_ids a (rs_client s))"
  using assms
proof (induction w arbitrary: s)
  case Nil
  then show ?case by auto
next
  case (Cons ev w)
  let ?s = "s\<lparr>rs_wire := w, rs_client := applyRuleEvent the_router b a ev (rs_client s)\<rparr>"
  have st: "stream_step a b s ?s" using stream_step.recv [OF Cons.prems(2)] .
  have c: "rules_inv U (rs_client s)" "content_ok a C (rs_client s)" "msg_ok U a C ev" "a \<in> U" "a \<noteq> b" "a \<noteq> ''''"
    using Cons.prems by (simp_all add: stream_inv_def own_inv_def)
  from apply_event [OF this refl] have "rule_ids a (rs_client ?s) = msg_ids a ev (rule_ids a (rs_client s))" by simp
  with Cons.IH [OF stream_step_inv [OF Cons.prems(1) st]] obtain t where
    "((stream_step a b) ^^ length w) ?s t" "stream_inv U a b C t" "rs_wire t = []" "rs_ch t = rs_ch s" "rs_server t = rs_server s"
    "rs_lost t = rs_lost s" "rule_ids a (rs_client t) = rerun a (ev # w) (rule_ids a (rs_client s))" by auto
  with relpowp_Suc_I2 [of "stream_step a b", OF st] show ?case by (metis length_Cons)
qed

lemma serving_recovers:
  assumes "stream_inv U a b C s" and "\<not> rs_fresh s"
  shows "\<exists>t. ((stream_step a b) ^^ (length (rs_wire s) + 2 * length (pending (rs_ch s) (rs_server s)) + 2)) s t \<and>
    (rs_lost t \<longrightarrow> rs_owed s \<noteq> []) \<and> rs_wire t = [] \<and> pending (rs_ch t) (rs_server t) = [] \<and>
    own_view a (rs_server t) = own_view a (rs_server s) \<and> same_rules_of a (rs_server s) (rs_client t)"
proof -
  let ?P = "pending (rs_ch s) (rs_server s)"
  from drain_channel [OF assms refl] obtain t where t: "((stream_step a b) ^^ length ?P) s t" "stream_inv U a b C t" "\<not> rs_fresh t"
    "pending (rs_ch t) (rs_server t) = []" "rs_wire t = rs_wire s @ sent ?P" "rs_owed t = rs_owed s"
    "own_view a (rs_server t) = own_view a (rs_server s)" by blast
  let ?t = "t\<lparr>rs_wire := rs_wire t @ [buildFirewallSyncEvent the_router (rs_server t)], rs_lost := rs_lost t \<and> rs_owed t \<noteq> []\<rparr>"
  have st: "stream_step a b t ?t" using stream_step.tick [of t _ a b] t(3,4) by simp
  from drain_wire [OF stream_step_inv [OF t(2) st] refl] obtain v where
    v: "((stream_step a b) ^^ length (rs_wire ?t)) ?t v" "stream_inv U a b C v" "rs_wire v = []" "rs_ch v = rs_ch t"
    "rs_server v = rs_server t" "rs_lost v = (rs_lost t \<and> rs_owed t \<noteq> [])"
    "rule_ids a (rs_client v) = rerun a (rs_wire ?t) (rule_ids a (rs_client ?t))" by auto
  have "((stream_step a b) ^^ Suc (length (rs_wire ?t))) t v" by (rule relpowp_Suc_I2 [OF st v(1)])
  with t(1) have "((stream_step a b) ^^ (length ?P + Suc (length (rs_wire ?t)))) s v" by (auto simp: relpowp_add)
  moreover have "length ?P + Suc (length (rs_wire ?t)) = length (rs_wire s) + 2 * length ?P + 2" using t(5) by simp
  moreover have "pending (rs_ch v) (rs_server v) = []" using t(4) v(4,5) by simp
  moreover have "rule_ids a (rs_client v) = rule_ids a (rs_server t)"
    using v(7) sent_dump(2) [of U "rs_server t" a C] t(2) by (simp add: stream_inv_def own_inv_def)
  with same_view [of a C "rs_server t" "rs_client v"] t(2,7) v(2) have "same_rules_of a (rs_server s) (rs_client v)"
    by (simp add: stream_inv_def same_rules_of_def)
  ultimately show ?thesis using v t(6,7) by metis
qed

lemma stream_recovers:
  assumes "stream_inv U a b C s"
  shows "\<exists>t. ((stream_step a b) ^^ (length (rs_wire s) + 2 * length (pending (rs_ch s) (rs_server s)) + (if rs_fresh s then 4 else 2))) s t \<and>
    (rs_lost t \<longrightarrow> rs_owed s \<noteq> []) \<and> rs_wire t = [] \<and> pending (rs_ch t) (rs_server t) = [] \<and>
    own_view a (rs_server t) = own_view a (rs_server s) \<and> same_rules_of a (rs_server s) (rs_client t)"
proof (cases "rs_fresh s")
  case False
  with serving_recovers [OF assms] show ?thesis by simp
next
  case True
  let ?s = "s\<lparr>rs_fresh := False, rs_wire := rs_wire s @ [buildFirewallSyncEvent the_router (rs_server s)],
    rs_lost := rs_lost s \<and> (pending (rs_ch s) (rs_server s) \<noteq> [] \<or> rs_owed s \<noteq> [])\<rparr>"
  have st: "stream_step a b s ?s" using stream_step.dump [OF True] .
  from serving_recovers [OF stream_step_inv [OF assms st]] obtain t where
    t: "((stream_step a b) ^^ (length (rs_wire s) + 1 + 2 * length (pending (rs_ch s) (rs_server s)) + 2)) ?s t"
    "rs_lost t \<longrightarrow> rs_owed s \<noteq> []" "rs_wire t = []" "pending (rs_ch t) (rs_server t) = []"
    "own_view a (rs_server t) = own_view a (rs_server s)" "same_rules_of a (rs_server s) (rs_client t)" by auto
  from relpowp_Suc_I2 [of "stream_step a b", OF st t(1)]
  have "((stream_step a b) ^^ (length (rs_wire s) + 2 * length (pending (rs_ch s) (rs_server s)) + (if rs_fresh s then 4 else 2))) s t"
    using True by (simp add: numeral_eq_Suc)
  with t show ?thesis by blast
qed

section \<open>Properties of the rules stream\<close>

text \<open>C20: a rules stream that has caught up shows the owner's rules. Take any state that the two nodes reach while the
  owner adds and removes rules between the steps of the stream, with the change of the firewall and its notification
  as two steps that other requests may come between, with changes between a subscription and its first dump, with dumps
  overtaken by events and with broken and reopened streams. When every change has been notified, the stream has sent its first dump, nothing waits in the channel or on the wire, and since the last clean
  dump no event was dropped by a full channel nor overtaken by a later event of the same rule (removal and addition of
  one rule notified in the wrong order leave the stream wrong until the next dump), the router of \<open>b\<close> holds exactly
  the rules that \<open>a\<close> has of its own, with the same contents. Each rule number below 2^48 has one content for good,
  and nothing but the stream changes the rules of \<open>a\<close> at \<open>b\<close>: a third node that sends \<open>b\<close> dumps or events naming rules
  of \<open>a\<close> is excluded, as is one that changes them at \<open>a\<close>.\<close>

theorem rules_stay_in_step:
  assumes "stream_init U a b C s0" and "(rule_step U a b C)\<^sup>*\<^sup>* s0 s"
    and "\<not> rs_lost s" and "\<not> rs_fresh s" and "rs_wire s = []" and "pending (rs_ch s) (rs_server s) = []" and "rs_owed s = []"
    and "i < 2 ^ 48"
  shows "own_view a (rs_client s) i = own_view a (rs_server s) i"
  using quiet_agrees [OF rule_system.inv_reachable [OF assms(1,2)] assms(3-7)] assms(8) by (simp add: same_rules_of_def)

text \<open>C19: the rules stream heals. From every state that the two nodes reach, also one in which events were dropped by a
  full channel or notified in the wrong order, the loops of the stream bring the router of \<open>b\<close> to exactly the owner's
  rules: the serving loop empties its channel and ticks once, the client takes what is on the wire, and this takes one
  step for every message under way, two for every event in the channel and two for the dump (and two more for the first
  dump of a stream that has only subscribed), without touching the rules of the owner. No lost event is then left behind, unless changes were still to be notified.\<close>

theorem rules_stream_recovers:
  assumes "stream_init U a b C s0" and "(rule_step U a b C)\<^sup>*\<^sup>* s0 s"
  shows "\<exists>t. ((stream_step a b) ^^ (length (rs_wire s) + 2 * length (pending (rs_ch s) (rs_server s)) + (if rs_fresh s then 4 else 2))) s t \<and>
    (rs_lost t \<longrightarrow> rs_owed s \<noteq> []) \<and> rs_wire t = [] \<and> own_view a (rs_server t) = own_view a (rs_server s) \<and>
    same_rules_of a (rs_server s) (rs_client t)"
  using stream_recovers [OF rule_system.inv_reachable [OF assms]] by blast

definition exContent :: "u64 \<Rightarrow> PortRule" where
  "exContent i = wire_rule exWire"

lemma exRouter_own: "own_inv {''a'', ''b''} a exRouter \<longleftrightarrow> a = ''a'' \<or> a = ''b''" "own_view a exRouter i = None"
  using exRouter_rules
  by (auto simp: own_inv_def own_view_def rules_view_def policy_def exRouter_def fw_New_def getShortID_def bus_ok_New)

lemma exServed_own:
  "own_inv {''a'', ''b''} ''a'' exServed"
  "i < 2 ^ 48 \<Longrightarrow> own_view ''a'' exServed i = (if i = 4 then Some (full_rule ''a'' exContent 4) else None)"
proof -
  have "firewallsubs exServed = bus_New" by (simp add: exServed_def AddRemoteRule_def exRouter_def split_beta)
  then show "own_inv {''a'', ''b''} ''a'' exServed" using exServed_rules(1) by (simp add: own_inv_def bus_ok_New)
  have w: "rules_okidx {''a'', ''b''} (wire_index exWire)" "wire_index exWire = ownIndex ''a'' 4"
    by (simp_all add: rules_okidx_def wire_index_def exWire_def ownIndex_def)
  obtain ok r where a: "AddRemoteRule (wire_index exWire) (wire_rule exWire) exRouter = (ok, r)" by fastforce
  with router_rules.add_law [OF exRouter_rules w(1), of "wire_rule exWire" ok r] exRouter_own(2) w(2)
  have "ok \<and> (\<forall>k. rules_okidx {''a'', ''b''} k \<longrightarrow>
      rules_view r k = (if k = ownIndex ''a'' 4 then Some ((wire_rule exWire)\<lparr>pr_index := ownIndex ''a'' 4\<rparr>) else rules_view exRouter k))"
    by (simp add: the_router_def own_view_def ownIndex_def)
  then show "own_view ''a'' exServed i = (if i = 4 then Some (full_rule ''a'' exContent 4) else None)" if "i < 2 ^ 48"
    using a that exRouter_own(2) [of "''a''" i]
    by (simp add: exServed_def own_view_def full_rule_def exContent_def own_index_ok(1), simp add: ownIndex_def)
qed

definition exStream :: "(nat, nat list) rule_stream" where
  "exStream = openStream exServed exRouter"

definition exDumped :: "(nat, nat list) rule_stream" where
  "exDumped = exStream\<lparr>rs_fresh := False, rs_wire := [buildFirewallSyncEvent the_router (rs_server exStream)], rs_lost := False\<rparr>"

definition exCaughtUp :: "(nat, nat list) rule_stream" where
  "exCaughtUp = exDumped\<lparr>rs_wire := [],
     rs_client := applyRuleEvent the_router ''b'' ''a'' (buildFirewallSyncEvent the_router (rs_server exStream)) (rs_client exDumped)\<rparr>"

lemma exStream_init: "stream_init {''a'', ''b''} ''a'' ''b'' exContent exStream"
proof -
  have c: "content_ok ''a'' exContent exServed" "content_ok ''a'' exContent exRouter"
    by (auto simp: content_ok_def exRouter_own(2) exServed_own(2) split: if_splits)
  show ?thesis unfolding stream_init_def exStream_def
    by (rule exI [of _ exServed], rule exI [of _ exRouter], rule exI [of _ "[]"])
      (simp add: c exServed_own(1) exRouter_rules openStream_def split_beta Let_def)
qed

lemma exStream_sel:
  "rs_wire exStream = []" "rs_fresh exStream" "\<not> rs_lost exStream" "own_view a (rs_server exStream) = own_view a exServed"
  "pending (rs_ch exStream) (rs_server exStream) = []" "rs_owed exStream = []"
  by (simp_all add: exStream_def openStream_def SubscribeFirewallEvents_def bus_subscribe_def subs_only pending_def mkchan_def)

lemma exCaughtUp_reached: "(rule_step {''a'', ''b''} ''a'' ''b'' exContent)\<^sup>*\<^sup>* exStream exCaughtUp"
proof -
  have "stream_step ''a'' ''b'' exStream exDumped"
    using stream_step.dump [OF exStream_sel(2), of "''a''" "''b''"] exStream_sel(1,3) by (simp add: exDumped_def)
  moreover have "stream_step ''a'' ''b'' exDumped exCaughtUp"
    using stream_step.recv [of exDumped _ "[]" "''a''" "''b''"] by (simp add: exCaughtUp_def exDumped_def)
  ultimately show ?thesis by (meson rule_step.stream r_into_rtranclp rtranclp_trans)
qed

lemma rules_stay_in_step_witness: "own_view ''a'' (rs_client exCaughtUp) 4 = Some (full_rule ''a'' exContent 4)"
  using rules_stay_in_step [OF exStream_init exCaughtUp_reached, of 4] exStream_sel(3-6) exServed_own(2) [of 4]
  by (simp add: exCaughtUp_def exDumped_def)

lemma rules_stream_recovers_witness:
  "\<exists>t. ((stream_step ''a'' ''b'') ^^ 4) exStream t \<and> own_view ''a'' (rs_client t) 4 = Some (full_rule ''a'' exContent 4)"
proof -
  from rules_stream_recovers [OF exStream_init rtranclp.rtrancl_refl] obtain t where
    t: "((stream_step ''a'' ''b'') ^^ 4) exStream t" "same_rules_of ''a'' (rs_server exStream) (rs_client t)"
    using exStream_sel(1,2,5) by auto
  moreover have "own_view ''a'' (rs_client t) 4 = Some (full_rule ''a'' exContent 4)"
    using t(2) exStream_sel(4) exServed_own(2) [of 4] by (simp add: same_rules_of_def)
  ultimately show ?thesis by blast
qed

end
