(* ===== verification/Spec2Isabelle.thy ===== *)
theory Spec2Isabelle
  imports App IPAlloc RuleStream MeshRun
begin

text \<open>
  \<^bold>\<open>Verification of liberator-node-go\<close>, a node of a mesh VPN written in Go. The repository is under
  \<^verbatim>\<open>src/\<close>; file names below are relative to it.

  \<^bold>\<open>The program.\<close> A node serves VPN clients of its own /16 network and exchanges their packets with other nodes.
  A packet enters from the TUN interface (\<^verbatim>\<open>pkg/iface\<close>), from a client (\<^verbatim>\<open>pkg/transport/awg\<close>) or from a
  neighbour (\<^verbatim>\<open>pkg/mesh\<close>); it is copied into a pooled buffer and parsed (\<^verbatim>\<open>internal/utils/dgmessage\<close>), given to
  a worker by the hash of its flow (\<^verbatim>\<open>pkg/router\<close>), judged by the firewall (\<^verbatim>\<open>pkg/firewall\<close>), looked up in the
  routing table (\<^verbatim>\<open>pkg/routingtable\<close>) and handed on. Neighbours are found and dialled by \<^verbatim>\<open>pkg/mesh/discovery\<close>
  from the peer map of \<^verbatim>\<open>pkg/mesh/topology\<close>, connected over QUIC (\<^verbatim>\<open>pkg/mesh/transport\<close>), admitted by \<^verbatim>\<open>pkg/mesh/session\<close>, and
  tell each other their rules and clients through \<^verbatim>\<open>pkg/mesh/peerssync\<close>. Clients and port rules are configured
  through the control plane (\<^verbatim>\<open>pkg/api/controllers\<close>), kept in a database (\<^verbatim>\<open>internal/infra/repos\<close>) and carried out by
  the two managers (\<^verbatim>\<open>pkg/services\<close>). \<^verbatim>\<open>internal/app\<close> builds all of this from the configuration and takes it down.

  \<^bold>\<open>Theories, in the order in which they build on each other.\<close>
  \<^item> \<open>Prelude\<close>: machine words, time, Go maps as association lists, channels, the named theorem collections, and the
    interfaces \<open>kv_store\<close> (a map) and \<open>invariant_system\<close> (a transition system with an invariant).
  \<^item> \<open>DGMessage\<close>: \<^verbatim>\<open>dgmessage.go\<close>. The pool is a heap of buffers, a slice a reference into it; the parser as the code
    reads the header, byte by byte.
  \<^item> \<open>Firewall\<close>: \<^verbatim>\<open>pkg/firewall/firewall.go\<close>. State: the rule maps under 64-bit keys made of a short node number and 48
    bits of the rule number, the flow table. The policy (which rule a node has under which number) is the
    specification that \<open>AddRule\<close>, \<open>RemoveRule\<close> and the check of a packet refine.
  \<^item> \<open>Safemap\<close>, \<open>NetUtils\<close>, \<open>IPAlloc\<close>, \<open>Codec\<close>: \<^verbatim>\<open>internal/utils\<close> and what the code uses of Go's \<^verbatim>\<open>net\<close> and encodings.
  \<^item> \<open>EventBus\<close>: the subscriptions that the router, the topology and the sessions share.
  \<^item> \<open>RoutingTable\<close>, \<open>Router\<close>: \<^verbatim>\<open>pkg/routingtable\<close>, \<^verbatim>\<open>pkg/router\<close>. The three packet handlers whole, with the pool and
    the channels; sending on a route is an argument.
  \<^item> \<open>Topology\<close>, \<open>Session\<close>, \<open>PeersSync\<close>, \<open>Discovery\<close>, \<open>MeshNode\<close>: \<^verbatim>\<open>pkg/mesh\<close>, operation by operation.
  \<^item> \<open>RuleStream\<close>: two nodes and the rules stream between them, running. \<open>MeshRun\<close>: the goroutines of \<^verbatim>\<open>MeshNode.Run\<close> in any
    interleaving.
  \<^item> \<open>Repos\<close>: the SQL queries as functions of two tables with the constraints of the schema.
  \<^item> \<open>FirewallManager\<close>, \<open>PeersManager\<close>: \<^verbatim>\<open>pkg/services\<close>. \<open>AWG\<close>, \<open>AWGUtils\<close>: \<^verbatim>\<open>pkg/transport/awg\<close>.
  \<^item> \<open>TunIface\<close>: \<^verbatim>\<open>pkg/iface/iface.go\<close>, set-up and tear-down on the host and the two packet loops.
  \<^item> \<open>Api\<close>: \<^verbatim>\<open>pkg/api/controllers\<close>. \<open>Cert\<close>, \<open>QuicTransport\<close>: \<^verbatim>\<open>internal/utils/cert\<close>, \<^verbatim>\<open>cmd/certgen\<close>,
    \<^verbatim>\<open>pkg/mesh/transport\<close>, \<^verbatim>\<open>internal/utils/quictransport\<close>. \<open>App\<close>: \<^verbatim>\<open>internal/app\<close>, \<^verbatim>\<open>internal/appconfig\<close>,
    \<^verbatim>\<open>internal/infra/ipapi\<close>, \<^verbatim>\<open>cmd/node\<close>.

  \<^bold>\<open>Interfaces and who provides them.\<close> \<open>kv_store\<close> is interpreted on Go maps and on \<^verbatim>\<open>safemap\<close>. \<open>invariant_system\<close> is
  interpreted on the event bus, the firewall, the allocator, the topology, the session registry, the dials, the database
  schema, the AmneziaWG transport, the two TUN loops, the rules stream and the running mesh node. \<open>rule_authority\<close> and
  \<open>client_table\<close> (what replication needs of a router), \<open>own_rules\<close> (what the firewall manager needs) are interpreted on the
  router; \<open>peer_transport\<close> (what the peers manager needs) on the AmneziaWG transport, and \<open>managed_peers\<close>, which joins the last
  two, on both.

  \<^bold>\<open>Conventions.\<close> Words keep their width (\<open>u8\<close> to \<open>u64\<close>); Go's \<^verbatim>\<open>int\<close> is an integer where it cannot overflow. An error
  return is a value (\<open>Inl\<close> or \<open>Some\<close> error); a panic is \<open>None\<close> of the outer option. A section under a mutex is one step.
  The clock, random numbers, the choice of a \<^verbatim>\<open>select\<close> with several ready cases, the order in which \<^verbatim>\<open>sync.Pool\<close> hands out
  buffers, and the outcome of every call to the outside are arguments, so the theorems hold for all of them. Third-party
  code (the AmneziaWG device, quic-go, gRPC, golang-jwt, netlink, iptables, x509, zlib, the YAML and JSON readers) is a
  parameter: a function or a record of the operations the code calls, with what its documentation promises as a named
  hypothesis where a theorem needs it (\<open>x509_laws\<close>, \<open>iptables_laws\<close>).

  \<^bold>\<open>What the theorems show.\<close>
  \<^item> Packets: a client packet reaches the TUN, a neighbour or another client only when the policy or an open flow allows it, and
    never a forbidden address outside; each buffer has one owner on the client path; the header parser reads what was written; the TUN loops deliver every
    packet once and in order, the writer under the discipline that whoever sends a packet leaves its buffer alone afterwards
    (which \<^verbatim>\<open>shaped.go\<close> breaks when it frees a packet twice); the sender to a neighbour delivers what its queue holds in order
    while no packet is overwritten.
  \<^item> Firewall: the invariant of its maps in every reachable state, refinement of the policy by all operations, and that a removed
    rule closes the flows it had opened.
  \<^item> Services: the firewall says what the database says after any history of requests and failures; creating a client in the
    database is all or nothing, and the exact outcome in the transport is stated for each failure; deleting one leaves nothing;
    after a restart the active clients are back; expired ones are removed.
  \<^item> Mesh: colliding dials converge on one connection; in any interleaving of the node's goroutines the registry, the peer map and
    the dial lock keep their invariants, nothing panics, and every live session gets its three streams; a rules stream that
    has caught up shows exactly the owner's rules, and from any state it catches up in a stated number of steps.
  \<^item> Control plane and application: no call passes without a valid token; what is created can be read back; a node that starts is
    sound and empty; for one that fails to start or stops, what is closed is stated resource by resource, with what the code leaves
    behind (devices of earlier transports, the socket of the mesh transport, host rules).
  \<^item> Where the code does not do what it means to, a theorem shows it: for example \<open>stale_dump_reopens_rule\<close>,
    \<open>removed_event_deletes_own_state\<close>, \<open>queued_packet_overwritten\<close>, \<open>prolong_always_fails\<close>, \<open>null_file_panics\<close>.

  \<^bold>\<open>Bounds and fuel.\<close> No definition uses fuel: loops are structural recursion over their data, the scan of the allocator is a
  partial function that is proved to return, endless loops are step relations of which one iteration is one step. Rule
  numbers are taken below 2^48 and nodes to be fewer than 65535, the width of the firewall's keys (beyond them rules collide,
  \<open>rule_number_collision\<close>); the database numbers rules from 1 on and never reuses a number.

  \<^bold>\<open>Not modelled.\<close> \<^verbatim>\<open>cmd/meshtest\<close> (a probe whose one function is a copy of one in \<^verbatim>\<open>pkg/iface\<close>); the code generated by protoc and
  the handle generated by sqlc, which only marshal; log output; the text syntax of YAML and JSON files except where the program
  writes JSON itself; the delivery order and the flow control of gRPC streams beyond the messages of one stream arriving in
  order. In \<open>RuleStream\<close> a router's change and its notification are two steps, and the environment of the two routers
  leaves the owner's rules alone; a third node's dump or a REMOVED event that names them is exactly what the two findings about
  \<^verbatim>\<open>syncer.go\<close> describe. In \<open>AWG\<close> the operations on one transport do not overlap, and in \<open>IPAlloc\<close> the guarantee is given until
  a client frees an address it does not hold. Real time enters only as the values that the code reads.
\<close>

end
